(* ===== verification/Prelude.thy ===== *)
theory Prelude
  imports Main "HOL-Library.Word" "HOL-Library.Signed_Division" "HOL-Library.Multiset"
begin

section \<open>Shared vocabulary of the development\<close>

text \<open>
  What every component uses: the ways C code can go wrong as values of one error type, results
  that are either such an error or a value, two's complement arithmetic on \<open>int\<close>, and the
  lemmas on lists, options and words that the component theories share.

  The C type \<^verbatim>\<open>int\<close> is 32 bits wide on the target of this code (i386); a value of it is a HOL
  \<open>int\<close> and every arithmetic operation that can leave the range is wrapped by \<open>i32\<close>
  (\<open>i64\<close> for \<^verbatim>\<open>int64_t\<close>). Unsigned values and addresses are words.
\<close>

named_theorems res_simps \<open>how results are taken apart and put together\<close>
named_theorems wrap_simps \<open>machine integers inside their range\<close>

subsection \<open>Errors and results\<close>

text \<open>
  \<open>Assertion_failed\<close> is a failed \<^verbatim>\<open>ASSERT\<close> or a \<^verbatim>\<open>PANIC\<close>; the other constructors are undefined
  behaviour the code can run into and that a model with total functions would hide.
\<close>

datatype fault =
    Assertion_failed
  | Null_deref
  | Bad_pointer
  | Bad_free
  | Uninitialized
  | Divide_error

type_synonym 'a result = "fault + 'a"

text \<open>A pointer to a \<^verbatim>\<open>struct thread\<close>, the address of its page.\<close>

type_synonym tptr = "32 word"

definition bnd :: "'a result \<Rightarrow> ('a \<Rightarrow> 'b result) \<Rightarrow> 'b result" where
  "bnd m f = (case m of Inl e \<Rightarrow> Inl e | Inr x \<Rightarrow> f x)"

definition assert :: "bool \<Rightarrow> unit result" where
  "assert b = (if b then Inr () else Inl Assertion_failed)"

definition ok :: "'a result \<Rightarrow> bool" where
  "ok r \<longleftrightarrow> (case r of Inl _ \<Rightarrow> False | Inr _ \<Rightarrow> True)"

lemma bnd_simps [simp]:
  "bnd (Inl e) f = Inl e"
  "bnd (Inr x) f = f x"
  by (simp_all add: bnd_def)

lemma assert_simps [simp]:
  "assert True = Inr ()"
  "assert False = Inl Assertion_failed"
  by (simp_all add: assert_def)

lemma ok_simps [simp]: "ok (Inr x)" "\<not> ok (Inl e)"
  by (simp_all add: ok_def)

lemma bnd_assert [simp]:
  "bnd (assert b) f = (if b then f () else Inl Assertion_failed)"
  by (cases b) simp_all

lemma bnd_eq_Inr [res_simps]:
  "bnd m f = Inr y \<longleftrightarrow> (\<exists>x. m = Inr x \<and> f x = Inr y)"
  by (cases m) simp_all

lemma bnd_cong [fundef_cong]:
  "m = m' \<Longrightarrow> (\<And>x. m' = Inr x \<Longrightarrow> f x = g x) \<Longrightarrow> bnd m f = bnd m' g"
  by (cases m') simp_all

text \<open>The result of a run seen through a map of states; a fault stays what it is.\<close>

definition res_map :: "('a \<Rightarrow> 'b) \<Rightarrow> 'a result \<Rightarrow> 'b result" where
  "res_map g m = (case m of Inl e \<Rightarrow> Inl e | Inr x \<Rightarrow> Inr (g x))"

lemma res_map_simps [simp]: "res_map g (Inl e) = Inl e" "res_map g (Inr x) = Inr (g x)"
  "res_map g (if b then m else m') = (if b then res_map g m else res_map g m')"
  by (simp_all add: res_map_def)

lemma bnd_of_map: "bnd (res_map g m) f = bnd m (\<lambda>x. f (g x))"
  by (cases m) simp_all

lemma map_of_bnd: "res_map g (bnd m f) = bnd m (\<lambda>x. res_map g (f x))"
  by (cases m) simp_all

lemma bnd_assoc: "bnd (bnd m f) g = bnd m (\<lambda>x. bnd (f x) g)"
  by (cases m) simp_all

lemmas bnd_res_map = bnd_of_map map_of_bnd

lemma assert_eq_Inr [res_simps]: "assert b = Inr u \<longleftrightarrow> b"
  by (cases b) simp_all

lemma ok_iff: "ok r \<longleftrightarrow> (\<exists>x. r = Inr x)"
  by (cases r) simp_all

subsection \<open>Two's complement on \<open>int\<close>\<close>

definition i32 :: "int \<Rightarrow> int" where
  "i32 x = (x + 2147483648) mod 4294967296 - 2147483648"

definition i64 :: "int \<Rightarrow> int" where
  "i64 x = (x + 9223372036854775808) mod 18446744073709551616 - 9223372036854775808"

definition in32 :: "int \<Rightarrow> bool" where
  "in32 x \<longleftrightarrow> - 2147483648 \<le> x \<and> x < 2147483648"

lemma i32_id [wrap_simps]: "- 2147483648 \<le> x \<Longrightarrow> x < 2147483648 \<Longrightarrow> i32 x = x"
  by (simp add: i32_def)

lemma i64_id [wrap_simps]:
  "- 9223372036854775808 \<le> x \<Longrightarrow> x < 9223372036854775808 \<Longrightarrow> i64 x = x"
  by (simp add: i64_def)

lemma in32_i32 [simp]: "in32 (i32 x)"
  using pos_mod_bound [of 4294967296 "x + 2147483648"]
  by (simp add: in32_def i32_def)

lemma i32_in32 [wrap_simps]: "in32 x \<Longrightarrow> i32 x = x"
  by (simp add: in32_def i32_id)

lemma i64_le: "0 \<le> x \<Longrightarrow> i64 x \<le> x"
  using zmod_le_nonneg_dividend [of "x + 9223372036854775808" "18446744073709551616"] by (simp add: i64_def)

lemma i64_add_left: "i64 (i64 x + y) = i64 (x + y)"
proof -
  have "(x + 9223372036854775808) mod 18446744073709551616 - 9223372036854775808 + y + 9223372036854775808
    = (x + 9223372036854775808) mod 18446744073709551616 + y" by simp
  then show ?thesis unfolding i64_def by (simp add: mod_simps ac_simps)
qed

lemma i32_add_left: "i32 (i32 x + y) = i32 (x + y)"
proof -
  have "(x + 2147483648) mod 4294967296 - 2147483648 + y + 2147483648
    = (x + 2147483648) mod 4294967296 + y" by simp
  then show ?thesis unfolding i32_def by (simp add: mod_simps ac_simps)
qed

lemma i32_is_signed_take_bit: "i32 x = signed_take_bit 31 x"
  by (simp add: i32_def signed_take_bit_eq_take_bit_shift take_bit_eq_mod)

subsection \<open>Ordered insertion\<close>

text \<open>A function that does what the documentation of \<^verbatim>\<open>list_insert_ordered\<close> promises, for closed examples.\<close>

definition insert_before_greater :: "('a \<Rightarrow> 'a \<Rightarrow> bool) \<Rightarrow> 'a \<Rightarrow> 'a list \<Rightarrow> 'a list" where
  "insert_before_greater lt x xs =
     takeWhile (\<lambda>y. \<not> lt x y) xs @ x # dropWhile (\<lambda>y. \<not> lt x y) xs"

lemma mset_insert_before_greater: "mset (insert_before_greater lt x xs) = add_mset x (mset xs)"
proof -
  have "mset (takeWhile P xs) + mset (dropWhile P xs) = mset xs" for P
    by (metis mset_append takeWhile_dropWhile_id)
  then show ?thesis by (simp add: insert_before_greater_def)
qed

lemma sorted_insert_before_greater:
  fixes key :: "'a \<Rightarrow> 'b :: linorder"
  assumes "sorted (map key xs)"
  shows "sorted (map key (insert_before_greater (\<lambda>a b. key a < key b) x xs))"
  using assms
proof (induction xs)
  case Nil
  then show ?case by (simp add: insert_before_greater_def)
next
  case (Cons y ys)
  show ?case
  proof (cases "key x < key y")
    case True
    with Cons.prems show ?thesis by (auto simp: insert_before_greater_def)
  next
    case False
    with Cons show ?thesis
      by (auto simp: insert_before_greater_def dest: set_takeWhileD set_dropWhileD)
  qed
qed

subsection \<open>Pages\<close>

unbundle bit_operations_syntax

lemma unat_and_4095: "unat (w AND 0xFFF) = unat w mod 4096" for w :: "32 word"
proof -
  have "w AND 0xFFF = take_bit 12 w" by (simp add: take_bit_eq_mask mask_eq_exp_minus_1)
  then show ?thesis by (simp add: take_bit_eq_mod unat_mod)
qed

lemma and_not_minus: "w AND NOT m = w - (w AND m)" for w :: "'a :: len word"
proof -
  have "NOT w AND (w AND m) = 0" by (rule bit_word_eqI) (auto simp: bit_simps)
  then have "w - (w AND m) = w AND NOT (w AND m)" by (rule disjunctive_diff_eq_and_not)
  also have "\<dots> = w AND NOT m" by (rule bit_word_eqI) (auto simp: bit_simps)
  finally show ?thesis by simp
qed

lemma unat_and_not_4095: "unat (w AND NOT 0xFFF) = unat w - unat w mod 4096" for w :: "32 word"
proof -
  have "w AND 0xFFF \<le> w" unfolding word_le_nat_alt unat_and_4095 by simp
  then show ?thesis unfolding and_not_minus by (simp add: unat_sub unat_and_4095)
qed

lemma word_mod_4096: "w mod 4096 = 0 \<longleftrightarrow> unat w mod 4096 = 0" for w :: "32 word"
proof -
  have "w mod 4096 = 0 \<longleftrightarrow> unat (w mod 4096) = 0" by (simp add: unat_eq_0)
  then show ?thesis by (simp add: unat_mod)
qed

end
