(* ===== verification/C_String.thy ===== *)
theory C_String
  imports Prelude
begin

section \<open>C strings and tokens\<close>

text \<open>
  The part of the C library's \<^verbatim>\<open>string.h\<close> that the shell and the process loader use. A C string
  is the list of the characters before its terminator. \<open>strtok_r delims s\<close> is one call of
  \<^verbatim>\<open>strtok_r\<close> where \<open>s\<close> is the text at the save pointer (or the string itself, in the first
  call): it gives the number of delimiters skipped, which is how far the returned pointer lies
  behind the one passed in, the token, and the text the save pointer is left at. \<open>tokens\<close> is what
  a caller that loops until \<^verbatim>\<open>NULL\<close> sees.
\<close>

definition strlcpy :: "string \<Rightarrow> nat \<Rightarrow> string" where
  "strlcpy src sz = take (sz - 1) src"

definition strtok_r :: "string \<Rightarrow> string \<Rightarrow> (nat \<times> string \<times> string) option" where
  "strtok_r delims s =
     (let skipped = takeWhile (\<lambda>c. c \<in> set delims) s;
          s' = dropWhile (\<lambda>c. c \<in> set delims) s in
      if s' = [] then None
      else Some (length skipped, takeWhile (\<lambda>c. c \<notin> set delims) s',
                 drop 1 (dropWhile (\<lambda>c. c \<notin> set delims) s')))"

lemma strtok_r_shorter: "strtok_r d s = Some (n, t, r) \<Longrightarrow> length r < length s"
proof -
  assume a: "strtok_r d s = Some (n, t, r)"
  let ?s = "dropWhile (\<lambda>c. c \<in> set d) s"
  from a have ne: "?s \<noteq> []" and r: "r = drop 1 (dropWhile (\<lambda>c. c \<notin> set d) ?s)"
    by (auto simp: strtok_r_def Let_def split: if_splits)
  have "length (dropWhile (\<lambda>c. c \<notin> set d) ?s) \<le> length ?s" by (rule length_dropWhile_le)
  moreover have "length ?s \<le> length s" by (rule length_dropWhile_le)
  ultimately show ?thesis using ne unfolding r by (cases ?s) auto
qed

function tokens :: "string \<Rightarrow> string \<Rightarrow> string list" where
  "tokens delims s =
     (case strtok_r delims s of None \<Rightarrow> [] | Some (n, t, r) \<Rightarrow> t # tokens delims r)"
  by pat_completeness auto
termination
  by (relation "measure (\<lambda>(d, s). length s)") (auto dest: strtok_r_shorter)

declare tokens.simps [simp del]

lemma tokens_None: "strtok_r d s = None \<Longrightarrow> tokens d s = []"
  by (subst tokens.simps) simp

lemma tokens_Some: "strtok_r d s = Some (n, t, r) \<Longrightarrow> tokens d s = t # tokens d r"
  by (subst tokens.simps) simp

lemma strtok_r_NoneD: "strtok_r d s = None \<Longrightarrow> set s \<subseteq> set d"
  by (auto simp: strtok_r_def Let_def split: if_splits)

lemma strtok_r_SomeD:
  assumes "strtok_r d s = Some (n, t, r)"
  shows "t \<noteq> []" and "set t \<inter> set d = {}"
    and "filter (\<lambda>c. c \<notin> set d) s = t @ filter (\<lambda>c. c \<notin> set d) r"
proof -
  let ?P = "\<lambda>c. c \<in> set d" and ?Q = "\<lambda>c. c \<notin> set d"
  let ?s = "dropWhile ?P s"
  from assms have ne: "?s \<noteq> []" and t: "t = takeWhile ?Q ?s" and r: "r = drop 1 (dropWhile ?Q ?s)"
    by (auto simp: strtok_r_def Let_def split: if_splits)
  from ne have h: "?Q (hd ?s)" by (rule hd_dropWhile)
  with ne show "t \<noteq> []" by (cases ?s) (auto simp: t)
  show "set t \<inter> set d = {}" by (auto simp: t dest: set_takeWhileD)
  have drop: "filter ?Q u = filter ?Q (dropWhile ?P u)" for u by (induction u) auto
  have keep: "filter ?Q u = takeWhile ?Q u @ filter ?Q (dropWhile ?Q u)" for u
    by (induction u) auto
  have "filter ?Q (dropWhile ?Q ?s) = filter ?Q (drop 1 (dropWhile ?Q ?s))"
  proof (cases "dropWhile ?Q ?s")
    case (Cons c cs)
    then have "\<not> ?Q c" by (metis hd_dropWhile list.discI list.sel(1))
    with Cons show ?thesis by simp
  next
    case Nil
    then show ?thesis by (simp only: drop_Nil)
  qed
  then show "filter ?Q s = t @ filter ?Q r"
    unfolding drop [of s] t r using keep [of ?s] by simp
qed

lemma tokens_induct [case_names None Some]:
  assumes "\<And>s. strtok_r d s = None \<Longrightarrow> P s"
    and "\<And>s n t r. strtok_r d s = Some (n, t, r) \<Longrightarrow> P r \<Longrightarrow> P s"
  shows "P s"
proof (induction s rule: length_induct)
  case (1 s)
  show ?case
  proof (cases "strtok_r d s")
    case None
    then show ?thesis by (rule assms(1))
  next
    case (Some x)
    moreover obtain n t r where "x = (n, t, r)" by (cases x)
    ultimately show ?thesis using 1 strtok_r_shorter assms(2) by blast
  qed
qed

lemma tokens_token:
  "t \<in> set (tokens d s) \<Longrightarrow> t \<noteq> [] \<and> set t \<inter> set d = {}"
proof (induction s rule: tokens_induct [where d = d])
  case (Some s n u r)
  then show ?case using strtok_r_SomeD(1,2) [OF Some(1)] by (auto simp: tokens_Some)
qed (simp add: tokens_None)

lemma concat_tokens: "concat (tokens d s) = filter (\<lambda>c. c \<notin> set d) s"
proof (induction s rule: tokens_induct [where d = d])
  case (None s)
  then show ?case using strtok_r_NoneD [OF None] by (auto simp: tokens_None intro!: filter_False [symmetric])
next
  case (Some s n u r)
  then show ?case using strtok_r_SomeD(3) [OF Some(1)] by (simp add: tokens_Some)
qed

lemma strtok_r_token:
  assumes "t \<noteq> []" "set t \<inter> set d = {}" "c \<in> set d"
  shows "strtok_r d (t @ c # s) = Some (0, t, s)"
proof -
  have "\<forall>x\<in>set t. x \<notin> set d" using assms(2) by auto
  then have "takeWhile (\<lambda>c. c \<notin> set d) (t @ c # s) = t" "dropWhile (\<lambda>c. c \<notin> set d) (t @ c # s) = c # s"
    using assms(3) by simp_all
  moreover obtain x xs where "t = x # xs" "x \<notin> set d"
    using assms(1) \<open>\<forall>x\<in>set t. x \<notin> set d\<close> by (cases t) auto
  ultimately show ?thesis by (simp add: strtok_r_def Let_def)
qed

lemma strtok_r_last:
  assumes "t \<noteq> []" "set t \<inter> set d = {}"
  shows "strtok_r d t = Some (0, t, [])"
proof -
  have all: "\<forall>x\<in>set t. x \<notin> set d" using assms(2) by auto
  then have 1: "dropWhile (\<lambda>c. c \<in> set d) t = t" "takeWhile (\<lambda>c. c \<in> set d) t = []"
    by (cases t; simp)+
  have 2: "dropWhile (\<lambda>c. c \<notin> set d) t = []" "takeWhile (\<lambda>c. c \<notin> set d) t = t"
    using all by simp_all
  show ?thesis unfolding strtok_r_def Let_def 1 2 using assms(1) by simp
qed

fun join :: "char \<Rightarrow> string list \<Rightarrow> string" where
  "join c [] = []"
| "join c [t] = t"
| "join c (t # ts) = t @ c # join c ts"

lemma tokens_join:
  assumes "\<forall>t\<in>set ts. t \<noteq> [] \<and> set t \<inter> set d = {}" "c \<in> set d"
  shows "tokens d (join c ts) = ts"
  using assms
proof (induction c ts rule: join.induct)
  case (1 c)
  have "strtok_r d [] = None" by (simp add: strtok_r_def)
  then show ?case by (simp add: tokens_None)
next
  case (2 c t)
  have "strtok_r d [] = None" by (simp add: strtok_r_def)
  then show ?case using 2 by (simp add: tokens_Some [OF strtok_r_last] tokens_None)
next
  case (3 c t u us)
  then show ?case by (simp add: tokens_Some [OF strtok_r_token])
qed

end
