(* ===== verification/Arg_Stack.thy ===== *)
theory Arg_Stack
  imports C_String
begin

section \<open>Passing the arguments of a new process (Assignment 6)\<close>

text \<open>
  \<^verbatim>\<open>set_arguments_into_stack\<close> of \<^verbatim>\<open>Assignment_6_2/.../process.c\<close> and its helpers
  \<^verbatim>\<open>split_and_insert\<close> to \<^verbatim>\<open>add_return_address\<close>, which build the initial stack of a user process.
  Memory is a partial map from addresses to bytes; a write or read outside its domain is the page
  fault it is on the machine (\<open>Bad_pointer\<close>). Addresses are 32-bit words, words in memory are
  little-endian, \<^verbatim>\<open>int\<close> counters are wrapped.
\<close>

type_synonym umem = "32 word \<Rightarrow> 8 word option"

subsection \<open>Bytes in memory\<close>

fun store_bytes :: "32 word \<Rightarrow> 8 word list \<Rightarrow> umem \<Rightarrow> umem result" where
  "store_bytes a [] m = Inr m"
| "store_bytes a (b # bs) m =
     (if m a = None then Inl Bad_pointer else store_bytes (a + 1) bs (m(a \<mapsto> b)))"

definition bytes32 :: "32 word \<Rightarrow> 8 word list" where
  "bytes32 v = [ucast v, ucast (drop_bit 8 v), ucast (drop_bit 16 v), ucast (drop_bit 24 v)]"

definition store32 :: "32 word \<Rightarrow> 32 word \<Rightarrow> umem \<Rightarrow> umem result" where
  "store32 a v = store_bytes a (bytes32 v)"

definition load32 :: "umem \<Rightarrow> 32 word \<Rightarrow> 32 word result" where
  "load32 m a =
     (case (m a, m (a + 1), m (a + 2), m (a + 3)) of
        (Some b0, Some b1, Some b2, Some b3) \<Rightarrow>
          Inr (ucast b0 OR push_bit 8 (ucast b1) OR push_bit 16 (ucast b2) OR push_bit 24 (ucast b3))
      | _ \<Rightarrow> Inl Bad_pointer)"

text \<open>
  The bytes of the C string at an address, without the terminator. The stack is one page, so a
  string that does not end within a page of its start is as good as one that runs off the page.
\<close>

fun string_at :: "nat \<Rightarrow> umem \<Rightarrow> 32 word \<Rightarrow> 8 word list result" where
  "string_at 0 m a = Inl Bad_pointer"
| "string_at (Suc n) m a =
     (case m a of
        None \<Rightarrow> Inl Bad_pointer
      | Some b \<Rightarrow> if b = 0 then Inr [] else bnd (string_at n m (a + 1)) (\<lambda>bs. Inr (b # bs)))"

definition strlen :: "umem \<Rightarrow> 32 word \<Rightarrow> int result" where
  "strlen m a = bnd (string_at 4096 m a) (\<lambda>bs. Inr (int (length bs)))"

definition string_bytes :: "string \<Rightarrow> 8 word list" where
  "string_bytes s = map of_char s @ [0]"

subsection \<open>The steps\<close>

record arg_state =
  total_length :: int
  stack_pointer :: "32 word"
  num_args :: int
  umem :: umem

definition split_and_insert :: "string \<Rightarrow> arg_state \<Rightarrow> arg_state result" where
  "split_and_insert token st =
     (let token_length = i32 (int (length token) + 1);
          sp = stack_pointer st - word_of_int token_length in
      bnd (store_bytes sp (string_bytes token) (umem st)) (\<lambda>m.
      Inr (st\<lparr>total_length := i32 (total_length st + token_length), stack_pointer := sp,
              num_args := i32 (num_args st + 1), umem := m\<rparr>)))"

lemma i32_mod4: "i32 x mod 4 = x mod 4"
proof -
  have 1: "(y - 2147483648) mod 4 = y mod 4" for y :: int
    using mod_diff_eq [of y 4 2147483648] by simp
  have 2: "(x + 2147483648) mod 4 = x mod 4"
    using mod_add_eq [of x 4 2147483648] by simp
  have "(4 :: int) dvd 4294967296" by simp
  then have 3: "(x + 2147483648) mod 4294967296 mod 4 = (x + 2147483648) mod 4"
    by (rule mod_mod_cancel)
  show ?thesis unfolding i32_def 1 3 2 by (rule refl)
qed

function align_loop :: "int \<Rightarrow> int \<Rightarrow> int \<times> int" where
  "align_loop word_align len =
     (if len mod 4 \<noteq> 0 then align_loop (i32 (word_align + 1)) (i32 (len + 1))
      else (word_align, len))"
  by pat_completeness auto
termination
proof (relation "measure (\<lambda>(w, t). nat ((- t) mod 4))")
  fix w t :: int
  assume "t mod 4 \<noteq> 0"
  then have "(- u) mod 4 < (- t) mod 4" if "u mod 4 = (t + 1) mod 4" for u
    using that by presburger
  from this [OF i32_mod4]
  show "((i32 (w + 1), i32 (t + 1)), (w, t)) \<in> measure (\<lambda>(w, t). nat ((- t) mod 4))"
    by (simp add: nat_less_iff)
qed simp

declare align_loop.simps [simp del]

definition add_word_align :: "arg_state \<Rightarrow> arg_state result" where
  "add_word_align st =
     (let (word_align, len) = align_loop 0 (total_length st) in
      if word_align \<noteq> 0 then
        let sp = stack_pointer st - word_of_int word_align in
        bnd (store_bytes sp (replicate (nat word_align) 0) (umem st)) (\<lambda>m.
        Inr (st\<lparr>total_length := len, stack_pointer := sp, umem := m\<rparr>))
      else Inr (st\<lparr>total_length := len\<rparr>))"

text \<open>Only the lowest byte of the null pointer is written.\<close>

definition add_null_char :: "arg_state \<Rightarrow> arg_state result" where
  "add_null_char st =
     (let sp = stack_pointer st - 4 in
      bnd (store_bytes sp [0] (umem st)) (\<lambda>m. Inr (st\<lparr>stack_pointer := sp, umem := m\<rparr>)))"

fun add_argument_address :: "nat \<Rightarrow> 32 word \<Rightarrow> arg_state \<Rightarrow> arg_state result" where
  "add_argument_address 0 args_pointer st = Inr st"
| "add_argument_address (Suc n) args_pointer st =
     (let sp = stack_pointer st - 4 in
      bnd (store32 sp args_pointer (umem st)) (\<lambda>m.
      bnd (strlen m args_pointer) (\<lambda>l.
      add_argument_address n (args_pointer + word_of_int (l + 1))
        (st\<lparr>stack_pointer := sp, umem := m\<rparr>))))"

definition push32 :: "32 word \<Rightarrow> arg_state \<Rightarrow> arg_state result" where
  "push32 v st =
     (let sp = stack_pointer st - 4 in
      bnd (store32 sp v (umem st)) (\<lambda>m. Inr (st\<lparr>stack_pointer := sp, umem := m\<rparr>)))"

definition add_char_pointers :: "arg_state \<Rightarrow> arg_state result" where
  "add_char_pointers st = push32 (stack_pointer st) st"

definition add_number_of_arguments :: "arg_state \<Rightarrow> arg_state result" where
  "add_number_of_arguments st = push32 (word_of_int (num_args st)) st"

definition add_return_address :: "arg_state \<Rightarrow> (32 word \<times> umem) result" where
  "add_return_address st = bnd (push32 0 st) (\<lambda>st'. Inr (stack_pointer st', umem st'))"

fun insert_tokens :: "string list \<Rightarrow> arg_state \<Rightarrow> arg_state result" where
  "insert_tokens [] st = Inr st"
| "insert_tokens (t # ts) st = bnd (split_and_insert t st) (insert_tokens ts)"

definition set_arguments_into_stack ::
  "string option \<Rightarrow> string \<Rightarrow> 32 word \<Rightarrow> umem \<Rightarrow> (32 word \<times> umem) result" where
  "set_arguments_into_stack file_name save_ptr esp m =
     (let toks = (case file_name of None \<Rightarrow> [] | Some t \<Rightarrow> t # tokens '' '' save_ptr) in
      bnd (insert_tokens toks \<lparr>total_length = 0, stack_pointer = esp, num_args = 0, umem = m\<rparr>) (\<lambda>s1.
      let args_pointer = stack_pointer s1 in
      bnd (add_word_align s1) (\<lambda>s2.
      bnd (add_null_char s2) (\<lambda>s3.
      bnd (add_argument_address (nat (num_args s3)) args_pointer s3) (\<lambda>s4.
      bnd (add_char_pointers s4) (\<lambda>s5.
      bnd (add_number_of_arguments s5) (\<lambda>s6.
      add_return_address s6)))))))"

subsection \<open>Memory contents\<close>

fun at :: "umem \<Rightarrow> 32 word \<Rightarrow> 8 word list \<Rightarrow> bool" where
  "at m a [] \<longleftrightarrow> True"
| "at m a (b # bs) \<longleftrightarrow> m a = Some b \<and> at m (a + 1) bs"

lemma at_append: "at m a (xs @ ys) \<longleftrightarrow> at m a xs \<and> at m (a + of_nat (length xs)) ys"
  by (induction xs arbitrary: a) (simp_all add: ac_simps)

lemma at_cong: "(\<And>i. i < length bs \<Longrightarrow> m (a + of_nat i) = m' (a + of_nat i)) \<Longrightarrow> at m a bs = at m' a bs"
proof (induction bs arbitrary: a)
  case (Cons b bs)
  have "m a = m' a" using Cons.prems [of 0] by simp
  moreover have "at m (a + 1) bs = at m' (a + 1) bs"
  proof (rule Cons.IH)
    fix i assume "i < length bs"
    then show "m (a + 1 + of_nat i) = m' (a + 1 + of_nat i)"
      using Cons.prems [of "Suc i"] by (simp add: ac_simps)
  qed
  ultimately show ?case by simp
qed simp

lemma load32_bytes32:
  assumes "at m a (bytes32 v)"
  shows "load32 m a = Inr v"
proof -
  have "ucast (ucast v :: 8 word) OR push_bit 8 (ucast (ucast (drop_bit 8 v) :: 8 word)) OR
      push_bit 16 (ucast (ucast (drop_bit 16 v) :: 8 word)) OR
      push_bit 24 (ucast (ucast (drop_bit 24 v) :: 8 word)) = v"
  proof (rule bit_word_eqI)
    fix n assume "n < LENGTH(32)"
    then consider "n < 8" | "8 \<le> n" "n < 16" | "16 \<le> n" "n < 24" | "24 \<le> n" "n < 32" by fastforce
    then show "bit (ucast (ucast v :: 8 word) OR push_bit 8 (ucast (ucast (drop_bit 8 v) :: 8 word)) OR
        push_bit 16 (ucast (ucast (drop_bit 16 v) :: 8 word)) OR
        push_bit 24 (ucast (ucast (drop_bit 24 v) :: 8 word)) :: 32 word) n = bit v n"
      by cases (auto simp: bit_simps)
  qed
  then show ?thesis using assms by (simp add: load32_def bytes32_def ac_simps)
qed

lemma length_bytes32 [simp]: "length (bytes32 v) = 4"
  by (simp add: bytes32_def)

lemma string_at_at:
  "at m a (bs @ [0]) \<Longrightarrow> 0 \<notin> set bs \<Longrightarrow> length bs < n \<Longrightarrow> string_at n m a = Inr bs"
proof (induction bs arbitrary: a n)
  case Nil
  then show ?case by (cases n) simp_all
next
  case (Cons b bs)
  then show ?case by (cases n) auto
qed

lemma of_nat_word_distinct:
  "i \<noteq> j \<Longrightarrow> i \<le> 4096 \<Longrightarrow> j \<le> 4096 \<Longrightarrow> (of_nat i :: 32 word) \<noteq> of_nat j"
  by (simp add: word_of_nat_eq_iff take_bit_eq_mod)

lemma store_bytes_other:
  "store_bytes a xs m = Inr m' \<Longrightarrow> (\<And>i. i < length xs \<Longrightarrow> c \<noteq> a + of_nat i) \<Longrightarrow> m' c = m c"
proof (induction xs arbitrary: a m)
  case (Cons x xs)
  have "c \<noteq> a" using Cons.prems(2) [of 0] by simp
  moreover have "m' c = (m(a \<mapsto> x)) c"
  proof (rule Cons.IH)
    show "store_bytes (a + 1) xs (m(a \<mapsto> x)) = Inr m'"
      using Cons.prems(1) by (simp split: if_splits)
    fix i assume "i < length xs"
    then show "c \<noteq> a + 1 + of_nat i" using Cons.prems(2) [of "Suc i"] by (simp add: ac_simps)
  qed
  ultimately show ?case by simp
qed simp

lemma store_bytes_ok:
  "length xs \<le> 4096 \<Longrightarrow> (\<And>i. i < length xs \<Longrightarrow> m (a + of_nat i) \<noteq> None) \<Longrightarrow>
   \<exists>m'. store_bytes a xs m = Inr m' \<and> at m' a xs"
proof (induction xs arbitrary: a m)
  case (Cons x xs)
  have ex: "\<exists>m'. store_bytes (a + 1) xs (m(a \<mapsto> x)) = Inr m' \<and> at m' (a + 1) xs"
  proof (rule Cons.IH)
    show "length xs \<le> 4096" using Cons.prems(1) by simp
    fix i assume "i < length xs"
    then show "(m(a \<mapsto> x)) (a + 1 + of_nat i) \<noteq> None"
      using Cons.prems(2) [of "Suc i"] by (simp add: ac_simps)
  qed
  then obtain m' where m': "store_bytes (a + 1) xs (m(a \<mapsto> x)) = Inr m'" "at m' (a + 1) xs" by blast
  have "m' a = (m(a \<mapsto> x)) a"
  proof (rule store_bytes_other [OF m'(1)])
    fix i assume "i < length xs"
    then have "(of_nat (Suc i) :: 32 word) \<noteq> of_nat 0"
      using Cons.prems(1) by (intro of_nat_word_distinct) simp_all
    then show "a \<noteq> a + 1 + of_nat i" by (simp add: ac_simps)
  qed
  moreover have "m a \<noteq> None" using Cons.prems(2) [of 0] by simp
  ultimately show ?case using m' by auto
qed simp

text \<open>
  \<open>stk m base bs\<close>: the bytes \<open>bs\<close> have been pushed on the empty stack at \<open>base\<close>, the rest of the
  page below is still zero.
\<close>

definition stk :: "umem \<Rightarrow> 32 word \<Rightarrow> 8 word list \<Rightarrow> bool" where
  "stk m base bs \<longleftrightarrow> length bs \<le> 4096 \<and> at m (base - of_nat (length bs)) bs \<and>
     (\<forall>j. length bs < j \<and> j \<le> 4096 \<longrightarrow> m (base - of_nat j) = Some 0)"

lemma stk_push:
  assumes "stk m base bs" and "length xs + length bs \<le> 4096"
  shows "\<exists>m'. store_bytes (base - of_nat (length xs + length bs)) xs m = Inr m' \<and> stk m' base (xs @ bs)"
proof -
  let ?a = "base - of_nat (length xs + length bs)"
  have pos: "?a + of_nat i = base - of_nat (length xs + length bs - i)" if "i \<le> length xs" for i
    using that by (simp add: of_nat_diff)
  have "m (?a + of_nat i) \<noteq> None" if "i < length xs" for i
  proof -
    have "\<forall>j. length bs < j \<and> j \<le> 4096 \<longrightarrow> m (base - of_nat j) = Some 0"
      using assms(1) unfolding stk_def by blast
    then have "m (base - of_nat (length xs + length bs - i)) = Some 0"
      using assms(2) that by (elim allE [of _ "length xs + length bs - i"]) linarith
    then show ?thesis unfolding pos [OF less_imp_le [OF that]] by (simp only: option.distinct not_False_eq_True)
  qed
  then obtain m' where m': "store_bytes ?a xs m = Inr m'" "at m' ?a xs"
    using store_bytes_ok [of xs m ?a] assms(2) by auto
  have other: "m' (base - of_nat j) = m (base - of_nat j)"
    if "j \<le> length bs \<or> length xs + length bs < j" "j \<le> 4096" for j
  proof (rule store_bytes_other [OF m'(1)])
    fix i assume i: "i < length xs"
    then have "(of_nat j :: 32 word) \<noteq> of_nat (length xs + length bs - i)"
      using that assms(2) by (intro of_nat_word_distinct) auto
    then show "base - of_nat j \<noteq> ?a + of_nat i"
      unfolding pos [OF less_imp_le [OF i]]
      by (simp only: diff_conv_add_uminus add_left_cancel neg_equal_iff_equal not_False_eq_True)
  qed
  have "at m' (base - of_nat (length bs)) bs = at m (base - of_nat (length bs)) bs"
  proof (rule at_cong)
    fix i assume "i < length bs"
    then have e: "base - of_nat (length bs) + of_nat i = base - of_nat (length bs - i)"
      by (simp add: of_nat_diff)
    show "m' (base - of_nat (length bs) + of_nat i) = m (base - of_nat (length bs) + of_nat i)"
      unfolding e by (rule other) (use assms(2) in auto)
  qed
  moreover have "?a + of_nat (length xs) = base - of_nat (length bs)" by simp
  ultimately have "at m' ?a (xs @ bs)" using m'(2) assms(1) by (simp add: at_append stk_def)
  then have "stk m' base (xs @ bs)"
    using assms other unfolding stk_def by (simp add: ac_simps)
  with m'(1) show ?thesis by blast
qed

subsection \<open>What each step leaves on the stack\<close>

definition holds :: "arg_state \<Rightarrow> 32 word \<Rightarrow> 8 word list \<Rightarrow> bool" where
  "holds st base bs \<longleftrightarrow> stack_pointer st = base - of_nat (length bs) \<and> stk (umem st) base bs"

definition strings :: "string list \<Rightarrow> 8 word list" where
  "strings ss = concat (map string_bytes ss)"

lemma strings_simps [simp]:
  "strings [] = []" "strings (s # ss) = string_bytes s @ strings ss"
  "strings (ss @ ss') = strings ss @ strings ss'"
  by (simp_all add: strings_def)

lemma length_string_bytes [simp]: "length (string_bytes s) = Suc (length s)"
  by (simp add: string_bytes_def)

lemma length_strings_rev [simp]: "length (strings (rev ts)) = length (strings ts)"
  by (induction ts) simp_all

lemma split_and_insert_holds:
  assumes "holds st base bs" and "Suc (length t) + length bs \<le> 4096"
    and "0 \<le> total_length st" "total_length st \<le> 8192" "0 \<le> num_args st" "num_args st \<le> 8192"
  shows "\<exists>st'. split_and_insert t st = Inr st' \<and> holds st' base (string_bytes t @ bs) \<and>
    total_length st' = total_length st + int (length (string_bytes t)) \<and> num_args st' = num_args st + 1"
proof -
  have l: "i32 (int (length t) + 1) = int (Suc (length t))" using assms(2) by (simp add: i32_id)
  have sp: "stack_pointer st - word_of_int (int (Suc (length t)))
      = base - of_nat (length (string_bytes t) + length bs)"
    using assms(1) by (simp add: holds_def algebra_simps)
  obtain m' where "store_bytes (base - of_nat (length (string_bytes t) + length bs)) (string_bytes t)
      (umem st) = Inr m'" "stk m' base (string_bytes t @ bs)"
    using stk_push [of "umem st" base bs "string_bytes t"] assms(1,2) by (auto simp: holds_def)
  moreover have "i32 (total_length st + int (Suc (length t))) = total_length st + int (Suc (length t))"
    "i32 (num_args st + 1) = num_args st + 1"
    using assms(2-) by (simp_all add: i32_id)
  ultimately show ?thesis
    unfolding split_and_insert_def Let_def l sp by (simp add: holds_def)
qed

lemma insert_tokens_holds:
  assumes "holds st base bs" and "length (strings ts) + length bs \<le> 4096"
    and "0 \<le> total_length st" "total_length st + int (length (strings ts)) \<le> 8192"
    and "0 \<le> num_args st" "num_args st + int (length ts) \<le> 8192"
  shows "\<exists>st'. insert_tokens ts st = Inr st' \<and> holds st' base (strings (rev ts) @ bs) \<and>
    total_length st' = total_length st + int (length (strings ts)) \<and>
    num_args st' = num_args st + int (length ts)"
  using assms
proof (induction ts arbitrary: st bs)
  case (Cons t ts)
  obtain s1 where s1: "split_and_insert t st = Inr s1" "holds s1 base (string_bytes t @ bs)"
    "total_length s1 = total_length st + int (length (string_bytes t))" "num_args s1 = num_args st + 1"
    using split_and_insert_holds [OF Cons.prems(1), of t] Cons.prems(2-) by auto
  show ?case
    using Cons.IH [OF s1(2)] Cons.prems(2-) s1 by (auto simp: ac_simps)
qed auto

lemma align_loop_eq:
  "0 \<le> w \<Longrightarrow> w + (- t) mod 4 \<le> 8192 \<Longrightarrow> 0 \<le> t \<Longrightarrow> t + (- t) mod 4 \<le> 8192 \<Longrightarrow>
   align_loop w t = (w + (- t) mod 4, t + (- t) mod 4)"
proof (induction w t rule: align_loop.induct)
  case (1 w t)
  show ?case
  proof (cases "t mod 4 = 0")
    case True
    then have "(- t) mod 4 = 0" by presburger
    with True show ?thesis by (subst align_loop.simps) simp
  next
    case False
    have s: "(- t) mod 4 = (- (t + 1)) mod 4 + 1" using False by presburger
    have "0 \<le> (- (t + 1)) mod 4" by simp
    then have i: "i32 (w + 1) = w + 1" "i32 (t + 1) = t + 1"
      using 1(2-) s by (simp_all add: i32_id)
    have "align_loop (w + 1) (t + 1) = (w + 1 + (- (t + 1)) mod 4, t + 1 + (- (t + 1)) mod 4)"
      using 1(1) [OF False] 1(2-) s unfolding i by simp
    then show ?thesis using False s i by (subst align_loop.simps) simp
  qed
qed

lemma stk_zeros:
  assumes "stk m base bs" and "k + length bs \<le> 4096"
  shows "stk m base (replicate k 0 @ bs)"
proof -
  have z: "\<forall>j. length bs < j \<and> j \<le> 4096 \<longrightarrow> m (base - of_nat j) = Some 0"
    using assms(1) unfolding stk_def by blast
  have rep: "(\<And>i. i < n \<Longrightarrow> m (a + of_nat i) = Some 0) \<Longrightarrow> at m a (replicate n 0)" for n a
  proof (induction n arbitrary: a)
    case (Suc n)
    have "at m (a + 1) (replicate n 0)"
      by (rule Suc.IH) (use Suc.prems [of "Suc i" for i] in \<open>simp add: ac_simps\<close>)
    with Suc.prems [of 0] show ?case by simp
  qed simp
  have "at m (base - of_nat (k + length bs)) (replicate k 0)"
  proof (rule rep)
    fix i assume "i < k"
    then have "base - of_nat (k + length bs) + of_nat i = base - of_nat (k + length bs - i)"
      by (simp add: of_nat_diff)
    moreover have "m (base - of_nat (k + length bs - i)) = Some 0"
      using z assms(2) \<open>i < k\<close> by (elim allE [of _ "k + length bs - i"]) linarith
    ultimately show "m (base - of_nat (k + length bs) + of_nat i) = Some 0" by (simp only:)
  qed
  moreover have "base - of_nat (k + length bs) + of_nat k = base - of_nat (length bs)" by simp
  ultimately show ?thesis
    using assms z unfolding stk_def by (simp add: at_append)
qed

lemma add_word_align_holds:
  assumes "holds st base bs" and "total_length st = int (length bs)" and "length bs \<le> 4096"
  shows "\<exists>st'. add_word_align st = Inr st' \<and>
    holds st' base (replicate (nat ((- int (length bs)) mod 4)) 0 @ bs) \<and> num_args st' = num_args st"
proof -
  define k where "k = nat ((- int (length bs)) mod 4)"
  have "0 \<le> (- int (length bs)) mod 4" "(- int (length bs)) mod 4 < 4"
    by (rule pos_mod_sign pos_mod_bound; simp)+
  then have k: "(- int (length bs)) mod 4 = int k" and k3: "k \<le> 3"
    unfolding k_def by linarith+
  have kb: "k + length bs \<le> 4096"
  proof -
    have "(4 :: int) dvd int k + int (length bs)" unfolding k [symmetric] by presburger
    then show ?thesis using k3 assms(3) by presburger
  qed
  have al: "align_loop 0 (total_length st) = (int k, int (length bs) + int k)"
    using align_loop_eq [of 0 "int (length bs)"] k3 assms(3) unfolding assms(2) k by simp
  have sp: "stack_pointer st - word_of_int (int k) = base - of_nat (length (replicate k (0 :: 8 word)) + length bs)"
    using assms(1) by (simp add: holds_def algebra_simps)
  have "\<exists>st'. add_word_align st = Inr st' \<and> holds st' base (replicate k 0 @ bs) \<and>
    num_args st' = num_args st"
  proof (cases k)
    case 0
    then show ?thesis using assms(1) al by (simp add: add_word_align_def holds_def)
  next
    case (Suc l)
    obtain m' where "store_bytes (base - of_nat (length (replicate k (0 :: 8 word)) + length bs))
        (replicate k 0) (umem st) = Inr m'" "stk m' base (replicate k 0 @ bs)"
      using stk_push [of "umem st" base bs "replicate k 0"] assms(1) kb
      by (auto simp: holds_def)
    moreover have "int k \<noteq> 0" "nat (int k) = k" using Suc by simp_all
    ultimately show ?thesis unfolding add_word_align_def al Let_def prod.case sp
      by (simp add: holds_def)
  qed
  then show ?thesis unfolding k by simp
qed

lemma add_null_char_holds:
  assumes "holds st base bs" and "4 + length bs \<le> 4096"
  shows "\<exists>st'. add_null_char st = Inr st' \<and> holds st' base (replicate 4 0 @ bs) \<and>
    num_args st' = num_args st"
proof -
  let ?sp = "base - of_nat (length (replicate 4 (0 :: 8 word) @ bs))"
  have z: "\<forall>j. length bs < j \<and> j \<le> 4096 \<longrightarrow> umem st (base - of_nat j) = Some 0"
    using assms(1) unfolding holds_def stk_def by blast
  have "length (replicate 4 (0 :: 8 word) @ bs) = length bs + 4" by simp
  then have sp: "stack_pointer st - 4 = ?sp" using assms by (simp add: holds_def)
  have ms: "umem st ?sp = Some 0"
    by (rule z [rule_format]) (use assms(2) in simp_all)
  let ?st = "st\<lparr>stack_pointer := ?sp, umem := umem st\<rparr>"
  have "store_bytes ?sp [0] (umem st) = Inr (umem st)"
    using ms by (simp only: store_bytes.simps option.distinct if_False fun_upd_idem)
  then have "add_null_char st = Inr ?st" unfolding add_null_char_def sp Let_def by (simp only: bnd_simps)
  moreover have "stack_pointer ?st = ?sp" by simp
  then have "holds ?st base (replicate 4 0 @ bs)"
    using stk_zeros [of "umem st" base bs 4] assms unfolding holds_def by simp
  moreover have "num_args ?st = num_args st" by simp
  ultimately show ?thesis by blast
qed

lemma push32_holds:
  assumes "holds st base bs" and "4 + length bs \<le> 4096"
  shows "\<exists>st'. push32 v st = Inr st' \<and> holds st' base (bytes32 v @ bs) \<and> num_args st' = num_args st"
proof -
  have sp: "stack_pointer st - 4 = base - of_nat (length (bytes32 v) + length bs)"
    using assms(1) by (simp add: holds_def algebra_simps)
  obtain m' where "store_bytes (base - of_nat (length (bytes32 v) + length bs)) (bytes32 v) (umem st)
      = Inr m'" "stk m' base (bytes32 v @ bs)"
    using stk_push [of "umem st" base bs "bytes32 v"] assms by (auto simp: holds_def)
  then show ?thesis unfolding push32_def store32_def sp Let_def by (simp add: holds_def)
qed

subsection \<open>The argument vector\<close>

text \<open>
  The addresses of the strings \<open>ss\<close> when they lie one after the other with \<open>k\<close> bytes between the
  last one and the top of the stack.
\<close>

fun addresses :: "32 word \<Rightarrow> nat \<Rightarrow> string list \<Rightarrow> 32 word list" where
  "addresses base k [] = []"
| "addresses base k (s # ss) = (base - of_nat (length (strings (s # ss)) + k)) # addresses base k ss"

lemma length_addresses [simp]: "length (addresses base k ss) = length ss"
  by (induction ss) simp_all

definition no_nul :: "string \<Rightarrow> bool" where
  "no_nul s \<longleftrightarrow> CHR 0x00 \<notin> set s"

lemma of_char_0: "(of_char c :: 8 word) = 0 \<longleftrightarrow> c = CHR 0x00"
proof -
  have 1: "(of_char c :: 8 word) = of_nat (of_char c :: nat)" by (rule of_nat_of_char [symmetric])
  have "(of_nat n :: 8 word) = 0 \<longleftrightarrow> n = 0" if "n < 256" for n
    using that nat_dvd_not_less [of n 256] by (auto simp: word_of_nat_eq_0_iff)
  then have "(of_char c :: 8 word) = 0 \<longleftrightarrow> (of_char c :: nat) = 0" unfolding 1 by simp
  also have "\<dots> \<longleftrightarrow> (of_char c :: nat) = of_char (CHR 0x00)" by simp
  also have "\<dots> \<longleftrightarrow> c = CHR 0x00" by (simp only: of_char_eq_iff)
  finally show ?thesis .
qed

lemma string_bytes_read:
  assumes "at m a (string_bytes s)" and "no_nul s" and "length s < 4096"
  shows "string_at 4096 m a = Inr (map of_char s)"
proof (rule string_at_at)
  show "at m a (map of_char s @ [0])" using assms(1) by (simp add: string_bytes_def)
  show "0 \<notin> set (map of_char s :: 8 word list)"
    using assms(2) by (auto simp: no_nul_def image_iff) (metis of_char_0)
qed (use assms(3) in simp)

lemma stk_at_suffix:
  assumes "stk m base (xs @ ys)"
  shows "at m (base - of_nat (length ys)) ys"
  using assms by (simp add: stk_def at_append)

lemma at_prefix: "at m a (xs @ ys) \<Longrightarrow> at m a xs"
  by (simp add: at_append)

lemma add_argument_address_step:
  assumes "holds st base (X @ string_bytes s @ R)" and "4 + length (X @ string_bytes s @ R) \<le> 4096"
    and "no_nul s" and "p = base - of_nat (length (string_bytes s @ R))"
  shows "\<exists>s1. add_argument_address (Suc n) p st = add_argument_address n (base - of_nat (length R)) s1 \<and>
    holds s1 base (bytes32 p @ X @ string_bytes s @ R) \<and> num_args s1 = num_args st \<and>
    push32 p st = Inr s1"
proof -
  obtain s1 where s1: "push32 p st = Inr s1" "num_args s1 = num_args st"
    "holds s1 base (bytes32 p @ X @ string_bytes s @ R)"
    using push32_holds [OF assms(1,2), of p] by auto
  then have m: "store32 (stack_pointer st - 4) p (umem st) = Inr (umem s1)"
    and st1: "st\<lparr>stack_pointer := stack_pointer st - 4, umem := umem s1\<rparr> = s1"
    by (auto simp: push32_def Let_def bnd_eq_Inr)
  have "at (umem s1) p (string_bytes s @ R)"
    using s1(3) stk_at_suffix [of "umem s1" base "bytes32 p @ X" "string_bytes s @ R"]
    unfolding holds_def assms(4) append_assoc by blast
  then have "string_at 4096 (umem s1) p = Inr (map of_char s)"
    using assms(2,3) by (intro string_bytes_read) (simp_all add: at_append)
  then have l: "strlen (umem s1) p = Inr (int (length s))" by (simp add: strlen_def)
  have "p + word_of_int (int (length s) + 1) = base - of_nat (length R)"
    unfolding assms(4) by (simp add: algebra_simps)
  then have "add_argument_address (Suc n) p st = add_argument_address n (base - of_nat (length R)) s1"
    unfolding add_argument_address.simps Let_def m bnd_simps l st1 by (rule arg_cong)
  then show ?thesis using s1 by blast
qed

lemma add_argument_address_holds:
  assumes "holds st base (X @ strings ss @ Y)"
    and "4 * length ss + length (X @ strings ss @ Y) \<le> 4096"
    and "\<forall>s\<in>set ss. no_nul s"
  shows "\<exists>st'. add_argument_address (length ss) (base - of_nat (length (strings ss @ Y))) st = Inr st' \<and>
    holds st' base (concat (map bytes32 (rev (addresses base (length Y) ss))) @ X @ strings ss @ Y) \<and>
    num_args st' = num_args st"
  using assms
proof (induction ss arbitrary: st X)
  case (Cons s ss)
  define p where "p = base - of_nat (length (string_bytes s @ strings ss @ Y))"
  have h: "holds st base (X @ string_bytes s @ strings ss @ Y)" using Cons.prems(1) by simp
  have n: "4 + length (X @ string_bytes s @ strings ss @ Y) \<le> 4096" "no_nul s"
    using Cons.prems(2,3) by simp_all
  obtain s1 where s1: "add_argument_address (length (s # ss)) p st =
      add_argument_address (length ss) (base - of_nat (length (strings ss @ Y))) s1"
    "holds s1 base ((bytes32 p @ X @ string_bytes s) @ strings ss @ Y)" "num_args s1 = num_args st"
    using add_argument_address_step [OF h n p_def, of "length ss"] by auto
  have "4 * length ss + length ((bytes32 p @ X @ string_bytes s) @ strings ss @ Y) \<le> 4096"
    using Cons.prems(2) by simp
  then obtain st' where "add_argument_address (length (s # ss)) p st = Inr st'"
    "holds st' base (concat (map bytes32 (rev (addresses base (length Y) ss))) @
       (bytes32 p @ X @ string_bytes s) @ strings ss @ Y)" "num_args st' = num_args st"
    using Cons.IH [OF s1(2)] Cons.prems(3) unfolding s1(1,3) by auto
  moreover have "p = base - of_nat (length (strings (s # ss) @ Y))"
    and "rev (addresses base (length Y) (s # ss)) = rev (addresses base (length Y) ss) @ [p]"
    unfolding p_def by (simp_all add: add.assoc del: of_nat_add)
  ultimately show ?case by (simp del: of_nat_add length_append addresses.simps)
qed simp

lemma addresses_strings:
  assumes "stk m base (X @ strings ss @ Y)" and "i < length ss"
  shows "at m (addresses base (length Y) ss ! i) (string_bytes (ss ! i))"
  using assms
proof (induction ss arbitrary: X i)
  case (Cons s ss)
  show ?case
  proof (cases i)
    case 0
    have "at m (base - of_nat (length (strings (s # ss) @ Y))) (string_bytes s @ strings ss @ Y)"
      using stk_at_suffix [OF Cons.prems(1)] by simp
    then show ?thesis using 0 by (simp add: at_append add.assoc)
  next
    case (Suc j)
    then show ?thesis using Cons.IH [of "X @ string_bytes s" j] Cons.prems by simp
  qed
qed simp

lemma load32_vector:
  assumes "at m a (concat (map bytes32 A) @ r)" and "i < length A"
  shows "load32 m (a + 4 * of_nat i) = Inr (A ! i)"
  using assms
proof (induction A arbitrary: a i)
  case (Cons v A)
  show ?case
  proof (cases i)
    case 0
    then show ?thesis using Cons.prems(1) by (simp add: at_append load32_bytes32)
  next
    case (Suc j)
    have "at m (a + 4) (concat (map bytes32 A) @ r)" using Cons.prems(1) by (simp add: at_append)
    from Cons.IH [OF this, of j] show ?thesis using Suc Cons.prems(2) by (simp add: ac_simps)
  qed
qed simp

subsection \<open>The initial stack of a process\<close>

definition zero_page :: "32 word \<Rightarrow> umem \<Rightarrow> bool" where
  "zero_page base m \<longleftrightarrow> (\<forall>j. 1 \<le> j \<and> j \<le> 4096 \<longrightarrow> m (base - of_nat j) = Some 0)"

definition padding :: "string list \<Rightarrow> nat" where
  "padding ts = nat ((- int (length (strings ts))) mod 4)"

definition args_size :: "string list \<Rightarrow> nat" where
  "args_size ts = 12 + 4 * length ts + 4 + padding ts + length (strings ts)"

definition initial_stack :: "32 word \<Rightarrow> string list \<Rightarrow> 8 word list" where
  "initial_stack base ts =
     (let A = rev (addresses base 0 (rev ts)) in
      bytes32 0 @ bytes32 (of_nat (length ts)) @ bytes32 (base - of_nat (args_size ts) + 12) @
      concat (map bytes32 A) @ replicate 4 0 @ replicate (padding ts) 0 @ strings (rev ts))"

lemma padding_le: "padding ts \<le> 3"
  using pos_mod_bound [of 4 "- int (length (strings ts))"] by (simp add: padding_def)

lemma length_concat_bytes32 [simp]: "length (concat (map bytes32 A)) = 4 * length A"
  by (induction A) simp_all

lemma length_strings_ge: "length ts \<le> length (strings ts)"
  by (induction ts) simp_all

lemma set_arguments_into_stack_eq:
  assumes "zero_page base m" and "args_size (f # tokens '' '' rest) \<le> 4096"
    and "\<forall>t\<in>set (f # tokens '' '' rest). no_nul t"
  shows "\<exists>m'. set_arguments_into_stack (Some f) rest base m
      = Inr (base - of_nat (args_size (f # tokens '' '' rest)), m') \<and>
    stk m' base (initial_stack base (f # tokens '' '' rest))"
proof -
  define ts where "ts = f # tokens '' '' rest"
  let ?S = "strings (rev ts)" and ?s0 = "\<lparr>total_length = 0, stack_pointer = base, num_args = 0, umem = m\<rparr>"
  let ?A = "rev (addresses base 0 (rev ts))"
  have n: "length ts \<le> length ?S" using length_strings_ge [of ts] by simp
  have sz: "12 + 4 * length ts + 4 + padding ts + length ?S \<le> 4096"
    using assms(2) by (simp add: args_size_def ts_def)
  have h0: "holds ?s0 base []" using assms(1) by (simp add: holds_def stk_def zero_page_def)
  obtain s1 where s1: "insert_tokens ts ?s0 = Inr s1" "holds s1 base ?S"
    "total_length s1 = int (length ?S)" "num_args s1 = int (length ts)"
    using insert_tokens_holds [OF h0, of ts] sz n by auto
  have p1: "stack_pointer s1 = base - of_nat (length (strings (rev ts) @ []))"
    using s1(2) by (simp add: holds_def)
  obtain s2 where s2: "add_word_align s1 = Inr s2" "num_args s2 = num_args s1"
    "holds s2 base (replicate (padding ts) 0 @ ?S)"
    using add_word_align_holds [OF s1(2,3)] sz by (auto simp: padding_def)
  obtain s3 where s3: "add_null_char s2 = Inr s3" "num_args s3 = num_args s2"
    "holds s3 base (replicate 4 0 @ replicate (padding ts) 0 @ ?S)"
    using add_null_char_holds [OF s2(3)] sz by auto
  have h3: "holds s3 base ((replicate 4 0 @ replicate (padding ts) 0) @ strings (rev ts) @ [])"
    using s3(3) by simp
  obtain s4 where s4: "add_argument_address (length ts) (stack_pointer s1) s3 = Inr s4"
    "num_args s4 = num_args s3"
    "holds s4 base (concat (map bytes32 ?A) @ replicate 4 0 @ replicate (padding ts) 0 @ ?S)"
    using add_argument_address_holds [OF h3] sz assms(3) unfolding p1 by (auto simp: ts_def)
  have p4: "stack_pointer s4 = base - of_nat (args_size ts) + 12"
    using s4(3) by (simp add: holds_def args_size_def algebra_simps)
  obtain s5 where s5: "push32 (stack_pointer s4) s4 = Inr s5" "num_args s5 = num_args s4"
    "holds s5 base (bytes32 (stack_pointer s4) @ concat (map bytes32 ?A) @ replicate 4 0 @
       replicate (padding ts) 0 @ ?S)"
    using push32_holds [OF s4(3), of "stack_pointer s4"] sz by auto
  obtain s6 where s6: "push32 (of_nat (length ts)) s5 = Inr s6"
    "holds s6 base (bytes32 (of_nat (length ts)) @ bytes32 (stack_pointer s4) @
       concat (map bytes32 ?A) @ replicate 4 0 @ replicate (padding ts) 0 @ ?S)"
    using push32_holds [OF s5(3), of "of_nat (length ts)"] sz by auto
  obtain s7 where s7: "push32 0 s6 = Inr s7" "holds s7 base (initial_stack base ts)"
    using push32_holds [OF s6(2), of 0] sz by (auto simp: initial_stack_def p4 Let_def)
  have p7: "stack_pointer s7 = base - of_nat (args_size ts)"
    using s7(2) by (simp add: holds_def args_size_def initial_stack_def Let_def algebra_simps)
  have "set_arguments_into_stack (Some f) rest base m = Inr (stack_pointer s7, umem s7)"
    unfolding set_arguments_into_stack_def option.case ts_def [symmetric] Let_def s1(1) bnd_simps
      s2(1) s3(1) s3(2) s2(2) s1(4) nat_int s4(1) add_char_pointers_def s5(1)
      add_number_of_arguments_def s5(2) s4(2) of_int_of_nat_eq s6(1) add_return_address_def s7(1)
    by (rule refl)
  then show ?thesis using s7(2) unfolding p7 ts_def [symmetric] holds_def by blast
qed

lemma args_size_aligned: "4 dvd args_size ts"
proof -
  have "int (padding ts) = (- int (length (strings ts))) mod 4" by (simp add: padding_def)
  then have "(4 :: int) dvd int (padding ts) + int (length (strings ts))" by presburger
  then have "4 dvd padding ts + length (strings ts)" by presburger
  then show ?thesis unfolding args_size_def by presburger
qed

lemma length_string_le: "t \<in> set ts \<Longrightarrow> length (string_bytes t) \<le> length (strings ts)"
  by (induction ts) auto

text \<open>
  C5: \<^verbatim>\<open>set_arguments_into_stack\<close> builds the stack a C program expects. Given a fresh zeroed page
  below \<^verbatim>\<open>PHYS_BASE\<close> and a command line whose arguments fit, it returns (no store leaves the
  page), the stack pointer has gone down by a multiple of four bytes, and from it upwards lie a
  null return address, \<^verbatim>\<open>argc\<close>, \<^verbatim>\<open>argv\<close> and the vector: \<^verbatim>\<open>argv[i]\<close> points to a string that reads
  back as the i-th token of the command line, and \<^verbatim>\<open>argv[argc]\<close> is null.
\<close>
theorem set_arguments_into_stack_layout:
  assumes "strtok_r '' '' cmd = Some (k, f, rest)" and "ts = tokens '' '' cmd"
    and "zero_page base m" and "no_nul cmd" and "args_size ts \<le> 4096"
  shows "\<exists>sp m'. set_arguments_into_stack (Some f) rest base m = Inr (sp, m') \<and>
    sp = base - of_nat (args_size ts) \<and> 4 dvd args_size ts \<and>
    load32 m' sp = Inr 0 \<and> load32 m' (sp + 4) = Inr (of_nat (length ts)) \<and>
    load32 m' (sp + 8) = Inr (sp + 12) \<and>
    (\<forall>i<length ts. \<exists>p. load32 m' (sp + 12 + 4 * of_nat i) = Inr p \<and>
       string_at 4096 m' p = Inr (map of_char (ts ! i))) \<and>
    load32 m' (sp + 12 + 4 * of_nat (length ts)) = Inr 0"
proof -
  have ts: "ts = f # tokens '' '' rest" using assms(1,2) by (simp add: tokens_Some)
  have sub: "set (concat ts) \<subseteq> set cmd" unfolding assms(2) concat_tokens by auto
  then have nn: "\<forall>t\<in>set ts. no_nul t" using assms(4) by (auto simp: no_nul_def)
  obtain m' where m': "set_arguments_into_stack (Some f) rest base m = Inr (base - of_nat (args_size ts), m')"
    "stk m' base (initial_stack base ts)"
    using set_arguments_into_stack_eq [OF assms(3), of f rest] assms(5) nn unfolding ts by blast
  let ?sp = "base - of_nat (args_size ts)" and ?A = "rev (addresses base 0 (rev ts))"
  let ?R = "replicate 4 0 @ replicate (padding ts) 0 @ strings (rev ts)"
  have len: "length (initial_stack base ts) = args_size ts"
    by (simp add: initial_stack_def args_size_def Let_def)
  have at0: "at m' ?sp (bytes32 0 @ bytes32 (of_nat (length ts)) @ bytes32 (?sp + 12) @
      concat (map bytes32 ?A) @ ?R)"
    using m'(2) unfolding stk_def len by (simp add: initial_stack_def Let_def)
  then have w: "at m' ?sp (bytes32 0)" "at m' (?sp + 4) (bytes32 (of_nat (length ts)))"
    "at m' (?sp + 8) (bytes32 (?sp + 12))" "at m' (?sp + 12) (concat (map bytes32 ?A) @ ?R)"
    by (simp_all add: at_append add.assoc)
  have z4: "replicate 4 0 = bytes32 0" by (simp add: bytes32_def eval_nat_numeral)
  have "at m' (?sp + 12 + 4 * of_nat (length ts)) (bytes32 0)"
    using w(4) unfolding z4 by (simp add: at_append)
  moreover have "\<exists>p. load32 m' (?sp + 12 + 4 * of_nat i) = Inr p \<and>
      string_at 4096 m' p = Inr (map of_char (ts ! i))" if i: "i < length ts" for i
  proof -
    have "stk m' base ((bytes32 0 @ bytes32 (of_nat (length ts)) @ bytes32 (?sp + 12) @
        concat (map bytes32 ?A) @ replicate 4 0 @ replicate (padding ts) 0) @ strings (rev ts) @ [])"
      using m'(2) by (simp add: initial_stack_def Let_def)
    from addresses_strings [OF this, of "length ts - Suc i"]
    have "at m' (?A ! i) (string_bytes (ts ! i))" using i by (simp add: rev_nth)
    moreover have "length (ts ! i) < 4096"
      using length_string_le [OF nth_mem [OF i]] assms(5) by (simp add: args_size_def)
    ultimately have "string_at 4096 m' (?A ! i) = Inr (map of_char (ts ! i))"
      using nn i by (intro string_bytes_read) simp_all
    then show ?thesis using load32_vector [OF w(4), of i] i by auto
  qed
  moreover have "4 dvd args_size ts" by (rule args_size_aligned)
  ultimately show ?thesis using m'(1) w(1-3) by (blast intro: load32_bytes32)
qed

lemma zero_page_sample:
  "zero_page 0xC0000000 (\<lambda>a. if 0xBFFFF000 \<le> a \<and> a < 0xC0000000 then Some 0 else None)"
  unfolding zero_page_def
proof (intro allI impI)
  fix j :: nat assume "1 \<le> j \<and> j \<le> 4096"
  then have "unat (0xC0000000 - of_nat j :: 32 word) = 0xC0000000 - j"
    by (simp add: unat_sub_if_size unat_of_nat take_bit_eq_mod size_word_def)
  then show "(if 0xBFFFF000 \<le> (0xC0000000 - of_nat j :: 32 word) \<and> 0xC0000000 - of_nat j < (0xC0000000 :: 32 word)
      then Some 0 else None) = Some (0 :: 8 word)"
    using \<open>1 \<le> j \<and> j \<le> 4096\<close> by (simp add: word_le_nat_alt word_less_nat_alt) linarith
qed

theorem set_arguments_into_stack_layout_witness:
  "\<exists>sp m'. set_arguments_into_stack (Some ''echo'') ''x'' 0xC0000000
      (\<lambda>a. if 0xBFFFF000 \<le> a \<and> a < 0xC0000000 then Some 0 else None) = Inr (sp, m') \<and>
    sp = 0xBFFFFFE0 \<and> load32 m' (sp + 4) = Inr 2"
proof -
  have t: "tokens '' '' ''echo x'' = [''echo'', ''x'']"
    by (simp add: tokens.simps strtok_r_def)
  show ?thesis
    using set_arguments_into_stack_layout [of "''echo x''" 0 "''echo''" "''x''", OF _ t [symmetric] zero_page_sample]
    by (auto simp: strtok_r_def no_nul_def args_size_def padding_def)
qed

end
