(* ===== verification/Elf_Loader.thy ===== *)
theory Elf_Loader
  imports Arg_Stack
begin

section \<open>Loading an executable (Assignment 6)\<close>

text \<open>
  \<^verbatim>\<open>load\<close> of \<^verbatim>\<open>Assignment_6_2/.../process.c\<close> with its helpers \<^verbatim>\<open>validate_segment\<close>,
  \<^verbatim>\<open>load_segment\<close>, \<^verbatim>\<open>setup_stack\<close> and \<^verbatim>\<open>install_page\<close>.

  The address space of the process being built is the byte map \<open>space\<close>; a page is mapped when its
  bytes are in the domain, and \<open>writable\<close> tells how. The file system, the page directory and the
  allocators are not part of the repository: the operations on an open file (of a type \<open>'f\<close> the
  code never looks into) and the failures of the allocators are fields of the parameter \<open>sys\<close>, and
  the kernel pages that successive calls of \<^verbatim>\<open>palloc_get_page\<close> return are the list \<open>kpages\<close> (0 is
  a failed call; after the end of the list every call fails). \<open>file_ops\<close> are the calls that change
  the state of the file system, in order; \<^verbatim>\<open>start_process\<close> applies them to it.
\<close>

datatype 'f file_op = Opens string | Denies_write 'f | Closes "'f option"

record 'f sys =
  phys_base :: "32 word"
  filesys_open :: "string \<Rightarrow> 'f option"
  file_length :: "'f \<Rightarrow> int"
  file_seek :: "'f \<Rightarrow> int \<Rightarrow> 'f"
  file_read :: "'f \<Rightarrow> nat \<Rightarrow> 8 word list \<times> 'f"
  pagedir_create_ok :: bool
  set_page_ok :: "32 word \<Rightarrow> bool"
  malloc_ok :: "nat \<Rightarrow> bool"

record 'f image =
  space :: umem
  writable :: "32 word \<Rightarrow> bool"
  kpages :: "32 word list"
  installed :: "(32 word \<times> 32 word) list"
  freed :: "32 word list"
  loaded_file :: "'f option"
  file_ops :: "'f file_op list"

subsection \<open>Pages\<close>

definition palloc_get_page :: "'f image \<Rightarrow> 32 word \<times> 'f image" where
  "palloc_get_page im =
     (case kpages im of [] \<Rightarrow> (0, im) | k # ks \<Rightarrow> (k, im\<lparr>kpages := ks\<rparr>))"

definition palloc_free_page :: "32 word \<Rightarrow> 'f image \<Rightarrow> 'f image" where
  "palloc_free_page k im = im\<lparr>freed := k # freed im\<rparr>"

definition page_bytes :: "32 word \<Rightarrow> 8 word list \<Rightarrow> umem \<Rightarrow> umem" where
  "page_bytes upage bs m =
     (\<lambda>a. if unat (a - upage) < length bs then Some (bs ! unat (a - upage)) else m a)"

definition install_page ::
  "'f sys \<Rightarrow> 32 word \<Rightarrow> 32 word \<Rightarrow> 8 word list \<Rightarrow> bool \<Rightarrow> 'f image \<Rightarrow> bool \<times> 'f image" where
  "install_page sys upage kpage bs w im =
     (if space im upage = None \<and> set_page_ok sys upage
      then (True, im\<lparr>space := page_bytes upage bs (space im),
                     writable := (\<lambda>a. if unat (a - upage) < 4096 then w else writable im a),
                     installed := (upage, kpage) # installed im\<rparr>)
      else (False, im))"

subsection \<open>Segments\<close>

record elf32_phdr =
  p_type :: "32 word"
  p_offset :: "32 word"
  p_vaddr :: "32 word"
  p_paddr :: "32 word"
  p_filesz :: "32 word"
  p_memsz :: "32 word"
  p_flags :: "32 word"
  p_align :: "32 word"

definition is_user_vaddr :: "'f sys \<Rightarrow> 32 word \<Rightarrow> bool" where
  "is_user_vaddr sys a \<longleftrightarrow> a < phys_base sys"

definition validate_segment :: "'f sys \<Rightarrow> elf32_phdr \<Rightarrow> 'f \<Rightarrow> bool" where
  "validate_segment sys ph file \<longleftrightarrow>
     (if p_offset ph AND 0xFFF \<noteq> p_vaddr ph AND 0xFFF then False
      else if p_offset ph > word_of_int (file_length sys file) then False
      else if p_memsz ph < p_filesz ph then False
      else if p_memsz ph = 0 then False
      else if \<not> is_user_vaddr sys (p_vaddr ph) then False
      else if \<not> is_user_vaddr sys (p_vaddr ph + p_memsz ph) then False
      else if p_vaddr ph + p_memsz ph < p_vaddr ph then False
      else if p_vaddr ph < 4096 then False
      else True)"

definition ROUND_UP :: "32 word \<Rightarrow> 32 word" where
  "ROUND_UP x = (x + 4096 - 1) div 4096 * 4096"

text \<open>
  The loop of \<^verbatim>\<open>load_segment\<close>. Every round takes a page from \<^verbatim>\<open>palloc\<close>, so the recursion is on
  what the allocator has left.
\<close>

fun load_pages ::
  "'f sys \<Rightarrow> 32 word list \<Rightarrow> 'f \<Rightarrow> 32 word \<Rightarrow> 32 word \<Rightarrow> 32 word \<Rightarrow> bool \<Rightarrow> 'f image \<Rightarrow> bool \<times> 'f \<times> 'f image"
where
  "load_pages sys ks file upage read_bytes zero_bytes w im =
     (if \<not> (read_bytes > 0 \<or> zero_bytes > 0) then (True, file, im\<lparr>kpages := ks\<rparr>)
      else
        let page_read_bytes = (if read_bytes < 4096 then read_bytes else 4096);
            page_zero_bytes = 4096 - page_read_bytes in
        (case ks of
           [] \<Rightarrow> (False, file, im\<lparr>kpages := []\<rparr>)
         | kpage # ks' \<Rightarrow>
             if kpage = 0 then (False, file, im\<lparr>kpages := ks'\<rparr>)
             else
               let (bs, file') = file_read sys file (unat page_read_bytes) in
               if length bs \<noteq> unat page_read_bytes
               then (False, file', palloc_free_page kpage (im\<lparr>kpages := ks'\<rparr>))
               else
                 let contents = bs @ replicate (unat page_zero_bytes) 0;
                     (okay, im') = install_page sys upage kpage contents w (im\<lparr>kpages := ks'\<rparr>) in
                 if \<not> okay then (False, file', palloc_free_page kpage im')
                 else load_pages sys ks' file' (upage + 4096) (read_bytes - page_read_bytes)
                        (zero_bytes - page_zero_bytes) w im'))"

declare load_pages.simps [simp del]

definition load_segment ::
  "'f sys \<Rightarrow> 'f \<Rightarrow> 32 word \<Rightarrow> 32 word \<Rightarrow> 32 word \<Rightarrow> 32 word \<Rightarrow> bool \<Rightarrow> 'f image \<Rightarrow>
   (bool \<times> 'f \<times> 'f image) result" where
  "load_segment sys file ofs upage read_bytes zero_bytes w im =
     bnd (assert ((read_bytes + zero_bytes) mod 4096 = 0)) (\<lambda>_.
     bnd (assert (upage AND 0xFFF = 0)) (\<lambda>_.
     bnd (assert (ofs mod 4096 = 0)) (\<lambda>_.
     Inr (load_pages sys (kpages im) (file_seek sys file (sint ofs)) upage read_bytes zero_bytes w im))))"

definition setup_stack :: "'f sys \<Rightarrow> 'f image \<Rightarrow> (32 word option) \<times> 'f image" where
  "setup_stack sys im =
     (let (kpage, im1) = palloc_get_page im in
      if kpage \<noteq> 0 then
        let (success, im2) = install_page sys (phys_base sys - 4096) kpage (replicate 4096 0) True im1 in
        if success then (Some (phys_base sys), im2)
        else (None, palloc_free_page kpage im2)
      else (None, im1))"

subsection \<open>Headers\<close>

record elf32_ehdr =
  e_ident :: "8 word list"
  e_type :: "16 word"
  e_machine :: "16 word"
  e_version :: "32 word"
  e_entry :: "32 word"
  e_phoff :: "32 word"
  e_shoff :: "32 word"
  e_flags :: "32 word"
  e_ehsize :: "16 word"
  e_phentsize :: "16 word"
  e_phnum :: "16 word"
  e_shentsize :: "16 word"
  e_shnum :: "16 word"
  e_shstrndx :: "16 word"

definition half_at :: "8 word list \<Rightarrow> nat \<Rightarrow> 16 word" where
  "half_at bs i = ucast (bs ! i) OR push_bit 8 (ucast (bs ! (i + 1)))"

definition word_at :: "8 word list \<Rightarrow> nat \<Rightarrow> 32 word" where
  "word_at bs i =
     ucast (bs ! i) OR push_bit 8 (ucast (bs ! (i + 1))) OR push_bit 16 (ucast (bs ! (i + 2))) OR
     push_bit 24 (ucast (bs ! (i + 3)))"

definition ehdr_of :: "8 word list \<Rightarrow> elf32_ehdr" where
  "ehdr_of bs =
     \<lparr>e_ident = take 16 bs, e_type = half_at bs 16, e_machine = half_at bs 18,
      e_version = word_at bs 20, e_entry = word_at bs 24, e_phoff = word_at bs 28,
      e_shoff = word_at bs 32, e_flags = word_at bs 36, e_ehsize = half_at bs 40,
      e_phentsize = half_at bs 42, e_phnum = half_at bs 44, e_shentsize = half_at bs 46,
      e_shnum = half_at bs 48, e_shstrndx = half_at bs 50\<rparr>"

definition phdr_of :: "8 word list \<Rightarrow> elf32_phdr" where
  "phdr_of bs =
     \<lparr>p_type = word_at bs 0, p_offset = word_at bs 4, p_vaddr = word_at bs 8,
      p_paddr = word_at bs 12, p_filesz = word_at bs 16, p_memsz = word_at bs 20,
      p_flags = word_at bs 24, p_align = word_at bs 28\<rparr>"

definition PT_LOAD :: "32 word" where "PT_LOAD = 1"
definition PT_DYNAMIC :: "32 word" where "PT_DYNAMIC = 2"
definition PT_INTERP :: "32 word" where "PT_INTERP = 3"
definition PT_SHLIB :: "32 word" where "PT_SHLIB = 5"
definition PF_W :: "32 word" where "PF_W = 2"

definition ehdr_ok :: "8 word list \<Rightarrow> bool" where
  "ehdr_ok bs \<longleftrightarrow> length bs = 52 \<and>
     (let eh = ehdr_of bs in
      take 7 (e_ident eh) = [0x7F, 0x45, 0x4C, 0x46, 1, 1, 1] \<and> e_type eh = 2 \<and> e_machine eh = 3 \<and>
      e_version eh = 1 \<and> e_phentsize eh = 32 \<and> \<not> e_phnum eh > 1024)"

definition load_PT_LOAD :: "'f sys \<Rightarrow> elf32_phdr \<Rightarrow> 'f \<Rightarrow> 'f image \<Rightarrow> (bool \<times> 'f \<times> 'f image) result" where
  "load_PT_LOAD sys ph file im =
     (if validate_segment sys ph file then
        let w = (p_flags ph AND PF_W \<noteq> 0);
            file_page = p_offset ph AND NOT 0xFFF;
            mem_page = p_vaddr ph AND NOT 0xFFF;
            page_offset = p_vaddr ph AND 0xFFF;
            (read_bytes, zero_bytes) =
              (if p_filesz ph > 0 then
                 (page_offset + p_filesz ph,
                  ROUND_UP (page_offset + p_memsz ph) - (page_offset + p_filesz ph))
               else (0, ROUND_UP (page_offset + p_memsz ph))) in
        load_segment sys file file_page mem_page read_bytes zero_bytes w im
      else Inr (False, file, im))"

text \<open>The loop over the program headers, \<open>n\<close> of them left; \<open>False\<close> is \<^verbatim>\<open>goto done\<close>.\<close>

fun load_headers :: "'f sys \<Rightarrow> nat \<Rightarrow> int \<Rightarrow> 'f \<Rightarrow> 'f image \<Rightarrow> (bool \<times> 'f \<times> 'f image) result" where
  "load_headers sys 0 file_ofs file im = Inr (True, file, im)"
| "load_headers sys (Suc n) file_ofs file im =
     (if file_ofs < 0 \<or> file_ofs > file_length sys file then Inr (False, file, im)
      else
        let (bs, file1) = file_read sys (file_seek sys file file_ofs) 32 in
        if length bs \<noteq> 32 then Inr (False, file1, im)
        else
          let ph = phdr_of bs; ofs' = i32 (file_ofs + 32) in
          if p_type ph = PT_DYNAMIC \<or> p_type ph = PT_INTERP \<or> p_type ph = PT_SHLIB
          then Inr (False, file1, im)
          else if p_type ph = PT_LOAD then
            bnd (load_PT_LOAD sys ph file1 im) (\<lambda>(okay, file2, im2).
            if okay then load_headers sys n ofs' file2 im2 else Inr (False, file2, im2))
          else load_headers sys n ofs' file1 im)"

subsection \<open>\<^verbatim>\<open>load\<close>\<close>

datatype 'f load_result =
    Load_failed "'f image"
  | Load_succeeded "32 word" "32 word" "'f image"

definition load_done :: "'f option \<Rightarrow> 'f image \<Rightarrow> 'f load_result" where
  "load_done file im = Load_failed (im\<lparr>file_ops := file_ops im @ [Closes file]\<rparr>)"

text \<open>
  \<open>load_stack\<close> is the part from \<^verbatim>\<open>setup_stack\<close> on, \<open>load_file\<close> the part from reading the executable
  header on. \<open>skip\<close> is how far \<^verbatim>\<open>strtok_r\<close> moved \<^verbatim>\<open>fn_copy\<close> behind the block \<^verbatim>\<open>malloc\<close> returned:
  \<^verbatim>\<open>free (fn_copy)\<close> is given that pointer.
\<close>

definition load_stack ::
  "'f sys \<Rightarrow> nat \<Rightarrow> string \<Rightarrow> string \<Rightarrow> 32 word \<Rightarrow> 'f \<Rightarrow> 'f image \<Rightarrow> 'f load_result result" where
  "load_stack sys skip fn_copy save_ptr entry file im =
     (case setup_stack sys im of
        (None, im3) \<Rightarrow> Inr (load_done (Some file) im3)
      | (Some sp, im3) \<Rightarrow>
          bnd (set_arguments_into_stack (Some fn_copy) save_ptr sp (space im3)) (\<lambda>(sp', m).
          if skip \<noteq> 0 then Inl Bad_free
          else Inr (Load_succeeded entry sp' (im3\<lparr>space := m, loaded_file := Some file,
                 file_ops := file_ops im3 @ [Denies_write file]\<rparr>))))"

definition load_file ::
  "'f sys \<Rightarrow> nat \<Rightarrow> string \<Rightarrow> string \<Rightarrow> 'f \<Rightarrow> 'f image \<Rightarrow> 'f load_result result" where
  "load_file sys skip fn_copy save_ptr file im =
     (let (bs, file1) = file_read sys file 52 in
      if \<not> ehdr_ok bs then Inr (load_done (Some file1) im)
      else
        let eh = ehdr_of bs in
        bnd (load_headers sys (unat (e_phnum eh)) (sint (e_phoff eh)) file1 im) (\<lambda>(okay, file2, im2).
        if \<not> okay then Inr (load_done (Some file2) im2)
        else load_stack sys skip fn_copy save_ptr (e_entry eh) file2 im2))"

definition load :: "'f sys \<Rightarrow> string \<Rightarrow> 'f image \<Rightarrow> 'f load_result result" where
  "load sys file_name im =
     (if \<not> pagedir_create_ok sys then Inr (load_done None im)
      else if \<not> malloc_ok sys (length file_name + 1) then Inl Null_deref
      else
        (case strtok_r '' '' (strlcpy file_name (length file_name + 1)) of
           None \<Rightarrow> Inl Null_deref
         | Some (skip, fn_copy, save_ptr) \<Rightarrow>
             let im1 = im\<lparr>file_ops := file_ops im @ [Opens fn_copy]\<rparr> in
             (case filesys_open sys fn_copy of
                None \<Rightarrow> Inr (load_done None im1)
              | Some file \<Rightarrow> load_file sys skip fn_copy save_ptr file im1)))"

end
