(* ===== verification/Arg_Overflow.thy ===== *)
theory Arg_Overflow
  imports Arg_Stack
begin

section \<open>Command lines that do not fit the argument page\<close>

text \<open>
  \<^verbatim>\<open>set_arguments_into_stack\<close> has no check on the size of the arguments. This theory shows what
  happens when they need more than the one page that is mapped: a store runs below the page, in
  the kernel, whatever the split of the excess over the strings, the padding and the vector.
\<close>

definition only_page :: "32 word \<Rightarrow> umem \<Rightarrow> bool" where
  "only_page base m \<longleftrightarrow> (\<forall>j. 4096 < j \<and> j \<le> 65536 \<longrightarrow> m (base - of_nat j) = None)"

lemma store_bytes_dom: "store_bytes a xs m = Inr m' \<Longrightarrow> m' c = None \<longleftrightarrow> m c = None"
proof (induction xs arbitrary: a m)
  case (Cons x xs)
  from Cons.prems have a: "m a \<noteq> None" and "store_bytes (a + 1) xs (m(a \<mapsto> x)) = Inr m'"
    by (simp_all split: if_splits)
  from Cons.IH [OF this(2)] a show ?case by (cases "c = a") auto
qed simp

lemma only_page_store: "only_page base m \<Longrightarrow> store_bytes a xs m = Inr m' \<Longrightarrow> only_page base m'"
  by (simp add: only_page_def store_bytes_dom)

lemma store_below_page:
  assumes "only_page base m" and "xs \<noteq> []" and "4096 < n" and "n \<le> 65536"
  shows "store_bytes (base - of_nat n) xs m = Inl Bad_pointer"
  using assms by (cases xs) (simp_all add: only_page_def)

definition inside :: "arg_state \<Rightarrow> 32 word \<Rightarrow> 8 word list \<Rightarrow> bool" where
  "inside st base bs \<longleftrightarrow> holds st base bs \<and> only_page base (umem st)"

lemma split_and_insert_umem:
  "split_and_insert t st = Inr st' \<Longrightarrow> only_page base (umem st) \<Longrightarrow> only_page base (umem st')"
  by (auto simp: split_and_insert_def Let_def bnd_eq_Inr intro: only_page_store)

lemma add_word_align_umem:
  "add_word_align st = Inr st' \<Longrightarrow> only_page base (umem st) \<Longrightarrow> only_page base (umem st')"
  by (auto simp: add_word_align_def Let_def bnd_eq_Inr split: prod.splits if_splits
      intro: only_page_store)

lemma add_null_char_umem:
  "add_null_char st = Inr st' \<Longrightarrow> only_page base (umem st) \<Longrightarrow> only_page base (umem st')"
  by (auto simp: add_null_char_def Let_def bnd_eq_Inr simp del: store_bytes.simps intro: only_page_store)

lemma push32_umem:
  "push32 v st = Inr st' \<Longrightarrow> only_page base (umem st) \<Longrightarrow> only_page base (umem st')"
  by (auto simp: push32_def store32_def Let_def bnd_eq_Inr intro: only_page_store)

lemma insert_tokens_umem:
  "insert_tokens ts st = Inr st' \<Longrightarrow> only_page base (umem st) \<Longrightarrow> only_page base (umem st')"
  by (induction ts arbitrary: st) (auto simp: bnd_eq_Inr dest: split_and_insert_umem)

lemma split_and_insert_overflow:
  assumes "inside st base bs" and "4096 < Suc (length t) + length bs"
    and "Suc (length t) + length bs \<le> 65536"
  shows "split_and_insert t st = Inl Bad_pointer"
proof -
  have l: "i32 (int (length t) + 1) = int (Suc (length t))" using assms(3) by (simp add: i32_id)
  have sp: "stack_pointer st - word_of_int (int (Suc (length t))) = base - of_nat (Suc (length t) + length bs)"
    using assms(1) by (simp add: inside_def holds_def algebra_simps)
  have "store_bytes (base - of_nat (Suc (length t) + length bs)) (string_bytes t) (umem st) = Inl Bad_pointer"
    using assms by (intro store_below_page) (simp_all add: inside_def string_bytes_def)
  then show ?thesis unfolding split_and_insert_def Let_def l sp by (simp only: bnd_simps)
qed

lemma insert_tokens_overflow:
  assumes "inside st base bs" and "4096 < length (strings ts) + length bs"
    and "length (strings ts) + length bs \<le> 65536" and "length bs \<le> 4096"
    and "0 \<le> total_length st" "total_length st \<le> int (length bs)"
    and "0 \<le> num_args st" "num_args st \<le> int (length bs)"
  shows "insert_tokens ts st = Inl Bad_pointer"
  using assms
proof (induction ts arbitrary: st bs)
  case (Cons t ts)
  show ?case
  proof (cases "Suc (length t) + length bs \<le> 4096")
    case True
    then obtain s1 where s1: "split_and_insert t st = Inr s1" "holds s1 base (string_bytes t @ bs)"
      "total_length s1 = total_length st + int (length (string_bytes t))" "num_args s1 = num_args st + 1"
      using split_and_insert_holds [of st base bs t] Cons.prems by (auto simp: inside_def)
    then have "inside s1 base (string_bytes t @ bs)"
      using Cons.prems(1) split_and_insert_umem by (auto simp: inside_def)
    from Cons.IH [OF this] show ?thesis using s1 Cons.prems True by simp
  next
    case False
    then have "split_and_insert t st = Inl Bad_pointer"
      using Cons.prems(1,3) by (intro split_and_insert_overflow [of st base bs]) simp_all
    then show ?thesis by simp
  qed
qed simp

lemma push32_overflow:
  assumes "inside st base bs" and "4096 < 4 + length bs" and "length bs \<le> 4096"
  shows "push32 v st = Inl Bad_pointer"
proof -
  have sp: "stack_pointer st - 4 = base - of_nat (4 + length bs)"
    using assms(1) by (simp add: inside_def holds_def algebra_simps)
  have "store_bytes (base - of_nat (4 + length bs)) (bytes32 v) (umem st) = Inl Bad_pointer"
    using assms by (intro store_below_page) (simp_all add: inside_def bytes32_def)
  then show ?thesis unfolding push32_def store32_def Let_def sp by (simp only: bnd_simps)
qed

lemma add_null_char_overflow:
  assumes "inside st base bs" and "4096 < 4 + length bs" and "length bs \<le> 4096"
  shows "add_null_char st = Inl Bad_pointer"
proof -
  have sp: "stack_pointer st - 4 = base - of_nat (4 + length bs)"
    using assms(1) by (simp add: inside_def holds_def algebra_simps)
  have "store_bytes (base - of_nat (4 + length bs)) [0] (umem st) = Inl Bad_pointer"
    using assms by (intro store_below_page) (simp_all add: inside_def)
  then show ?thesis unfolding add_null_char_def Let_def sp by (simp only: bnd_simps)
qed

lemma add_argument_address_umem:
  "add_argument_address n p st = Inr st' \<Longrightarrow> only_page base (umem st) \<Longrightarrow> only_page base (umem st')"
proof (induction n arbitrary: p st)
  case (Suc n)
  then obtain m l where m: "store32 (stack_pointer st - 4) p (umem st) = Inr m"
    "add_argument_address n (p + word_of_int (l + 1))
      (st\<lparr>stack_pointer := stack_pointer st - 4, umem := m\<rparr>) = Inr st'"
    by (auto simp: Let_def bnd_eq_Inr)
  have "only_page base m" using Suc.prems(2) m(1) unfolding store32_def by (rule only_page_store)
  then show ?case by (intro Suc.IH [OF m(2)]) simp
qed simp

lemma push32_inside:
  assumes "inside st base bs" and "4 + length bs \<le> 4096"
  shows "\<exists>st'. push32 v st = Inr st' \<and> inside st' base (bytes32 v @ bs)"
  using assms push32_holds [of st base bs v] push32_umem unfolding inside_def by blast

lemma last_pushes_overflow:
  assumes "inside st base bs" and "4096 < 12 + length bs" and "length bs \<le> 4096"
  shows "bnd (add_char_pointers st) (\<lambda>s5. bnd (add_number_of_arguments s5) add_return_address)
    = Inl Bad_pointer"
proof (cases "4 + length bs \<le> 4096")
  case False
  then show ?thesis using push32_overflow [OF assms(1) _ assms(3)]
    by (simp add: add_char_pointers_def)
next
  case True
  obtain s5 where s5: "add_char_pointers st = Inr s5" "inside s5 base (bytes32 (stack_pointer st) @ bs)"
    using push32_inside [OF assms(1) True] unfolding add_char_pointers_def by blast
  show ?thesis
  proof (cases "8 + length bs \<le> 4096")
    case False
    then show ?thesis using True push32_overflow [OF s5(2)] s5(1)
      by (simp add: add_number_of_arguments_def)
  next
    case True
    then obtain s6 where s6: "add_number_of_arguments s5 = Inr s6"
      "inside s6 base (bytes32 (word_of_int (num_args s5)) @ bytes32 (stack_pointer st) @ bs)"
      using push32_inside [OF s5(2)] unfolding add_number_of_arguments_def by auto
    have "push32 0 s6 = Inl Bad_pointer"
      using True assms(2) by (intro push32_overflow [OF s6(2)]) simp_all
    then show ?thesis using s5(1) s6(1) by (simp add: add_return_address_def)
  qed
qed

lemma add_argument_address_overflow:
  assumes "inside st base (X @ strings ss @ Y)"
    and "4096 < 4 * length ss + length (X @ strings ss @ Y)"
    and "length (X @ strings ss @ Y) \<le> 4096" and "\<forall>s\<in>set ss. no_nul s"
  shows "add_argument_address (length ss) (base - of_nat (length (strings ss @ Y))) st = Inl Bad_pointer"
  using assms
proof (induction ss arbitrary: st X)
  case (Cons s ss)
  define p where "p = base - of_nat (length (string_bytes s @ strings ss @ Y))"
  have i: "inside st base (X @ string_bytes s @ strings ss @ Y)" using Cons.prems(1) by simp
  then have h: "holds st base (X @ string_bytes s @ strings ss @ Y)" by (simp add: inside_def)
  have p: "p = base - of_nat (length (strings (s # ss) @ Y))" by (simp add: p_def)
  show ?case
  proof (cases "4 + length (X @ string_bytes s @ strings ss @ Y) \<le> 4096")
    case True
    obtain s1 where s1: "add_argument_address (length (s # ss)) p st =
        add_argument_address (length ss) (base - of_nat (length (strings ss @ Y))) s1"
      "holds s1 base ((bytes32 p @ X @ string_bytes s) @ strings ss @ Y)" "push32 p st = Inr s1"
      using add_argument_address_step [OF h True _ p_def, of "length ss"] Cons.prems(4) by auto
    have "inside s1 base ((bytes32 p @ X @ string_bytes s) @ strings ss @ Y)"
      using s1(2) push32_umem [OF s1(3)] i by (simp add: inside_def)
    from Cons.IH [OF this] show ?thesis
      unfolding p [symmetric] s1(1) using Cons.prems(2,4) True by simp
  next
    case False
    have "push32 p st = Inl Bad_pointer"
      using i False Cons.prems(3) by (intro push32_overflow [OF i]) simp_all
    then have "store32 (stack_pointer st - 4) p (umem st) = Inl Bad_pointer"
      by (cases "store32 (stack_pointer st - 4) p (umem st)") (simp_all add: push32_def Let_def)
    then show ?thesis unfolding p [symmetric] by (simp add: Let_def)
  qed
qed simp

lemma length_tokens:
  shows "length (tokens d s) \<le> length s" and "length (strings (tokens d s)) \<le> 2 * length s"
proof -
  have n: "length ts \<le> length (concat ts)" if "\<forall>t\<in>set ts. t \<noteq> []" for ts :: "string list"
    using that
  proof (induction ts)
    case (Cons t ts)
    then have "length ts \<le> length (concat ts)" "1 \<le> length t" by (simp_all add: Suc_le_eq)
    then have "length (t # ts) \<le> length t + length (concat ts)" unfolding list.size by linarith
    then show ?case by simp
  qed simp
  have e: "length (strings ts) = length ts + length (concat ts)" for ts by (induction ts) simp_all
  have c: "length (concat (tokens d s)) \<le> length s" unfolding concat_tokens by (rule length_filter_le)
  have t: "length (tokens d s) \<le> length (concat (tokens d s))"
    by (rule n) (auto dest: tokens_token)
  show "length (tokens d s) \<le> length s" using t c by linarith
  show "length (strings (tokens d s)) \<le> 2 * length s" unfolding e using t c by linarith
qed

text \<open>The strings and their padding fit: then one of the stores of the vector and behind it does not.\<close>

lemma vector_overflow:
  assumes "inside s3 base ((replicate 4 0 @ replicate (padding ts) 0) @ strings (rev ts) @ [])"
    and "4 + (padding ts + length (strings (rev ts))) \<le> 4096" and "\<forall>t \<in> set (rev ts). no_nul t" and "4096 < args_size ts"
  shows "bnd (add_argument_address (length (rev ts)) (base - of_nat (length (strings (rev ts) @ []))) s3)
    (\<lambda>s4. bnd (add_char_pointers s4) (\<lambda>s5. bnd (add_number_of_arguments s5) add_return_address)) = Inl Bad_pointer"
proof (cases "4 * length ts + (4 + (padding ts + length (strings (rev ts)))) \<le> 4096")
  case False
  then have "add_argument_address (length (rev ts)) (base - of_nat (length (strings (rev ts) @ []))) s3
      = Inl Bad_pointer"
    using add_argument_address_overflow [OF assms(1)] assms(2,3) by simp
  then show ?thesis by (simp only: bnd_simps)
next
  case True
  let ?P = "replicate (padding ts) 0 @ strings (rev ts)"
  have h: "holds s3 base ((replicate 4 0 @ replicate (padding ts) 0) @ strings (rev ts) @ [])"
    using assms(1) by (simp only: inside_def)
  obtain s4 where s4: "add_argument_address (length (rev ts))
      (base - of_nat (length (strings (rev ts) @ []))) s3 = Inr s4"
    "holds s4 base (concat (map bytes32 (rev (addresses base 0 (rev ts)))) @ replicate 4 0 @ ?P)"
    using add_argument_address_holds [OF h] assms(3) True by auto
  then have "inside s4 base (concat (map bytes32 (rev (addresses base 0 (rev ts)))) @ replicate 4 0 @ ?P)"
    using assms(1) add_argument_address_umem by (auto simp: inside_def)
  from last_pushes_overflow [OF this] show ?thesis
    unfolding s4(1) bnd_simps using True assms(4) by (simp add: args_size_def)
qed

text \<open>The strings with their padding fit: then a later store does not.\<close>

lemma null_overflow:
  assumes i2: "inside s2 base (replicate (padding ts) 0 @ strings (rev ts))"
    and nn: "\<forall>t \<in> set (rev ts). no_nul t" and n: "nat (num_args s2) = length (rev ts)" and "4096 < args_size ts"
  shows "bnd (add_null_char s2) (\<lambda>s3.
      bnd (add_argument_address (nat (num_args s3)) (base - of_nat (length (strings (rev ts) @ []))) s3) (\<lambda>s4.
      bnd (add_char_pointers s4) (\<lambda>s5. bnd (add_number_of_arguments s5) add_return_address))) = Inl Bad_pointer"
proof -
  let ?P = "replicate (padding ts) 0 @ strings (rev ts)"
  have h: "holds s2 base ?P" using i2 by (simp add: inside_def)
  show ?thesis
  proof (cases "4 + length ?P \<le> 4096")
    case False
    moreover have "length ?P \<le> 4096" using h by (simp add: holds_def stk_def)
    ultimately have "add_null_char s2 = Inl Bad_pointer" by (intro add_null_char_overflow [OF i2]) simp_all
    then show ?thesis by (simp only: bnd_simps)
  next
    case N: True
    obtain s3 where s3: "add_null_char s2 = Inr s3" "num_args s3 = num_args s2" "holds s3 base (replicate 4 0 @ ?P)"
      using add_null_char_holds [OF h N] by auto
    have i3: "inside s3 base ((replicate 4 0 @ replicate (padding ts) 0) @ strings (rev ts) @ [])"
      using s3(1,3) add_null_char_umem i2 by (auto simp: inside_def)
    show ?thesis unfolding s3(1) bnd_simps s3(2) n using N nn assms(4) by (intro vector_overflow [OF i3]) simp_all
  qed
qed

text \<open>
  C37: The argument page is not protected. If the arguments of a command line (of at most a page, as
  \<^verbatim>\<open>process_execute\<close> copies it) need more than 4096 bytes on the stack and only the one page is
  mapped below \<^verbatim>\<open>PHYS_BASE\<close>, then \<^verbatim>\<open>set_arguments_into_stack\<close> always runs into a store below the
  page: a page fault in kernel mode, which \<^verbatim>\<open>page_fault\<close> turns into a kernel panic.
\<close>
theorem set_arguments_into_stack_overflow:
  assumes "strtok_r '' '' cmd = Some (k, f, rest)" and "ts = tokens '' '' cmd"
    and "zero_page base m" and "only_page base m" and "no_nul cmd"
    and "length cmd \<le> 4095" and "4096 < args_size ts"
  shows "set_arguments_into_stack (Some f) rest base m = Inl Bad_pointer"
proof -
  have ts: "f # tokens '' '' rest = ts" using assms(1,2) by (simp add: tokens_Some)
  have sub: "set (concat ts) \<subseteq> set cmd" unfolding assms(2) concat_tokens by auto
  then have nn: "\<forall>t\<in>set (rev ts). no_nul t" using assms(5) by (auto simp: no_nul_def)
  have b: "length ts \<le> 4095" "length (strings ts) \<le> 8190"
    using length_tokens(1) [of "'' ''" cmd] length_tokens(2) [of "'' ''" cmd] assms(2,6) by simp_all
  let ?s0 = "\<lparr>total_length = 0, stack_pointer = base, num_args = 0, umem = m\<rparr>"
  let ?S = "strings (rev ts)"
  have i0: "inside ?s0 base []"
    using assms(3,4) by (simp add: inside_def holds_def stk_def zero_page_def)
  then have h0: "holds ?s0 base []" by (simp add: inside_def)
  note unf = set_arguments_into_stack_def option.case ts Let_def
  show ?thesis
  proof (cases "length ?S \<le> 4096")
    case False
    then have "insert_tokens ts ?s0 = Inl Bad_pointer"
      using insert_tokens_overflow [OF i0, of ts] b by simp
    then show ?thesis unfolding unf by (simp only: bnd_simps)
  next
    case S: True
    obtain s1 where s1: "insert_tokens ts ?s0 = Inr s1" "holds s1 base ?S"
      "total_length s1 = int (length ?S)" "num_args s1 = int (length ts)"
      using insert_tokens_holds [OF h0, of ts] S b by auto
    have i1: "only_page base (umem s1)" using s1(1) insert_tokens_umem i0 by (auto simp: inside_def)
    have p1: "stack_pointer s1 = base - of_nat (length (strings (rev ts) @ []))"
      using s1(2) by (simp add: holds_def)
    let ?P = "replicate (padding ts) 0 @ ?S"
    obtain s2 where s2: "add_word_align s1 = Inr s2" "num_args s2 = num_args s1" "holds s2 base ?P"
      using add_word_align_holds [OF s1(2,3) S] by (auto simp: padding_def)
    have i2: "inside s2 base ?P" using s2(1,3) add_word_align_umem i1 by (auto simp: inside_def)
    have n: "nat (num_args s2) = length (rev ts)" using s2(2) s1(4) by simp
    show ?thesis
      unfolding unf s1(1) bnd_simps s2(1) p1 using nn assms(7) by (intro null_overflow [OF i2 _ n]) simp_all
  qed
qed

definition many_args :: "nat \<Rightarrow> string" where
  "many_args n = join CHR '' '' (replicate n ''x'')"

lemma tokens_many_args: "tokens '' '' (many_args n) = replicate n ''x''"
  unfolding many_args_def by (intro tokens_join) auto

lemma many_args_facts:
  "strtok_r '' '' (many_args (Suc (Suc n))) = Some (0, ''x'', many_args (Suc n))"
  "length (many_args n) \<le> 2 * n" "no_nul (many_args n)"
  "args_size (replicate n ''x'') \<ge> 6 * n"
proof -
  show "strtok_r '' '' (many_args (Suc (Suc n))) = Some (0, ''x'', many_args (Suc n))"
    using strtok_r_token [of "''x''" "'' ''" "CHR '' ''"] by (simp add: many_args_def)
  have "length (join c (replicate n ''x'')) \<le> 2 * n \<and> set (join c (replicate n ''x'')) \<subseteq> {c, CHR ''x''}"
    for c
  proof (induction n)
    case (Suc n)
    then show ?case by (cases n) auto
  qed simp
  from this [of "CHR '' ''"] show "length (many_args n) \<le> 2 * n" "no_nul (many_args n)"
    by (auto simp: many_args_def no_nul_def)
  have "length (strings (replicate n ''x'')) = 2 * n" by (induction n) simp_all
  then show "args_size (replicate n ''x'') \<ge> 6 * n" by (simp add: args_size_def)
qed

theorem set_arguments_into_stack_overflow_witness:
  "set_arguments_into_stack (Some ''x'') (many_args (Suc 1000)) 0xC0000000
     (\<lambda>a. if 0xBFFFF000 \<le> a \<and> a < 0xC0000000 then Some 0 else None) = Inl Bad_pointer"
proof (rule set_arguments_into_stack_overflow)
  show "strtok_r '' '' (many_args (Suc (Suc 1000))) = Some (0, ''x'', many_args (Suc 1000))"
    by (rule many_args_facts(1))
  show "replicate (Suc (Suc 1000)) ''x'' = tokens '' '' (many_args (Suc (Suc 1000)))"
    by (rule tokens_many_args [symmetric])
  show "zero_page 0xC0000000 (\<lambda>a. if 0xBFFFF000 \<le> a \<and> a < 0xC0000000 then Some 0 else None)"
    by (rule zero_page_sample)
  show "only_page 0xC0000000 (\<lambda>a. if 0xBFFFF000 \<le> a \<and> a < 0xC0000000 then Some 0 else None)"
    unfolding only_page_def
  proof (intro allI impI)
    fix j :: nat assume j: "4096 < j \<and> j \<le> 65536"
    then have "unat (0xC0000000 - of_nat j :: 32 word) = 0xC0000000 - j"
      by (simp add: unat_sub_if_size unat_of_nat take_bit_eq_mod size_word_def)
    then show "(if 0xBFFFF000 \<le> (0xC0000000 - of_nat j :: 32 word) \<and> 0xC0000000 - of_nat j < (0xC0000000 :: 32 word)
        then Some (0 :: 8 word) else None) = None"
      using j by (simp add: word_le_nat_alt word_less_nat_alt) linarith
  qed
  show "no_nul (many_args (Suc (Suc 1000)))" by (rule many_args_facts(3))
  show "length (many_args (Suc (Suc 1000))) \<le> 4095"
    using many_args_facts(2) [of "Suc (Suc 1000)"] by simp
  show "4096 < args_size (replicate (Suc (Suc 1000)) ''x'')"
    using many_args_facts(4) [of "Suc (Suc 1000)"] by simp
qed

end
