(* ===== verification/Loader_Safety.thy ===== *)
theory Loader_Safety
  imports Elf_Loader Arg_Overflow
begin

section \<open>The loader is safe for every file\<close>

text \<open>
  What \<^verbatim>\<open>validate_segment\<close> buys: no page outside the user part of the address space is mapped, whatever
  bytes the executable contains; that no \<^verbatim>\<open>ASSERT\<close> of \<^verbatim>\<open>load_segment\<close> fails and a load faults on its
  command line only, never on the file; that \<^verbatim>\<open>load_segment\<close> fills memory as its comment says; and that
  no kernel page is lost.
\<close>

subsection \<open>Geometry of a valid segment\<close>

definition sys_ok :: "'f sys \<Rightarrow> bool" where
  "sys_ok sys \<longleftrightarrow> unat (phys_base sys) mod 4096 = 0 \<and> 8192 \<le> unat (phys_base sys) \<and>
     (\<forall>f. 0 \<le> file_length sys f \<and> file_length sys f < 2147483648)"

lemma unat_add_word: "unat a + unat b < 4294967296 \<Longrightarrow> unat (a + b) = unat a + unat b"
  for a b :: "32 word"
  by (simp add: unat_word_ariths)

lemma unat_sub_word: "unat b \<le> unat a \<Longrightarrow> unat (a - b) = unat a - unat b" for a b :: "32 word"
  by (simp add: unat_sub word_le_nat_alt)

lemma unat_ROUND_UP:
  "unat x + 4095 < 4294967296 \<Longrightarrow> unat (ROUND_UP x) = (unat x + 4095) div 4096 * 4096"
proof -
  assume a: "unat x + 4095 < 4294967296"
  have e: "x + 4096 - 1 = x + 4095" by simp
  have "unat (x + 4095) = unat x + 4095" using unat_add_word [of x 4095] a by simp
  then have d: "unat ((x + 4096 - 1) div 4096) = (unat x + 4095) div 4096"
    unfolding e by (simp add: unat_div)
  have "(unat x + 4095) div 4096 * 4096 \<le> unat x + 4095" by simp
  then have "unat ((x + 4096 - 1) div 4096 * 4096) = (unat x + 4095) div 4096 * 4096"
    using a d by (simp add: unat_word_ariths)
  then show ?thesis by (simp only: ROUND_UP_def)
qed

lemma round_up_ge: "x \<le> (x + 4095) div 4096 * (4096 :: nat)"
proof -
  have "(x + 4095) div 4096 * 4096 + (x + 4095) mod 4096 = x + 4095" by (rule div_mult_mod_eq)
  moreover have "(x + 4095) mod 4096 < 4096" by simp
  ultimately show ?thesis by linarith
qed

lemma page_fit:
  assumes "4096 * d + n < 4096 * (q :: nat)"
  shows "4096 * d + (n + 4095) div 4096 * 4096 \<le> 4096 * q"
proof -
  have "d < q" using assms by linarith
  have "n + 4095 < (q - d + 1) * 4096" using assms \<open>d < q\<close> by (simp add: algebra_simps)
  then have "(n + 4095) div 4096 < q - d + 1" by (rule less_mult_imp_div_less)
  then show ?thesis using \<open>d < q\<close> by linarith
qed

lemma word32_bound: "unat (w :: 32 word) < 4294967296"
  using unsigned_less [of w] by simp

text \<open>
  The addresses \<^verbatim>\<open>load\<close> computes for a valid segment, as natural numbers: \<open>n\<close> pages from the page
  of \<^verbatim>\<open>p_vaddr\<close> on, all in user space, of which the first \<open>r\<close> bytes are read.
\<close>

lemma segment_geometry:
  assumes "sys_ok sys" and "validate_segment sys ph f"
  defines "off \<equiv> p_vaddr ph AND 0xFFF"
  defines "R \<equiv> ROUND_UP (off + p_memsz ph)"
  shows "unat (p_vaddr ph AND NOT 0xFFF) mod 4096 = 0"
    and "4096 \<le> unat (p_vaddr ph AND NOT 0xFFF)"
    and "unat (p_vaddr ph AND NOT 0xFFF) + unat R \<le> unat (phys_base sys)"
    and "unat R mod 4096 = 0"
    and "unat (off + p_filesz ph) = unat off + unat (p_filesz ph)"
    and "unat (off + p_filesz ph) \<le> unat R"
    and "unat (p_offset ph AND NOT 0xFFF) mod 4096 = 0"
    and "p_offset ph < 0x80000000"
proof -
  have "\<not> p_offset ph > word_of_int (file_length sys f)" "\<not> p_memsz ph < p_filesz ph"
    "p_vaddr ph + p_memsz ph < phys_base sys" "\<not> p_vaddr ph + p_memsz ph < p_vaddr ph"
    "\<not> p_vaddr ph < 4096"
    using assms(2) unfolding validate_segment_def is_user_vaddr_def by (auto split: if_splits)
  then have len: "p_offset ph \<le> word_of_int (file_length sys f)"
    and fm: "unat (p_filesz ph) \<le> unat (p_memsz ph)"
    and top: "unat (p_vaddr ph + p_memsz ph) < unat (phys_base sys)"
    and nowrap: "unat (p_vaddr ph) \<le> unat (p_vaddr ph + p_memsz ph)"
    and low: "4096 \<le> unat (p_vaddr ph)"
    by (simp_all add: word_le_nat_alt word_less_nat_alt not_less)
  have P: "unat (phys_base sys) mod 4096 = 0" "unat (phys_base sys) < 4294967296"
    using assms(1) word32_bound by (auto simp: sys_ok_def)
  have sum: "unat (p_vaddr ph + p_memsz ph) = unat (p_vaddr ph) + unat (p_memsz ph)"
  proof (rule unat_add_word, rule ccontr)
    assume "\<not> unat (p_vaddr ph) + unat (p_memsz ph) < 4294967296"
    then have "unat (p_vaddr ph + p_memsz ph) = unat (p_vaddr ph) + unat (p_memsz ph) - 4294967296"
      using word32_bound [of "p_vaddr ph"] word32_bound [of "p_memsz ph"]
      by (simp add: unat_word_ariths mod_if)
    then show False using nowrap word32_bound [of "p_memsz ph"] low by linarith
  qed
  let ?v = "unat (p_vaddr ph)" and ?m = "unat (p_memsz ph)"
  have off: "unat off = ?v mod 4096" by (simp add: off_def unat_and_4095)
  have vm: "?v + ?m < unat (phys_base sys)" using top sum by simp
  have o: "unat off \<le> ?v" using off by simp
  have om: "unat (off + p_memsz ph) = unat off + ?m"
    using vm P(2) o by (intro unat_add_word) linarith
  obtain q where q: "unat (phys_base sys) = 4096 * q" using P(1) by auto
  then have q_le: "q \<le> 1048575" using P(2) by simp
  have "unat off + ?m + 4095 < 4294967296" using vm o q q_le by linarith
  then have R: "unat R = (unat off + ?m + 4095) div 4096 * 4096"
    unfolding R_def using om by (simp add: unat_ROUND_UP)
  let ?d = "?v div 4096"
  have v: "?v = 4096 * ?d + ?v mod 4096" by simp
  have page: "unat (p_vaddr ph AND NOT 0xFFF) = 4096 * ?d"
    unfolding unat_and_not_4095 by (simp add: minus_mod_eq_mult_div)
  show "unat (p_vaddr ph AND NOT 0xFFF) mod 4096 = 0" unfolding page by simp
  have "1 \<le> ?d" using div_le_mono [OF low, of 4096] by simp
  then show "4096 \<le> unat (p_vaddr ph AND NOT 0xFFF)" unfolding page by simp
  show "unat R mod 4096 = 0" unfolding R by simp
  show "unat (p_vaddr ph AND NOT 0xFFF) + unat R \<le> unat (phys_base sys)"
    unfolding page R off q by (rule page_fit) (use vm v in \<open>unfold q, linarith\<close>)
  show of: "unat (off + p_filesz ph) = unat off + unat (p_filesz ph)"
    using vm P(2) o fm by (intro unat_add_word) linarith
  show "unat (off + p_filesz ph) \<le> unat R" unfolding of R using fm round_up_ge [of "unat off + ?m"] by linarith
  show "unat (p_offset ph AND NOT 0xFFF) mod 4096 = 0"
    unfolding unat_and_not_4095 by (simp add: minus_mod_eq_mult_div)
  have "0 \<le> file_length sys f" "file_length sys f < 2147483648" using assms(1) by (auto simp: sys_ok_def)
  then have "unat (word_of_int (file_length sys f) :: 32 word) < 2147483648"
    by (simp add: unat_eq_nat_uint uint_word_of_int)
  then show "p_offset ph < 0x80000000" using len by (simp add: word_le_nat_alt word_less_nat_alt)
qed

subsection \<open>No assertion fails\<close>

lemma load_PT_LOAD_eq:
  assumes "sys_ok sys" and "validate_segment sys ph file"
  shows "\<exists>rb zb. load_PT_LOAD sys ph file im =
      Inr (load_pages sys (kpages im) (file_seek sys file (sint (p_offset ph AND NOT 0xFFF)))
        (p_vaddr ph AND NOT 0xFFF) rb zb (p_flags ph AND PF_W \<noteq> 0) im) \<and>
    unat rb = (if p_filesz ph = 0 then 0 else unat (p_vaddr ph) mod 4096 + unat (p_filesz ph)) \<and>
    (unat rb + unat zb) mod 4096 = 0 \<and>
    unat (p_vaddr ph AND NOT 0xFFF) + (unat rb + unat zb) \<le> unat (phys_base sys)"
proof -
  note g = segment_geometry [OF assms]
  let ?off = "p_vaddr ph AND 0xFFF" and ?up = "p_vaddr ph AND NOT 0xFFF"
  let ?R = "ROUND_UP (?off + p_memsz ph)"
  let ?rb = "if p_filesz ph > 0 then ?off + p_filesz ph else 0"
  let ?zb = "if p_filesz ph > 0 then ?R - (?off + p_filesz ph) else ?R"
  have sum: "?rb + ?zb = ?R" by simp
  have up: "?up AND 0xFFF = 0" using g(1) unat_and_4095 [of ?up] by (simp add: unat_eq_0)
  have a: "(?rb + ?zb) mod 4096 = 0" "(p_offset ph AND NOT 0xFFF) mod 4096 = 0"
    unfolding sum word_mod_4096 using g(4,7) by blast+
  have "load_PT_LOAD sys ph file im = load_segment sys file (p_offset ph AND NOT 0xFFF) ?up ?rb ?zb
      (p_flags ph AND PF_W \<noteq> 0) im"
    using assms(2) by (simp add: load_PT_LOAD_def Let_def del: word_not_simps)
  also have "\<dots> = Inr (load_pages sys (kpages im) (file_seek sys file (sint (p_offset ph AND NOT 0xFFF)))
        ?up ?rb ?zb (p_flags ph AND PF_W \<noteq> 0) im)"
    unfolding load_segment_def a up by (simp only: bnd_assert simp_thms if_True)
  finally have eq: "load_PT_LOAD sys ph file im = Inr (load_pages sys (kpages im)
      (file_seek sys file (sint (p_offset ph AND NOT 0xFFF))) ?up ?rb ?zb (p_flags ph AND PF_W \<noteq> 0) im)" .
  have rb: "unat ?rb = (if p_filesz ph = 0 then 0 else unat (p_vaddr ph) mod 4096 + unat (p_filesz ph))"
    using g(5) by (simp add: unat_and_4095 word_greater_zero_iff)
  have "unat ?rb + unat ?zb = unat ?R" using g(6) by (simp add: unat_sub_word)
  with eq rb g(3,4) show ?thesis by (intro exI [of _ ?rb] exI [of _ ?zb]) presburger
qed

lemma load_PT_LOAD_returns:
  assumes "sys_ok sys"
  shows "\<exists>r. load_PT_LOAD sys ph f im = Inr r"
proof (cases "validate_segment sys ph f")
  case True
  then show ?thesis using load_PT_LOAD_eq [OF assms True, of im] by blast
next
  case False
  then have "load_PT_LOAD sys ph f im = Inr (False, f, im)" by (simp add: load_PT_LOAD_def)
  then show ?thesis by blast
qed

lemma load_headers_returns:
  assumes "sys_ok sys"
  shows "ok (load_headers sys n fo f im)"
proof (induction n arbitrary: fo f im)
  case 0
  show ?case by simp
next
  case (Suc n)
  let ?r = "file_read sys (file_seek sys f fo) 32"
  obtain x f2 im2 where pt: "load_PT_LOAD sys (phdr_of (fst ?r)) (snd ?r) im = Inr (x, f2, im2)"
    using load_PT_LOAD_returns [OF assms] by (metis prod.exhaust)
  have ok_if: "ok (if c then a else b) = (if c then ok a else ok b)" for c and a b :: "'b result" by simp
  show ?case
    unfolding load_headers.simps Let_def case_prod_beta pt bnd_simps fst_conv snd_conv ok_if
    by (simp only: Suc.IH ok_simps if_cancel)
qed

subsection \<open>Where pages go\<close>

text \<open>\<open>user_only\<close>: only user addresses above page 0 are mapped. \<open>pages_of\<close>: every kernel page seen.\<close>

definition user_only :: "'f sys \<Rightarrow> 'f image \<Rightarrow> bool" where
  "user_only sys im \<longleftrightarrow>
     (\<forall>a. space im a \<noteq> None \<longrightarrow> 4096 \<le> unat a \<and> unat a < unat (phys_base sys))"

definition pages_of :: "'f image \<Rightarrow> 32 word multiset" where
  "pages_of im = filter_mset (\<lambda>k. k \<noteq> 0) (mset (kpages im)) + mset (map snd (installed im)) + mset (freed im)"

lemma round_numbers:
  fixes rb zb :: "32 word"
  assumes "rb > 0 \<or> zb > 0" and "(unat rb + unat zb) mod 4096 = 0"
  defines "pr \<equiv> if rb < 4096 then rb else 4096"
  shows "unat pr \<le> 4096" and "unat (4096 - pr) = 4096 - unat pr"
    and "unat (rb - pr) = unat rb - unat pr" and "unat (zb - (4096 - pr)) = unat zb - (4096 - unat pr)"
    and "unat pr = min (unat rb) 4096" and "4096 - unat pr \<le> unat zb"
    and "4096 \<le> unat rb + unat zb"
proof -
  show m: "unat pr = min (unat rb) 4096" by (simp add: pr_def word_less_nat_alt min_def)
  then show le: "unat pr \<le> 4096" by simp
  have "0 < unat rb + unat zb" using assms(1) by (auto simp: word_less_nat_alt)
  then show ge: "4096 \<le> unat rb + unat zb" using assms(2) by (auto elim!: dvdE simp: mod_eq_0_iff_dvd)
  show z: "4096 - unat pr \<le> unat zb" using m ge by (simp add: min_def split: if_splits)
  show pz: "unat (4096 - pr) = 4096 - unat pr" using unat_sub_word [of pr 4096] le by simp
  show "unat (rb - pr) = unat rb - unat pr" using m by (intro unat_sub_word) simp
  show "unat (zb - (4096 - pr)) = unat zb - (4096 - unat pr)"
    using unat_sub_word [of "4096 - pr" zb] z unfolding pz by simp
qed

lemma user_only_upd [simp]:
  "user_only sys (im\<lparr>kpages := ks\<rparr>) = user_only sys im"
  "user_only sys (palloc_free_page k im) = user_only sys im"
  "user_only sys (im\<lparr>file_ops := fo\<rparr>) = user_only sys im"
  by (simp_all add: user_only_def palloc_free_page_def)

lemma install_page_user_only:
  assumes "install_page sys up k bs w im = (okay, im')" and "user_only sys im" and "length bs = 4096"
    and "4096 \<le> unat up" and "unat up + 4096 \<le> unat (phys_base sys)"
  shows "user_only sys im'"
proof (cases okay)
  case False
  then show ?thesis using assms(1,2) by (auto simp: install_page_def split: if_splits)
next
  case True
  then have im': "space im' = page_bytes up bs (space im)" using assms(1)
    by (auto simp: install_page_def split: if_splits)
  show ?thesis
    unfolding user_only_def im'
  proof (intro allI impI)
    fix a assume a: "page_bytes up bs (space im) a \<noteq> None"
    show "4096 \<le> unat a \<and> unat a < unat (phys_base sys)"
    proof (cases "unat (a - up) < 4096")
      case True
      have "unat up + unat (a - up) < 4294967296"
        using True assms(5) word32_bound [of "phys_base sys"] by linarith
      then have "unat (up + (a - up)) = unat up + unat (a - up)" by (rule unat_add_word)
      then have "unat a = unat up + unat (a - up)" by simp
      then show ?thesis using True assms(4,5) by linarith
    next
      case False
      then show ?thesis using a assms(2,3) by (auto simp: page_bytes_def user_only_def)
    qed
  qed
qed

lemma install_page_pages_of:
  "install_page sys up k bs w im = (okay, im') \<Longrightarrow>
   pages_of im' = (if okay then add_mset k (pages_of im) else pages_of im) \<and> kpages im' = kpages im"
  by (auto simp: install_page_def pages_of_def split: if_splits)

lemma pages_of_upd [simp]:
  "pages_of (palloc_free_page k im) = add_mset k (pages_of im)" "pages_of (im\<lparr>file_ops := fo\<rparr>) = pages_of im"
  by (simp_all add: pages_of_def palloc_free_page_def)

lemma pages_of_kpages:
  "pages_of (im\<lparr>kpages := ks\<rparr>) + filter_mset (\<lambda>k. k \<noteq> 0) (mset (kpages im))
   = pages_of im + filter_mset (\<lambda>k. k \<noteq> 0) (mset ks)"
  by (simp add: pages_of_def ac_simps)

lemma load_pages_safe:
  assumes "load_pages sys ks f up rb zb w im = (okay, f', im')" and "kpages im = ks"
    and "(unat rb + unat zb) mod 4096 = 0" and "4096 \<le> unat up"
    and "unat up + (unat rb + unat zb) \<le> unat (phys_base sys)" and "user_only sys im"
  shows "user_only sys im' \<and> pages_of im' = pages_of im"
  using assms
proof (induction ks arbitrary: f up rb zb im)
  case Nil
  then have "im' = im" by (auto simp: load_pages.simps [of _ "[]"] Let_def split: if_splits)
  then show ?case using Nil by simp
next
  case (Cons k ks)
  note simps = load_pages.simps [of sys "k # ks" f up rb zb w im]
  have im: "im\<lparr>kpages := k # ks\<rparr> = im" using Cons.prems(2) by simp
  show ?case
  proof (cases "rb > 0 \<or> zb > 0")
    case False
    then have "im' = im" using Cons.prems(1) im unfolding simps by simp
    then show ?thesis using Cons.prems(6) by simp
  next
    case True
    define pr where "pr = (if rb < 4096 then rb else 4096)"
    note n = round_numbers [OF True Cons.prems(3), folded pr_def]
    let ?im1 = "im\<lparr>kpages := ks\<rparr>"
    obtain bs f1 where rd: "file_read sys f (unat pr) = (bs, f1)" by fastforce
    let ?c = "bs @ replicate (unat (4096 - pr)) 0"
    obtain okay1 im1 where ins: "install_page sys up k ?c w ?im1 = (okay1, im1)" by fastforce
    have step: "load_pages sys (k # ks) f up rb zb w im =
        (if k = 0 then (False, f, ?im1)
         else if length bs \<noteq> unat pr then (False, f1, palloc_free_page k ?im1)
         else if \<not> okay1 then (False, f1, palloc_free_page k im1)
         else load_pages sys ks f1 (up + 4096) (rb - pr) (zb - (4096 - pr)) w im1)"
      using True unfolding simps Let_def pr_def [symmetric] list.case rd prod.case ins by simp
    have p1: "pages_of im = (if k = 0 then pages_of ?im1 else add_mset k (pages_of ?im1))"
      using Cons.prems(2) by (simp add: pages_of_def)
    show ?thesis
    proof (cases "k = 0 \<or> length bs \<noteq> unat pr")
      case True
      then show ?thesis using Cons.prems(1,6) p1 unfolding step by (auto split: if_splits)
    next
      case False
      then have "length ?c = 4096" using n(1,2) by simp
      moreover have "unat up + 4096 \<le> unat (phys_base sys)" using n(7) Cons.prems(5) by linarith
      ultimately have u1: "user_only sys im1"
        using install_page_user_only [OF ins] Cons.prems(4,6) by simp
      have pg: "pages_of im1 = (if okay1 then add_mset k (pages_of ?im1) else pages_of ?im1)"
        and ks1: "kpages im1 = ks"
        using install_page_pages_of [OF ins] by simp_all
      show ?thesis
      proof (cases okay1)
        case False
        then show ?thesis using Cons.prems(1) p1 pg u1 \<open>\<not> (k = 0 \<or> length bs \<noteq> unat pr)\<close>
          unfolding step by auto
      next
        case True
        have up: "unat (up + 4096) = unat up + 4096"
          using unat_add_word [of up 4096] n(7) Cons.prems(5) word32_bound [of "phys_base sys"] by simp
        have "unat (rb - pr) + unat (zb - (4096 - pr)) = unat rb + unat zb - 4096"
          using n(3-6) by linarith
        then have "(unat (rb - pr) + unat (zb - (4096 - pr))) mod 4096 = 0"
          and "unat (up + 4096) + (unat (rb - pr) + unat (zb - (4096 - pr))) \<le> unat (phys_base sys)"
          using Cons.prems(3,5) n(7) up by (simp_all add: mod_eq_0_iff_dvd dvd_diff_nat)
        then have "user_only sys im' \<and> pages_of im' = pages_of im1"
          using Cons.IH [of f1 "up + 4096" "rb - pr" "zb - (4096 - pr)" im1] Cons.prems(1,4) ks1 up u1
            True \<open>\<not> (k = 0 \<or> length bs \<noteq> unat pr)\<close> unfolding step by simp
        then show ?thesis using pg p1 True \<open>\<not> (k = 0 \<or> length bs \<noteq> unat pr)\<close> by simp
      qed
    qed
  qed
qed

lemma load_PT_LOAD_safe:
  assumes "sys_ok sys" and "user_only sys im" and "load_PT_LOAD sys ph f im = Inr (okay, f', im')"
  shows "user_only sys im' \<and> pages_of im' = pages_of im"
proof (cases "validate_segment sys ph f")
  case False
  then show ?thesis using assms(2,3) by (simp add: load_PT_LOAD_def)
next
  case True
  let ?up = "p_vaddr ph AND NOT 0xFFF"
  obtain rb zb where eq: "load_PT_LOAD sys ph f im =
      Inr (load_pages sys (kpages im) (file_seek sys f (sint (p_offset ph AND NOT 0xFFF))) ?up rb zb
        (p_flags ph AND PF_W \<noteq> 0) im)"
    and m: "(unat rb + unat zb) mod 4096 = 0" and b: "unat ?up + (unat rb + unat zb) \<le> unat (phys_base sys)"
    using load_PT_LOAD_eq [OF assms(1) True, of im] by (elim exE conjE) (rule that)
  have "load_pages sys (kpages im) (file_seek sys f (sint (p_offset ph AND NOT 0xFFF))) ?up rb zb
      (p_flags ph AND PF_W \<noteq> 0) im = (okay, f', im')"
    using assms(3) unfolding eq by (rule sum.inject(2) [THEN iffD1])
  from load_pages_safe [OF this refl m segment_geometry(2) [OF assms(1) True] b assms(2)]
  show ?thesis .
qed

lemma load_headers_safe:
  assumes "sys_ok sys" and "user_only sys im" and "load_headers sys n fo f im = Inr (okay, f', im')"
  shows "user_only sys im' \<and> pages_of im' = pages_of im"
  using assms(2,3)
proof (induction n arbitrary: fo f im)
  case (Suc n)
  let ?r = "file_read sys (file_seek sys f fo) 32"
  obtain x f2 im2 where pt: "load_PT_LOAD sys (phdr_of (fst ?r)) (snd ?r) im = Inr (x, f2, im2)"
    using load_PT_LOAD_returns [OF assms(1)] by (metis prod.exhaust)
  note safe = load_PT_LOAD_safe [OF assms(1) Suc.prems(1) pt]
  consider "im' = im" | "im' = im2"
    | "\<exists>fo'. load_headers sys n fo' f2 im2 = Inr (okay, f', im')"
    | "\<exists>fo'. load_headers sys n fo' (snd ?r) im = Inr (okay, f', im')"
    using Suc.prems(2) unfolding load_headers.simps Let_def case_prod_beta pt bnd_simps fst_conv snd_conv
    by (auto split: if_splits)
  then show ?case
  proof cases
    case 1
    then show ?thesis using Suc.prems(1) by simp
  next
    case 2
    then show ?thesis using safe by simp
  next
    case 3
    then obtain fo' where "load_headers sys n fo' f2 im2 = Inr (okay, f', im')" by blast
    from Suc.IH [OF _ this] show ?thesis using safe by simp
  next
    case 4
    then obtain fo' where "load_headers sys n fo' (snd ?r) im = Inr (okay, f', im')" by blast
    from Suc.IH [OF Suc.prems(1) this] show ?thesis .
  qed
qed simp

lemma setup_stack_safe:
  assumes "sys_ok sys" and "user_only sys im" and "setup_stack sys im = (sp, im')"
  shows "user_only sys im' \<and> pages_of im' = pages_of im"
proof -
  have up: "unat (phys_base sys - 4096) = unat (phys_base sys) - 4096"
    using assms(1) unat_sub_word [of 4096 "phys_base sys"] by (simp add: sys_ok_def)
  obtain k im1 where pa: "palloc_get_page im = (k, im1)" by fastforce
  have u1: "user_only sys im1" using pa assms(2)
    by (auto simp: palloc_get_page_def user_only_def split: list.splits)
  have p1: "pages_of im = (if k = 0 then pages_of im1 else add_mset k (pages_of im1))"
    using pa by (auto simp: palloc_get_page_def pages_of_def split: list.splits)
  obtain okay im2 where ins: "install_page sys (phys_base sys - 4096) k (replicate 4096 0) True im1 = (okay, im2)"
    by fastforce
  have "user_only sys im2"
  proof (rule install_page_user_only [OF ins u1])
    have "8192 \<le> unat (phys_base sys)" using assms(1) by (simp add: sys_ok_def)
    then show "4096 \<le> unat (phys_base sys - 4096)"
      "unat (phys_base sys - 4096) + 4096 \<le> unat (phys_base sys)"
      unfolding up by linarith+
  qed simp
  moreover have "pages_of im2 = (if okay then add_mset k (pages_of im1) else pages_of im1)"
    using install_page_pages_of [OF ins] by simp
  ultimately show ?thesis
    using assms(3) p1 u1 unfolding setup_stack_def Let_def pa prod.case ins by (auto split: if_splits)
qed

lemma store_bytes_error: "store_bytes a bs m = Inl e \<Longrightarrow> e = Bad_pointer"
  by (induction bs arbitrary: a m) (auto split: if_splits)

lemma string_at_error: "string_at n m a = Inl e \<Longrightarrow> e = Bad_pointer"
proof (induction n arbitrary: a)
  case (Suc n)
  then show ?case by (cases "string_at n m (a + 1)") (auto split: option.splits if_splits)
qed simp

lemma bnd_eq_Inl: "bnd m f = Inl e \<longleftrightarrow> m = Inl e \<or> (\<exists>x. m = Inr x \<and> f x = Inl e)"
  by (cases m) auto

lemma arg_steps_error:
  "insert_tokens ts st = Inl e \<Longrightarrow> e = Bad_pointer"
  "add_argument_address n p st = Inl e \<Longrightarrow> e = Bad_pointer"
  "push32 v st = Inl e \<Longrightarrow> e = Bad_pointer"
  "add_word_align st = Inl e \<Longrightarrow> e = Bad_pointer"
  "add_null_char st = Inl e \<Longrightarrow> e = Bad_pointer"
proof -
  show "insert_tokens ts st = Inl e \<Longrightarrow> e = Bad_pointer"
    by (induction ts arbitrary: st)
      (auto simp: bnd_eq_Inl split_and_insert_def Let_def dest: store_bytes_error)
  show "add_argument_address n p st = Inl e \<Longrightarrow> e = Bad_pointer"
    by (induction n arbitrary: p st)
      (auto simp: bnd_eq_Inl store32_def strlen_def Let_def dest: store_bytes_error string_at_error)
  show "push32 v st = Inl e \<Longrightarrow> e = Bad_pointer"
    by (auto simp: push32_def store32_def bnd_eq_Inl Let_def dest: store_bytes_error)
  show "add_word_align st = Inl e \<Longrightarrow> e = Bad_pointer"
    by (auto simp: add_word_align_def bnd_eq_Inl Let_def split: prod.splits if_splits dest: store_bytes_error)
  show "add_null_char st = Inl e \<Longrightarrow> e = Bad_pointer"
    by (auto simp: add_null_char_def bnd_eq_Inl Let_def simp del: store_bytes.simps dest: store_bytes_error)
qed

lemma set_arguments_error:
  "set_arguments_into_stack f r sp m = Inl e \<Longrightarrow> e = Bad_pointer"
  unfolding set_arguments_into_stack_def Let_def bnd_eq_Inl add_char_pointers_def
    add_number_of_arguments_def add_return_address_def
  by (elim disjE exE conjE) (auto dest: arg_steps_error)

lemma arg_steps_dom:
  "split_and_insert t st = Inr st' \<Longrightarrow> umem st' c = None \<longleftrightarrow> umem st c = None"
  "add_word_align st = Inr st' \<Longrightarrow> umem st' c = None \<longleftrightarrow> umem st c = None"
  "add_null_char st = Inr st' \<Longrightarrow> umem st' c = None \<longleftrightarrow> umem st c = None"
  "push32 v st = Inr st' \<Longrightarrow> umem st' c = None \<longleftrightarrow> umem st c = None"
proof -
  show "split_and_insert t st = Inr st' \<Longrightarrow> umem st' c = None \<longleftrightarrow> umem st c = None"
    by (auto simp: split_and_insert_def Let_def bnd_eq_Inr dest: store_bytes_dom)
  show "add_word_align st = Inr st' \<Longrightarrow> umem st' c = None \<longleftrightarrow> umem st c = None"
    by (auto simp: add_word_align_def Let_def bnd_eq_Inr split: prod.splits if_splits dest: store_bytes_dom)
  show "add_null_char st = Inr st' \<Longrightarrow> umem st' c = None \<longleftrightarrow> umem st c = None"
    by (auto simp: add_null_char_def Let_def bnd_eq_Inr simp del: store_bytes.simps dest: store_bytes_dom)
  show "push32 v st = Inr st' \<Longrightarrow> umem st' c = None \<longleftrightarrow> umem st c = None"
    by (auto simp: push32_def store32_def Let_def bnd_eq_Inr dest: store_bytes_dom)
qed

lemma arg_loops_dom:
  "insert_tokens ts st = Inr st' \<Longrightarrow> umem st' c = None \<longleftrightarrow> umem st c = None"
  "add_argument_address n p st = Inr st' \<Longrightarrow> umem st' c = None \<longleftrightarrow> umem st c = None"
proof -
  show "insert_tokens ts st = Inr st' \<Longrightarrow> umem st' c = None \<longleftrightarrow> umem st c = None"
    by (induction ts arbitrary: st) (auto simp: bnd_eq_Inr dest: arg_steps_dom)
  show "add_argument_address n p st = Inr st' \<Longrightarrow> umem st' c = None \<longleftrightarrow> umem st c = None"
  proof (induction n arbitrary: p st)
    case (Suc n)
    then obtain m l where m: "store32 (stack_pointer st - 4) p (umem st) = Inr m"
      "add_argument_address n (p + word_of_int (l + 1))
        (st\<lparr>stack_pointer := stack_pointer st - 4, umem := m\<rparr>) = Inr st'"
      by (auto simp: Let_def bnd_eq_Inr)
    from Suc.IH [OF m(2)] m(1) show ?case by (simp add: store32_def store_bytes_dom)
  qed simp
qed

lemma set_arguments_dom:
  assumes "set_arguments_into_stack f r sp m = Inr (sp', m')"
  shows "m' c = None \<longleftrightarrow> m c = None"
proof -
  obtain s1 s2 s3 s4 s5 s6 s7 ts where s:
    "insert_tokens ts \<lparr>total_length = 0, stack_pointer = sp, num_args = 0, umem = m\<rparr> = Inr s1"
    "add_word_align s1 = Inr s2" "add_null_char s2 = Inr s3"
    "add_argument_address (nat (num_args s3)) (stack_pointer s1) s3 = Inr s4"
    "push32 (stack_pointer s4) s4 = Inr s5" "push32 (word_of_int (num_args s5)) s5 = Inr s6"
    "push32 0 s6 = Inr s7" "m' = umem s7"
    using assms unfolding set_arguments_into_stack_def Let_def bnd_eq_Inr add_char_pointers_def
      add_number_of_arguments_def add_return_address_def by blast
  show ?thesis
    unfolding s(8) arg_steps_dom(4) [OF s(7)] arg_steps_dom(4) [OF s(6)] arg_steps_dom(4) [OF s(5)]
      arg_loops_dom(2) [OF s(4)] arg_steps_dom(3) [OF s(3)] arg_steps_dom(2) [OF s(2)]
      arg_loops_dom(1) [OF s(1)] by simp
qed

subsection \<open>Loading any file is safe\<close>

fun result_image :: "'f load_result \<Rightarrow> 'f image" where
  "result_image (Load_failed im) = im"
| "result_image (Load_succeeded e sp im) = im"

lemma ok_not_Inl: "ok r \<Longrightarrow> r \<noteq> Inl e"
  by (cases r) simp_all

lemma load_done_safe [simp]:
  "user_only sys (result_image (load_done f im)) = user_only sys im"
  "pages_of (result_image (load_done f im)) = pages_of im"
  by (simp_all add: load_done_def user_only_def pages_of_def)

lemma load_stack_safe:
  assumes "sys_ok sys" and "user_only sys im" and "load_stack sys skip fn sv e f im = Inr r"
  shows "user_only sys (result_image r) \<and> pages_of (result_image r) = pages_of im"
proof -
  obtain sp im3 where st: "setup_stack sys im = (sp, im3)" by fastforce
  have args: "user_only sys (im3\<lparr>space := m, loaded_file := g\<rparr>) = user_only sys im3"
    "pages_of (im3\<lparr>space := m, loaded_file := g\<rparr>) = pages_of im3"
    if "set_arguments_into_stack fo sv x (space im3) = Inr (y, m)" for m g fo x y
    using set_arguments_dom [OF that] by (auto simp: user_only_def pages_of_def)
  show ?thesis
    using assms(3) setup_stack_safe [OF assms(1,2) st] unfolding load_stack_def st
    by (auto simp: bnd_eq_Inr args split: option.splits if_splits)
qed

lemma load_file_safe:
  assumes "sys_ok sys" and "user_only sys im" and "load_file sys skip fn sv f im = Inr r"
  shows "user_only sys (result_image r) \<and> pages_of (result_image r) = pages_of im"
proof -
  obtain bs f1 where rd: "file_read sys f 52 = (bs, f1)" by fastforce
  let ?n = "unat (e_phnum (ehdr_of bs))" and ?o = "sint (e_phoff (ehdr_of bs))"
  obtain okay f2 im2 where h: "load_headers sys ?n ?o f1 im = Inr (okay, f2, im2)"
    using load_headers_returns [OF assms(1)] unfolding ok_iff by (metis prod.exhaust)
  show ?thesis
    using assms(2,3) load_stack_safe [OF assms(1), of im2] load_headers_safe [OF assms(1,2) h]
    unfolding load_file_def Let_def rd prod.case h bnd_simps by (auto split: if_splits)
qed

lemma setup_stack_page:
  assumes "sys_ok sys" and "setup_stack sys im = (Some sp, im')"
  shows "sp = phys_base sys" and "zero_page sp (space im')"
proof -
  obtain k im1 where pa: "palloc_get_page im = (k, im1)" by fastforce
  obtain okay im2 where ins: "install_page sys (phys_base sys - 4096) k (replicate 4096 0) True im1 = (okay, im2)"
    by fastforce
  have o: "okay" "im' = im2" "sp = phys_base sys"
    using assms(2) unfolding setup_stack_def Let_def pa prod.case ins by (auto split: if_splits)
  show "sp = phys_base sys" by (rule o(3))
  have "space im2 = page_bytes (phys_base sys - 4096) (replicate 4096 0) (space im1)"
    using ins o(1) by (auto simp: install_page_def split: if_splits)
  moreover have "page_bytes (phys_base sys - 4096) (replicate 4096 0) m (phys_base sys - of_nat j) = Some 0"
    if "1 \<le> j" "j \<le> 4096" for j m
  proof -
    have "phys_base sys - of_nat j - (phys_base sys - 4096) = of_nat (4096 - j)" using that(2) by simp
    then have "unat (phys_base sys - of_nat j - (phys_base sys - 4096)) = 4096 - j"
      by (simp add: unat_of_nat)
    then show ?thesis using that by (simp add: page_bytes_def)
  qed
  ultimately show "zero_page sp (space im')" using o(2,3) by (simp add: zero_page_def)
qed

lemma load_stack_outcome:
  assumes "sys_ok sys" and "\<forall>t \<in> set (fn # tokens '' '' sv). no_nul t"
  shows "load_stack sys skip fn sv e f im = Inl x \<Longrightarrow>
      x = Bad_pointer \<and> 4096 < args_size (fn # tokens '' '' sv) \<or> x = Bad_free \<and> skip \<noteq> 0"
    and "load_stack sys skip fn sv e f im = Inr (Load_succeeded ip sp im') \<Longrightarrow> skip = 0 \<and>
      (args_size (fn # tokens '' '' sv) \<le> 4096 \<longrightarrow> sp = phys_base sys - of_nat (args_size (fn # tokens '' '' sv)))"
proof -
  obtain so im3 where st: "setup_stack sys im = (so, im3)" by fastforce
  have args: "\<exists>m'. set_arguments_into_stack (Some fn) sv b (space im3)
        = Inr (phys_base sys - of_nat (args_size (fn # tokens '' '' sv)), m')"
    if "so = Some b" "args_size (fn # tokens '' '' sv) \<le> 4096" for b
    using set_arguments_into_stack_eq [OF setup_stack_page(2) [OF assms(1) st [unfolded that(1)]] that(2) assms(2)]
      setup_stack_page(1) [OF assms(1) st [unfolded that(1)]] by auto
  show "load_stack sys skip fn sv e f im = Inl x \<Longrightarrow>
      x = Bad_pointer \<and> 4096 < args_size (fn # tokens '' '' sv) \<or> x = Bad_free \<and> skip \<noteq> 0"
    unfolding load_stack_def st using args set_arguments_error
    by (cases "args_size (fn # tokens '' '' sv) \<le> 4096") (fastforce simp: bnd_eq_Inl split: option.splits if_splits)+
  show "load_stack sys skip fn sv e f im = Inr (Load_succeeded ip sp im') \<Longrightarrow> skip = 0 \<and>
      (args_size (fn # tokens '' '' sv) \<le> 4096 \<longrightarrow> sp = phys_base sys - of_nat (args_size (fn # tokens '' '' sv)))"
    unfolding load_stack_def st using args
    by (fastforce simp: bnd_eq_Inr load_done_def split: option.splits if_splits)
qed

lemma load_file_outcome:
  assumes "sys_ok sys" and "\<forall>t \<in> set (fn # tokens '' '' sv). no_nul t"
  shows "load_file sys skip fn sv f im = Inl x \<Longrightarrow>
      x = Bad_pointer \<and> 4096 < args_size (fn # tokens '' '' sv) \<or> x = Bad_free \<and> skip \<noteq> 0"
    and "load_file sys skip fn sv f im = Inr (Load_succeeded ip sp im') \<Longrightarrow> skip = 0 \<and>
      (args_size (fn # tokens '' '' sv) \<le> 4096 \<longrightarrow> sp = phys_base sys - of_nat (args_size (fn # tokens '' '' sv)))"
proof -
  obtain bs f1 where rd: "file_read sys f 52 = (bs, f1)" by fastforce
  obtain okay f2 im2 where h: "load_headers sys (unat (e_phnum (ehdr_of bs))) (sint (e_phoff (ehdr_of bs))) f1 im
      = Inr (okay, f2, im2)"
    using load_headers_returns [OF assms(1)] unfolding ok_iff by (metis prod.exhaust)
  note out = load_stack_outcome [OF assms, of skip "e_entry (ehdr_of bs)" f2 im2]
  show "load_file sys skip fn sv f im = Inl x \<Longrightarrow>
      x = Bad_pointer \<and> 4096 < args_size (fn # tokens '' '' sv) \<or> x = Bad_free \<and> skip \<noteq> 0"
    unfolding load_file_def Let_def rd prod.case h bnd_simps using out(1) by (simp split: if_splits)
  show "load_file sys skip fn sv f im = Inr (Load_succeeded ip sp im') \<Longrightarrow> skip = 0 \<and>
      (args_size (fn # tokens '' '' sv) \<le> 4096 \<longrightarrow> sp = phys_base sys - of_nat (args_size (fn # tokens '' '' sv)))"
    unfolding load_file_def Let_def rd prod.case h bnd_simps using out(2) by (simp add: load_done_def split: if_splits)
qed

lemma strtok_r_skip: "strtok_r d s = Some (n, t, r) \<Longrightarrow> n = 0 \<longleftrightarrow> hd s \<notin> set d"
  by (cases s) (auto simp: strtok_r_def Let_def split: if_splits)

lemma tokens_eq_None: "tokens d s = [] \<longleftrightarrow> strtok_r d s = None"
  by (cases "strtok_r d s") (auto simp: tokens_None tokens_Some)

text \<open>
  C19: Loading faults on the command line, never on the file. Whatever bytes the file, its headers and
  its length consist of, and whatever the allocators do, the only faults of \<^verbatim>\<open>load\<close> are these. It
  uses a null pointer exactly if there is a page directory and either the copy of the name could not be
  allocated or the name has no word in it. It stores outside the stack page only if the arguments need
  more than the page. And it frees a pointer it was never given only if the name begins with a blank. In
  particular no \<^verbatim>\<open>ASSERT\<close> of \<^verbatim>\<open>load_segment\<close> ever fails, and every other command line is either loaded,
  with the stack pointer its words determine, or refused. A name that begins with a blank is never
  loaded.
\<close>
theorem load_faults:
  assumes "sys_ok sys" and "no_nul file_name" and "ts = tokens '' '' file_name"
  shows "(load sys file_name im = Inl e \<longrightarrow>
      e = Null_deref \<or> e = Bad_pointer \<and> 4096 < args_size ts \<or> e = Bad_free \<and> hd file_name = CHR '' '') \<and>
    (load sys file_name im = Inl Null_deref \<longleftrightarrow>
      pagedir_create_ok sys \<and> (\<not> malloc_ok sys (length file_name + 1) \<or> ts = [])) \<and>
    (load sys file_name im = Inr (Load_succeeded ip sp im') \<longrightarrow> ts \<noteq> [] \<and> hd file_name \<noteq> CHR '' '' \<and>
      (args_size ts \<le> 4096 \<longrightarrow> sp = phys_base sys - of_nat (args_size ts)))"
proof -
  have c: "strlcpy file_name (length file_name + 1) = file_name" by (simp add: strlcpy_def)
  then have c': "strlcpy file_name (Suc (length file_name)) = file_name" by simp
  consider (early) "\<not> pagedir_create_ok sys" | (null) "pagedir_create_ok sys"
      "\<not> malloc_ok sys (length file_name + 1) \<or> strtok_r '' '' file_name = None" |
    (file_name) skip fn sv where "pagedir_create_ok sys" "malloc_ok sys (length file_name + 1)"
      "strtok_r '' '' file_name = Some (skip, fn, sv)"
    by (cases "strtok_r '' '' file_name") auto
  then show ?thesis
  proof cases
    case early
    then show ?thesis by (simp add: load_def load_done_def)
  next
    case null
    then have "load sys file_name im = Inl Null_deref" by (auto simp: load_def c')
    then show ?thesis using null assms(3) tokens_eq_None by auto
  next
    case (file_name skip fn sv)
    have ts: "ts = fn # tokens '' '' sv" using file_name(3) assms(3) by (simp add: tokens_Some)
    have "set (concat ts) \<subseteq> set file_name" unfolding assms(3) concat_tokens by auto
    then have nn: "\<forall>t \<in> set (fn # tokens '' '' sv). no_nul t" using assms(2) by (auto simp: no_nul_def ts)
    have skip: "skip = 0 \<longleftrightarrow> hd file_name \<noteq> CHR '' ''" using strtok_r_skip [OF file_name(3)] by simp
    let ?im = "im\<lparr>file_ops := file_ops im @ [Opens fn]\<rparr>"
    have l: "load sys file_name im = (case filesys_open sys fn of None \<Rightarrow> Inr (load_done None ?im)
        | Some f \<Rightarrow> load_file sys skip fn sv f ?im)"
      using file_name by (simp add: load_def c' Let_def)
    show ?thesis
    proof (cases "filesys_open sys fn")
      case None
      then show ?thesis using file_name(2) ts unfolding l by (simp add: load_done_def)
    next
      case (Some f)
      have l: "load sys file_name im = load_file sys skip fn sv f ?im" using l Some by simp
      show ?thesis
        unfolding l ts using load_file_outcome [OF assms(1) nn, of skip f ?im] file_name(2) skip by auto
    qed
  qed
qed

text \<open>
  C4: A process is confined and no page is lost. If only user addresses from 4096 up are mapped
  before \<^verbatim>\<open>load\<close>, the same holds afterwards, whether it succeeds or fails and whatever the file
  says: no segment can map page 0 or a kernel address. And every kernel page that \<^verbatim>\<open>palloc\<close> handed
  out is mapped in the process or has been given back, on every path.
\<close>
theorem load_confines_process:
  assumes "sys_ok sys" and "user_only sys im" and "load sys file_name im = Inr r"
  shows "user_only sys (result_image r) \<and> pages_of (result_image r) = pages_of im"
proof -
  have i: "user_only sys (im\<lparr>file_ops := fo\<rparr>)" for fo using assms(2) by simp
  show ?thesis
    using assms(2,3) load_file_safe [OF assms(1) i]
    by (auto simp: load_def Let_def split: option.splits if_splits)
qed

subsection \<open>\<open>load_segment\<close> does what its comment says\<close>

text \<open>
  The documented behaviour of the file operations: a file is a sequence of bytes and a position;
  \<^verbatim>\<open>file_read\<close> gives the bytes from the position on, at most as many as asked for, and advances.
\<close>

definition files_ok :: "'f sys \<Rightarrow> ('f \<Rightarrow> 8 word list) \<Rightarrow> ('f \<Rightarrow> nat) \<Rightarrow> bool" where
  "files_ok sys contents pos \<longleftrightarrow>
     (\<forall>f n. fst (file_read sys f n) = take n (drop (pos f) (contents f)) \<and>
        contents (snd (file_read sys f n)) = contents f \<and>
        pos (snd (file_read sys f n)) = pos f + length (fst (file_read sys f n))) \<and>
     (\<forall>f i. 0 \<le> i \<longrightarrow> contents (file_seek sys f i) = contents f \<and> pos (file_seek sys f i) = nat i)"

lemma unat_sub_same_page:
  fixes a up :: "32 word"
  assumes "unat a < unat up \<or> unat up + 4096 \<le> unat a" and "unat up + 4096 \<le> 4294967296"
  shows "\<not> unat (a - up) < 4096"
proof
  assume l: "unat (a - up) < 4096"
  then have "unat (up + (a - up)) = unat up + unat (a - up)"
    using assms(2) by (intro unat_add_word) linarith
  then show False using l assms(1) by simp
qed

lemma load_pages_correct:
  assumes "files_ok sys contents pos" and "(unat rb + unat zb) mod 4096 = 0"
    and "unat up + (unat rb + unat zb) < 4294967296"
    and "\<forall>a. unat up \<le> unat a \<and> unat a < unat up + (unat rb + unat zb) \<longrightarrow> space im a = None"
    and "\<forall>p. set_page_ok sys p" and "0 \<notin> set ks" and "unat rb + unat zb \<le> 4096 * length ks"
    and "pos f + unat rb \<le> length (contents f)"
  shows "\<exists>f' im'. load_pages sys ks f up rb zb w im = (True, f', im') \<and>
    (\<forall>i < unat rb + unat zb. space im' (up + of_nat i) =
       Some (if i < unat rb then contents f ! (pos f + i) else 0) \<and>
       writable im' (up + of_nat i) = w) \<and>
    (\<forall>a. unat a < unat up \<or> unat up + (unat rb + unat zb) \<le> unat a \<longrightarrow>
       space im' a = space im a \<and> writable im' a = writable im a)"
  using assms(2-)
proof (induction ks arbitrary: f up rb zb im)
  case Nil
  then have "unat rb = 0" "unat zb = 0" by simp_all
  then show ?case by (simp add: load_pages.simps unat_eq_0)
next
  case (Cons k ks)
  show ?case
  proof (cases "rb > 0 \<or> zb > 0")
    case False
    then have "rb = 0" "zb = 0" by (simp_all add: word_greater_zero_iff)
    then show ?thesis by (simp add: load_pages.simps)
  next
    case True
    define pr where "pr = (if rb < 4096 then rb else 4096)"
    note n = round_numbers [OF True Cons.prems(1), folded pr_def]
    define c where "c = take (unat pr) (drop (pos f) (contents f)) @ replicate (4096 - unat pr) (0 :: 8 word)"
    define f1 where "f1 = snd (file_read sys f (unat pr))"
    have len: "length (take (unat pr) (drop (pos f) (contents f))) = unat pr"
      using Cons.prems(7) n(5) by simp
    have rd: "file_read sys f (unat pr) = (take (unat pr) (drop (pos f) (contents f)), f1)"
      and f1: "contents f1 = contents f" "pos f1 = pos f + unat pr"
      using assms(1) len unfolding files_ok_def f1_def by (auto simp: prod_eq_iff)
    let ?im1 = "im\<lparr>kpages := ks\<rparr>"
    have "space im up = None" using Cons.prems(3) [rule_format, of up] n(7) by linarith
    then obtain im1 where ins: "install_page sys up k c w ?im1 = (True, im1)"
      and s1: "space im1 = page_bytes up c (space im)"
      and w1: "writable im1 = (\<lambda>a. if unat (a - up) < 4096 then w else writable im a)"
      using Cons.prems(4) by (simp add: install_page_def)
    have step: "load_pages sys (k # ks) f up rb zb w im =
        load_pages sys ks f1 (up + 4096) (rb - pr) (zb - (4096 - pr)) w im1"
      using True Cons.prems(5) n(2) ins len unfolding load_pages.simps [of sys "k # ks"] Let_def
        pr_def [symmetric] list.case rd prod.case c_def by simp
    have lc: "length c = 4096" using n(1) len by (simp add: c_def)
    let ?N = "unat rb + unat zb" and ?N' = "unat (rb - pr) + unat (zb - (4096 - pr))"
    have N': "?N' = ?N - 4096" using n(3-6) by linarith
    have up: "unat (up + 4096) = unat up + 4096"
      using unat_add_word [of up 4096] n(7) Cons.prems(2) by simp
    have other: "\<not> unat (a - up) < 4096" if "unat a < unat up \<or> unat up + 4096 \<le> unat a" for a
      using that n(7) Cons.prems(2) by (intro unat_sub_same_page) linarith+
    obtain f' im' where ih: "load_pages sys ks f1 (up + 4096) (rb - pr) (zb - (4096 - pr)) w im1 = (True, f', im')"
      and inner: "\<And>j. j < ?N' \<Longrightarrow> space im' (up + 4096 + of_nat j) =
          Some (if j < unat (rb - pr) then contents f1 ! (pos f1 + j) else 0) \<and>
          writable im' (up + 4096 + of_nat j) = w"
      and outer: "\<And>a. unat a < unat (up + 4096) \<or> unat (up + 4096) + ?N' \<le> unat a \<Longrightarrow>
          space im' a = space im1 a \<and> writable im' a = writable im1 a"
    proof -
      have 1: "?N' mod 4096 = 0" unfolding N' using Cons.prems(1) n(7)
        by (simp add: mod_eq_0_iff_dvd dvd_diff_nat)
      have 2: "unat (up + 4096) + ?N' < 4294967296"
        unfolding up N' using Cons.prems(2) n(7) by linarith
      have 3: "\<forall>a. unat (up + 4096) \<le> unat a \<and> unat a < unat (up + 4096) + ?N' \<longrightarrow> space im1 a = None"
        unfolding up N' s1 page_bytes_def lc using Cons.prems(3) n(7) other by auto
      have 4: "0 \<notin> set ks" using Cons.prems(5) by simp
      have 5: "?N' \<le> 4096 * length ks" unfolding N' using Cons.prems(6) by simp
      have 6: "pos f1 + unat (rb - pr) \<le> length (contents f1)"
        unfolding f1 n(3) using Cons.prems(7) n(5) by simp
      from Cons.IH [OF 1 2 3 Cons.prems(4) 4 5 6] obtain g h where
        A: "load_pages sys ks f1 (up + 4096) (rb - pr) (zb - (4096 - pr)) w im1 = (True, g, h)" and
        B: "\<forall>j<?N'. space h (up + 4096 + of_nat j) =
          Some (if j < unat (rb - pr) then contents f1 ! (pos f1 + j) else 0) \<and>
          writable h (up + 4096 + of_nat j) = w" and
        C: "\<forall>a. unat a < unat (up + 4096) \<or> unat (up + 4096) + ?N' \<le> unat a \<longrightarrow>
          space h a = space im1 a \<and> writable h a = writable im1 a"
        by (elim exE conjE) (rule that)
      show thesis by (rule that [OF A B [rule_format] C [rule_format]])
    qed
    have "space im' (up + of_nat i) = Some (if i < unat rb then contents f ! (pos f + i) else 0) \<and>
        writable im' (up + of_nat i) = w" if i: "i < ?N" for i
    proof (cases "i < 4096")
      case True
      have "unat (of_nat i :: 32 word) = i" using True by (simp add: unat_of_nat take_bit_eq_mod)
      moreover have "unat (up + of_nat i) = unat up + i"
        using unat_add_word [of up "of_nat i"] calculation i Cons.prems(2) by simp
      ultimately have "space im' (up + of_nat i) = Some (c ! i) \<and> writable im' (up + of_nat i) = w"
        using outer [of "up + of_nat i"] True up lc by (simp add: s1 w1 page_bytes_def)
      moreover have "c ! i = (if i < unat rb then contents f ! (pos f + i) else 0)"
        using True n(5) len Cons.prems(7) by (simp add: c_def nth_append)
      ultimately show ?thesis by simp
    next
      case False
      define j where "j = i - 4096"
      have a: "up + of_nat i = up + 4096 + of_nat j" using False by (simp add: j_def of_nat_diff)
      have "j < ?N'" unfolding N' j_def using i False by linarith
      from inner [OF this] have r: "space im' (up + of_nat i) =
          Some (if j < unat rb - unat pr then contents f ! (pos f + unat pr + j) else 0) \<and>
          writable im' (up + of_nat i) = w"
        unfolding a n(3) f1 .
      have "j < unat rb - unat pr \<longleftrightarrow> i < unat rb" and "i < unat rb \<Longrightarrow> unat pr + j = i"
        using False n(5) by (auto simp: j_def min_def)
      then show ?thesis using r by (auto simp: add.assoc)
    qed
    moreover have "space im' a = space im a \<and> writable im' a = writable im a"
      if "unat a < unat up \<or> unat up + ?N \<le> unat a" for a
    proof -
      have "unat a < unat (up + 4096) \<or> unat (up + 4096) + ?N' \<le> unat a"
        unfolding up N' using that n(7) by linarith
      moreover have "unat a < unat up \<or> unat up + 4096 \<le> unat a" using that n(7) by linarith
      ultimately show ?thesis using outer other by (simp add: s1 w1 page_bytes_def lc)
    qed
    ultimately show ?thesis unfolding step using ih by blast
  qed
qed

text \<open>
  C18: \<^verbatim>\<open>load_segment\<close> initialises exactly the memory its comment promises. With page-aligned
  arguments, unmapped target pages, enough memory and a file that is long enough it succeeds, the
  first \<^verbatim>\<open>read_bytes\<close> bytes at \<^verbatim>\<open>upage\<close> are the file's bytes from \<^verbatim>\<open>ofs\<close> on, the following
  \<^verbatim>\<open>zero_bytes\<close> bytes are zero, all of them have the permission asked for, and no other byte of the
  address space changes.
\<close>
theorem load_segment_correct:
  assumes "files_ok sys contents pos"
    and "(unat rb + unat zb) mod 4096 = 0" and "unat up + (unat rb + unat zb) < 4294967296"
    and "unat up mod 4096 = 0" and "unat ofs mod 4096 = 0" and "ofs < 0x80000000"
    and "\<forall>a. unat up \<le> unat a \<and> unat a < unat up + (unat rb + unat zb) \<longrightarrow> space im a = None"
    and "\<forall>p. set_page_ok sys p" and "0 \<notin> set (kpages im)"
    and "unat rb + unat zb \<le> 4096 * length (kpages im)"
    and "unat ofs + unat rb \<le> length (contents f)"
  shows "\<exists>f' im'. load_segment sys f ofs up rb zb w im = Inr (True, f', im') \<and>
    (\<forall>i < unat rb + unat zb. space im' (up + of_nat i) =
       Some (if i < unat rb then contents f ! (unat ofs + i) else 0) \<and>
       writable im' (up + of_nat i) = w) \<and>
    (\<forall>a. unat a < unat up \<or> unat up + (unat rb + unat zb) \<le> unat a \<longrightarrow>
       space im' a = space im a \<and> writable im' a = writable im a)"
proof -
  have "uint ofs < 2147483648" using assms(6) by (simp add: word_less_def)
  moreover have "0 \<le> uint ofs" "(2 :: int) ^ 31 = 2147483648" by simp_all
  ultimately have "signed_take_bit 31 (uint ofs) = uint ofs"
    by (intro signed_take_bit_int_eq_self) linarith+
  then have "sint ofs = int (unat ofs)" by (simp add: sint_uint)
  then have sk: "contents (file_seek sys f (sint ofs)) = contents f" "pos (file_seek sys f (sint ofs)) = unat ofs"
    using assms(1) by (simp_all add: files_ok_def)
  have "unat (rb + zb) = unat rb + unat zb" using assms(3) by (intro unat_add_word) linarith
  then have "(rb + zb) mod 4096 = 0" using assms(2) by (simp add: word_mod_4096)
  moreover have "ofs mod 4096 = 0" using assms(5) by (simp add: word_mod_4096)
  moreover have "up AND 0xFFF = 0" using assms(4) unat_and_4095 [of up] by (simp add: unat_eq_0)
  ultimately have "load_segment sys f ofs up rb zb w im =
      Inr (load_pages sys (kpages im) (file_seek sys f (sint ofs)) up rb zb w im)"
    by (simp add: load_segment_def)
  then show ?thesis
    using load_pages_correct [OF assms(1,2,3,7,8,9,10), of "file_seek sys f (sint ofs)" w] assms(11)
    unfolding sk by auto
qed

subsection \<open>A concrete system\<close>

text \<open>
  Files as byte lists with a position, and an executable whose one segment asks for kernel
  addresses.
\<close>

definition hostile_file :: "8 word list" where
  "hostile_file =
     [0x7F, 0x45, 0x4C, 0x46, 1, 1, 1, 0, 0, 0, 0, 0, 0, 0, 0, 0, 2, 0, 3, 0, 1, 0, 0, 0,
      0, 0x80, 4, 8, 0x34, 0, 0, 0, 0, 0, 0, 0, 0, 0, 0, 0, 0x34, 0, 0x20, 0, 1, 0, 0, 0, 0, 0, 0, 0] @
     [1, 0, 0, 0, 0, 0, 0, 0, 0, 0, 0, 0xC0, 0, 0, 0, 0, 0x10, 0, 0, 0, 0x10, 0, 0, 0,
      7, 0, 0, 0, 0, 0x10, 0, 0]"

definition sample_sys :: "(8 word list \<times> nat) sys" where
  "sample_sys =
     \<lparr>phys_base = 0xC0000000,
      filesys_open = (\<lambda>n. if n = ''prog'' then Some (hostile_file, 0) else None),
      file_length = (\<lambda>(c, p). int (length c) mod 2147483648),
      file_seek = (\<lambda>(c, p) i. (c, nat i)),
      file_read = (\<lambda>(c, p) n. (take n (drop p c), (c, p + length (take n (drop p c))))),
      pagedir_create_ok = True, set_page_ok = (\<lambda>_. True), malloc_ok = (\<lambda>_. True)\<rparr>"

definition empty_image :: "(8 word list \<times> nat) image" where
  "empty_image =
     \<lparr>space = (\<lambda>_. None), writable = (\<lambda>_. False), kpages = [0x1000, 0x2000], installed = [],
      freed = [], loaded_file = None, file_ops = []\<rparr>"

lemma sys_ok_sample: "sys_ok sample_sys"
  by (simp add: sys_ok_def sample_sys_def split: prod.splits)

lemma user_only_empty: "user_only sys empty_image"
  by (simp add: user_only_def empty_image_def)

lemma files_ok_sample: "files_ok sample_sys fst snd"
  by (simp add: files_ok_def sample_sys_def split: prod.splits)

lemma load_hostile:
  "load sample_sys ''prog x'' empty_image =
     Inr (load_done (Some (hostile_file, 84)) (empty_image\<lparr>file_ops := [Opens ''prog'']\<rparr>))"
proof -
  let ?im = "empty_image\<lparr>file_ops := [Opens ''prog'']\<rparr>"
  have t: "strtok_r '' '' (strlcpy ''prog x'' (length ''prog x'' + 1)) = Some (0, ''prog'', ''x'')"
    by (simp add: strtok_r_def strlcpy_def)
  have h: "ehdr_ok (take 52 hostile_file)"
    and e: "e_phnum (ehdr_of (take 52 hostile_file)) = 1" "e_phoff (ehdr_of (take 52 hostile_file)) = 52"
    by (simp_all add: ehdr_ok_def ehdr_of_def hostile_file_def half_at_def word_at_def)
  have l: "length hostile_file = 84" by (simp add: hostile_file_def)
  let ?ph = "phdr_of (take 32 (drop 52 hostile_file))"
  have p: "p_type ?ph = 1" "p_vaddr ?ph = 0xC0000000"
    by (simp_all add: phdr_of_def hostile_file_def word_at_def)
  have v: "\<not> validate_segment sample_sys ?ph f" for f
    by (simp add: validate_segment_def is_user_vaddr_def p(2)) (simp add: sample_sys_def)
  have "load_headers sample_sys 1 52 (hostile_file, 52) ?im
      = Inr (False, (hostile_file, 84), ?im)"
    using p(1) v l
    by (simp add: sample_sys_def load_PT_LOAD_def PT_LOAD_def PT_DYNAMIC_def PT_INTERP_def PT_SHLIB_def)
  then have "load_file sample_sys 0 ''prog'' ''x'' (hostile_file, 0) ?im
      = Inr (load_done (Some (hostile_file, 84)) ?im)"
    using h e l by (simp add: load_file_def sample_sys_def)
  moreover have "file_ops empty_image = []" by (simp add: empty_image_def)
  ultimately show ?thesis unfolding load_def t by (simp add: sample_sys_def Let_def)
qed

theorem load_faults_witness:
  "(\<forall>e. load sample_sys ''prog x'' empty_image \<noteq> Inl e) \<and> load sample_sys '' '' empty_image = Inl Null_deref"
proof -
  have t: "tokens '' '' ''prog x'' = [''prog'', ''x'']" "tokens '' '' '' '' = []"
    by (simp_all add: tokens.simps strtok_r_def)
  have z: "args_size [''prog'', ''x''] \<le> 4096" using padding_le [of "[''prog'', ''x'']"]
    by (simp add: args_size_def string_bytes_def)
  have o: "pagedir_create_ok sample_sys" "malloc_ok sample_sys n" for n by (simp_all add: sample_sys_def)
  have n: "no_nul ''prog x''" "no_nul '' ''" by (simp_all add: no_nul_def)
  show ?thesis
    using load_faults [OF sys_ok_sample n(1) t(1) [symmetric]] load_faults [OF sys_ok_sample n(2) t(2) [symmetric]] z o
    by fastforce
qed

theorem load_confines_process_witness:
  "user_only sample_sys (result_image (load_done (Some (hostile_file, 84)) (empty_image\<lparr>file_ops := [Opens ''prog'']\<rparr>))) \<and>
   pages_of (result_image (load_done (Some (hostile_file, 84)) (empty_image\<lparr>file_ops := [Opens ''prog'']\<rparr>))) =
     pages_of empty_image"
  by (rule load_confines_process [OF sys_ok_sample user_only_empty load_hostile])

theorem load_segment_correct_witness:
  "\<exists>f' im'. load_segment sample_sys (hostile_file, 0) 0 0x8048000 84 4012 True empty_image = Inr (True, f', im') \<and>
     space im' (0x8048000 + of_nat 1) = Some 0x45 \<and> space im' (0x8048000 + of_nat 84) = Some 0"
proof -
  obtain f' im' where *: "load_segment sample_sys (hostile_file, 0) 0 0x8048000 84 4012 True empty_image = Inr (True, f', im')"
    "\<forall>i<4096. space im' (0x8048000 + of_nat i) = Some (if i < 84 then hostile_file ! i else 0)"
    using load_segment_correct [OF files_ok_sample, of 84 4012 "0x8048000" 0 empty_image "(hostile_file, 0)" True]
    by (auto simp: empty_image_def sample_sys_def hostile_file_def)
  moreover have "hostile_file ! 1 = 0x45" by (simp add: hostile_file_def)
  ultimately show ?thesis using *(2) [rule_format, of 1] *(2) [rule_format, of 84]
    by (intro exI [of _ f'] exI [of _ im']) simp
qed

end
