(* ===== verification/Fixed_Point.thy ===== *)
theory Fixed_Point
  imports Prelude
begin

section \<open>Fixed-point arithmetic of the MLFQ scheduler\<close>

text \<open>
  The macros \<^verbatim>\<open>FP_*\<close> of \<^verbatim>\<open>Assignment_4/.../thread.c\<close> and the three formulas of the multi-level
  feedback queue scheduler that are built from them: the load average, the decay of
  \<^verbatim>\<open>recent_cpu\<close> and the priority. A \<^verbatim>\<open>fixed_t\<close> is an \<^verbatim>\<open>int\<close> holding a real times \<open>2 ^ 16\<close>; every
  operation is wrapped at the width the C expression has, so the bounds under which no
  operation overflows are theorems here and not assumptions of the model. C's \<^verbatim>\<open>/\<close> is \<open>sdiv\<close>
  (towards zero), \<^verbatim>\<open>>>\<close> on a signed value is a division by a power of two that rounds down.
\<close>

definition PRI_MIN :: int where "PRI_MIN = 0"
definition PRI_DEFAULT :: int where "PRI_DEFAULT = 31"
definition PRI_MAX :: int where "PRI_MAX = 63"

lemmas pri_defs = PRI_MIN_def PRI_DEFAULT_def PRI_MAX_def

subsection \<open>The macros\<close>

definition FP_CONST :: "int \<Rightarrow> int" where
  "FP_CONST A = i32 (A * 65536)"

definition FP_ADD :: "int \<Rightarrow> int \<Rightarrow> int" where
  "FP_ADD A B = i32 (A + B)"

definition FP_ADD_MIX :: "int \<Rightarrow> int \<Rightarrow> int" where
  "FP_ADD_MIX A B = i32 (A + i32 (B * 65536))"

definition FP_SUB :: "int \<Rightarrow> int \<Rightarrow> int" where
  "FP_SUB A B = i32 (A - B)"

definition FP_SUB_MIX :: "int \<Rightarrow> int \<Rightarrow> int" where
  "FP_SUB_MIX A B = i32 (A - i32 (B * 65536))"

definition FP_MULT_MIX :: "int \<Rightarrow> int \<Rightarrow> int" where
  "FP_MULT_MIX A B = i32 (A * B)"

definition FP_DIV_MIX :: "int \<Rightarrow> int \<Rightarrow> int" where
  "FP_DIV_MIX A B = i32 (A sdiv B)"

definition FP_MULT :: "int \<Rightarrow> int \<Rightarrow> int" where
  "FP_MULT A B = i32 (i64 (A * B) div 65536)"

definition FP_DIV :: "int \<Rightarrow> int \<Rightarrow> int result" where
  "FP_DIV A B = (if B = 0 then Inl Divide_error else Inr (i32 (i64 (A * 65536) sdiv B)))"

definition FP_INT_PART :: "int \<Rightarrow> int" where
  "FP_INT_PART A = A div 65536"

definition FP_ROUND :: "int \<Rightarrow> int" where
  "FP_ROUND A = (if A \<ge> 0 then i32 (A + 32768) div 65536 else i32 (A - 32768) div 65536)"

lemmas fp_defs = FP_CONST_def FP_ADD_def FP_ADD_MIX_def FP_SUB_def FP_SUB_MIX_def
  FP_MULT_MIX_def FP_DIV_MIX_def FP_MULT_def FP_DIV_def FP_INT_PART_def FP_ROUND_def

subsection \<open>The formulas\<close>

text \<open>
  \<open>ready_cnt\<close> is a \<^verbatim>\<open>size_t\<close>; shifting it left by 16 and converting to \<^verbatim>\<open>fixed_t\<close> is
  \<open>FP_CONST\<close> of its value.
\<close>

definition next_load_avg :: "int \<Rightarrow> int \<Rightarrow> int" where
  "next_load_avg load_avg ready_cnt =
     FP_ADD (FP_DIV_MIX (FP_MULT_MIX load_avg 59) 60) (FP_DIV_MIX (FP_CONST ready_cnt) 60)"

definition next_recent_cpu :: "int \<Rightarrow> int \<Rightarrow> int \<Rightarrow> int result" where
  "next_recent_cpu load_avg recent_cpu nice =
     bnd (FP_DIV (FP_MULT_MIX load_avg 2) (FP_ADD_MIX (FP_MULT_MIX load_avg 2) 1))
       (\<lambda>coeff. Inr (FP_ADD_MIX (FP_MULT coeff recent_cpu) nice))"

definition clamp_priority :: "int \<Rightarrow> int" where
  "clamp_priority p = (if p < PRI_MIN then PRI_MIN else if p > PRI_MAX then PRI_MAX else p)"

definition mlfqs_priority :: "int \<Rightarrow> int \<Rightarrow> int" where
  "mlfqs_priority recent_cpu nice =
     clamp_priority
       (FP_INT_PART (FP_SUB_MIX (FP_SUB (FP_CONST PRI_MAX) (FP_DIV_MIX recent_cpu 4))
          (i32 (2 * nice))))"

subsection \<open>Rounding\<close>

lemma sdiv_pos: "0 \<le> a \<Longrightarrow> 0 < b \<Longrightarrow> a sdiv b = a div (b :: int)"
  by (cases "a = 0") (auto simp: signed_divide_int_def sgn_if)

lemma sdiv_neg: "a < 0 \<Longrightarrow> 0 < b \<Longrightarrow> a sdiv b = - ((- a) div (b :: int))"
  by (simp add: signed_divide_int_def)

lemma sdiv4_mono: "a \<le> b \<Longrightarrow> a sdiv 4 \<le> b sdiv (4 :: int)"
proof (cases "0 \<le> a")
  case True
  then show "a \<le> b \<Longrightarrow> a sdiv 4 \<le> b sdiv 4" by (simp add: sdiv_pos zdiv_mono1)
next
  case False
  then show "a \<le> b \<Longrightarrow> a sdiv 4 \<le> b sdiv 4"
    by (cases "0 \<le> b"; simp add: sdiv_pos sdiv_neg; presburger)
qed

lemma sdiv4_bounds: "4 * (a sdiv 4) \<le> max a (a + 3)" "4 * (a sdiv 4) \<ge> min a (a - 3)"
  for a :: int
  by (cases "0 \<le> a"; simp add: sdiv_pos sdiv_neg)+

lemma clamp_priority_range [simp]: "PRI_MIN \<le> clamp_priority p \<and> clamp_priority p \<le> PRI_MAX"
  by (simp add: clamp_priority_def pri_defs)

lemma clamp_priority_mono: "p \<le> q \<Longrightarrow> clamp_priority p \<le> clamp_priority q"
  by (simp add: clamp_priority_def pri_defs)

text \<open>
  What \<^verbatim>\<open>FP_ROUND\<close> does, for every value to which half a unit can be added or from which it can be
  subtracted. A non-negative value is rounded to a nearest integer: the result is at most a half
  away. A negative one is not: the macro subtracts a half and then shifts right, which rounds down once
  more, so the result is at least a half too low, and the exactly representable -1 becomes -2.
\<close>
theorem FP_ROUND_rounds:
  assumes "- 2147450880 \<le> a" and "a < 2147450880"
  shows "(0 \<le> a \<longrightarrow> \<bar>65536 * FP_ROUND a - a\<bar> \<le> 32768) \<and>
    (a < 0 \<longrightarrow> 65536 * FP_ROUND a + 32768 \<le> a) \<and> FP_ROUND (- 65536) = - 2"
proof (intro conjI impI)
  show "\<bar>65536 * FP_ROUND a - a\<bar> \<le> 32768" if "0 \<le> a"
    using assms that by (simp add: FP_ROUND_def i32_id)
  show "65536 * FP_ROUND a + 32768 \<le> a" if "a < 0"
    using assms that by (simp add: FP_ROUND_def i32_id)
qed (simp add: FP_ROUND_def i32_def)

theorem FP_ROUND_rounds_witness: "\<bar>65536 * FP_ROUND 98304 - 98304\<bar> \<le> 32768"
  using FP_ROUND_rounds [of 98304] by simp

subsection \<open>The load average\<close>

lemma next_load_avg_eq:
  assumes "0 \<le> la" "la \<le> 32768000" "0 \<le> r" "r \<le> 500"
  shows "next_load_avg la r = (la * 59) div 60 + (r * 65536) div 60"
proof -
  have 1: "i32 (la * 59) = la * 59" using assms by (intro i32_id) linarith+
  have 2: "i32 (r * 65536) = r * 65536" using assms by (intro i32_id) linarith+
  have 3: "0 \<le> (la * 59) div 60" "(la * 59) div 60 \<le> 32768000" using assms by linarith+
  have 4: "0 \<le> (r * 65536) div 60" "(r * 65536) div 60 \<le> 546134" using assms by linarith+
  show ?thesis
    using assms 3 4 by (simp add: next_load_avg_def fp_defs 1 2 sdiv_pos i32_id)
qed

text \<open>
  The load average stays in range and is accurate. With at most \<open>n \<le> 500\<close> ready threads
  a load average between 0 and \<open>n\<close> stays between 0 and \<open>n\<close>, so the product with 59 never
  overflows, at any later second; and the new value is the exact
  \<open>(59/60) load_avg + (1/60) ready\<close> less a rounding error below \<open>2/65536\<close>.
\<close>
theorem load_avg_bounded_and_accurate:
  assumes "0 \<le> la" and "la \<le> 65536 * n" and "0 \<le> r" and "r \<le> n" and "n \<le> 500"
  shows "0 \<le> next_load_avg la r \<and> next_load_avg la r \<le> 65536 * n \<and>
         60 * next_load_avg la r \<le> 59 * la + 65536 * r \<and>
         59 * la + 65536 * r < 60 * next_load_avg la r + 120"
proof -
  have "next_load_avg la r = (la * 59) div 60 + (r * 65536) div 60"
    using assms by (intro next_load_avg_eq) linarith+
  then show ?thesis using assms by simp linarith
qed

theorem load_avg_bounded_and_accurate_witness:
  "0 \<le> next_load_avg 65536 3 \<and> next_load_avg 65536 3 \<le> 65536 * 10 \<and>
   60 * next_load_avg 65536 3 \<le> 59 * 65536 + 65536 * 3 \<and>
   59 * 65536 + 65536 * 3 < 60 * next_load_avg 65536 3 + 120"
  by (rule load_avg_bounded_and_accurate) simp_all

subsection \<open>The decay of \<open>recent_cpu\<close>\<close>

lemma next_recent_cpu_eq:
  assumes "0 \<le> la" "la \<le> 32768000" "- 2100000000 \<le> rc" "rc \<le> 2100000000" "- 20 \<le> nice" "nice \<le> 20"
  defines "c \<equiv> (la * 2 * 65536) div (la * 2 + 65536)"
  shows "next_recent_cpu la rc nice = Inr ((c * rc) div 65536 + nice * 65536)"
    and "0 \<le> c" and "c < 65536"
proof -
  show c: "0 \<le> c" using assms(1) by (simp add: c_def pos_imp_zdiv_nonneg_iff)
  have "c * (la * 2 + 65536) \<le> la * 2 * 65536"
    using pos_mod_sign [of "la * 2 + 65536" "la * 2 * 65536"] assms(1)
    by (simp add: c_def minus_mod_eq_div_mult [symmetric])
  moreover have "65536 * (la * 2 + 65536) \<le> c * (la * 2 + 65536)" if "65536 \<le> c"
    using that assms(1) by (intro mult_right_mono) simp_all
  ultimately show c': "c < 65536" by (cases "c < 65536") simp_all
  have m: "\<bar>c * rc\<bar> \<le> 65536 * 2100000000"
    using c c' assms(3,4) mult_mono [of c 65536 "\<bar>rc\<bar>" 2100000000] by (simp add: abs_mult)
  then have d: "- 2100000000 \<le> (c * rc) div 65536" "(c * rc) div 65536 \<le> 2100000000"
    by linarith+
  have ceq: "131072 * la div (la * 2 + 65536) = c" by (simp add: c_def ac_simps)
  have "i32 (la * 2) = la * 2" "i32 (la * 2 + 65536) = la * 2 + 65536"
    "i64 (la * 2 * 65536) = la * 2 * 65536"
    using assms(1,2) by (auto intro!: i32_id i64_id)
  moreover have "i64 (c * rc) = c * rc" using m by (intro i64_id) linarith+
  moreover have "i32 (nice * 65536) = nice * 65536" using assms by (intro i32_id) linarith+
  ultimately show "next_recent_cpu la rc nice = Inr ((c * rc) div 65536 + nice * 65536)"
    using assms(1,5,6) c c' d
    by (simp add: next_recent_cpu_def fp_defs sdiv_pos i32_id [of 65536] ceq i32_id)
qed

text \<open>
  The decay of \<^verbatim>\<open>recent_cpu\<close> never divides by zero and never grows past its niceness: for
  a load average in its invariant range, the new value exists and lies between
  \<open>min 0 recent_cpu\<close> and \<open>max 0 recent_cpu\<close>, both shifted by \<open>nice\<close>.
\<close>
theorem recent_cpu_decays:
  assumes "0 \<le> la" and "la \<le> 32768000" and "- 2100000000 \<le> rc" and "rc \<le> 2100000000"
    and "- 20 \<le> nice" and "nice \<le> 20"
  shows "\<exists>rc'. next_recent_cpu la rc nice = Inr rc' \<and>
           min 0 rc + 65536 * nice \<le> rc' \<and> rc' \<le> max 0 rc + 65536 * nice"
proof -
  define c where "c = (la * 2 * 65536) div (la * 2 + 65536)"
  note eq = next_recent_cpu_eq [OF assms, folded c_def]
  have "min 0 rc \<le> (c * rc) div 65536 \<and> (c * rc) div 65536 \<le> max 0 rc"
  proof (cases "0 \<le> rc")
    case True
    then have "0 \<le> c * rc" "c * rc \<le> 65536 * rc"
      using eq by (simp_all add: mult_right_mono)
    with True show ?thesis by linarith
  next
    case False
    then have "c * rc \<le> 0" "65536 * rc \<le> c * rc"
      using eq by (simp_all add: mult_nonneg_nonpos mult_right_mono_neg)
    with False show ?thesis by linarith
  qed
  then show ?thesis by (simp add: eq(1))
qed

theorem recent_cpu_decays_witness:
  "\<exists>rc'. next_recent_cpu 65536 131072 2 = Inr rc' \<and>
     min 0 131072 + 65536 * 2 \<le> rc' \<and> rc' \<le> max 0 131072 + 65536 * 2"
  by (rule recent_cpu_decays) simp_all

subsection \<open>The priority formula\<close>

lemma mlfqs_priority_eq:
  assumes "in32 rc" "- 20 \<le> nice" "nice \<le> 20"
  shows "mlfqs_priority rc nice =
    clamp_priority ((4128768 - rc sdiv 4 - 131072 * nice) div 65536)"
proof -
  have b: "- 536870912 \<le> rc sdiv 4" "rc sdiv 4 \<le> 536870912"
    using assms(1) sdiv4_bounds [of rc] by (auto simp: in32_def)
  then show ?thesis
    using assms(2,3) by (simp add: mlfqs_priority_def fp_defs pri_defs i32_id)
qed

text \<open>
  The computed priority is always a legal one and it is antitone: a thread that has used
  more processor time, or is nicer, never gets a higher priority. No value of \<^verbatim>\<open>recent_cpu\<close>
  overflows the formula while niceness is within its documented range.
\<close>
theorem mlfqs_priority_antitone:
  assumes "in32 rc" and "in32 rc'" and "rc \<le> rc'" and "- 20 \<le> nice" and "nice \<le> nice'"
    and "nice' \<le> 20"
  shows "mlfqs_priority rc' nice' \<le> mlfqs_priority rc nice \<and>
         PRI_MIN \<le> mlfqs_priority rc' nice' \<and> mlfqs_priority rc nice \<le> PRI_MAX"
proof -
  have "rc sdiv 4 \<le> rc' sdiv 4" using assms(3) by (rule sdiv4_mono)
  then have "(4128768 - rc' sdiv 4 - 131072 * nice') div 65536
    \<le> (4128768 - rc sdiv 4 - 131072 * nice) div 65536"
    using assms(5) by (intro zdiv_mono1) linarith+
  then show ?thesis
    using assms by (simp add: mlfqs_priority_eq clamp_priority_mono)
qed

theorem mlfqs_priority_antitone_witness:
  "mlfqs_priority 655360 5 \<le> mlfqs_priority 0 0 \<and>
   PRI_MIN \<le> mlfqs_priority 655360 5 \<and> mlfqs_priority 0 0 \<le> PRI_MAX"
  by (rule mlfqs_priority_antitone) (simp_all add: in32_def)

end
