(* ===== verification/User_Threads.thy ===== *)
theory User_Threads
  imports Fixed_Point Arg_Stack
begin

section \<open>Threads, processes and their scheduler (Assignment 6)\<close>

text \<open>
  \<^verbatim>\<open>Assignment_6_2/.../thread.h\<close> and \<^verbatim>\<open>thread.c\<close>: the thread structure with the fields of a user
  process (its children, its open files, its two semaphores), the round-robin scheduler and the
  life cycle of a thread; \<^verbatim>\<open>process_exit\<close> and \<^verbatim>\<open>get_child_element\<close> of \<^verbatim>\<open>process.c\<close> stand here
  because \<^verbatim>\<open>thread_exit\<close> calls them. As in the model of Assignment 4 a thread is named by the
  address of its page, a page that has been freed is not in the map any more (using it is
  \<open>Bad_pointer\<close>), and a context switch is the change of \<open>running\<close>.

  \<^verbatim>\<open>struct child_element\<close>s and \<^verbatim>\<open>struct fd_element\<close>s are reached through the list of their owner only,
  so they are the entries of that list. \<open>cmd_pages\<close> are the pages that hold the command lines of
  processes that have not started yet. The address space of a process is its map from user
  addresses to bytes (\<open>None\<close> is the null page directory).

  Files and the file system (\<open>'f\<close>, \<open>'fs\<close>), semaphores and stack frame sizes belong to parts of Pintos
  that are not in the repository: what the code calls there is a field of the parameter \<open>api\<close>.
\<close>

subsection \<open>Data\<close>

datatype intr_level = INTR_OFF | INTR_ON

datatype thread_status = THREAD_RUNNING | THREAD_READY | THREAD_BLOCKED | THREAD_DYING

datatype child_status = KILLED | EXITED | ALIVE

definition UNDEFINED_EXIT :: int where "UNDEFINED_EXIT = - 999"
definition THREAD_MAGIC :: "32 word" where "THREAD_MAGIC = 0xcd6abf4b"
definition TIME_SLICE :: "32 word" where "TIME_SLICE = 4"
definition TID_ERROR :: int where "TID_ERROR = - 1"
definition PGSIZE :: "32 word" where "PGSIZE = 4096"

record child_element =
  child_thread :: tptr
  exit_status :: int
  cur_status :: child_status
  child_pid :: int
  load_status :: bool
  parent_waiting :: bool

record 'f fd_element =
  fd :: int
  my_file :: 'f

record semaphore =
  sema_value :: nat
  sema_waiters :: "tptr list"

record 'f thread =
  tid :: int
  status :: thread_status
  tname :: string
  stack :: "32 word"
  priority :: int
  fd_list :: "'f fd_element list"
  fd_size :: int
  exec_file :: "'f option"
  wait_load :: semaphore
  child_list :: "child_element list"
  parent :: tptr
  wait_exit :: semaphore
  pagedir :: "umem option"
  magic :: "32 word"
  start_function :: "32 word"
  start_aux :: "32 word"
  resume_level :: intr_level

record ('f, 'fs) kernel =
  pages :: "tptr \<Rightarrow> 'f thread option"
  ready_list :: "tptr list"
  all_list :: "tptr list"
  idle_thread :: tptr
  initial_thread :: tptr
  running :: tptr
  idle_ticks :: int
  kernel_ticks :: int
  user_ticks :: int
  thread_ticks :: "32 word"
  next_tid :: int
  intr :: intr_level
  in_interrupt :: bool
  yield_on_return :: bool
  active_pagedir :: "umem option"
  cmd_pages :: "32 word \<Rightarrow> string option"
  fs :: 'fs
  console :: "(string \<times> int) list"

record ('f, 'fs) api =
  api_file_close :: "'f option \<Rightarrow> 'fs \<Rightarrow> 'fs"
  api_file_allow_write :: "'f \<Rightarrow> 'fs \<Rightarrow> 'fs"
  api_file_deny_write :: "'f \<Rightarrow> 'fs \<Rightarrow> 'fs"
  api_filesys_open :: "string \<Rightarrow> 'fs \<Rightarrow> 'fs"
  api_sema_up :: "semaphore \<Rightarrow> tptr option \<times> semaphore"
  api_sema_try_down :: "semaphore \<Rightarrow> semaphore option"
  api_start_process :: "32 word"
  api_sizeof_switch_entry_frame :: "32 word"
  api_sizeof_switch_threads_frame :: "32 word"

subsection \<open>Small accesses\<close>

definition status_of :: "('f, 'fs) kernel \<Rightarrow> tptr \<Rightarrow> thread_status option" where
  "status_of k t = map_option status (pages k t)"

definition thread_at :: "('f, 'fs) kernel \<Rightarrow> tptr \<Rightarrow> 'f thread result" where
  "thread_at k t =
     (if t = 0 then Inl Null_deref
      else case pages k t of None \<Rightarrow> Inl Bad_pointer | Some th \<Rightarrow> Inr th)"

definition upd_thread :: "tptr \<Rightarrow> ('f thread \<Rightarrow> 'f thread) \<Rightarrow> ('f, 'fs) kernel \<Rightarrow> ('f, 'fs) kernel" where
  "upd_thread t f k = k\<lparr>pages := (pages k)(t := map_option f (pages k t))\<rparr>"

definition set_status :: "tptr \<Rightarrow> thread_status \<Rightarrow> ('f, 'fs) kernel \<Rightarrow> ('f, 'fs) kernel" where
  "set_status t s = upd_thread t (\<lambda>th. th\<lparr>status := s\<rparr>)"

definition set_resume :: "tptr \<Rightarrow> intr_level \<Rightarrow> ('f, 'fs) kernel \<Rightarrow> ('f, 'fs) kernel" where
  "set_resume t l = upd_thread t (\<lambda>th. th\<lparr>resume_level := l\<rparr>)"

definition intr_set_level :: "intr_level \<Rightarrow> ('f, 'fs) kernel \<Rightarrow> ('f, 'fs) kernel" where
  "intr_set_level l k = k\<lparr>intr := l\<rparr>"

definition intr_disable :: "('f, 'fs) kernel \<Rightarrow> ('f, 'fs) kernel" where
  "intr_disable = intr_set_level INTR_OFF"

definition is_thread :: "('f, 'fs) kernel \<Rightarrow> tptr \<Rightarrow> bool" where
  "is_thread k t \<longleftrightarrow> t \<noteq> 0 \<and> (case pages k t of Some th \<Rightarrow> magic th = THREAD_MAGIC | None \<Rightarrow> False)"

definition thread_current :: "('f, 'fs) kernel \<Rightarrow> tptr result" where
  "thread_current k =
     (let t = running k in
      bnd (assert (is_thread k t)) (\<lambda>_.
      bnd (assert (status_of k t = Some THREAD_RUNNING)) (\<lambda>_.
      Inr t)))"

definition thread_name :: "('f, 'fs) kernel \<Rightarrow> string result" where
  "thread_name k = bnd (thread_current k) (\<lambda>t. bnd (thread_at k t) (\<lambda>th. Inr (tname th)))"

definition thread_tid :: "('f, 'fs) kernel \<Rightarrow> int result" where
  "thread_tid k = bnd (thread_current k) (\<lambda>t. bnd (thread_at k t) (\<lambda>th. Inr (tid th)))"

subsection \<open>Switching threads\<close>

definition process_activate :: "('f, 'fs) kernel \<Rightarrow> ('f, 'fs) kernel result" where
  "process_activate k =
     bnd (thread_current k) (\<lambda>t.
     bnd (thread_at k t) (\<lambda>th.
     Inr (k\<lparr>active_pagedir := pagedir th\<rparr>)))"

definition next_thread_to_run :: "('f, 'fs) kernel \<Rightarrow> tptr \<times> ('f, 'fs) kernel" where
  "next_thread_to_run k =
     (case ready_list k of
        [] \<Rightarrow> (idle_thread k, k)
      | t # ts \<Rightarrow> (t, k\<lparr>ready_list := ts\<rparr>))"

definition thread_schedule_tail :: "tptr \<Rightarrow> ('f, 'fs) kernel \<Rightarrow> ('f, 'fs) kernel result" where
  "thread_schedule_tail prev k =
     (let cur = running k in
      bnd (assert (intr k = INTR_OFF)) (\<lambda>_.
      bnd (process_activate ((set_status cur THREAD_RUNNING k)\<lparr>thread_ticks := 0\<rparr>)) (\<lambda>k1.
      if prev \<noteq> 0 \<and> status_of k1 prev = Some THREAD_DYING \<and> prev \<noteq> initial_thread k1
      then bnd (assert (prev \<noteq> cur)) (\<lambda>_. Inr (k1\<lparr>pages := (pages k1)(prev := None)\<rparr>))
      else Inr k1)))"

definition schedule :: "('f, 'fs) kernel \<Rightarrow> ('f, 'fs) kernel result" where
  "schedule k =
     (let cur = running k;
          (nxt, k1) = next_thread_to_run k in
      bnd (assert (intr k1 = INTR_OFF)) (\<lambda>_.
      bnd (assert (status_of k1 cur \<noteq> Some THREAD_RUNNING)) (\<lambda>_.
      bnd (assert (is_thread k1 nxt)) (\<lambda>_.
      if cur \<noteq> nxt then thread_schedule_tail cur (k1\<lparr>running := nxt\<rparr>)
      else thread_schedule_tail 0 k1))))"

definition thread_block :: "('f, 'fs) kernel \<Rightarrow> ('f, 'fs) kernel result" where
  "thread_block k =
     bnd (assert (\<not> in_interrupt k)) (\<lambda>_.
     bnd (assert (intr k = INTR_OFF)) (\<lambda>_.
     bnd (thread_current k) (\<lambda>cur.
     schedule (set_status cur THREAD_BLOCKED k))))"

definition thread_unblock :: "tptr \<Rightarrow> ('f, 'fs) kernel \<Rightarrow> ('f, 'fs) kernel result" where
  "thread_unblock t k =
     bnd (assert (is_thread k t)) (\<lambda>_.
     let old_level = intr k;
         k1 = intr_disable k in
     bnd (assert (status_of k1 t = Some THREAD_BLOCKED)) (\<lambda>_.
     let k2 = k1\<lparr>ready_list := ready_list k1 @ [t]\<rparr>;
         k3 = set_status t THREAD_READY k2 in
     Inr (intr_set_level old_level k3)))"

definition thread_yield :: "('f, 'fs) kernel \<Rightarrow> ('f, 'fs) kernel result" where
  "thread_yield k =
     bnd (thread_current k) (\<lambda>cur.
     bnd (assert (\<not> in_interrupt k)) (\<lambda>_.
     let old_level = intr k;
         k1 = intr_disable k;
         k2 = (if cur \<noteq> idle_thread k1 then k1\<lparr>ready_list := ready_list k1 @ [cur]\<rparr> else k1);
         k3 = set_resume cur old_level (set_status cur THREAD_READY k2) in
     schedule k3))"

definition thread_tick :: "('f, 'fs) kernel \<Rightarrow> ('f, 'fs) kernel result" where
  "thread_tick k =
     bnd (thread_current k) (\<lambda>t.
     bnd (thread_at k t) (\<lambda>th.
     let k1 = (if t = idle_thread k then k\<lparr>idle_ticks := i64 (idle_ticks k + 1)\<rparr>
               else if pagedir th \<noteq> None then k\<lparr>user_ticks := i64 (user_ticks k + 1)\<rparr>
               else k\<lparr>kernel_ticks := i64 (kernel_ticks k + 1)\<rparr>);
         k2 = k1\<lparr>thread_ticks := thread_ticks k1 + 1\<rparr> in
     Inr (if thread_ticks k2 \<ge> TIME_SLICE then k2\<lparr>yield_on_return := True\<rparr> else k2)))"

subsection \<open>Semaphores in thread structures\<close>

text \<open>
  \<open>sema_up sel upd\<close> and \<open>sema_down sel upd\<close> act on one of the two semaphores of the thread at an
  address. \<open>sema_up\<close> unblocks the thread the semaphore module picks. \<open>sema_down\<close> is one attempt:
  it takes the semaphore if it can and otherwise puts the caller to sleep on it; a caller that is
  woken attempts again. A semaphore in a page that was freed is \<open>Bad_pointer\<close>.
\<close>

definition sema_up ::
  "('f, 'fs) api \<Rightarrow> ('f thread \<Rightarrow> semaphore) \<Rightarrow> ((semaphore \<Rightarrow> semaphore) \<Rightarrow> 'f thread \<Rightarrow> 'f thread) \<Rightarrow>
   tptr \<Rightarrow> ('f, 'fs) kernel \<Rightarrow> ('f, 'fs) kernel result" where
  "sema_up api sel upd t k =
     bnd (thread_at k t) (\<lambda>th.
     let (woken, s) = api_sema_up api (sel th);
         k1 = upd_thread t (upd (\<lambda>_. s)) k in
     (case woken of None \<Rightarrow> Inr k1 | Some w \<Rightarrow> thread_unblock w k1))"

definition sema_down ::
  "('f, 'fs) api \<Rightarrow> ('f thread \<Rightarrow> semaphore) \<Rightarrow> ((semaphore \<Rightarrow> semaphore) \<Rightarrow> 'f thread \<Rightarrow> 'f thread) \<Rightarrow>
   tptr \<Rightarrow> ('f, 'fs) kernel \<Rightarrow> (bool \<times> ('f, 'fs) kernel) result" where
  "sema_down api sel upd t k =
     bnd (thread_at k t) (\<lambda>th.
     (case api_sema_try_down api (sel th) of
        Some s \<Rightarrow> Inr (True, upd_thread t (upd (\<lambda>_. s)) k)
      | None \<Rightarrow>
          bnd (thread_current k) (\<lambda>cur.
          let k1 = upd_thread t (upd (\<lambda>s. s\<lparr>sema_waiters := sema_waiters s @ [cur]\<rparr>)) k in
          bnd (thread_block (intr_disable (set_resume cur (intr k) k1))) (\<lambda>k2. Inr (False, k2)))))"

subsection \<open>Children and \<^verbatim>\<open>process_exit\<close>\<close>

fun get_child_element :: "int \<Rightarrow> child_element list \<Rightarrow> child_element option" where
  "get_child_element t [] = None"
| "get_child_element t (c # cs) = (if child_pid c = t then Some c else get_child_element t cs)"

text \<open>Writing through the pointer \<^verbatim>\<open>get_child_element\<close> returned.\<close>

fun upd_child_element :: "int \<Rightarrow> (child_element \<Rightarrow> child_element) \<Rightarrow> child_element list \<Rightarrow> child_element list" where
  "upd_child_element t f [] = []"
| "upd_child_element t f (c # cs) = (if child_pid c = t then f c # cs else c # upd_child_element t f cs)"

definition upd_child :: "tptr \<Rightarrow> int \<Rightarrow> (child_element \<Rightarrow> child_element) \<Rightarrow> ('f, 'fs) kernel \<Rightarrow> ('f, 'fs) kernel" where
  "upd_child p t f = upd_thread p (\<lambda>th. th\<lparr>child_list := upd_child_element t f (child_list th)\<rparr>)"

definition find_child :: "('f, 'fs) kernel \<Rightarrow> tptr \<Rightarrow> int \<Rightarrow> child_element result" where
  "find_child k p t =
     bnd (thread_at k p) (\<lambda>th.
     (case get_child_element t (child_list th) of None \<Rightarrow> Inl Null_deref | Some c \<Rightarrow> Inr c))"

text \<open>
  The loop that closes the files. Each round takes the first element off the list, closes its file and
  then calls \<^verbatim>\<open>list_remove\<close> on the element once more. The list module, which is not in the repository,
  leaves a second removal undefined. It is taken to have no effect here, which is so as long as a removed
  element keeps its links: they name the list's head and what is now its first element, and writing
  these two back changes nothing.
\<close>

fun close_files :: "('f, 'fs) api \<Rightarrow> 'f fd_element list \<Rightarrow> 'fs \<Rightarrow> 'fs" where
  "close_files api [] s = s"
| "close_files api (e # es) s = close_files api es (api_file_close api (Some (my_file e)) s)"

definition exit_mark_child :: "'f thread \<Rightarrow> ('f, 'fs) kernel \<Rightarrow> ('f, 'fs) kernel result" where
  "exit_mark_child th k =
     (if parent th \<noteq> 0 then
        bnd (find_child k (parent th) (tid th)) (\<lambda>c.
        Inr (if cur_status c = ALIVE
             then upd_child (parent th) (tid th) (\<lambda>c. c\<lparr>cur_status := KILLED, exit_status := - 1\<rparr>) k
             else k))
      else Inr k)"

definition process_exit :: "('f, 'fs) api \<Rightarrow> ('f, 'fs) kernel \<Rightarrow> ('f, 'fs) kernel result" where
  "process_exit api k =
     bnd (thread_current k) (\<lambda>cur.
     bnd (thread_at k cur) (\<lambda>th.
     bnd (exit_mark_child th k) (\<lambda>k1.
     bnd (sema_up api wait_exit wait_exit_update cur k1) (\<lambda>k2.
     let k3 = upd_thread cur (\<lambda>th. th\<lparr>child_list := [], parent := 0\<rparr>) k2;
         s1 = (case exec_file th of Some f \<Rightarrow> api_file_allow_write api f (fs k3) | None \<Rightarrow> fs k3);
         s2 = api_file_close api (exec_file th) s1;
         s3 = close_files api (fd_list th) s2;
         k4 = upd_thread cur (\<lambda>th. th\<lparr>fd_list := []\<rparr>) (k3\<lparr>fs := s3\<rparr>) in
     Inr (if pagedir th \<noteq> None
          then (upd_thread cur (\<lambda>th. th\<lparr>pagedir := None\<rparr>) k4)\<lparr>active_pagedir := None\<rparr>
          else k4)))))"

definition thread_exit :: "('f, 'fs) api \<Rightarrow> ('f, 'fs) kernel \<Rightarrow> ('f, 'fs) kernel result" where
  "thread_exit api k =
     bnd (assert (\<not> in_interrupt k)) (\<lambda>_.
     bnd (process_exit api k) (\<lambda>k0.
     let k1 = intr_disable k0 in
     bnd (thread_current k1) (\<lambda>cur.
     let k2 = k1\<lparr>all_list := remove1 cur (all_list k1)\<rparr>;
         k3 = set_status cur THREAD_DYING k2 in
     schedule k3)))"

subsection \<open>Creating threads\<close>

definition allocate_tid :: "('f, 'fs) kernel \<Rightarrow> int \<times> ('f, 'fs) kernel" where
  "allocate_tid k = (next_tid k, k\<lparr>next_tid := i32 (next_tid k + 1)\<rparr>)"

definition empty_sema :: semaphore where
  "empty_sema = \<lparr>sema_value = 0, sema_waiters = []\<rparr>"

definition init_thread ::
  "tptr \<Rightarrow> string option \<Rightarrow> int \<Rightarrow> ('f, 'fs) kernel \<Rightarrow> ('f, 'fs) kernel result" where
  "init_thread t name prio0 k =
     bnd (assert (t \<noteq> 0)) (\<lambda>_.
     bnd (assert (PRI_MIN \<le> prio0 \<and> prio0 \<le> PRI_MAX)) (\<lambda>_.
     bnd (assert (name \<noteq> None)) (\<lambda>_.
     let th = \<lparr>tid = 0, status = THREAD_BLOCKED, tname = take 15 (the name), stack = t + PGSIZE,
               priority = prio0, fd_list = [], fd_size = 1, exec_file = None, wait_load = empty_sema,
               child_list = [], parent = 0, wait_exit = empty_sema, pagedir = None,
               magic = THREAD_MAGIC, start_function = 0, start_aux = 0, resume_level = INTR_ON\<rparr> in
     Inr (k\<lparr>pages := (pages k)(t \<mapsto> th), all_list := all_list k @ [t]\<rparr>))))"

definition thread_init :: "('f, 'fs) kernel \<Rightarrow> ('f, 'fs) kernel result" where
  "thread_init k =
     bnd (assert (intr k = INTR_OFF)) (\<lambda>_.
     let k1 = k\<lparr>ready_list := [], all_list := [], initial_thread := running k\<rparr> in
     bnd (init_thread (initial_thread k1) (Some ''main'') PRI_DEFAULT k1) (\<lambda>k2.
     let k3 = set_status (initial_thread k2) THREAD_RUNNING k2;
         (t, k4) = allocate_tid k3 in
     Inr (upd_thread (initial_thread k4) (\<lambda>th. th\<lparr>tid := t, parent := 0\<rparr>) k4)))"

definition alloc_frame :: "tptr \<Rightarrow> 32 word \<Rightarrow> ('f, 'fs) kernel \<Rightarrow> ('f, 'fs) kernel result" where
  "alloc_frame t sz k =
     bnd (assert (is_thread k t)) (\<lambda>_.
     bnd (assert (sz mod 4 = 0)) (\<lambda>_.
     Inr (upd_thread t (\<lambda>th. th\<lparr>stack := stack th - sz\<rparr>) k)))"

definition new_child :: "tptr \<Rightarrow> int \<Rightarrow> child_element" where
  "new_child t new_tid =
     \<lparr>child_thread = t, exit_status = UNDEFINED_EXIT, cur_status = ALIVE, child_pid = new_tid,
      load_status = False, parent_waiting = False\<rparr>"

text \<open>
  \<open>page\<close> is what \<^verbatim>\<open>palloc_get_page\<close> returns and \<open>child_ok\<close> tells whether the \<^verbatim>\<open>malloc\<close> of the child
  element succeeds, which the code does not check.
\<close>

definition thread_create ::
  "('f, 'fs) api \<Rightarrow> tptr \<Rightarrow> bool \<Rightarrow> string option \<Rightarrow> int \<Rightarrow> 32 word \<Rightarrow> 32 word \<Rightarrow> ('f, 'fs) kernel \<Rightarrow>
   (int \<times> ('f, 'fs) kernel) result"
where
  "thread_create api page child_ok name prio0 function aux k =
     bnd (assert (function \<noteq> 0)) (\<lambda>_.
     if page = 0 then Inr (TID_ERROR, k)
     else
       bnd (init_thread page name prio0 k) (\<lambda>k1.
       let (new_tid, k2) = allocate_tid k1;
           k3 = upd_thread page (\<lambda>th. th\<lparr>tid := new_tid\<rparr>) k2 in
       if \<not> child_ok then Inl Null_deref
       else
         bnd (thread_current k3) (\<lambda>cur.
         let k4 = upd_thread cur (\<lambda>th. th\<lparr>child_list := child_list th @ [new_child page new_tid]\<rparr>) k3;
             k5 = upd_thread page (\<lambda>th. th\<lparr>parent := cur\<rparr>) k4;
             old_level = intr k5 in
         bnd (alloc_frame page 12 (intr_disable k5)) (\<lambda>k6.
         let k7 = upd_thread page (\<lambda>th. th\<lparr>start_function := function, start_aux := aux\<rparr>) k6 in
         bnd (alloc_frame page (api_sizeof_switch_entry_frame api) k7) (\<lambda>k8.
         bnd (alloc_frame page (api_sizeof_switch_threads_frame api) k8) (\<lambda>k9.
         bnd (thread_unblock page (intr_set_level old_level k9)) (\<lambda>k10.
         Inr (new_tid, k10))))))))"

subsection \<open>The rest of \<^verbatim>\<open>thread.c\<close>\<close>

definition thread_set_priority :: "int \<Rightarrow> ('f, 'fs) kernel \<Rightarrow> ('f, 'fs) kernel result" where
  "thread_set_priority new_priority k =
     bnd (thread_current k) (\<lambda>cur. Inr (upd_thread cur (\<lambda>th. th\<lparr>priority := new_priority\<rparr>) k))"

definition thread_get_priority :: "('f, 'fs) kernel \<Rightarrow> int result" where
  "thread_get_priority k = bnd (thread_current k) (\<lambda>cur. bnd (thread_at k cur) (\<lambda>th. Inr (priority th)))"

definition thread_foreach ::
  "(tptr \<Rightarrow> ('f, 'fs) kernel \<Rightarrow> ('f, 'fs) kernel) \<Rightarrow> ('f, 'fs) kernel \<Rightarrow> ('f, 'fs) kernel result" where
  "thread_foreach func k =
     bnd (assert (intr k = INTR_OFF)) (\<lambda>_. Inr (fold func (all_list k) k))"

definition thread_get_nice :: "('f, 'fs) kernel \<Rightarrow> int" where "thread_get_nice k = 0"
definition thread_set_nice :: "int \<Rightarrow> ('f, 'fs) kernel \<Rightarrow> ('f, 'fs) kernel" where "thread_set_nice n k = k"
definition thread_get_load_avg :: "('f, 'fs) kernel \<Rightarrow> int" where "thread_get_load_avg k = 0"
definition thread_get_recent_cpu :: "('f, 'fs) kernel \<Rightarrow> int" where "thread_get_recent_cpu k = 0"

text \<open>
  \<open>thread_start\<close> creates the idle thread and turns interrupts on, up to the semaphore on its own stack
  for which it then waits; \<open>page\<close>, \<open>child_ok\<close>, and the addresses of \<^verbatim>\<open>idle\<close> and of the semaphore are arguments.
  \<open>idle_start\<close> is the idle thread up to its first \<^verbatim>\<open>thread_block\<close> without the \<^verbatim>\<open>sema_up\<close> on a
  semaphore of \<^verbatim>\<open>thread_start\<close>'s stack, \<open>idle_round\<close> one round of its loop up to the switch.
  \<open>kernel_thread_return\<close> is what a thread does when its function returns.
\<close>

definition thread_start ::
  "('f, 'fs) api \<Rightarrow> tptr \<Rightarrow> bool \<Rightarrow> 32 word \<Rightarrow> 32 word \<Rightarrow> ('f, 'fs) kernel \<Rightarrow> ('f, 'fs) kernel result" where
  "thread_start api page child_ok idle_fn idle_started k =
     bnd (thread_create api page child_ok (Some ''idle'') PRI_MIN idle_fn idle_started k) (\<lambda>(_, k1).
     Inr (intr_set_level INTR_ON k1))"

definition idle_start :: "('f, 'fs) kernel \<Rightarrow> ('f, 'fs) kernel result" where
  "idle_start k = bnd (thread_current k) (\<lambda>cur. Inr (k\<lparr>idle_thread := cur\<rparr>))"

definition idle_round :: "('f, 'fs) kernel \<Rightarrow> ('f, 'fs) kernel result" where
  "idle_round k = thread_block (intr_disable k)"

definition kernel_thread_begin :: "32 word \<Rightarrow> ('f, 'fs) kernel \<Rightarrow> ('f, 'fs) kernel result" where
  "kernel_thread_begin function k =
     bnd (assert (function \<noteq> 0)) (\<lambda>_. Inr (intr_set_level INTR_ON k))"

definition kernel_thread_return :: "('f, 'fs) api \<Rightarrow> ('f, 'fs) kernel \<Rightarrow> ('f, 'fs) kernel result" where
  "kernel_thread_return api k = thread_exit api k"

end
