(* ===== verification/Processes.thy ===== *)
theory Processes
  imports User_Threads Elf_Loader
begin

section \<open>Processes (Assignment 6)\<close>

text \<open>
  \<^verbatim>\<open>process_execute\<close>, \<^verbatim>\<open>start_process\<close> and \<^verbatim>\<open>process_wait\<close> of \<^verbatim>\<open>process.c\<close>, and \<^verbatim>\<open>exec\<close>,
  \<^verbatim>\<open>exit\<close> and \<^verbatim>\<open>wait\<close> of \<^verbatim>\<open>syscall.c\<close>. A function that can sleep in \<^verbatim>\<open>sema_down\<close> is modelled by
  two: the code up to the end of the first attempt, and what the thread does each time it has
  been woken (\<open>_resume\<close>). The value \<open>None\<close> says that the thread sleeps now.

  Results of the allocators are inputs: \<open>exec_env\<close> holds those of one \<^verbatim>\<open>process_execute\<close>.
\<close>

record exec_env =
  env_name_ok :: bool
  env_fn_page :: "32 word"
  env_thread_page :: tptr
  env_child_ok :: bool

definition process_execute ::
  "('f, 'fs) api \<Rightarrow> exec_env \<Rightarrow> string \<Rightarrow> ('f, 'fs) kernel \<Rightarrow> (int \<times> ('f, 'fs) kernel) result" where
  "process_execute api env file_name k =
     (if \<not> env_name_ok env then Inl Null_deref
      else
        let tok = strtok_r '' '' (strlcpy file_name (length file_name + 1)) in
        if env_fn_page env = 0 then Inr (TID_ERROR, k)
        else
          let k1 = k\<lparr>cmd_pages := (cmd_pages k)(env_fn_page env \<mapsto> strlcpy file_name 4096)\<rparr> in
          bnd (thread_create api (env_thread_page env) (env_child_ok env)
                (map_option (\<lambda>(skip, name, rest). name) tok) PRI_DEFAULT (api_start_process api)
                (env_fn_page env) k1) (\<lambda>(t, k2).
          if (case tok of Some (skip, name, rest) \<Rightarrow> skip \<noteq> 0 | None \<Rightarrow> False) then Inl Bad_free
          else if t = TID_ERROR
          then Inr (t, k2\<lparr>cmd_pages := (cmd_pages k2)(env_fn_page env := None)\<rparr>)
          else Inr (t, k2)))"

text \<open>What \<^verbatim>\<open>load\<close> has done to the file system: the calls it has added to \<open>file_ops\<close>.\<close>

fun file_effect :: "('f, 'fs) api \<Rightarrow> 'f file_op \<Rightarrow> 'fs \<Rightarrow> 'fs" where
  "file_effect api (Opens name) s = api_filesys_open api name s"
| "file_effect api (Denies_write f) s = api_file_deny_write api f s"
| "file_effect api (Closes f) s = api_file_close api f s"

definition load_effects :: "('f, 'fs) api \<Rightarrow> 'f image \<Rightarrow> 'f image \<Rightarrow> 'fs \<Rightarrow> 'fs" where
  "load_effects api im im' s = fold (file_effect api) (drop (length (file_ops im)) (file_ops im')) s"

definition start_process ::
  "('f, 'fs) api \<Rightarrow> 'f sys \<Rightarrow> 'f image \<Rightarrow> ('f, 'fs) kernel \<Rightarrow>
   ((32 word \<times> 32 word) option \<times> ('f, 'fs) kernel) result" where
  "start_process api sys im k =
     bnd (thread_current k) (\<lambda>cur.
     bnd (thread_at k cur) (\<lambda>th.
     (case cmd_pages k (start_aux th) of
        None \<Rightarrow> Inl Bad_pointer
      | Some file_name \<Rightarrow>
          bnd (load sys file_name im) (\<lambda>r.
          let (success, entry, k1) =
                (case r of
                   Load_failed im' \<Rightarrow>
                     (False, None,
                      (if pagedir_create_ok sys
                       then (upd_thread cur (\<lambda>th. th\<lparr>pagedir := Some (space im')\<rparr>) k)
                              \<lparr>active_pagedir := Some (space im')\<rparr> else k)
                        \<lparr>fs := load_effects api im im' (fs k)\<rparr>)
                 | Load_succeeded eip sp im' \<Rightarrow>
                     (True, Some (eip, sp),
                      (upd_thread cur (\<lambda>th. th\<lparr>pagedir := Some (space im'),
                        exec_file := loaded_file im'\<rparr>) k)
                        \<lparr>active_pagedir := Some (space im'), fs := load_effects api im im' (fs k)\<rparr>)) in
          bnd (if parent th \<noteq> 0 then
                 bnd (find_child k1 (parent th) (tid th)) (\<lambda>c.
                 Inr (upd_child (parent th) (tid th) (\<lambda>c. c\<lparr>load_status := success\<rparr>) k1))
               else Inr k1) (\<lambda>k2.
          bnd (sema_up api wait_load wait_load_update cur k2) (\<lambda>k3.
          let k4 = k3\<lparr>cmd_pages := (cmd_pages k3)(start_aux th := None)\<rparr> in
          if \<not> success then bnd (thread_exit api k4) (\<lambda>k5. Inr (None, k5))
          else Inr (entry, k4)))))))"

definition process_wait_resume ::
  "('f, 'fs) api \<Rightarrow> int \<Rightarrow> ('f, 'fs) kernel \<Rightarrow> (int option \<times> ('f, 'fs) kernel) result" where
  "process_wait_resume api t k =
     bnd (thread_current k) (\<lambda>cur.
     bnd (find_child k cur t) (\<lambda>c.
     bnd (sema_down api wait_exit wait_exit_update (child_thread c) k) (\<lambda>(taken, k1).
     if taken then bnd (find_child k1 cur t) (\<lambda>c. Inr (Some (exit_status c), k1))
     else Inr (None, k1))))"

definition process_wait ::
  "('f, 'fs) api \<Rightarrow> int \<Rightarrow> ('f, 'fs) kernel \<Rightarrow> (int option \<times> ('f, 'fs) kernel) result" where
  "process_wait api t k =
     bnd (thread_current k) (\<lambda>cur.
     bnd (find_child k cur t) (\<lambda>c.
     if \<not> parent_waiting c then
       let k1 = upd_child cur t (\<lambda>c. c\<lparr>parent_waiting := True\<rparr>) k in
       if cur_status c = ALIVE then process_wait_resume api t k1
       else Inr (Some (exit_status c), k1)
     else Inr (Some (- 1), k)))"

definition wait :: "('f, 'fs) api \<Rightarrow> int \<Rightarrow> ('f, 'fs) kernel \<Rightarrow> (int option \<times> ('f, 'fs) kernel) result" where
  "wait api pid k = process_wait api pid k"

definition exit :: "('f, 'fs) api \<Rightarrow> int \<Rightarrow> ('f, 'fs) kernel \<Rightarrow> ('f, 'fs) kernel result" where
  "exit api st k =
     bnd (thread_current k) (\<lambda>cur.
     bnd (thread_at k cur) (\<lambda>th.
     let k1 = k\<lparr>console := console k @ [(tname th, st)]\<rparr> in
     bnd (find_child k1 (parent th) (tid th)) (\<lambda>c.
     let k2 = upd_child (parent th) (tid th) (\<lambda>c. c\<lparr>exit_status := st,
                cur_status := (if st = - 1 then KILLED else EXITED)\<rparr>) k1 in
     thread_exit api k2)))"

definition exec_resume ::
  "('f, 'fs) api \<Rightarrow> int \<Rightarrow> ('f, 'fs) kernel \<Rightarrow> (int option \<times> ('f, 'fs) kernel) result" where
  "exec_resume api pid k =
     bnd (thread_current k) (\<lambda>cur.
     bnd (find_child k cur pid) (\<lambda>c.
     bnd (sema_down api wait_load wait_load_update (child_thread c) k) (\<lambda>(taken, k1).
     if taken then
       bnd (find_child k1 cur pid) (\<lambda>c.
       Inr (Some (if \<not> load_status c then - 1 else pid), k1))
     else Inr (None, k1))))"

definition exec ::
  "('f, 'fs) api \<Rightarrow> exec_env \<Rightarrow> string \<Rightarrow> ('f, 'fs) kernel \<Rightarrow> (int option \<times> ('f, 'fs) kernel) result" where
  "exec api env cmd_line k =
     bnd (process_execute api env cmd_line k) (\<lambda>(pid, k1). exec_resume api pid k1)"

end
