(* ===== verification/Syscalls.thy ===== *)
theory Syscalls
  imports Processes
begin

section \<open>System calls (Assignment 6)\<close>

text \<open>
  \<^verbatim>\<open>syscall.c\<close>: the check of user pointers, the file system calls with the table of open files of
  a process, and \<^verbatim>\<open>syscall_handler\<close> with its handlers.

  The kernel reads and writes user memory through the page directory that is active. An access
  that leaves the mapped user memory of the process is \<open>Bad_pointer\<close>: it is a page fault in the
  kernel, which \<^verbatim>\<open>exception.c\<close> turns into a panic, or, from \<^verbatim>\<open>PHYS_BASE\<close> on, an access to the
  kernel's own memory. Whether a user page is writable is not modelled here.

  The file system, the keyboard and the console are the parameter \<open>dev\<close>, as are the numbers of
  \<^verbatim>\<open>syscall-nr.h\<close>. A call that holds \<^verbatim>\<open>file_lock\<close> is one step.
\<close>

record ('f, 'fs) dev =
  machine :: "'f sys"
  filesys_create :: "string \<Rightarrow> 32 word \<Rightarrow> 'fs \<Rightarrow> bool \<times> 'fs"
  filesys_remove :: "string \<Rightarrow> 'fs \<Rightarrow> bool \<times> 'fs"
  filesys_open :: "string \<Rightarrow> 'fs \<Rightarrow> 'f option \<times> 'fs"
  file_length :: "'f \<Rightarrow> 'fs \<Rightarrow> int"
  file_read :: "'f \<Rightarrow> 32 word \<Rightarrow> 'fs \<Rightarrow> 8 word list \<times> 'fs"
  file_accepts :: "'f \<Rightarrow> 32 word \<Rightarrow> 'fs \<Rightarrow> nat"
  file_write :: "'f \<Rightarrow> 8 word list \<Rightarrow> 'fs \<Rightarrow> 'fs"
  input_getc :: "'fs \<Rightarrow> 8 word \<times> 'fs"
  putbuf :: "8 word list \<Rightarrow> 'fs \<Rightarrow> 'fs"
  SYS_EXIT :: int
  SYS_EXEC :: int
  SYS_WAIT :: int
  SYS_CREATE :: int
  SYS_REMOVE :: int
  SYS_OPEN :: int
  SYS_FILESIZE :: int
  SYS_READ :: int
  SYS_WRITE :: int
  SYS_CLOSE :: int

text \<open>
  \<^verbatim>\<open>struct intr_frame\<close>, the fields this code uses. What the allocators answer during one system
  call is an input of it.
\<close>

record intr_frame =
  esp :: "32 word"
  eax :: "32 word"
  cs :: "16 word"
  vec_no :: "32 word"
  error_code :: "32 word"

record call_env =
  call_exec :: exec_env
  call_fd_ok :: bool

text \<open>
  How a system call ends: it returns to the user, the process is gone and another thread runs, or
  the thread sleeps in \<^verbatim>\<open>exec\<close> or \<^verbatim>\<open>wait\<close> for the child with that tid.
\<close>

datatype ('f, 'fs) outcome =
    Returned intr_frame "('f, 'fs) kernel"
  | Ended "('f, 'fs) kernel"
  | Sleeps_in_exec int "('f, 'fs) kernel"
  | Sleeps_in_wait int "('f, 'fs) kernel"

subsection \<open>User memory\<close>

definition user_memory :: "('f, 'fs) kernel \<Rightarrow> umem" where
  "user_memory k = (case active_pagedir k of None \<Rightarrow> (\<lambda>_. None) | Some m \<Rightarrow> m)"

fun load_bytes :: "nat \<Rightarrow> umem \<Rightarrow> 32 word \<Rightarrow> 8 word list result" where
  "load_bytes 0 m a = Inr []"
| "load_bytes (Suc n) m a =
     (case m a of None \<Rightarrow> Inl Bad_pointer | Some b \<Rightarrow> bnd (load_bytes n m (a + 1)) (\<lambda>bs. Inr (b # bs)))"

text \<open>A string of the user: no address from \<^verbatim>\<open>PHYS_BASE\<close> on is mapped, so the fuel is enough.\<close>

definition user_string :: "32 word \<Rightarrow> ('f, 'fs) kernel \<Rightarrow> string result" where
  "user_string a k = bnd (string_at (2 ^ 32) (user_memory k) a) (\<lambda>bs. Inr (map (\<lambda>b. char_of (unat b)) bs))"

definition load_int :: "32 word \<Rightarrow> ('f, 'fs) kernel \<Rightarrow> int result" where
  "load_int a k = bnd (load32 (user_memory k) a) (\<lambda>w. Inr (sint w))"

definition store_user :: "32 word \<Rightarrow> 8 word list \<Rightarrow> ('f, 'fs) kernel \<Rightarrow> ('f, 'fs) kernel result" where
  "store_user a bs k =
     bnd (store_bytes a bs (user_memory k)) (\<lambda>m.
     Inr (if bs = [] then k
          else (upd_thread (running k) (\<lambda>th. th\<lparr>pagedir := Some m\<rparr>) k)\<lparr>active_pagedir := Some m\<rparr>))"

text \<open>
  \<open>None\<close>: the pointer passes. \<open>Some k'\<close>: the process has been ended, with \<open>k'\<close> afterwards.
  \<^verbatim>\<open>pagedir_get_page\<close> asserts that there is a page directory.
\<close>

definition check_valid_ptr ::
  "('f, 'fs) api \<Rightarrow> ('f, 'fs) dev \<Rightarrow> 32 word \<Rightarrow> ('f, 'fs) kernel \<Rightarrow> ('f, 'fs) kernel option result" where
  "check_valid_ptr api dev pointer k =
     (if \<not> is_user_vaddr (machine dev) pointer then bnd (exit api (- 1) k) (\<lambda>k'. Inr (Some k'))
      else
        bnd (thread_current k) (\<lambda>cur.
        bnd (thread_at k cur) (\<lambda>th.
        (case pagedir th of
           None \<Rightarrow> Inl Assertion_failed
         | Some m \<Rightarrow>
             if m pointer = None then bnd (exit api (- 1) k) (\<lambda>k'. Inr (Some k'))
             else Inr None))))"

definition checked ::
  "('f, 'fs) api \<Rightarrow> ('f, 'fs) dev \<Rightarrow> 32 word \<Rightarrow> ('f, 'fs) kernel \<Rightarrow> ('f, 'fs) outcome result \<Rightarrow>
   ('f, 'fs) outcome result" where
  "checked api dev pointer k rest =
     bnd (check_valid_ptr api dev pointer k) (\<lambda>r.
     (case r of Some k' \<Rightarrow> Inr (Ended k') | None \<Rightarrow> rest))"

subsection \<open>The table of open files\<close>

fun get_fd_element :: "int \<Rightarrow> 'f fd_element list \<Rightarrow> 'f fd_element option" where
  "get_fd_element n [] = None"
| "get_fd_element n (e # es) = (if fd e = n then Some e else get_fd_element n es)"

definition get_fd :: "int \<Rightarrow> ('f, 'fs) kernel \<Rightarrow> 'f fd_element option result" where
  "get_fd n k =
     bnd (thread_current k) (\<lambda>cur.
     bnd (thread_at k cur) (\<lambda>th.
     Inr (get_fd_element n (fd_list th))))"

definition create ::
  "('f, 'fs) dev \<Rightarrow> 32 word \<Rightarrow> 32 word \<Rightarrow> ('f, 'fs) kernel \<Rightarrow> (bool \<times> ('f, 'fs) kernel) result" where
  "create dev file_name initial_size k =
     bnd (user_string file_name k) (\<lambda>s.
     let (ret, s1) = filesys_create dev s initial_size (fs k) in Inr (ret, k\<lparr>fs := s1\<rparr>))"

definition remove ::
  "('f, 'fs) dev \<Rightarrow> 32 word \<Rightarrow> ('f, 'fs) kernel \<Rightarrow> (bool \<times> ('f, 'fs) kernel) result" where
  "remove dev file_name k =
     bnd (user_string file_name k) (\<lambda>s.
     let (ret, s1) = filesys_remove dev s (fs k) in Inr (ret, k\<lparr>fs := s1\<rparr>))"

text \<open>\<open>fd_ok\<close> tells whether the \<^verbatim>\<open>malloc\<close> of the table entry succeeds, which the code does not check.\<close>

definition open_file ::
  "('f, 'fs) dev \<Rightarrow> bool \<Rightarrow> 32 word \<Rightarrow> ('f, 'fs) kernel \<Rightarrow> (int \<times> ('f, 'fs) kernel) result" where
  "open_file dev fd_ok file_name k =
     bnd (thread_current k) (\<lambda>cur.
     bnd (user_string file_name k) (\<lambda>s.
     let (opened_file, s1) = filesys_open dev s (fs k);
         k1 = k\<lparr>fs := s1\<rparr> in
     (case opened_file of
        None \<Rightarrow> Inr (- 1, k1)
      | Some f \<Rightarrow>
          bnd (thread_at k1 cur) (\<lambda>th.
          let ret = i32 (fd_size th + 1) in
          if \<not> fd_ok then Inl Null_deref
          else Inr (ret, upd_thread cur (\<lambda>th. th\<lparr>fd_size := ret,
                 fd_list := fd_list th @ [\<lparr>fd = ret, my_file = f\<rparr>]\<rparr>) k1)))))"

definition filesize :: "('f, 'fs) dev \<Rightarrow> int \<Rightarrow> ('f, 'fs) kernel \<Rightarrow> int result" where
  "filesize dev n k =
     bnd (get_fd n k) (\<lambda>e.
     (case e of None \<Rightarrow> Inl Null_deref | Some e \<Rightarrow> Inr (file_length dev (my_file e) (fs k))))"

definition read ::
  "('f, 'fs) dev \<Rightarrow> int \<Rightarrow> 32 word \<Rightarrow> 32 word \<Rightarrow> ('f, 'fs) kernel \<Rightarrow> (int \<times> ('f, 'fs) kernel) result" where
  "read dev n buffer sz k =
     (if n = 0 then let (c, s1) = input_getc dev (fs k) in Inr (uint c, k\<lparr>fs := s1\<rparr>)
      else if n > 0 then
        bnd (get_fd n k) (\<lambda>e.
        (case e of
           None \<Rightarrow> Inr (- 1, k)
         | Some e \<Rightarrow>
             if buffer = 0 then Inr (- 1, k)
             else
               let (bs, s1) = file_read dev (my_file e) sz (fs k);
                   ret = int (length bs) in
               bnd (store_user buffer bs (k\<lparr>fs := s1\<rparr>)) (\<lambda>k1.
               Inr (if ret < sint sz \<and> ret \<noteq> 0 then - 1 else ret, k1))))
      else Inr (- 1, k))"

definition write_buffer ::
  "('f, 'fs) dev \<Rightarrow> int \<Rightarrow> 32 word \<Rightarrow> 32 word \<Rightarrow> ('f, 'fs) kernel \<Rightarrow> (int \<times> ('f, 'fs) kernel) result" where
  "write_buffer dev n buffer sz k =
     (if n = 1 then
        bnd (load_bytes (unat sz) (user_memory k) buffer) (\<lambda>bs.
        Inr (sint sz, k\<lparr>fs := putbuf dev bs (fs k)\<rparr>))
      else
        bnd (get_fd n k) (\<lambda>e.
        (case e of
           None \<Rightarrow> Inr (- 1, k)
         | Some e \<Rightarrow>
             if buffer = 0 then Inr (- 1, k)
             else
               let c = file_accepts dev (my_file e) sz (fs k) in
               bnd (load_bytes c (user_memory k) buffer) (\<lambda>bs.
               Inr (int c, k\<lparr>fs := file_write dev (my_file e) bs (fs k)\<rparr>)))))"

fun remove_fd :: "int \<Rightarrow> 'f fd_element list \<Rightarrow> 'f fd_element list" where
  "remove_fd n [] = []"
| "remove_fd n (e # es) = (if fd e = n then es else e # remove_fd n es)"

definition close :: "('f, 'fs) api \<Rightarrow> int \<Rightarrow> ('f, 'fs) kernel \<Rightarrow> ('f, 'fs) kernel result" where
  "close api n k =
     bnd (thread_current k) (\<lambda>cur.
     bnd (thread_at k cur) (\<lambda>th.
     (case get_fd_element n (fd_list th) of
        None \<Rightarrow> Inr k
      | Some e \<Rightarrow>
          let k1 = upd_thread cur (\<lambda>th. th\<lparr>fd_list := remove_fd n (fd_list th)\<rparr>) k in
          Inr (k1\<lparr>fs := api_file_close api (Some (my_file e)) (fs k1)\<rparr>))))"

subsection \<open>The handlers\<close>

definition ret :: "intr_frame \<Rightarrow> int \<Rightarrow> ('f, 'fs) kernel \<Rightarrow> ('f, 'fs) outcome" where
  "ret f v k = Returned (f\<lparr>eax := word_of_int v\<rparr>) k"

definition handle_exit ::
  "('f, 'fs) api \<Rightarrow> intr_frame \<Rightarrow> 32 word \<Rightarrow> ('f, 'fs) kernel \<Rightarrow> ('f, 'fs) outcome result" where
  "handle_exit api f args k =
     bnd (load_int args k) (\<lambda>argv.
     bnd (exit api argv k) (\<lambda>k'. Inr (Ended k')))"

definition handle_exec ::
  "('f, 'fs) api \<Rightarrow> ('f, 'fs) dev \<Rightarrow> exec_env \<Rightarrow> intr_frame \<Rightarrow> 32 word \<Rightarrow> ('f, 'fs) kernel \<Rightarrow>
   ('f, 'fs) outcome result" where
  "handle_exec api dev env f args k =
     bnd (load_int args k) (\<lambda>argv.
     checked api dev (word_of_int argv) k (
     bnd (user_string (word_of_int argv) k) (\<lambda>cmd_line.
     bnd (process_execute api env cmd_line k) (\<lambda>(pid, k1).
     bnd (exec_resume api pid k1) (\<lambda>(r, k2).
     Inr (case r of Some v \<Rightarrow> ret f v k2 | None \<Rightarrow> Sleeps_in_exec pid k2))))))"

definition handle_wait ::
  "('f, 'fs) api \<Rightarrow> intr_frame \<Rightarrow> 32 word \<Rightarrow> ('f, 'fs) kernel \<Rightarrow> ('f, 'fs) outcome result" where
  "handle_wait api f args k =
     bnd (load_int args k) (\<lambda>argv.
     bnd (wait api argv k) (\<lambda>(r, k1).
     Inr (case r of Some v \<Rightarrow> ret f v k1 | None \<Rightarrow> Sleeps_in_wait argv k1)))"

definition handle_close :: "intr_frame \<Rightarrow> 32 word \<Rightarrow> ('f, 'fs) kernel \<Rightarrow> ('f, 'fs) outcome result" where
  "handle_close f args k = bnd (load_int args k) (\<lambda>argv. Inr (Returned f k))"

definition handle_remove ::
  "('f, 'fs) api \<Rightarrow> ('f, 'fs) dev \<Rightarrow> intr_frame \<Rightarrow> 32 word \<Rightarrow> ('f, 'fs) kernel \<Rightarrow> ('f, 'fs) outcome result" where
  "handle_remove api dev f args k =
     bnd (load_int args k) (\<lambda>argv.
     checked api dev (word_of_int argv) k (
     bnd (remove dev (word_of_int argv) k) (\<lambda>(b, k1). Inr (ret f (of_bool b) k1))))"

definition handle_open ::
  "('f, 'fs) api \<Rightarrow> ('f, 'fs) dev \<Rightarrow> bool \<Rightarrow> intr_frame \<Rightarrow> 32 word \<Rightarrow> ('f, 'fs) kernel \<Rightarrow>
   ('f, 'fs) outcome result" where
  "handle_open api dev fd_ok f args k =
     bnd (load_int args k) (\<lambda>argv.
     checked api dev (word_of_int argv) k (
     bnd (open_file dev fd_ok (word_of_int argv) k) (\<lambda>(v, k1). Inr (ret f v k1))))"

definition handle_filesize ::
  "('f, 'fs) dev \<Rightarrow> intr_frame \<Rightarrow> 32 word \<Rightarrow> ('f, 'fs) kernel \<Rightarrow> ('f, 'fs) outcome result" where
  "handle_filesize dev f args k =
     bnd (load_int args k) (\<lambda>argv.
     bnd (filesize dev argv k) (\<lambda>v. Inr (ret f v k)))"

definition handle_create ::
  "('f, 'fs) api \<Rightarrow> ('f, 'fs) dev \<Rightarrow> intr_frame \<Rightarrow> 32 word \<Rightarrow> ('f, 'fs) kernel \<Rightarrow> ('f, 'fs) outcome result" where
  "handle_create api dev f args k =
     bnd (load_int args k) (\<lambda>argv.
     bnd (load_int (args + 4) k) (\<lambda>argv_1.
     checked api dev (word_of_int argv) k (
     bnd (create dev (word_of_int argv) (word_of_int argv_1) k) (\<lambda>(b, k1).
     Inr (ret f (of_bool b) k1)))))"

definition handle_write ::
  "('f, 'fs) api \<Rightarrow> ('f, 'fs) dev \<Rightarrow> intr_frame \<Rightarrow> 32 word \<Rightarrow> ('f, 'fs) kernel \<Rightarrow> ('f, 'fs) outcome result" where
  "handle_write api dev f args k =
     bnd (load_int args k) (\<lambda>argv.
     bnd (load_int (args + 4) k) (\<lambda>argv_1.
     bnd (load_int (args + 8) k) (\<lambda>argv_2.
     checked api dev (word_of_int argv_1) k (
     checked api dev (word_of_int argv_1 + word_of_int argv_2) k (
     bnd (write_buffer dev argv (word_of_int argv_1) (word_of_int argv_2) k) (\<lambda>(v, k1).
     Inr (ret f v k1)))))))"

definition handle_read ::
  "('f, 'fs) api \<Rightarrow> ('f, 'fs) dev \<Rightarrow> intr_frame \<Rightarrow> 32 word \<Rightarrow> ('f, 'fs) kernel \<Rightarrow> ('f, 'fs) outcome result" where
  "handle_read api dev f args k =
     bnd (load_int args k) (\<lambda>argv.
     bnd (load_int (args + 4) k) (\<lambda>argv_1.
     bnd (load_int (args + 8) k) (\<lambda>argv_2.
     checked api dev (word_of_int argv_1) k (
     checked api dev (word_of_int argv_1 + word_of_int argv_2) k (
     bnd (read dev argv (word_of_int argv_1) (word_of_int argv_2) k) (\<lambda>(v, k1).
     Inr (ret f v k1)))))))"

definition syscall_handler ::
  "('f, 'fs) api \<Rightarrow> ('f, 'fs) dev \<Rightarrow> call_env \<Rightarrow> intr_frame \<Rightarrow> ('f, 'fs) kernel \<Rightarrow>
   ('f, 'fs) outcome result" where
  "syscall_handler api dev env f k =
     checked api dev (esp f) k (
     bnd (load_int (esp f) k) (\<lambda>syscall_number.
     let args = esp f + 4 in
     checked api dev args k (
     if syscall_number = SYS_EXIT dev then handle_exit api f args k
     else if syscall_number = SYS_EXEC dev then handle_exec api dev (call_exec env) f args k
     else if syscall_number = SYS_CREATE dev then handle_create api dev f args k
     else if syscall_number = SYS_REMOVE dev then handle_remove api dev f args k
     else if syscall_number = SYS_OPEN dev then handle_open api dev (call_fd_ok env) f args k
     else if syscall_number = SYS_FILESIZE dev then handle_filesize dev f args k
     else if syscall_number = SYS_READ dev then handle_read api dev f args k
     else if syscall_number = SYS_WRITE dev then handle_write api dev f args k
     else if syscall_number = SYS_CLOSE dev then handle_close f args k
     else if syscall_number = SYS_WAIT dev then handle_wait api f args k
     else bnd (exit api (- 1) k) (\<lambda>k'. Inr (Ended k')))))"

text \<open>
  A sleeping call goes on when the thread has been woken; the frame is the one on its stack.
\<close>

definition exec_wakes ::
  "('f, 'fs) api \<Rightarrow> intr_frame \<Rightarrow> int \<Rightarrow> ('f, 'fs) kernel \<Rightarrow> ('f, 'fs) outcome result" where
  "exec_wakes api f pid k =
     bnd (exec_resume api pid k) (\<lambda>(r, k1).
     Inr (case r of Some v \<Rightarrow> ret f v k1 | None \<Rightarrow> Sleeps_in_exec pid k1))"

definition wait_wakes ::
  "('f, 'fs) api \<Rightarrow> intr_frame \<Rightarrow> int \<Rightarrow> ('f, 'fs) kernel \<Rightarrow> ('f, 'fs) outcome result" where
  "wait_wakes api f pid k =
     bnd (process_wait_resume api pid k) (\<lambda>(r, k1).
     Inr (case r of Some v \<Rightarrow> ret f v k1 | None \<Rightarrow> Sleeps_in_wait pid k1))"

end
