(* ===== verification/User_Scheduler.thy ===== *)
theory User_Scheduler
  imports User_Threads
begin

section \<open>Correctness of the round-robin scheduler\<close>

text \<open>
  The invariant of the scheduler of Assignment 6 (the same as that of Assignment 4: which thread is
  where, and in which list), its preservation by every operation, and what first-in-first-out
  order gives. \<^verbatim>\<open>thread_exit\<close> runs \<^verbatim>\<open>process_exit\<close> first and is treated with the processes.
\<close>

subsection \<open>The invariant\<close>

definition u_threads_ok :: "('f, 'fs) kernel \<Rightarrow> bool" where
  "u_threads_ok k \<longleftrightarrow> (\<forall>t th. pages k t = Some th \<longrightarrow> t \<noteq> 0 \<and> magic th = THREAD_MAGIC)"

definition u_queue_ok :: "('f, 'fs) kernel \<Rightarrow> bool" where
  "u_queue_ok k \<longleftrightarrow> distinct (ready_list k) \<and>
     (\<forall>t. t \<in> set (ready_list k) \<longleftrightarrow> status_of k t = Some THREAD_READY \<and> t \<noteq> idle_thread k)"

definition u_all_ok :: "('f, 'fs) kernel \<Rightarrow> bool" where
  "u_all_ok k \<longleftrightarrow> distinct (all_list k) \<and>
     (\<forall>t. t \<in> set (all_list k) \<longleftrightarrow>
        (\<exists>s. status_of k t = Some s \<and> s \<noteq> THREAD_DYING))"

definition u_idle_ok :: "('f, 'fs) kernel \<Rightarrow> bool" where
  "u_idle_ok k \<longleftrightarrow> (\<exists>s. status_of k (idle_thread k) = Some s \<and> s \<noteq> THREAD_DYING)"

definition u_cpu_ok :: "('f, 'fs) kernel \<Rightarrow> bool" where
  "u_cpu_ok k \<longleftrightarrow> (\<forall>t. status_of k t = Some THREAD_RUNNING \<longleftrightarrow> t = running k) \<and>
     (\<forall>t. status_of k t = Some THREAD_DYING \<longrightarrow> t = initial_thread k)"

definition u_sched_inv :: "('f, 'fs) kernel \<Rightarrow> bool" where
  "u_sched_inv k \<longleftrightarrow> u_threads_ok k \<and> u_queue_ok k \<and> u_all_ok k \<and> u_idle_ok k \<and> u_cpu_ok k"

text \<open>Between giving up the processor and \<open>schedule\<close> nobody is running.\<close>

definition u_handover_inv :: "('f, 'fs) kernel \<Rightarrow> bool" where
  "u_handover_inv k \<longleftrightarrow> u_threads_ok k \<and> u_queue_ok k \<and> u_all_ok k \<and> u_idle_ok k \<and> intr k = INTR_OFF \<and>
     (\<forall>t. status_of k t \<noteq> Some THREAD_RUNNING) \<and> status_of k (running k) \<noteq> None \<and>
     (\<forall>t. status_of k t = Some THREAD_DYING \<longrightarrow> t = initial_thread k \<or> t = running k)"

lemmas u_inv_defs = u_threads_ok_def u_queue_ok_def u_all_ok_def u_idle_ok_def u_cpu_ok_def
lemmas u_upd_defs = upd_thread_def set_status_def set_resume_def intr_set_level_def intr_disable_def

text \<open>What \<open>schedule\<close> computes when it is called as it must be.\<close>

definition u_switched_to :: "tptr \<Rightarrow> ('f, 'fs) kernel \<Rightarrow> ('f, 'fs) kernel" where
  "u_switched_to t k =
     (let k1 = (set_status t THREAD_RUNNING (k\<lparr>ready_list := tl (ready_list k), running := t\<rparr>))
                 \<lparr>thread_ticks := 0\<rparr> in
      (if status_of k (running k) = Some THREAD_DYING \<and> running k \<noteq> initial_thread k
       then k1\<lparr>pages := (pages k1)(running k := None)\<rparr> else k1)
        \<lparr>active_pagedir := (case pages k t of Some th \<Rightarrow> pagedir th | None \<Rightarrow> None)\<rparr>)"

definition u_chosen :: "('f, 'fs) kernel \<Rightarrow> tptr" where
  "u_chosen k = (case ready_list k of [] \<Rightarrow> idle_thread k | t # _ \<Rightarrow> t)"

lemma u_status_of_upd [simp]:
  "status_of (set_status t s k) u = (if u = t then map_option (\<lambda>_. s) (pages k t) else status_of k u)"
  "status_of (set_resume t l k) u = status_of k u"
  "status_of (intr_set_level l k) u = status_of k u"
  "status_of (intr_disable k) u = status_of k u"
  by (simp_all add: status_of_def u_upd_defs option.map_comp comp_def)

lemma u_status_of_fields [simp]:
  "status_of (k\<lparr>ready_list := x\<rparr>) u = status_of k u"
  "status_of (k\<lparr>all_list := x\<rparr>) u = status_of k u"
  "status_of (k\<lparr>running := y\<rparr>) u = status_of k u"
  "status_of (k\<lparr>thread_ticks := z\<rparr>) u = status_of k u"
  "status_of (k\<lparr>active_pagedir := v\<rparr>) u = status_of k u"
  by (simp_all add: status_of_def)

lemma u_status_of_None: "status_of k t = None \<longleftrightarrow> pages k t = None"
  by (simp add: status_of_def)

lemma u_is_threadI: "u_threads_ok k \<Longrightarrow> status_of k t \<noteq> None \<Longrightarrow> is_thread k t"
  by (auto simp: u_threads_ok_def is_thread_def u_status_of_None)

lemma u_chosen_facts:
  assumes "u_queue_ok k" "u_idle_ok k"
  shows "status_of k (u_chosen k) \<noteq> None" and "status_of k (u_chosen k) \<noteq> Some THREAD_DYING"
proof -
  have "\<exists>s. status_of k (u_chosen k) = Some s \<and> s \<noteq> THREAD_DYING"
  proof (cases "ready_list k")
    case Nil
    with assms(2) show ?thesis by (simp add: u_chosen_def u_idle_ok_def)
  next
    case (Cons t ts)
    then have "t \<in> set (ready_list k)" by simp
    with assms(1) have "status_of k t = Some THREAD_READY" unfolding u_queue_ok_def by blast
    with Cons show ?thesis by (simp add: u_chosen_def)
  qed
  then show "status_of k (u_chosen k) \<noteq> None" "status_of k (u_chosen k) \<noteq> Some THREAD_DYING"
    by auto
qed

lemma u_next_thread_to_run_eq:
  "next_thread_to_run k = (u_chosen k, k\<lparr>ready_list := tl (ready_list k)\<rparr>)"
proof (cases "ready_list k")
  case Nil
  then have "k\<lparr>ready_list := []\<rparr> = k" by (metis kernel.surjective kernel.update_convs(2))
  with Nil show ?thesis by (simp add: next_thread_to_run_def u_chosen_def)
next
  case (Cons t ts)
  then show ?thesis by (simp add: next_thread_to_run_def u_chosen_def)
qed

lemma u_is_thread_fields [simp]:
  "is_thread (k\<lparr>ready_list := x\<rparr>) t = is_thread k t"
  "is_thread (k\<lparr>running := y\<rparr>) t = is_thread k t"
  by (simp_all add: is_thread_def)

lemma u_kernel_upd [simp]:
  "intr (set_status t s k) = intr k" "running (set_status t s k) = running k"
  "initial_thread (set_status t s k) = initial_thread k"
  "ready_list (set_status t s k) = ready_list k" "all_list (set_status t s k) = all_list k"
  "idle_thread (set_status t s k) = idle_thread k"
  "in_interrupt (set_status t s k) = in_interrupt k"
  by (simp_all add: u_upd_defs)

lemma u_activate:
  assumes "is_thread k t"
  shows "process_activate ((set_status t THREAD_RUNNING (k\<lparr>ready_list := r, running := t\<rparr>))\<lparr>thread_ticks := 0\<rparr>)
    = Inr ((set_status t THREAD_RUNNING (k\<lparr>ready_list := r, running := t\<rparr>))
        \<lparr>thread_ticks := 0, active_pagedir := (case pages k t of Some th \<Rightarrow> pagedir th | None \<Rightarrow> None)\<rparr>)"
proof -
  obtain th where "pages k t = Some th" "magic th = THREAD_MAGIC" "t \<noteq> 0"
    using assms by (auto simp: is_thread_def split: option.splits)
  then show ?thesis
    by (simp add: process_activate_def thread_current_def thread_at_def is_thread_def status_of_def
        set_status_def upd_thread_def Let_def)
qed

lemma u_schedule_eq:
  assumes "u_handover_inv k"
  shows "schedule k = Inr (u_switched_to (u_chosen k) k)"
proof -
  let ?k1 = "k\<lparr>ready_list := tl (ready_list k), running := u_chosen k\<rparr>"
  have inv: "u_threads_ok k" "u_queue_ok k" "u_idle_ok k" "intr k = INTR_OFF"
    and no: "status_of k (running k) \<noteq> Some THREAD_RUNNING" "status_of k (running k) \<noteq> None"
    using assms unfolding u_handover_inv_def by blast+
  note c = u_chosen_facts [OF inv(2,3)]
  have ct: "is_thread k (u_chosen k)" using inv(1) c(1) by (rule u_is_threadI)
  have z: "running k \<noteq> 0" using inv(1) no(2) by (auto simp: u_threads_ok_def u_status_of_None)
  have same: "k\<lparr>ready_list := tl (ready_list k)\<rparr> = ?k1" if "running k = u_chosen k"
    unfolding that [symmetric] by simp
  have sch: "schedule k = (if running k \<noteq> u_chosen k then thread_schedule_tail (running k) ?k1
      else thread_schedule_tail 0 ?k1)"
    using inv(4) no(1) ct arg_cong [OF same, of "thread_schedule_tail 0"]
    by (simp add: schedule_def u_next_thread_to_run_eq Let_def)
  have tail: "thread_schedule_tail p ?k1 = Inr (
      let k1 = (set_status (u_chosen k) THREAD_RUNNING ?k1)\<lparr>thread_ticks := 0,
            active_pagedir := (case pages k (u_chosen k) of Some th \<Rightarrow> pagedir th | None \<Rightarrow> None)\<rparr> in
      if p \<noteq> 0 \<and> status_of k p = Some THREAD_DYING \<and> p \<noteq> initial_thread k
      then k1\<lparr>pages := (pages k1)(p := None)\<rparr> else k1)" if "p \<noteq> u_chosen k" for p
    using inv(4) that u_activate [OF ct, of "tl (ready_list k)"]
    by (simp add: thread_schedule_tail_def Let_def)
  have "u_chosen k \<noteq> 0" using ct by (simp add: is_thread_def)
  then show ?thesis
    using sch tail [of "running k"] tail [of 0] z c(2)
    by (auto simp: u_switched_to_def Let_def u_upd_defs)
qed

subsection \<open>A switch re-establishes the invariant\<close>

definition u_freed_by_switch :: "('f, 'fs) kernel \<Rightarrow> tptr \<Rightarrow> bool" where
  "u_freed_by_switch k u \<longleftrightarrow>
     u = running k \<and> status_of k u = Some THREAD_DYING \<and> u \<noteq> initial_thread k"

lemma u_switched_to_fields [simp]:
  "running (u_switched_to t k) = t" "ready_list (u_switched_to t k) = tl (ready_list k)"
  "all_list (u_switched_to t k) = all_list k" "idle_thread (u_switched_to t k) = idle_thread k"
  "initial_thread (u_switched_to t k) = initial_thread k" "intr (u_switched_to t k) = intr k"
  "in_interrupt (u_switched_to t k) = in_interrupt k" "thread_ticks (u_switched_to t k) = 0"
  "next_tid (u_switched_to t k) = next_tid k"
  "yield_on_return (u_switched_to t k) = yield_on_return k"
  by (simp_all add: u_switched_to_def Let_def u_upd_defs)

lemma u_pages_switched_to:
  "pages (u_switched_to t k) u =
     (if u_freed_by_switch k u then None
      else if u = t then map_option (\<lambda>th. th\<lparr>status := THREAD_RUNNING\<rparr>) (pages k u)
      else pages k u)"
  by (auto simp: u_switched_to_def Let_def u_upd_defs u_freed_by_switch_def)

lemma u_status_of_switched_to:
  "status_of (u_switched_to t k) u =
     (if u_freed_by_switch k u then None
      else if u = t then map_option (\<lambda>_. THREAD_RUNNING) (pages k u)
      else status_of k u)"
  by (simp add: status_of_def u_pages_switched_to option.map_comp comp_def)

lemma u_switched_to_inv:
  assumes "u_handover_inv k"
  shows "u_sched_inv (u_switched_to (u_chosen k) k)"
proof -
  let ?c = "u_chosen k" and ?k = "u_switched_to (u_chosen k) k"
  have q: "distinct (ready_list k)"
    and qs: "\<And>t. t \<in> set (ready_list k) \<longleftrightarrow> status_of k t = Some THREAD_READY \<and> t \<noteq> idle_thread k"
    and a: "distinct (all_list k)"
    and al: "\<And>t. t \<in> set (all_list k) \<longleftrightarrow> (\<exists>s. status_of k t = Some s \<and> s \<noteq> THREAD_DYING)"
    and th: "u_threads_ok k" and i: "u_idle_ok k"
    and nr: "\<And>t. status_of k t \<noteq> Some THREAD_RUNNING"
    and dy: "\<And>t. status_of k t = Some THREAD_DYING \<Longrightarrow> t = initial_thread k \<or> t = running k"
    using assms unfolding u_handover_inv_def u_queue_ok_def u_all_ok_def by blast+
  have qk: "u_queue_ok k" using q qs by (auto simp: u_queue_ok_def)
  have nfc: "\<not> u_freed_by_switch k ?c"
    using u_chosen_facts [OF qk i] by (auto simp: u_freed_by_switch_def)
  have sc: "\<exists>s. status_of k ?c = Some s" and snd: "status_of k ?c \<noteq> Some THREAD_DYING"
    using u_chosen_facts [OF qk i] by auto
  then have pc: "pages k ?c \<noteq> None" by (auto simp: u_status_of_None [symmetric])
  have st: "status_of ?k u = (if u_freed_by_switch k u then None else if u = ?c
      then Some THREAD_RUNNING else status_of k u)" for u
    using pc by (auto simp: u_status_of_switched_to)
  have "u_threads_ok ?k"
    using th by (auto simp: u_threads_ok_def u_pages_switched_to split: if_splits)
  moreover have "u_queue_ok ?k"
    unfolding u_queue_ok_def
  proof (intro conjI allI)
    show "distinct (ready_list ?k)" using q by (simp add: distinct_tl)
    fix t
    have "t \<in> set (tl (ready_list k)) \<longleftrightarrow> t \<in> set (ready_list k) \<and> (ready_list k = [] \<or> t \<noteq> ?c)"
      using q by (cases "ready_list k") (auto simp: u_chosen_def)
    moreover have "ready_list k = [] \<Longrightarrow> ?c = idle_thread k" by (simp add: u_chosen_def)
    ultimately show "t \<in> set (ready_list ?k) \<longleftrightarrow>
        status_of ?k t = Some THREAD_READY \<and> t \<noteq> idle_thread ?k"
      using qs [of t] by (auto simp: st u_freed_by_switch_def)
  qed
  moreover have "u_all_ok ?k"
    using a al snd sc by (auto simp: u_all_ok_def st u_freed_by_switch_def)
  moreover have "u_idle_ok ?k"
    using i by (auto simp: u_idle_ok_def st u_freed_by_switch_def)
  moreover have "u_cpu_ok ?k"
    using nr dy nfc by (auto simp: u_cpu_ok_def st) (auto simp: u_freed_by_switch_def)
  ultimately show ?thesis by (simp add: u_sched_inv_def)
qed

lemma u_schedule_inv:
  assumes "u_handover_inv k"
  shows "\<exists>k'. schedule k = Inr k' \<and> u_sched_inv k' \<and> k' = u_switched_to (u_chosen k) k"
  using u_schedule_eq [OF assms] u_switched_to_inv [OF assms] by blast

subsection \<open>Giving up the processor\<close>

lemma u_sched_invD:
  assumes "u_sched_inv k"
  shows "u_threads_ok k" "u_queue_ok k" "u_all_ok k" "u_idle_ok k" "u_cpu_ok k"
    and "status_of k (running k) = Some THREAD_RUNNING"
    and "is_thread k (running k)"
  using assms by (auto simp: u_sched_inv_def u_cpu_ok_def intro: u_is_threadI)

lemma u_thread_current_eq:
  assumes "u_sched_inv k"
  shows "thread_current k = Inr (running k)"
  using u_sched_invD [OF assms] by (simp add: thread_current_def)

lemma thread_at_Inr: "thread_at k t = Inr th \<longleftrightarrow> t \<noteq> 0 \<and> pages k t = Some th"
  by (auto simp: thread_at_def split: option.splits)

lemma u_threads_ok_upd:
  assumes "u_threads_ok k" and "\<And>th. magic (f th) = magic th"
  shows "u_threads_ok (upd_thread t f k)"
  using assms by (auto simp: u_threads_ok_def upd_thread_def)

lemma u_threads_ok_set [simp]:
  "u_threads_ok k \<Longrightarrow> u_threads_ok (set_status t s k)"
  "u_threads_ok k \<Longrightarrow> u_threads_ok (set_resume t l k)"
  by (simp_all add: set_status_def set_resume_def u_threads_ok_upd)

lemma u_threads_ok_fields [simp]:
  "u_threads_ok (k\<lparr>ready_list := x\<rparr>) = u_threads_ok k"
  "u_threads_ok (k\<lparr>all_list := x\<rparr>) = u_threads_ok k"
  "u_threads_ok (intr_set_level l k) = u_threads_ok k"
  "u_threads_ok (intr_disable k) = u_threads_ok k"
  by (simp_all add: u_threads_ok_def u_upd_defs)

lemma u_kernel_upd2 [simp]:
  "intr (set_resume t l k) = intr k" "running (set_resume t l k) = running k"
  "initial_thread (set_resume t l k) = initial_thread k"
  "ready_list (set_resume t l k) = ready_list k" "all_list (set_resume t l k) = all_list k"
  "idle_thread (set_resume t l k) = idle_thread k"
  "in_interrupt (set_resume t l k) = in_interrupt k"
  "intr (intr_set_level l k) = l" "running (intr_set_level l k) = running k"
  "initial_thread (intr_set_level l k) = initial_thread k"
  "ready_list (intr_set_level l k) = ready_list k" "all_list (intr_set_level l k) = all_list k"
  "idle_thread (intr_set_level l k) = idle_thread k"
  "in_interrupt (intr_set_level l k) = in_interrupt k"
  "pages (intr_set_level l k) = pages k"
  by (simp_all add: u_upd_defs)

lemma u_intr_disable_eq: "intr_disable k = intr_set_level INTR_OFF k"
  by (simp add: intr_disable_def)

text \<open>The state in which each operation calls \<open>schedule\<close>.\<close>

definition u_blocked :: "('f, 'fs) kernel \<Rightarrow> ('f, 'fs) kernel" where
  "u_blocked k = set_status (running k) THREAD_BLOCKED k"

definition u_yielded :: "('f, 'fs) kernel \<Rightarrow> ('f, 'fs) kernel" where
  "u_yielded k =
     (let k1 = intr_set_level INTR_OFF k;
          k2 = (if running k \<noteq> idle_thread k
                then k1\<lparr>ready_list :=
                  ready_list k @ [running k]\<rparr>
                else k1) in
      set_resume (running k) (intr k) (set_status (running k) THREAD_READY k2))"

definition u_exited :: "('f, 'fs) kernel \<Rightarrow> ('f, 'fs) kernel" where
  "u_exited k =
     set_status (running k) THREAD_DYING
       (intr_set_level INTR_OFF (k\<lparr>all_list := remove1 (running k) (all_list k)\<rparr>))"

lemma u_running_page: "u_sched_inv k \<Longrightarrow> \<exists>th. pages k (running k) = Some th"
  using u_sched_invD(6) [of k] by (auto simp: status_of_def)

lemma u_sched_inv_sets:
  assumes "u_sched_inv k"
  shows "distinct (ready_list k)" "distinct (all_list k)"
    and "\<And>t. t \<in> set (ready_list k) \<longleftrightarrow> status_of k t = Some THREAD_READY \<and> t \<noteq> idle_thread k"
    and "\<And>t. t \<in> set (all_list k) \<longleftrightarrow> (\<exists>s. status_of k t = Some s \<and> s \<noteq> THREAD_DYING)"
    and "\<And>t. status_of k t = Some THREAD_RUNNING \<longleftrightarrow> t = running k"
    and "\<And>t. status_of k t = Some THREAD_DYING \<Longrightarrow> t = initial_thread k"
    and "\<exists>s. status_of k (idle_thread k) = Some s \<and> s \<noteq> THREAD_DYING"
  using assms unfolding u_sched_inv_def u_inv_defs by blast+

lemma u_running_not_ready: "u_sched_inv k \<Longrightarrow> running k \<notin> set (ready_list k)"
  using u_sched_inv_sets(3) [of k "running k"] u_sched_invD(6) [of k] by simp

lemma u_blocked_handover:
  assumes "u_sched_inv k" and "intr k = INTR_OFF"
  shows "u_handover_inv (u_blocked k)"
proof -
  note f = u_sched_inv_sets [OF assms(1)] and r = u_running_page [OF assms(1)]
  have st: "status_of (u_blocked k) u = (if u = running k then Some THREAD_BLOCKED else status_of k u)" for u
    using r by (auto simp: u_blocked_def)
  have n: "running k \<notin> set (ready_list k)" using assms(1) by (rule u_running_not_ready)
  have "u_queue_ok (u_blocked k)"
    unfolding u_queue_ok_def st using f(1,3) n by (simp add: u_blocked_def; metis)
  moreover have "u_all_ok (u_blocked k)"
    unfolding u_all_ok_def st using f(2,4,5) by (simp add: u_blocked_def; metis thread_status.distinct(5))
  moreover have "u_idle_ok (u_blocked k)"
    unfolding u_idle_ok_def st using f(7) by (simp add: u_blocked_def)
  ultimately show ?thesis
    using u_sched_invD(1) [OF assms(1)] assms(2) f(5,6) unfolding u_handover_inv_def st
    by (simp add: u_blocked_def; metis)
qed

lemma u_exited_handover:
  assumes "u_sched_inv k" and "running k \<noteq> idle_thread k"
  shows "u_handover_inv (u_exited k)"
proof -
  note f = u_sched_inv_sets [OF assms(1)] and r = u_running_page [OF assms(1)]
  have st: "status_of (u_exited k) u = (if u = running k then Some THREAD_DYING else status_of k u)" for u
    using r by (auto simp: u_exited_def)
  have n: "running k \<notin> set (ready_list k)" using assms(1) by (rule u_running_not_ready)
  have "u_queue_ok (u_exited k)"
    unfolding u_queue_ok_def st using f(1,3) n by (simp add: u_exited_def; metis)
  moreover have "u_all_ok (u_exited k)"
    unfolding u_all_ok_def st using f(2,4) by (simp add: u_exited_def; metis)
  moreover have "u_idle_ok (u_exited k)"
    unfolding u_idle_ok_def st using f(7) assms(2) by (simp add: u_exited_def)
  ultimately show ?thesis
    using u_sched_invD(1) [OF assms(1)] f(5,6) unfolding u_handover_inv_def st
    by (simp add: u_exited_def; metis)
qed

lemma u_yielded_handover:
  assumes "u_sched_inv k"
  shows "u_handover_inv (u_yielded k)"
proof -
  let ?y = "u_yielded k"
  note f = u_sched_inv_sets [OF assms] and r = u_running_page [OF assms]
  have st: "status_of ?y u = (if u = running k then Some THREAD_READY else status_of k u)" for u
    using r by (auto simp: u_yielded_def Let_def)
  have n: "running k \<notin> set (ready_list k)" using assms by (rule u_running_not_ready)
  have rl: "set (ready_list ?y) = set (ready_list k) \<union> ({running k} - {idle_thread k})"
    and dl: "distinct (ready_list ?y)"
    using f(1) n by (auto simp: u_yielded_def Let_def)
  have "u_queue_ok ?y"
    unfolding u_queue_ok_def st rl using dl f(3) by (simp add: u_yielded_def Let_def; metis)
  moreover have "u_all_ok ?y"
    unfolding u_all_ok_def st using f(2,4,5)
    by (simp add: u_yielded_def Let_def; metis thread_status.distinct(5,9))
  moreover have "u_idle_ok ?y"
    unfolding u_idle_ok_def st using f(7) by (simp add: u_yielded_def Let_def)
  ultimately show ?thesis
    using u_sched_invD(1) [OF assms] f(5,6) unfolding u_handover_inv_def st
    by (simp add: u_yielded_def Let_def; metis)
qed

lemma u_thread_block_eq:
  assumes "u_sched_inv k" "\<not> in_interrupt k" "intr k = INTR_OFF"
  shows "thread_block k = Inr (u_switched_to (u_chosen (u_blocked k)) (u_blocked k))"
  using assms u_schedule_eq [OF u_blocked_handover [OF assms(1,3)]] u_thread_current_eq [OF assms(1)]
  by (simp add: thread_block_def u_blocked_def)

lemma u_thread_yield_eq:
  assumes "u_sched_inv k" "\<not> in_interrupt k"
  shows "thread_yield k = Inr (u_switched_to (u_chosen (u_yielded k)) (u_yielded k))"
proof -
  have "thread_yield k = schedule (u_yielded k)"
    using assms(2) u_thread_current_eq [OF assms(1)]
    by (simp add: thread_yield_def u_yielded_def Let_def intr_disable_def)
  then show ?thesis using u_schedule_eq [OF u_yielded_handover [OF assms(1)]] by simp
qed

lemma u_sched_inv_intr [simp]: "u_sched_inv (intr_set_level l k) = u_sched_inv k"
  by (simp add: u_sched_inv_def u_inv_defs)

lemma u_thread_unblock_eq:
  assumes "u_sched_inv k" "status_of k t = Some THREAD_BLOCKED"
  shows "thread_unblock t k = Inr (set_status t THREAD_READY (k\<lparr>ready_list := ready_list k @ [t]\<rparr>))"
proof -
  have "is_thread k t" using u_sched_invD(1) [OF assms(1)] assms(2) by (intro u_is_threadI) auto
  moreover have "intr_set_level (intr k) (set_status t THREAD_READY ((intr_disable k)\<lparr>ready_list := r\<rparr>))
    = set_status t THREAD_READY (k\<lparr>ready_list := r\<rparr>)" for r
    by (simp add: u_upd_defs)
  ultimately show ?thesis
    using assms(2) by (simp add: thread_unblock_def Let_def u_intr_disable_eq)
qed

lemma u_thread_unblock_inv:
  assumes "u_sched_inv k" "status_of k t = Some THREAD_BLOCKED" "t \<noteq> idle_thread k"
  shows "u_sched_inv (set_status t THREAD_READY (k\<lparr>ready_list := ready_list k @ [t]\<rparr>))"
proof -
  let ?k = "set_status t THREAD_READY (k\<lparr>ready_list := ready_list k @ [t]\<rparr>)"
  note f = u_sched_inv_sets [OF assms(1)]
  obtain th where "pages k t = Some th" using assms(2) by (auto simp: status_of_def)
  then have st: "status_of ?k u = (if u = t then Some THREAD_READY else status_of k u)" for u by simp
  have n: "t \<notin> set (ready_list k)" using f(3) [of t] assms(2) by simp
  have "u_queue_ok ?k" unfolding u_queue_ok_def st using f(1,3) n assms(3) by (simp; metis)
  moreover have "u_all_ok ?k" unfolding u_all_ok_def st using f(2,4) assms(2) by simp
  moreover have "u_idle_ok ?k" unfolding u_idle_ok_def st using f(7) by simp
  moreover have "t \<noteq> running k" using f(5) [of t] assms(2) by auto
  then have "u_cpu_ok ?k" unfolding u_cpu_ok_def st by (auto simp: f(5) dest: f(6))
  ultimately show ?thesis using u_sched_invD(1) [OF assms(1)] by (simp add: u_sched_inv_def)
qed

subsection \<open>Round robin\<close>

fun yield_times :: "nat \<Rightarrow> ('f, 'fs) kernel \<Rightarrow> ('f, 'fs) kernel result" where
  "yield_times 0 k = Inr k"
| "yield_times (Suc n) k = bnd (thread_yield k) (yield_times n)"

lemma u_yield_step:
  assumes "u_sched_inv k" "\<not> in_interrupt k" "running k \<noteq> idle_thread k" "ready_list k = t # ts"
  shows "\<exists>k'. thread_yield k = Inr k' \<and> u_sched_inv k' \<and> \<not> in_interrupt k' \<and> running k' = t \<and>
    ready_list k' = ts @ [running k] \<and> idle_thread k' = idle_thread k \<and> t \<noteq> idle_thread k"
proof -
  let ?y = "u_yielded k"
  have "u_chosen ?y = t" "ready_list ?y = t # ts @ [running k]"
    using assms(3,4) by (simp_all add: u_chosen_def u_yielded_def Let_def)
  moreover have "u_sched_inv (u_switched_to (u_chosen ?y) ?y)"
    by (rule u_switched_to_inv [OF u_yielded_handover [OF assms(1)]])
  moreover have "t \<noteq> idle_thread k" using u_sched_inv_sets(3) [OF assms(1), of t] assms(4) by simp
  moreover have "idle_thread ?y = idle_thread k" "in_interrupt ?y = in_interrupt k"
    by (simp_all add: u_yielded_def Let_def)
  ultimately show ?thesis using u_thread_yield_eq [OF assms(1,2)] assms(2) by simp
qed

lemma u_yield_times:
  "u_sched_inv k \<Longrightarrow> \<not> in_interrupt k \<Longrightarrow> running k \<noteq> idle_thread k \<Longrightarrow>
   n \<le> length (ready_list k) \<Longrightarrow>
   \<exists>k'. yield_times n k = Inr k' \<and> u_sched_inv k' \<and> \<not> in_interrupt k' \<and>
     running k' # ready_list k' = rotate n (running k # ready_list k)"
proof (induction n arbitrary: k)
  case (Suc n)
  then obtain t ts where r: "ready_list k = t # ts" by (cases "ready_list k") auto
  from u_yield_step [OF Suc.prems(1-3) r] obtain k1 where k1: "thread_yield k = Inr k1"
    "u_sched_inv k1" "\<not> in_interrupt k1" "running k1 = t" "ready_list k1 = ts @ [running k]"
    "running k1 \<noteq> idle_thread k1" by auto
  moreover have "n \<le> length (ready_list k1)" using Suc.prems(4) r k1(5) by simp
  ultimately obtain k' where "yield_times n k1 = Inr k'" "u_sched_inv k'" "\<not> in_interrupt k'"
    "running k' # ready_list k' = rotate n (running k1 # ready_list k1)"
    using Suc.IH [of k1] by auto
  moreover have "rotate (Suc n) (running k # ready_list k) = rotate n (running k1 # ready_list k1)"
    using k1(4,5) r by (simp add: rotate1_rotate_swap rotate_Suc [symmetric])
  ultimately show ?case using k1(1) by simp
qed simp

text \<open>
  C9: The scheduler is fair. As long as threads only yield, the running thread and the ready
  list go round: after \<open>n\<close> yields no assertion has failed, the invariant holds and the queue
  (running thread first) has been rotated \<open>n\<close> times. So the thread at position \<open>n - 1\<close> of the ready
  list runs after exactly \<open>n\<close> yields, however the threads interleave, and nobody is starved.
\<close>
theorem round_robin_fair:
  assumes "u_sched_inv k" and "\<not> in_interrupt k" and "running k \<noteq> idle_thread k"
    and "n \<le> length (ready_list k)" and "0 < n"
  shows "\<exists>k'. yield_times n k = Inr k' \<and> u_sched_inv k' \<and> running k' = ready_list k ! (n - 1) \<and>
    ready_list k' = drop n (ready_list k) @ running k # take (n - 1) (ready_list k)"
proof -
  obtain k' where k': "yield_times n k = Inr k'" "u_sched_inv k'"
    "running k' # ready_list k' = rotate n (running k # ready_list k)"
    using u_yield_times [OF assms(1-4)] by blast
  obtain m where m: "n = Suc m" using assms(5) by (cases n) auto
  have "rotate n (running k # ready_list k) = drop m (ready_list k) @ running k # take m (ready_list k)"
    using assms(4) m by (simp add: rotate_drop_take)
  moreover have "drop m (ready_list k) = ready_list k ! m # drop n (ready_list k)"
    using assms(4) m by (simp add: Cons_nth_drop_Suc)
  ultimately show ?thesis using k' m by auto
qed

subsection \<open>Sample kernel\<close>

text \<open>
  Four threads: the initial thread and the idle thread are blocked, process 3 (page 0x3000) is the
  parent of the running process 4 (page 0x4000). The parent's status, what it knows of its child,
  and who waits for the child's end are arguments.
\<close>

definition sample_thread :: "int \<Rightarrow> thread_status \<Rightarrow> string thread" where
  "sample_thread n s =
     \<lparr>tid = n, status = s, tname = ''p'', stack = 0, priority = 31, fd_list = [], fd_size = 1,
      exec_file = None, wait_load = empty_sema, child_list = [], parent = 0, wait_exit = empty_sema,
      pagedir = None, magic = THREAD_MAGIC, start_function = 0, start_aux = 0, resume_level = INTR_ON\<rparr>"

definition family :: "thread_status \<Rightarrow> child_element \<Rightarrow> tptr list \<Rightarrow> (string, string list) kernel" where
  "family sp e ws =
     \<lparr>pages = [0x1000 \<mapsto> sample_thread 1 THREAD_BLOCKED, 0x2000 \<mapsto> sample_thread 2 THREAD_BLOCKED,
        0x3000 \<mapsto> (sample_thread 3 sp)\<lparr>child_list := [e]\<rparr>,
        0x4000 \<mapsto> (sample_thread 4 THREAD_RUNNING)\<lparr>parent := 0x3000, fd_list := [\<lparr>fd = 2, my_file = ''f''\<rparr>],
          fd_size := 2, wait_exit := \<lparr>sema_value = 0, sema_waiters = ws\<rparr>\<rparr>],
      ready_list = (if sp = THREAD_READY then [0x3000] else []), all_list = [0x1000, 0x2000, 0x3000, 0x4000],
      idle_thread = 0x2000, initial_thread = 0x1000, running = 0x4000,
      idle_ticks = 0, kernel_ticks = 0, user_ticks = 0, thread_ticks = 0, next_tid = 5,
      intr = INTR_ON, in_interrupt = False, yield_on_return = False, active_pagedir = None,
      cmd_pages = Map.empty, fs = [], console = []\<rparr>"

lemma family_fields [simp]:
  "ready_list (family sp e ws) = (if sp = THREAD_READY then [0x3000] else [])"
  "running (family sp e ws) = 0x4000" "idle_thread (family sp e ws) = 0x2000"
  "initial_thread (family sp e ws) = 0x1000" "in_interrupt (family sp e ws) = False"
  "intr (family sp e ws) = INTR_ON" "fs (family sp e ws) = []" "console (family sp e ws) = []"
  "all_list (family sp e ws) = [0x1000, 0x2000, 0x3000, 0x4000]" "next_tid (family sp e ws) = 5"
  by (simp_all add: family_def)

lemma status_of_family:
  "status_of (family sp e ws) t =
     (if t = 0x4000 then Some THREAD_RUNNING else if t = 0x3000 then Some sp
      else if t = 0x2000 \<or> t = 0x1000 then Some THREAD_BLOCKED else None)"
  by (simp add: status_of_def family_def sample_thread_def)

lemma u_sched_inv_family:
  assumes "sp = THREAD_READY \<or> sp = THREAD_BLOCKED"
  shows "u_sched_inv (family sp e ws)"
proof -
  have "u_threads_ok (family sp e ws)"
    by (auto simp: u_threads_ok_def family_def sample_thread_def split: if_splits)
  moreover have "u_queue_ok (family sp e ws)"
    using assms by (auto simp: u_queue_ok_def status_of_family)
  moreover have "u_all_ok (family sp e ws)" using assms by (auto simp: u_all_ok_def status_of_family)
  moreover have "u_idle_ok (family sp e ws)" by (auto simp: u_idle_ok_def status_of_family)
  moreover have "u_cpu_ok (family sp e ws)" using assms by (auto simp: u_cpu_ok_def status_of_family)
  ultimately show ?thesis by (simp add: u_sched_inv_def)
qed

theorem round_robin_fair_witness:
  "\<exists>k'. yield_times 1 (family THREAD_READY (new_child 0x4000 4) []) = Inr k' \<and> u_sched_inv k' \<and>
     running k' = 0x3000 \<and> ready_list k' = [0x4000]"
  using round_robin_fair [of "family THREAD_READY (new_child 0x4000 4) []" 1] u_sched_inv_family by simp

end
