(* ===== verification/Process_Protocol.thy ===== *)
theory Process_Protocol
  imports Processes User_Scheduler
begin

section \<open>Exiting, waiting and executing: the protocol between parent and child\<close>

text \<open>
  What one process can rely on when it waits for another: the state \<^verbatim>\<open>exit\<close> leaves behind, what
  \<^verbatim>\<open>process_wait\<close> then returns, and where the protocol breaks.
\<close>

subsection \<open>What the code relies on in the semaphore module\<close>

text \<open>
  The documented behaviour of \<^verbatim>\<open>sema_up\<close> and \<^verbatim>\<open>sema_down\<close>: up increments the value and wakes one
  waiting thread, if there is one; down waits for the value to become positive and decrements it.
\<close>

definition sema_ok :: "('f, 'fs) api \<Rightarrow> bool" where
  "sema_ok api \<longleftrightarrow>
     (\<forall>s. sema_waiters s = [] \<longrightarrow> api_sema_up api s = (None, s\<lparr>sema_value := Suc (sema_value s)\<rparr>)) \<and>
     (\<forall>s. sema_waiters s \<noteq> [] \<longrightarrow>
        (\<exists>w. w \<in> set (sema_waiters s) \<and> api_sema_up api s =
          (Some w, s\<lparr>sema_value := Suc (sema_value s), sema_waiters := remove1 w (sema_waiters s)\<rparr>))) \<and>
     (\<forall>s. api_sema_try_down api s =
        (if sema_value s = 0 then None else Some (s\<lparr>sema_value := sema_value s - 1\<rparr>)))"

definition fifo_up :: "semaphore \<Rightarrow> tptr option \<times> semaphore" where
  "fifo_up s =
     (case sema_waiters s of
        [] \<Rightarrow> (None, s\<lparr>sema_value := Suc (sema_value s)\<rparr>)
      | w # ws \<Rightarrow> (Some w, s\<lparr>sema_value := Suc (sema_value s), sema_waiters := ws\<rparr>))"

definition sample_api :: "(string, string list) api" where
  "sample_api =
     \<lparr>api_file_close = (\<lambda>f s. case f of None \<Rightarrow> s | Some n \<Rightarrow> s @ [n]),
      api_file_allow_write = (\<lambda>f s. s), api_file_deny_write = (\<lambda>f s. s), api_filesys_open = (\<lambda>n s. s),
      api_sema_up = fifo_up,
      api_sema_try_down = (\<lambda>s. if sema_value s = 0 then None else Some (s\<lparr>sema_value := sema_value s - 1\<rparr>)),
      api_start_process = 1, api_sizeof_switch_entry_frame = 4, api_sizeof_switch_threads_frame = 28\<rparr>"

lemma sema_ok_sample: "sema_ok sample_api"
  unfolding sema_ok_def
proof (intro conjI allI impI)
  fix s :: semaphore
  assume "sema_waiters s \<noteq> []"
  then obtain w ws where "sema_waiters s = w # ws" by (cases "sema_waiters s") auto
  then show "\<exists>w. w \<in> set (sema_waiters s) \<and> api_sema_up sample_api s =
      (Some w, s\<lparr>sema_value := Suc (sema_value s), sema_waiters := remove1 w (sema_waiters s)\<rparr>)"
    by (intro exI [of _ w]) (simp add: sample_api_def fifo_up_def)
qed (simp_all add: sample_api_def fifo_up_def)

lemma sema_up_waiter:
  assumes "sema_ok api" "sema_waiters s \<noteq> []"
  shows "\<exists>w s'. w \<in> set (sema_waiters s) \<and> api_sema_up api s = (Some w, s')"
  using assms unfolding sema_ok_def by metis

subsection \<open>Lookups and updates\<close>

lemma get_upd_child_element [simp]:
  "(\<And>c. child_pid (f c) = child_pid c) \<Longrightarrow>
   get_child_element t (upd_child_element t f cs) = map_option f (get_child_element t cs)"
  by (induction cs) simp_all

lemma upd_thread_twice: "upd_thread t f (upd_thread t g k) = upd_thread t (\<lambda>th. f (g th)) k"
  by (simp add: upd_thread_def option.map_comp comp_def)

lemma u_upd_thread_fields [simp]:
  "ready_list (upd_thread t f k) = ready_list k" "all_list (upd_thread t f k) = all_list k"
  "idle_thread (upd_thread t f k) = idle_thread k" "running (upd_thread t f k) = running k"
  "initial_thread (upd_thread t f k) = initial_thread k" "intr (upd_thread t f k) = intr k"
  "in_interrupt (upd_thread t f k) = in_interrupt k" "fs (upd_thread t f k) = fs k"
  "console (upd_thread t f k) = console k" "active_pagedir (upd_thread t f k) = active_pagedir k"
  "pages (upd_thread t f k) u = (if u = t then map_option f (pages k u) else pages k u)"
  by (simp_all add: upd_thread_def)

lemma u_status_of_upd_thread:
  "(\<And>th. status (f th) = status th) \<Longrightarrow> status_of (upd_thread t f k) u = status_of k u"
  by (simp add: status_of_def option.map_comp comp_def)

lemma u_sched_inv_upd_thread:
  assumes "u_sched_inv k" "\<And>th. status (f th) = status th" "\<And>th. magic (f th) = magic th"
  shows "u_sched_inv (upd_thread t f k)"
proof -
  have st: "status_of (upd_thread t f k) u = status_of k u" for u
    using assms(2) by (rule u_status_of_upd_thread)
  have "u_threads_ok (upd_thread t f k)"
    using u_sched_invD(1) [OF assms(1)] assms(3) by (rule u_threads_ok_upd)
  moreover have "u_queue_ok (upd_thread t f k) = u_queue_ok k" "u_all_ok (upd_thread t f k) = u_all_ok k"
    "u_idle_ok (upd_thread t f k) = u_idle_ok k" "u_cpu_ok (upd_thread t f k) = u_cpu_ok k"
    unfolding u_queue_ok_def u_all_ok_def u_idle_ok_def u_cpu_ok_def st u_upd_thread_fields by (rule refl)+
  ultimately show ?thesis using assms(1) by (simp add: u_sched_inv_def)
qed

lemma u_sched_inv_fields [simp]:
  "u_sched_inv (k\<lparr>fs := a\<rparr>) = u_sched_inv k" "u_sched_inv (k\<lparr>active_pagedir := b\<rparr>) = u_sched_inv k"
  "u_sched_inv (k\<lparr>console := c\<rparr>) = u_sched_inv k" "u_sched_inv (k\<lparr>cmd_pages := d\<rparr>) = u_sched_inv k"
  by (cases k; simp only: u_sched_inv_def u_inv_defs status_of_def kernel.update_convs kernel.select_convs)+

lemma find_child_Inr:
  "find_child k p t = Inr c \<longleftrightarrow>
   (\<exists>th. p \<noteq> 0 \<and> pages k p = Some th \<and> get_child_element t (child_list th) = Some c)"
  by (auto simp: find_child_def bnd_eq_Inr thread_at_Inr split: option.splits)

subsection \<open>The state after \<^verbatim>\<open>process_exit\<close>\<close>

definition woke :: "tptr option \<Rightarrow> ('f, 'fs) kernel \<Rightarrow> ('f, 'fs) kernel" where
  "woke wo k = (case wo of None \<Rightarrow> k
     | Some w \<Rightarrow> set_status w THREAD_READY (k\<lparr>ready_list := ready_list k @ [w]\<rparr>))"

definition exit_fs :: "('f, 'fs) api \<Rightarrow> 'f thread \<Rightarrow> 'fs \<Rightarrow> 'fs" where
  "exit_fs api th s =
     close_files api (fd_list th) (api_file_close api (exec_file th)
       (case exec_file th of Some f \<Rightarrow> api_file_allow_write api f s | None \<Rightarrow> s))"

definition gone :: "semaphore \<Rightarrow> 'f thread \<Rightarrow> 'f thread" where
  "gone s th = th\<lparr>wait_exit := s, child_list := [], parent := 0, fd_list := [], pagedir := None\<rparr>"

definition waiter_ok :: "('f, 'fs) kernel \<Rightarrow> tptr option \<Rightarrow> bool" where
  "waiter_ok k wo \<longleftrightarrow> (\<forall>w. wo = Some w \<longrightarrow> status_of k w = Some THREAD_BLOCKED \<and> w \<noteq> idle_thread k)"

lemma woke_inv:
  assumes "u_sched_inv k" "waiter_ok k wo"
  shows "u_sched_inv (woke wo k)"
  using assms u_thread_unblock_inv [OF assms(1)] by (cases wo) (simp_all add: woke_def waiter_ok_def)

lemma woke_fields [simp]:
  "running (woke wo k) = running k" "idle_thread (woke wo k) = idle_thread k"
  "initial_thread (woke wo k) = initial_thread k" "in_interrupt (woke wo k) = in_interrupt k"
  "fs (woke wo k) = fs k" "console (woke wo k) = console k" "intr (woke wo k) = intr k"
  "active_pagedir (woke wo k) = active_pagedir k" "all_list (woke wo k) = all_list k"
  by (simp_all add: woke_def u_upd_defs split: option.splits)

lemma pages_woke:
  "pages (woke wo k) u =
     (if wo = Some u then map_option (\<lambda>th. th\<lparr>status := THREAD_READY\<rparr>) (pages k u) else pages k u)"
  by (auto simp: woke_def u_upd_defs split: option.splits)

lemma process_exit_eq:
  assumes "u_sched_inv k" and "pages k (running k) = Some th" and "exit_mark_child th k = Inr k"
    and "api_sema_up api (wait_exit th) = (wo, s)" and "waiter_ok k wo"
  shows "process_exit api k = Inr ((upd_thread (running k) (gone s) (woke wo k))
     \<lparr>fs := exit_fs api th (fs k), active_pagedir := (if pagedir th = None then active_pagedir k else None)\<rparr>)"
proof -
  let ?c = "running k"
  have cur: "thread_current k = Inr ?c" using assms(1) by (rule u_thread_current_eq)
  have at: "thread_at k ?c = Inr th"
    using u_sched_invD(1) [OF assms(1)] assms(2) by (auto simp: thread_at_Inr u_threads_ok_def)
  let ?u = "upd_thread ?c (wait_exit_update (\<lambda>_. s)) k"
  have iu: "u_sched_inv ?u" using assms(1) by (rule u_sched_inv_upd_thread) simp_all
  have "(case wo of None \<Rightarrow> Inr ?u | Some w \<Rightarrow> thread_unblock w ?u) = Inr (woke wo ?u)"
    using u_thread_unblock_eq [OF iu] assms(5)
    by (auto simp: woke_def waiter_ok_def u_status_of_upd_thread split: option.splits)
  then have up: "sema_up api wait_exit wait_exit_update ?c k = Inr (woke wo ?u)"
    using at assms(4) by (simp add: sema_up_def Let_def)
  have ne: "wo \<noteq> Some ?c" using assms(5) u_sched_invD(6) [OF assms(1)] by (auto simp: waiter_ok_def)
  have w: "woke wo ?u = upd_thread ?c (wait_exit_update (\<lambda>_. s)) (woke wo k)"
    using ne by (auto simp: woke_def u_upd_defs fun_eq_iff split: option.splits)
  have pw: "pages (woke wo k) ?c = Some th" using ne assms(2) by (simp add: pages_woke)
  have g: "gone s th = th\<lparr>wait_exit := s, child_list := [], parent := 0, fd_list := []\<rparr>"
    if "pagedir th = None" using that by (cases th) (simp add: gone_def)
  show ?thesis
    unfolding process_exit_def cur bnd_simps at assms(3) up w
    by (cases "pagedir th"; cases "exec_file th")
      (auto simp: Let_def exit_fs_def g gone_def [of s th] upd_thread_def pw intro!: kernel.equality)
qed

definition ended :: "('f, 'fs) kernel \<Rightarrow> ('f, 'fs) kernel" where
  "ended k = u_switched_to (u_chosen (u_exited k)) (u_exited k)"

lemma thread_exit_ended:
  assumes "u_sched_inv k" and "\<not> in_interrupt k" and "running k \<noteq> idle_thread k"
    and "pages k (running k) = Some th" and "exit_mark_child th k = Inr k"
    and "api_sema_up api (wait_exit th) = (wo, s)" and "waiter_ok k wo"
  defines "k0 \<equiv> (upd_thread (running k) (gone s) (woke wo k))
     \<lparr>fs := exit_fs api th (fs k), active_pagedir := (if pagedir th = None then active_pagedir k else None)\<rparr>"
  shows "thread_exit api k = Inr (ended k0)" and "u_sched_inv (ended k0)"
    and "running (ended k0) \<noteq> running k"
    and "running k \<noteq> initial_thread k \<Longrightarrow> pages (ended k0) (running k) = None"
    and "u \<noteq> running k \<Longrightarrow> pages (ended k0) u =
      (if u = running (ended k0) then map_option (\<lambda>th. th\<lparr>status := THREAD_RUNNING\<rparr>) (pages (woke wo k) u)
       else pages (woke wo k) u)"
    and "fs (ended k0) = exit_fs api th (fs k)" and "console (ended k0) = console k"
    and "wo = None \<Longrightarrow> running (ended k0) = u_chosen k"
    and "wo = Some w \<Longrightarrow> ready_list k = [] \<Longrightarrow> running (ended k0) = w"
proof -
  have pe: "process_exit api k = Inr k0"
    unfolding k0_def by (rule process_exit_eq [OF assms(1,4-7)])
  have i0: "u_sched_inv k0"
    unfolding k0_def u_sched_inv_fields
    by (rule u_sched_inv_upd_thread [OF woke_inv [OF assms(1,7)]]) (simp_all add: gone_def)
  have f: "running k0 = running k" "idle_thread k0 = idle_thread k" "in_interrupt k0 = in_interrupt k"
    "initial_thread k0 = initial_thread k" "fs k0 = exit_fs api th (fs k)" "console k0 = console k"
    "\<And>u. u \<noteq> running k \<Longrightarrow> pages k0 u = pages (woke wo k) u" "ready_list k0 = ready_list (woke wo k)"
    by (simp_all add: k0_def)
  have h: "u_handover_inv (u_exited k0)" using u_exited_handover [OF i0] assms(3) f by simp
  have cur: "thread_current (intr_disable k0) = Inr (running k0)"
    using u_thread_current_eq [of "intr_disable k0"] i0 by (simp add: u_intr_disable_eq)
  have "u_exited k0 = set_status (running k0) THREAD_DYING
    ((intr_disable k0)\<lparr>all_list := remove1 (running k0) (all_list (intr_disable k0))\<rparr>)"
    by (simp add: u_exited_def u_upd_defs)
  then show "thread_exit api k = Inr (ended k0)"
    using assms(2) u_schedule_eq [OF h] by (simp add: thread_exit_def pe Let_def cur ended_def)
  show "u_sched_inv (ended k0)" unfolding ended_def by (rule u_switched_to_inv [OF h])
  have st: "status_of (u_exited k0) (running k) = Some THREAD_DYING"
    using u_running_page [OF i0] f(1) by (auto simp: u_exited_def)
  have e: "running (u_exited k0) = running k" "initial_thread (u_exited k0) = initial_thread k"
    "fs (u_exited k0) = fs k0" "console (u_exited k0) = console k0"
    "\<And>u. u \<noteq> running k \<Longrightarrow> pages (u_exited k0) u = pages k0 u"
    "ready_list (u_exited k0) = ready_list k0" "idle_thread (u_exited k0) = idle_thread k"
    using f by (simp_all add: u_exited_def u_upd_defs)
  have sw: "fs (u_switched_to t x) = fs x" "console (u_switched_to t x) = console x" for t x
    by (simp_all add: u_switched_to_def Let_def u_upd_defs)
  have pg: "pages (ended k0) u = (if u = running k \<and> running k \<noteq> initial_thread k then None
      else if u = running (ended k0) then map_option (\<lambda>th. th\<lparr>status := THREAD_RUNNING\<rparr>) (pages (u_exited k0) u)
      else pages (u_exited k0) u)" for u
    using st e by (auto simp: ended_def u_pages_switched_to u_freed_by_switch_def)
  show "running (ended k0) \<noteq> running k"
    using h u_chosen_facts(2) [of "u_exited k0"] st unfolding ended_def u_handover_inv_def
    by (auto simp: u_switched_to_fields)
  show "running k \<noteq> initial_thread k \<Longrightarrow> pages (ended k0) (running k) = None" using pg by simp
  show "u \<noteq> running k \<Longrightarrow> pages (ended k0) u =
      (if u = running (ended k0) then map_option (\<lambda>th. th\<lparr>status := THREAD_RUNNING\<rparr>) (pages (woke wo k) u)
       else pages (woke wo k) u)"
    using pg e(5) f(7) by simp
  show "fs (ended k0) = exit_fs api th (fs k)" "console (ended k0) = console k"
    using e f by (simp_all add: ended_def sw)
  show "wo = None \<Longrightarrow> running (ended k0) = u_chosen k"
    using e f by (simp add: ended_def u_chosen_def woke_def split: list.splits)
  show "wo = Some w \<Longrightarrow> ready_list k = [] \<Longrightarrow> running (ended k0) = w"
    using e f by (simp add: ended_def u_chosen_def woke_def u_upd_defs)
qed

lemma u_switched_to_rest:
  "cmd_pages (u_switched_to t k) = cmd_pages k" "idle_ticks (u_switched_to t k) = idle_ticks k"
  "kernel_ticks (u_switched_to t k) = kernel_ticks k" "user_ticks (u_switched_to t k) = user_ticks k"
  by (simp_all add: u_switched_to_def Let_def u_upd_defs)

lemma u_exited_fields:
  "all_list (u_exited k) = remove1 (running k) (all_list k)" "ready_list (u_exited k) = ready_list k"
  "cmd_pages (u_exited k) = cmd_pages k" "next_tid (u_exited k) = next_tid k"
  "idle_thread (u_exited k) = idle_thread k" "initial_thread (u_exited k) = initial_thread k"
  "idle_ticks (u_exited k) = idle_ticks k" "kernel_ticks (u_exited k) = kernel_ticks k"
  "user_ticks (u_exited k) = user_ticks k" "in_interrupt (u_exited k) = in_interrupt k"
  by (simp_all add: u_exited_def u_upd_defs)

lemma woke_rest:
  "ready_list (woke wo k) = ready_list k @ (case wo of None \<Rightarrow> [] | Some w \<Rightarrow> [w])"
  "cmd_pages (woke wo k) = cmd_pages k" "next_tid (woke wo k) = next_tid k"
  "idle_ticks (woke wo k) = idle_ticks k" "kernel_ticks (woke wo k) = kernel_ticks k"
  "user_ticks (woke wo k) = user_ticks k"
  by (simp_all add: woke_def u_upd_defs split: option.splits)

lemma ended_fields:
  assumes "k0 = (upd_thread (running k) g (woke wo k))\<lparr>fs := s, active_pagedir := d\<rparr>"
  shows "running (ended k0) = (case ready_list k @ (case wo of None \<Rightarrow> [] | Some w \<Rightarrow> [w]) of
      [] \<Rightarrow> idle_thread k | t # _ \<Rightarrow> t)"
    and "ready_list (ended k0) = tl (ready_list k @ (case wo of None \<Rightarrow> [] | Some w \<Rightarrow> [w]))"
    and "all_list (ended k0) = remove1 (running k) (all_list k)"
    and "cmd_pages (ended k0) = cmd_pages k" and "next_tid (ended k0) = next_tid k"
    and "idle_thread (ended k0) = idle_thread k" and "initial_thread (ended k0) = initial_thread k"
    and "idle_ticks (ended k0) = idle_ticks k" and "kernel_ticks (ended k0) = kernel_ticks k"
    and "user_ticks (ended k0) = user_ticks k" and "in_interrupt (ended k0) = in_interrupt k"
proof -
  have k0: "running k0 = running k" "ready_list k0 = ready_list (woke wo k)" "all_list k0 = all_list k"
    "cmd_pages k0 = cmd_pages k" "next_tid k0 = next_tid k" "idle_thread k0 = idle_thread k"
    "initial_thread k0 = initial_thread k" "idle_ticks k0 = idle_ticks k" "kernel_ticks k0 = kernel_ticks k"
    "user_ticks k0 = user_ticks k" "in_interrupt k0 = in_interrupt k"
    unfolding assms upd_thread_def by (simp_all add: woke_rest)
  show "running (ended k0) = (case ready_list k @ (case wo of None \<Rightarrow> [] | Some w \<Rightarrow> [w]) of
      [] \<Rightarrow> idle_thread k | t # _ \<Rightarrow> t)"
    unfolding ended_def u_switched_to_fields u_chosen_def u_exited_fields k0 woke_rest by (rule refl)
  show "ready_list (ended k0) = tl (ready_list k @ (case wo of None \<Rightarrow> [] | Some w \<Rightarrow> [w]))"
    unfolding ended_def u_switched_to_fields u_exited_fields k0 woke_rest by (rule refl)
qed (unfold ended_def u_switched_to_fields u_switched_to_rest u_exited_fields assms upd_thread_def,
    simp_all add: woke_rest)

subsection \<open>A child ends\<close>

text \<open>
  \<open>child_of k p c e\<close>: the running thread \<open>c\<close> is a child of the live thread \<open>p\<close> and \<open>e\<close> is its entry
  in the child list of \<open>p\<close>.
\<close>

definition child_of :: "('f, 'fs) kernel \<Rightarrow> tptr \<Rightarrow> 'f thread \<Rightarrow> child_element \<Rightarrow> bool" where
  "child_of k p th e \<longleftrightarrow> pages k (running k) = Some th \<and> parent th = p \<and> p \<noteq> 0 \<and> p \<noteq> running k \<and>
     (\<exists>thp. pages k p = Some thp \<and> get_child_element (tid th) (child_list thp) = Some e)"

definition exited_with :: "int \<Rightarrow> child_element \<Rightarrow> child_element" where
  "exited_with st c = c\<lparr>exit_status := st, cur_status := (if st = - 1 then KILLED else EXITED)\<rparr>"

lemma exit_eq:
  fixes st :: int
  assumes "u_sched_inv k" and "child_of k p th e"
  defines "k2 \<equiv> upd_child p (tid th) (exited_with st) (k\<lparr>console := console k @ [(tname th, st)]\<rparr>)"
  shows "exit api st k = thread_exit api k2" and "exit_mark_child th k2 = Inr k2"
    and "u_sched_inv k2" and "pages k2 (running k) = Some th"
proof -
  let ?k1 = "k\<lparr>console := console k @ [(tname th, st)]\<rparr>"
  obtain thp where p: "pages k (running k) = Some th" "parent th = p" "p \<noteq> 0" "p \<noteq> running k"
    "pages k p = Some thp" "get_child_element (tid th) (child_list thp) = Some e"
    using assms(2) by (auto simp: child_of_def)
  have at: "thread_at k (running k) = Inr th"
    using u_sched_invD(1) [OF assms(1)] p(1) by (auto simp: thread_at_Inr u_threads_ok_def)
  have "find_child ?k1 p (tid th) = Inr e"
    using p by (simp add: find_child_Inr)
  then show "exit api st k = thread_exit api k2"
    using u_thread_current_eq [OF assms(1)] at p(2)
    by (simp add: exit_def Let_def k2_def exited_with_def [abs_def])
  have "find_child k2 p (tid th) = Inr (exited_with st e)"
    using p by (simp add: find_child_Inr k2_def upd_child_def exited_with_def)
  then show "exit_mark_child th k2 = Inr k2"
    using p(2) by (simp add: exit_mark_child_def exited_with_def)
  show "u_sched_inv k2"
    unfolding k2_def upd_child_def by (rule u_sched_inv_upd_thread) (use assms(1) in simp_all)
  show "pages k2 (running k) = Some th" using p by (simp add: k2_def upd_child_def)
qed

lemma exit_children:
  assumes "child_of k p th e"
  shows "pages (upd_child p (tid th) f (k\<lparr>console := c\<rparr>)) p
    = map_option (\<lambda>thp. thp\<lparr>child_list := upd_child_element (tid th) f (child_list thp)\<rparr>) (pages k p)"
  by (simp add: upd_child_def)

lemma process_wait_ended_child:
  assumes "u_sched_inv k" and "pages k (running k) = Some thp"
    and "get_child_element t (child_list thp) = Some e" and "cur_status e \<noteq> ALIVE" and "\<not> parent_waiting e"
  shows "\<exists>k'. process_wait api t k = Inr (Some (exit_status e), k') \<and>
    process_wait api t k' = Inr (Some (- 1), k')"
proof -
  let ?k = "upd_child (running k) t (\<lambda>c. c\<lparr>parent_waiting := True\<rparr>) k"
  have z: "running k \<noteq> 0" using u_sched_invD(1) [OF assms(1)] assms(2) by (auto simp: u_threads_ok_def)
  have "find_child k (running k) t = Inr e" using assms(2,3) z by (simp add: find_child_Inr)
  then have 1: "process_wait api t k = Inr (Some (exit_status e), ?k)"
    using u_thread_current_eq [OF assms(1)] assms(4,5) by (simp add: process_wait_def)
  have "u_sched_inv ?k"
    unfolding upd_child_def by (rule u_sched_inv_upd_thread [OF assms(1)]) simp_all
  moreover have "find_child ?k (running k) t = Inr (e\<lparr>parent_waiting := True\<rparr>)"
    using assms(2,3) z by (simp add: find_child_Inr upd_child_def)
  ultimately have "process_wait api t ?k = Inr (Some (- 1), ?k)"
    using u_thread_current_eq [of ?k] by (simp add: process_wait_def upd_child_def)
  with 1 show ?thesis by blast
qed

lemma get_child_exited:
  assumes "child_of k p th e"
    and "map_option child_list (pages (upd_child p (tid th) (exited_with st) (k\<lparr>console := c\<rparr>)) p) = cl"
    and "cl = Some cl'"
  shows "get_child_element (tid th) cl' = Some (exited_with st e)"
  using assms by (auto simp: child_of_def upd_child_def exited_with_def)

lemma waiter_ok_upd_child:
  "waiter_ok (upd_child p t f (k\<lparr>console := c\<rparr>)) wo = waiter_ok k wo"
  by (simp add: waiter_ok_def upd_child_def u_status_of_upd_thread) (simp add: status_of_def)

lemma waiter_ok_asleep:
  "status_of k p = Some THREAD_BLOCKED \<Longrightarrow> p \<noteq> idle_thread k \<Longrightarrow> waiter_ok k (Some p)"
  by (simp add: waiter_ok_def)

lemma sema_up_nobody:
  assumes "sema_ok api" "sema_waiters s = []"
  shows "\<exists>s'. api_sema_up api s = (None, s')"
  using assms by (auto simp: sema_ok_def)

lemma map_option_child_list:
  "map_option (\<lambda>th. f (child_list th)) x = map_option f (map_option child_list x)"
  by (simp add: option.map_comp comp_def)

text \<open>
  \<open>may_exit k p th\<close>: the parent \<open>p\<close> is either not asleep on its child or the only thread that is.

  \<open>only_ends p th st k k'\<close>: from \<open>k\<close> to \<open>k'\<close> the running thread \<open>th\<close> has ended with status \<open>st\<close> and
  nothing else has happened. Its page is free and it is on no list; the parent's entry for it has
  the status, and nothing else in the parent changed; a parent that was asleep on it is ready, behind
  all that were; the first ready thread runs; and every other thread, the pages of the waiting command
  lines, the counters and all the other lists are as they were.
\<close>

definition may_exit :: "('f, 'fs) kernel \<Rightarrow> tptr \<Rightarrow> 'f thread \<Rightarrow> bool" where
  "may_exit k p th \<longleftrightarrow> sema_waiters (wait_exit th) = [] \<or>
     sema_waiters (wait_exit th) = [p] \<and> status_of k p = Some THREAD_BLOCKED \<and> p \<noteq> idle_thread k"

definition survivor :: "tptr \<Rightarrow> 'f thread \<Rightarrow> int \<Rightarrow> ('f, 'fs) kernel \<Rightarrow> tptr \<Rightarrow> 'f thread \<Rightarrow> 'f thread" where
  "survivor p th st k' u thu = thu
     \<lparr>status := (if u = running k' then THREAD_RUNNING
                 else if u \<in> set (sema_waiters (wait_exit th)) then THREAD_READY else status thu),
      child_list := (if u = p then upd_child_element (tid th) (exited_with st) (child_list thu)
                     else child_list thu)\<rparr>"

definition only_ends ::
  "tptr \<Rightarrow> 'f thread \<Rightarrow> int \<Rightarrow> ('f, 'fs) kernel \<Rightarrow> ('f, 'fs) kernel \<Rightarrow> bool" where
  "only_ends p th st k k' \<longleftrightarrow>
     (let queue = ready_list k @ sema_waiters (wait_exit th) in
      running k' = (case queue of [] \<Rightarrow> idle_thread k | t # _ \<Rightarrow> t) \<and> ready_list k' = tl queue) \<and>
     all_list k' = remove1 (running k) (all_list k) \<and>
     pages k' (running k) = None \<and>
     (\<forall>u. u \<noteq> running k \<longrightarrow> pages k' u = map_option (survivor p th st k' u) (pages k u)) \<and>
     console k' = console k @ [(tname th, st)] \<and>
     cmd_pages k' = cmd_pages k \<and> next_tid k' = next_tid k \<and>
     idle_thread k' = idle_thread k \<and> initial_thread k' = initial_thread k \<and>
     idle_ticks k' = idle_ticks k \<and> kernel_ticks k' = kernel_ticks k \<and> user_ticks k' = user_ticks k \<and>
     in_interrupt k' = in_interrupt k"

lemma may_exit_up:
  assumes "sema_ok api" and "may_exit k p th"
  shows "\<exists>wo s. api_sema_up api (wait_exit th) = (wo, s) \<and>
    (case wo of None \<Rightarrow> [] | Some w \<Rightarrow> [w]) = sema_waiters (wait_exit th) \<and> waiter_ok k wo"
proof (cases "sema_waiters (wait_exit th) = []")
  case True
  then show ?thesis using sema_up_nobody [OF assms(1) True] by (auto simp: waiter_ok_def)
next
  case False
  then have w: "sema_waiters (wait_exit th) = [p]" "status_of k p = Some THREAD_BLOCKED" "p \<noteq> idle_thread k"
    using assms(2) by (simp_all add: may_exit_def)
  obtain s where "api_sema_up api (wait_exit th) = (Some p, s)"
    using sema_up_waiter [OF assms(1) False] w(1) by auto
  then show ?thesis using w by (auto simp: waiter_ok_def)
qed

lemma survivor_steps:
  assumes "wo = Some u \<longleftrightarrow> u \<in> set (sema_waiters (wait_exit th))"
  shows "(if u = running k' then map_option (\<lambda>th. th\<lparr>status := THREAD_RUNNING\<rparr>)
        (pages (woke wo (upd_child p (tid th) (exited_with st) (k\<lparr>console := c\<rparr>))) u)
      else pages (woke wo (upd_child p (tid th) (exited_with st) (k\<lparr>console := c\<rparr>))) u) =
    map_option (survivor p th st k' u) (pages k u)"
  unfolding pages_woke assms
  by (cases "u = running k'"; cases "u \<in> set (sema_waiters (wait_exit th))"; cases "u = p"; cases "pages k u")
    (simp_all add: survivor_def upd_child_def)

lemma exit_only_ends:
  assumes "sema_ok api" and "u_sched_inv k" and "\<not> in_interrupt k" and "running k \<noteq> idle_thread k"
    and "running k \<noteq> initial_thread k" and "child_of k p th e" and "may_exit k p th"
  shows "\<exists>k'. exit api st k = Inr k' \<and> u_sched_inv k' \<and> only_ends p th st k k' \<and>
    fs k' = exit_fs api th (fs k)"
proof -
  let ?k2 = "upd_child p (tid th) (exited_with st) (k\<lparr>console := console k @ [(tname th, st)]\<rparr>)"
  note ex1 = exit_eq(1) [OF assms(2,6), of api st] and ex = exit_eq [OF assms(2,6), where st = st]
  have f: "running ?k2 = running k" "idle_thread ?k2 = idle_thread k" "in_interrupt ?k2 = in_interrupt k"
    "initial_thread ?k2 = initial_thread k" "fs ?k2 = fs k" "console ?k2 = console k @ [(tname th, st)]"
    "ready_list ?k2 = ready_list k" "all_list ?k2 = all_list k" "cmd_pages ?k2 = cmd_pages k"
    "next_tid ?k2 = next_tid k" "idle_ticks ?k2 = idle_ticks k" "kernel_ticks ?k2 = kernel_ticks k"
    "user_ticks ?k2 = user_ticks k"
    by (simp_all add: upd_child_def upd_thread_def)
  obtain wo s where up: "api_sema_up api (wait_exit th) = (wo, s)"
    and wo: "(case wo of None \<Rightarrow> [] | Some w \<Rightarrow> [w]) = sema_waiters (wait_exit th)" and w: "waiter_ok k wo"
    using may_exit_up [OF assms(1,7)] by blast
  have w2: "waiter_ok ?k2 wo" unfolding waiter_ok_upd_child by (rule w)
  have wm: "wo = Some u \<longleftrightarrow> u \<in> set (sema_waiters (wait_exit th))" for u
    unfolding wo [symmetric] by (cases wo) auto
  note en = thread_exit_ended [OF ex(3) _ _ _ ex(2) up w2, unfolded f, OF assms(3,4) ex(4)]
  let ?k' = "ended ((upd_thread (running k) (gone s) (woke wo ?k2))\<lparr>fs := exit_fs api th (fs k),
    active_pagedir := if pagedir th = None then active_pagedir ?k2 else None\<rparr>)"
  note fl = ended_fields [where k = ?k2 and wo = wo, OF refl, unfolded f wo]
  have pg: "pages ?k' u = map_option (survivor p th st ?k' u) (pages k u)" if "u \<noteq> running k" for u
    unfolding en(5) [OF that] using wm by (rule survivor_steps)
  have "only_ends p th st k ?k'"
    unfolding only_ends_def Let_def
    by (intro conjI allI impI; (rule fl | rule en(4) [OF assms(5)] | rule en(7) | (erule pg)))
  then show ?thesis using ex1 en(1,2,6) by auto
qed

lemma only_ends_entry:
  assumes "only_ends p th st k k'" and "child_of k p th e"
  shows "\<exists>thp. pages k' p = Some thp \<and> get_child_element (tid th) (child_list thp) = Some (exited_with st e)"
proof -
  obtain thp where thp: "pages k p = Some thp" "get_child_element (tid th) (child_list thp) = Some e"
    "p \<noteq> running k" using assms(2) by (auto simp: child_of_def)
  then have "pages k' p = Some (survivor p th st k' p thp)"
    using assms(1) by (simp add: only_ends_def)
  then show ?thesis using thp(2) by (simp add: survivor_def exited_with_def)
qed

lemma exit_ends_process:
  assumes "sema_ok api" and "u_sched_inv k" and "\<not> in_interrupt k" and "running k \<noteq> idle_thread k"
    and "running k \<noteq> initial_thread k" and "child_of k p th e" and "sema_waiters (wait_exit th) = []"
  shows "\<exists>k'. exit api st k = Inr k' \<and> u_sched_inv k' \<and> pages k' (running k) = None \<and>
    fs k' = exit_fs api th (fs k) \<and> console k' = console k @ [(tname th, st)] \<and>
    map_option (\<lambda>thp. get_child_element (tid th) (child_list thp)) (pages k' p) = Some (Some (exited_with st e))"
proof -
  have "may_exit k p th" using assms(7) by (simp add: may_exit_def)
  from exit_only_ends [OF assms(1-6) this, of st] obtain k' where k': "exit api st k = Inr k'" "u_sched_inv k'"
    "only_ends p th st k k'" "fs k' = exit_fs api th (fs k)" by blast
  moreover obtain thp where "pages k' p = Some thp"
    "get_child_element (tid th) (child_list thp) = Some (exited_with st e)"
    using only_ends_entry [OF k'(3) assms(6)] by blast
  moreover have "pages k' (running k) = None" "console k' = console k @ [(tname th, st)]"
    using k'(3) unfolding only_ends_def by blast+
  ultimately show ?thesis by simp
qed

lemma resume_on_free_page:
  assumes "u_sched_inv k" and "running k \<noteq> 0" and "pages k (running k) = Some thp"
    and "get_child_element t (child_list thp) = Some c" and "child_thread c \<noteq> 0" and "pages k (child_thread c) = None"
  shows "process_wait_resume api t k = Inl Bad_pointer"
proof -
  have "find_child k (running k) t = Inr c" using assms(2-4) by (simp add: find_child_Inr)
  then show ?thesis
    using u_thread_current_eq [OF assms(1)] assms(5,6)
    by (simp add: process_wait_resume_def sema_down_def thread_at_def)
qed

text \<open>
  C3: How a child's exit status reaches its parent, and when it does not. A child of a live parent
  \<open>p\<close> calls \<^verbatim>\<open>exit(st)\<close> while \<open>p\<close> is not asleep on it or is the thread asleep on it in
  \<^verbatim>\<open>process_wait\<close>. No assertion fails, the message is printed, the files of the child are closed, its
  page is given back, its entry in the list of \<open>p\<close> gets \<open>st\<close>, and nothing else changes
  (\<open>only_ends\<close>). If \<open>p\<close> has not waited yet, then at any later time at which its list of children is
  still the same its \<^verbatim>\<open>process_wait\<close> returns \<open>st\<close> without sleeping the first time and -1 the second
  time, although the child is long gone. If \<open>p\<close> is asleep in \<^verbatim>\<open>process_wait\<close>, it is made ready but
  never gets the status: the semaphore it slept on was inside the page that was given back, and when
  it runs again, with the page still free, the rest of its \<^verbatim>\<open>sema_down\<close> accesses freed memory.
\<close>
theorem exit_status_reaches_parent:
  assumes "sema_ok api" and "u_sched_inv k" and "\<not> in_interrupt k" and "running k \<noteq> idle_thread k"
    and "running k \<noteq> initial_thread k" and "child_of k p th e" and "may_exit k p th"
  shows "\<exists>k'. exit api st k = Inr k' \<and> u_sched_inv k' \<and> only_ends p th st k k' \<and>
    fs k' = exit_fs api th (fs k) \<and>
    (\<not> parent_waiting e \<longrightarrow>
      (\<forall>k''. u_sched_inv k'' \<and> running k'' = p \<and>
         map_option child_list (pages k'' p) = map_option child_list (pages k' p) \<longrightarrow>
         (\<exists>k3. process_wait api (tid th) k'' = Inr (Some st, k3) \<and>
               process_wait api (tid th) k3 = Inr (Some (- 1), k3)))) \<and>
    (sema_waiters (wait_exit th) = [p] \<and> child_thread e = running k \<longrightarrow>
      p \<in> insert (running k') (set (ready_list k')) \<and>
      (\<forall>k''. u_sched_inv k'' \<and> running k'' = p \<and> pages k'' (running k) = None \<and>
         map_option child_list (pages k'' p) = map_option child_list (pages k' p) \<longrightarrow>
         process_wait_resume api (tid th) k'' = Inl Bad_pointer))"
proof -
  obtain k' where k': "exit api st k = Inr k'" "u_sched_inv k'" "only_ends p th st k k'"
    "fs k' = exit_fs api th (fs k)"
    using exit_only_ends [OF assms(1-7), of st] by blast
  have entry: "\<exists>thp. pages k'' p = Some thp \<and>
      get_child_element (tid th) (child_list thp) = Some (exited_with st e)"
    if "u_sched_inv k''" "running k'' = p"
      "map_option child_list (pages k'' p) = map_option child_list (pages k' p)" for k'' :: "('a, 'b) kernel"
    using u_running_page [OF that(1)] that(2,3) only_ends_entry [OF k'(3) assms(6)] by auto
  have first: "\<exists>k3. process_wait api (tid th) k'' = Inr (Some st, k3) \<and>
             process_wait api (tid th) k3 = Inr (Some (- 1), k3)"
    if "\<not> parent_waiting e" and k'': "u_sched_inv k''" "running k'' = p"
      "map_option child_list (pages k'' p) = map_option child_list (pages k' p)" for k''
    using entry [OF k''] process_wait_ended_child [OF k''(1), of _ "tid th" "exited_with st e" api] that(1) k''(2)
    by (auto simp: exited_with_def)
  have nz: "running k \<noteq> 0" "p \<noteq> 0"
    using assms(6) u_sched_invD(1) [OF assms(2)] by (auto simp: child_of_def u_threads_ok_def)
  have second: "process_wait_resume api (tid th) k'' = Inl Bad_pointer"
    if "child_thread e = running k" and "pages k'' (running k) = None"
      and k'': "u_sched_inv k''" "running k'' = p"
      "map_option child_list (pages k'' p) = map_option child_list (pages k' p)" for k''
    using entry [OF k''] resume_on_free_page [OF k''(1), of _ "tid th" "exited_with st e" api] that(1,2) k''(2) nz
    by (auto simp: exited_with_def)
  have "p \<in> insert (running k') (set (ready_list k'))" if "sema_waiters (wait_exit th) = [p]"
  proof -
    have q: "running k' = (case ready_list k @ [p] of [] \<Rightarrow> idle_thread k | t # _ \<Rightarrow> t)"
      "ready_list k' = tl (ready_list k @ [p])"
      using k'(3) that unfolding only_ends_def Let_def by simp_all
    then show ?thesis by (cases "ready_list k") simp_all
  qed
  then show ?thesis using k' first second by (intro exI [of _ k']) simp
qed

text \<open>
  A parent that is already asleep in \<^verbatim>\<open>process_wait\<close> resumes on freed memory. \<^verbatim>\<open>process_exit\<close>
  wakes it with \<^verbatim>\<open>sema_up\<close> on a semaphore inside the child's own page, and the switch away from
  the dying child frees that page; the rest of the parent's \<^verbatim>\<open>sema_down\<close> reads and decrements the
  semaphore there. With nobody else ready the parent runs next and the access is immediate.
\<close>
theorem wait_resumes_on_freed_page:
  assumes "sema_ok api" and "u_sched_inv k" and "\<not> in_interrupt k" and "running k \<noteq> idle_thread k"
    and "running k \<noteq> initial_thread k" and "child_of k p th e" and "child_thread e = running k"
    and "sema_waiters (wait_exit th) = [p]" and "status_of k p = Some THREAD_BLOCKED"
    and "p \<noteq> idle_thread k" and "ready_list k = []"
  shows "\<exists>k'. exit api st k = Inr k' \<and> running k' = p \<and>
    process_wait_resume api (tid th) k' = Inl Bad_pointer"
proof -
  let ?k2 = "upd_child p (tid th) (exited_with st) (k\<lparr>console := console k @ [(tname th, st)]\<rparr>)"
  note ex1 = exit_eq(1) [OF assms(2,6), of api st] and ex = exit_eq [OF assms(2,6), where st = st]
  have f: "running ?k2 = running k" "idle_thread ?k2 = idle_thread k" "in_interrupt ?k2 = in_interrupt k"
    "initial_thread ?k2 = initial_thread k" "ready_list ?k2 = ready_list k"
    by (simp_all add: upd_child_def)
  obtain s where up: "api_sema_up api (wait_exit th) = (Some p, s)"
    using sema_up_waiter [OF assms(1), of "wait_exit th"] assms(8) by auto
  have w: "waiter_ok ?k2 (Some p)"
    unfolding waiter_ok_upd_child using assms(9,10) by (rule waiter_ok_asleep)
  note en = thread_exit_ended [OF ex(3) _ _ _ ex(2) up w, unfolded f, OF assms(3,4) ex(4)]
  let ?k' = "ended ((upd_thread (running k) (gone s) (woke (Some p) ?k2))\<lparr>fs := exit_fs api th (fs ?k2),
    active_pagedir := if pagedir th = None then active_pagedir ?k2 else None\<rparr>)"
  have run: "running ?k' = p" using en(9) assms(11) by simp
  have ne: "p \<noteq> running k" using assms(6) by (simp add: child_of_def)
  obtain thp where thp: "pages ?k' p = Some thp" using u_running_page [OF en(2)] run by auto
  have pc: "map_option child_list (pages ?k' p) = map_option child_list (pages ?k2 p)"
    using en(5) [OF ne] by (simp add: pages_woke option.map_comp comp_def)
  have g: "get_child_element (tid th) (child_list thp) = Some (exited_with st e)"
    by (intro get_child_exited [OF assms(6) pc [symmetric]]) (simp add: thp)
  have "p \<noteq> 0" using assms(6) by (simp add: child_of_def)
  then have "find_child ?k' p (tid th) = Inr (exited_with st e)" using thp g by (simp add: find_child_Inr)
  moreover have "thread_at ?k' (running k) = Inl Bad_pointer"
    using en(4) assms(5) u_sched_invD(1) [OF assms(2)] assms(6)
    by (auto simp: thread_at_def child_of_def u_threads_ok_def)
  ultimately have "process_wait_resume api (tid th) ?k' = Inl Bad_pointer"
    using u_thread_current_eq [OF en(2)] run assms(7)
    by (simp add: process_wait_resume_def sema_down_def exited_with_def)
  then show ?thesis using ex1 en(1) run by auto
qed

subsection \<open>Sample runs\<close>

definition family_child :: "tptr list \<Rightarrow> string thread" where
  "family_child ws = (sample_thread 4 THREAD_RUNNING)\<lparr>parent := 0x3000,
     fd_list := [\<lparr>fd = 2, my_file = ''f''\<rparr>], fd_size := 2,
     wait_exit := \<lparr>sema_value = 0, sema_waiters = ws\<rparr>\<rparr>"

lemma child_of_family: "child_pid e = 4 \<Longrightarrow> child_of (family sp e ws) 0x3000 (family_child ws) e"
  by (simp add: child_of_def family_def family_child_def sample_thread_def)

lemma family_child_fields [simp]:
  "sema_waiters (wait_exit (family_child ws)) = ws" "tid (family_child ws) = 4"
  "tname (family_child ws) = ''p''"
  by (simp_all add: family_child_def sample_thread_def)

lemma new_child_fields [simp]:
  "child_pid (new_child t n) = n" "child_thread (new_child t n) = t" "\<not> parent_waiting (new_child t n)"
  "cur_status (new_child t n) = ALIVE"
  by (simp_all add: new_child_def)

lemma exit_fs_family: "exit_fs sample_api (family_child ws) [] = [''f'']"
  by (simp add: exit_fs_def family_child_def sample_thread_def sample_api_def)

theorem exit_status_reaches_parent_witness:
  "(\<exists>k'. exit sample_api 7 (family THREAD_READY (new_child 0x4000 4) []) = Inr k' \<and> u_sched_inv k' \<and>
    only_ends 0x3000 (family_child []) 7 (family THREAD_READY (new_child 0x4000 4) []) k' \<and>
    fs k' = [''f''] \<and>
    (\<forall>k''. u_sched_inv k'' \<and> running k'' = 0x3000 \<and>
       map_option child_list (pages k'' 0x3000) = map_option child_list (pages k' 0x3000) \<longrightarrow>
       (\<exists>k3. process_wait sample_api 4 k'' = Inr (Some 7, k3) \<and>
             process_wait sample_api 4 k3 = Inr (Some (- 1), k3)))) \<and>
   (\<exists>k'. exit sample_api 7 (family THREAD_BLOCKED (new_child 0x4000 4) [0x3000]) = Inr k' \<and>
    (\<forall>k''. u_sched_inv k'' \<and> running k'' = 0x3000 \<and> pages k'' 0x4000 = None \<and>
       map_option child_list (pages k'' 0x3000) = map_option child_list (pages k' 0x3000) \<longrightarrow>
       process_wait_resume sample_api 4 k'' = Inl Bad_pointer))"
proof -
  have a: "may_exit (family THREAD_READY (new_child 0x4000 4) []) 0x3000 (family_child [])"
    and b: "may_exit (family THREAD_BLOCKED (new_child 0x4000 4) [0x3000]) 0x3000 (family_child [0x3000])"
    by (simp_all add: may_exit_def status_of_family)
  note exit_status_reaches_parent [OF sema_ok_sample u_sched_inv_family _ _ _ child_of_family a, of 7]
  moreover note exit_status_reaches_parent [OF sema_ok_sample u_sched_inv_family _ _ _ child_of_family b, of 7]
  ultimately show ?thesis by (simp add: exit_fs_family) blast
qed

theorem wait_resumes_on_freed_page_witness:
  "\<exists>k'. exit sample_api 0 (family THREAD_BLOCKED (new_child 0x4000 4) [0x3000]) = Inr k' \<and>
    running k' = 0x3000 \<and> process_wait_resume sample_api 4 k' = Inl Bad_pointer"
  using wait_resumes_on_freed_page [OF sema_ok_sample u_sched_inv_family _ _ _ child_of_family,
      of THREAD_BLOCKED "new_child 0x4000 4" "[0x3000]" 0]
  by (simp add: status_of_family)

end
