(* ===== verification/File_Descriptors.thy ===== *)
theory File_Descriptors
  imports Syscalls Process_Protocol
begin

section \<open>The table of open files\<close>

text \<open>
  What \<^verbatim>\<open>open\<close>, \<^verbatim>\<open>close\<close>, \<^verbatim>\<open>read\<close>, \<^verbatim>\<open>write\<close> and the other file calls of \<^verbatim>\<open>syscall.c\<close> keep of the
  table of open files of the running process, one call at a time and along every sequence of calls.
\<close>

definition fds_ok :: "'f thread \<Rightarrow> bool" where
  "fds_ok th \<longleftrightarrow> distinct (map fd (fd_list th)) \<and> 1 \<le> fd_size th \<and>
     (\<forall>e \<in> set (fd_list th). 2 \<le> fd e \<and> fd e \<le> fd_size th)"

subsection \<open>Lookup, insertion and removal\<close>

lemma get_fd_element_append [simp]:
  "get_fd_element n (es @ [e]) =
     (case get_fd_element n es of None \<Rightarrow> if fd e = n then Some e else None | Some x \<Rightarrow> Some x)"
  by (induction es) simp_all

lemma get_fd_element_None: "get_fd_element n es = None \<longleftrightarrow> n \<notin> fd ` set es"
  by (induction es) auto

lemma get_fd_element_remove:
  "distinct (map fd es) \<Longrightarrow>
   get_fd_element m (remove_fd n es) = (if m = n then None else get_fd_element m es)"
  by (induction es) (auto simp: get_fd_element_None)

lemma set_remove_fd: "set (remove_fd n es) \<subseteq> set es"
  by (induction es) auto

lemma distinct_remove_fd: "distinct (map fd es) \<Longrightarrow> distinct (map fd (remove_fd n es))"
  by (induction es) (use set_remove_fd in \<open>auto simp: image_iff\<close>)

lemma get_fd_eq:
  assumes "thread_current k = Inr (running k)" "thread_at k (running k) = Inr th"
  shows "get_fd n k = Inr (get_fd_element n (fd_list th))"
  using assms by (simp add: get_fd_def)

subsection \<open>The file calls as steps\<close>

text \<open>
  One file system call of the running process that returns to it.
\<close>

inductive file_call :: "('f, 'fs) api \<Rightarrow> ('f, 'fs) dev \<Rightarrow> ('f, 'fs) kernel \<Rightarrow> ('f, 'fs) kernel \<Rightarrow> bool"
  for api :: "('f, 'fs) api" and dev :: "('f, 'fs) dev" where
  call_create: "create dev name sz k = Inr (b, k') \<Longrightarrow> file_call api dev k k'"
| call_remove: "remove dev name k = Inr (b, k') \<Longrightarrow> file_call api dev k k'"
| call_open: "open_file dev fd_ok name k = Inr (v, k') \<Longrightarrow> file_call api dev k k'"
| call_read: "read dev n buf sz k = Inr (v, k') \<Longrightarrow> file_call api dev k k'"
| call_write: "write_buffer dev n buf sz k = Inr (v, k') \<Longrightarrow> file_call api dev k k'"
| call_close: "close api n k = Inr k' \<Longrightarrow> file_call api dev k k'"

text \<open>
  What a call does to the thread that makes it: its table may change as \<open>open\<close> or \<open>close\<close> change
  it, its page directory may get other bytes, and nothing else of the threads changes.
\<close>

definition table_step :: "'f thread \<Rightarrow> 'f thread \<Rightarrow> bool" where
  "table_step th th' \<longleftrightarrow> (\<exists>pd. th' = th\<lparr>pagedir := pd\<rparr>) \<or>
     (\<exists>f. th' = th\<lparr>fd_size := i32 (fd_size th + 1),
              fd_list := fd_list th @ [\<lparr>fd = i32 (fd_size th + 1), my_file = f\<rparr>]\<rparr>) \<or>
     (\<exists>n. th' = th\<lparr>fd_list := remove_fd n (fd_list th)\<rparr>)"

definition threads_step :: "('f, 'fs) kernel \<Rightarrow> ('f, 'fs) kernel \<Rightarrow> bool" where
  "threads_step k k' \<longleftrightarrow> running k' = running k \<and> ready_list k' = ready_list k \<and> all_list k' = all_list k \<and>
     idle_thread k' = idle_thread k \<and> initial_thread k' = initial_thread k \<and>
     (\<forall>th. pages k (running k) = Some th \<longrightarrow> (\<exists>th'. pages k' (running k) = Some th' \<and> table_step th th')) \<and>
     (\<forall>u. u \<noteq> running k \<longrightarrow> pages k' u = pages k u)"

lemma table_step_same [simp]: "table_step th th"
  unfolding table_step_def by (rule disjI1) (rule exI [of _ "pagedir th"], simp)

lemma threads_step_fs: "threads_step k (k\<lparr>fs := s\<rparr>)"
  by (simp add: threads_step_def)

lemma threads_step_upd:
  assumes "\<And>th. pages k (running k) = Some th \<Longrightarrow> table_step th (f th)"
  shows "threads_step k ((upd_thread (running k) f k)\<lparr>fs := s\<rparr>)"
    and "threads_step k (upd_thread (running k) f (k\<lparr>fs := s\<rparr>))"
    and "threads_step k ((upd_thread (running k) f (k\<lparr>fs := s\<rparr>))\<lparr>active_pagedir := m\<rparr>)"
  using assms by (auto simp: threads_step_def upd_thread_def)

lemma store_user_step:
  assumes "store_user a bs (k\<lparr>fs := s\<rparr>) = Inr k'"
  shows "threads_step k k'"
proof -
  have "table_step th (th\<lparr>pagedir := Some m\<rparr>)" for th :: "'a thread" and m
    unfolding table_step_def by blast
  then show ?thesis
    using assms threads_step_upd(3) [of k "\<lambda>th. th\<lparr>pagedir := Some m\<rparr>" for m] threads_step_fs [of k s]
    by (auto simp: store_user_def bnd_eq_Inr split: if_splits)
qed

lemma thread_current_running: "thread_current k = Inr c \<Longrightarrow> c = running k"
  by (simp add: thread_current_def Let_def split: if_splits)

lemma open_file_cases:
  assumes "open_file dev fd_ok name k = Inr (v, k')"
  obtains (failed) s where "v = - 1" "k' = k\<lparr>fs := s\<rparr>"
  | (opened) th f s where "pages k (running k) = Some th" "v = i32 (fd_size th + 1)"
      "k' = upd_thread (running k) (\<lambda>th. th\<lparr>fd_size := v, fd_list := fd_list th @ [\<lparr>fd = v, my_file = f\<rparr>]\<rparr>)
              (k\<lparr>fs := s\<rparr>)"
proof -
  obtain name' where cur: "thread_current k = Inr (running k)"
    and rest: "(let (opened_file, s1) = filesys_open dev name' (fs k); k1 = k\<lparr>fs := s1\<rparr> in
      (case opened_file of None \<Rightarrow> Inr (- 1, k1)
       | Some f \<Rightarrow> bnd (thread_at k1 (running k)) (\<lambda>th. let ret = i32 (fd_size th + 1) in
          if \<not> fd_ok then Inl Null_deref
          else Inr (ret, upd_thread (running k) (\<lambda>th. th\<lparr>fd_size := ret,
                 fd_list := fd_list th @ [\<lparr>fd = ret, my_file = f\<rparr>]\<rparr>) k1)))) = Inr (v, k')"
    using assms by (auto simp: open_file_def bnd_eq_Inr dest: thread_current_running)
  obtain f' s1 where fo: "filesys_open dev name' (fs k) = (f', s1)" by fastforce
  show thesis
  proof (cases f')
    case None
    then show thesis using rest fo failed [of s1] by simp
  next
    case (Some f)
    then show thesis
      using rest fo opened [of _ f s1] by (auto simp: bnd_eq_Inr thread_at_Inr Let_def split: if_splits)
  qed
qed

lemma open_file_step:
  assumes "open_file dev fd_ok name k = Inr (v, k')"
  shows "threads_step k k'"
  using assms
proof (rule open_file_cases)
  fix th f s
  assume opened: "pages k (running k) = Some th" "v = i32 (fd_size th + 1)"
    "k' = upd_thread (running k) (\<lambda>th. th\<lparr>fd_size := v, fd_list := fd_list th @ [\<lparr>fd = v, my_file = f\<rparr>]\<rparr>)
            (k\<lparr>fs := s\<rparr>)"
  show ?thesis
    unfolding opened(3) by (rule threads_step_upd(2)) (use opened in \<open>auto simp: table_step_def\<close>)
qed (simp add: threads_step_fs)

lemma close_step:
  assumes "close api n k = Inr k'"
  shows "threads_step k k'"
proof -
  obtain th where "thread_current k = Inr (running k)" "thread_at k (running k) = Inr th"
    using assms by (auto simp: close_def bnd_eq_Inr dest: thread_current_running)
  then have "k' = k \<or> (\<exists>s. k' = (upd_thread (running k) (\<lambda>th. th\<lparr>fd_list := remove_fd n (fd_list th)\<rparr>) k)\<lparr>fs := s\<rparr>)"
    using assms by (auto simp: close_def Let_def split: option.splits)
  moreover have "threads_step k (k\<lparr>fs := fs k\<rparr>)" by (rule threads_step_fs)
  ultimately show ?thesis
    using threads_step_upd(1) [of k "\<lambda>th. th\<lparr>fd_list := remove_fd n (fd_list th)\<rparr>"]
    by (auto simp: table_step_def)
qed

lemma read_step:
  assumes "read dev n buf sz k = Inr (v, k')"
  shows "threads_step k k'"
proof -
  have id: "threads_step k k" using threads_step_fs [of k "fs k"] by simp
  show ?thesis
  proof (cases "n > 0")
    case True
    obtain e where e: "get_fd n k = Inr e" using True assms by (auto simp: read_def bnd_eq_Inr)
    show ?thesis
      using True assms e id
      by (cases e) (auto simp: read_def bnd_eq_Inr Let_def split_beta intro: store_user_step split: if_splits)
  next
    case False
    then show ?thesis
      using assms id threads_step_fs [of k] by (auto simp: read_def split_beta split: if_splits)
  qed
qed

lemma write_buffer_step:
  assumes "write_buffer dev n buf sz k = Inr (v, k')"
  shows "threads_step k k'"
proof -
  have id: "threads_step k k" using threads_step_fs [of k "fs k"] by simp
  show ?thesis
  proof (cases "n = 1")
    case True
    then show ?thesis
      using assms threads_step_fs [of k] by (auto simp: write_buffer_def bnd_eq_Inr)
  next
    case False
    obtain e where e: "get_fd n k = Inr e" using False assms by (auto simp: write_buffer_def bnd_eq_Inr)
    show ?thesis
      using False assms e id threads_step_fs [of k]
      by (cases e) (auto simp: write_buffer_def bnd_eq_Inr Let_def split: if_splits)
  qed
qed

lemma file_call_step: "file_call api dev k k' \<Longrightarrow> threads_step k k'"
proof (induction rule: file_call.induct)
  case (call_create name sz k b k')
  then show ?case
    using threads_step_fs [of k] by (auto simp: create_def bnd_eq_Inr split_beta)
next
  case (call_remove name k b k')
  then show ?case
    using threads_step_fs [of k] by (auto simp: remove_def bnd_eq_Inr split_beta)
qed (auto intro: open_file_step close_step read_step write_buffer_step)

subsection \<open>The table along a sequence of calls\<close>

lemma table_step_ok:
  assumes "table_step th th'" "fds_ok th" "fd_size th < 2147483647"
  shows "fds_ok th' \<and> fd_size th' \<le> fd_size th + 1"
  using assms(1) unfolding table_step_def
proof (elim disjE exE)
  fix pd assume "th' = th\<lparr>pagedir := pd\<rparr>"
  then show ?thesis using assms(2) by (simp add: fds_ok_def)
next
  fix f assume th': "th' = th\<lparr>fd_size := i32 (fd_size th + 1),
    fd_list := fd_list th @ [\<lparr>fd = i32 (fd_size th + 1), my_file = f\<rparr>]\<rparr>"
  have "i32 (fd_size th + 1) = fd_size th + 1"
    using assms(2,3) by (intro i32_id) (auto simp: fds_ok_def)
  then show ?thesis using assms(2) th' by (fastforce simp: fds_ok_def)
next
  fix n assume "th' = th\<lparr>fd_list := remove_fd n (fd_list th)\<rparr>"
  then show ?thesis
    using assms(2) set_remove_fd [of n "fd_list th"] distinct_remove_fd [of "fd_list th" n]
    by (auto simp: fds_ok_def)
qed

lemma file_calls_ok:
  assumes "(file_call api dev ^^ n) k k'" and "pages k (running k) = Some th" and "fds_ok th"
    and "fd_size th + int n < 2147483648"
  shows "running k' = running k \<and> (\<forall>u. u \<noteq> running k \<longrightarrow> pages k' u = pages k u) \<and>
    (\<exists>th'. pages k' (running k) = Some th' \<and> fds_ok th' \<and> fd_size th' \<le> fd_size th + int n)"
  using assms
proof (induction n arbitrary: k')
  case (Suc n)
  then obtain k1 where k1: "(file_call api dev ^^ n) k k1" "file_call api dev k1 k'" by auto
  obtain th1 where IH: "running k1 = running k" "\<forall>u. u \<noteq> running k \<longrightarrow> pages k1 u = pages k u"
    "pages k1 (running k) = Some th1" "fds_ok th1" "fd_size th1 \<le> fd_size th + int n"
    using Suc.IH [OF k1(1) Suc.prems(2,3)] Suc.prems(4) by auto
  have step: "threads_step k1 k'" using k1(2) by (rule file_call_step)
  then obtain th' where "pages k' (running k) = Some th'" "table_step th1 th'"
    using IH(1,3) by (auto simp: threads_step_def)
  then show ?case
    using table_step_ok [of th1 th'] IH Suc.prems(4) step by (auto simp: threads_step_def)
qed simp

text \<open>
  C26: File descriptors stay unambiguous. A new process has an empty table; whatever file system
  calls it then makes, up to 2^31 - 2 of them, every entry of its table has a descriptor of its
  own, none is 0 or 1 (keyboard and console), and no other thread's table is touched.
\<close>
theorem descriptors_unique:
  assumes "(file_call api dev ^^ n) k k'" and "pages k (running k) = Some th"
    and "fd_list th = []" and "fd_size th = 1" and "n < 2 ^ 31 - 1"
  shows "\<exists>th'. pages k' (running k) = Some th' \<and> distinct (map fd (fd_list th')) \<and>
    (\<forall>e \<in> set (fd_list th'). 2 \<le> fd e) \<and> (\<forall>u. u \<noteq> running k \<longrightarrow> pages k' u = pages k u)"
proof -
  have "fds_ok th" using assms(3,4) by (simp add: fds_ok_def)
  then show ?thesis
    using file_calls_ok [OF assms(1,2)] assms(4,5) by (auto simp: fds_ok_def)
qed

definition opened :: "'f \<Rightarrow> 'fs \<Rightarrow> ('f, 'fs) kernel \<Rightarrow> ('f, 'fs) kernel" where
  "opened f s k = upd_thread (running k) (\<lambda>th. th\<lparr>fd_size := fd_size th + 1,
     fd_list := fd_list th @ [\<lparr>fd = fd_size th + 1, my_file = f\<rparr>]\<rparr>) (k\<lparr>fs := s\<rparr>)"

lemma open_file_eq:
  assumes "u_sched_inv k" and "pages k (running k) = Some th" and "fds_ok th" and "fd_size th < 2147483647"
    and "user_string name k = Inr s" and "filesys_open dev s (fs k) = (Some f, s1)"
  shows "open_file dev True name k = Inr (fd_size th + 1, opened f s1 k)"
proof -
  have "running k \<noteq> 0" using u_sched_invD(1) [OF assms(1)] assms(2) by (auto simp: u_threads_ok_def)
  then have at: "thread_at (k\<lparr>fs := s1\<rparr>) (running k) = Inr th" using assms(2) by (simp add: thread_at_Inr)
  have n: "i32 (fd_size th + 1) = fd_size th + 1" using assms(3,4) by (intro i32_id) (auto simp: fds_ok_def)
  have "opened f s1 k = upd_thread (running k) (\<lambda>th'. th'\<lparr>fd_size := fd_size th + 1,
     fd_list := fd_list th' @ [\<lparr>fd = fd_size th + 1, my_file = f\<rparr>]\<rparr>) (k\<lparr>fs := s1\<rparr>)"
    using assms(2) by (simp add: opened_def upd_thread_def)
  then show ?thesis
    using u_thread_current_eq [OF assms(1)] at assms(5,6) n by (simp add: open_file_def Let_def)
qed

text \<open>
  C31: Opening and closing are inverse. A successful \<^verbatim>\<open>open\<close> returns a descriptor that was free,
  under which \<^verbatim>\<open>get_fd\<close> now finds the file and beside which every other descriptor means what it
  meant; \<^verbatim>\<open>close\<close> of it removes exactly that entry again and closes the file once.
\<close>
theorem open_close_roundtrip:
  assumes "u_sched_inv k" and "pages k (running k) = Some th" and "fds_ok th" and "fd_size th < 2147483647"
    and "user_string name k = Inr s" and "filesys_open dev s (fs k) = (Some f, s1)"
  shows "\<exists>k1 k2. open_file dev True name k = Inr (fd_size th + 1, k1) \<and>
    get_fd (fd_size th + 1) k = Inr None \<and>
    get_fd (fd_size th + 1) k1 = Inr (Some \<lparr>fd = fd_size th + 1, my_file = f\<rparr>) \<and>
    (\<forall>n. n \<noteq> fd_size th + 1 \<longrightarrow> get_fd n k1 = get_fd n k) \<and>
    close api (fd_size th + 1) k1 = Inr k2 \<and> (\<forall>n. get_fd n k2 = get_fd n k) \<and>
    fs k2 = api_file_close api (Some f) s1"
proof -
  let ?n = "fd_size th + 1" and ?c = "running k"
  let ?k0 = "k\<lparr>fs := s1\<rparr>"
  let ?k1 = "opened f s1 k"
  let ?k2 = "(upd_thread ?c (\<lambda>th. th\<lparr>fd_list := remove_fd ?n (fd_list th)\<rparr>) ?k1)
    \<lparr>fs := api_file_close api (Some f) s1\<rparr>"
  have z: "?c \<noteq> 0" using u_sched_invD(1) [OF assms(1)] assms(2) by (auto simp: u_threads_ok_def)
  have inv: "u_sched_inv ?k0" "u_sched_inv ?k1" "u_sched_inv ?k2"
    using assms(1) by (auto simp: opened_def intro!: u_sched_inv_upd_thread)
  note cur = u_thread_current_eq [OF assms(1)] u_thread_current_eq [OF inv(1)]
    u_thread_current_eq [OF inv(2)] u_thread_current_eq [OF inv(3)]
  let ?th1 = "th\<lparr>fd_size := ?n, fd_list := fd_list th @ [\<lparr>fd = ?n, my_file = f\<rparr>]\<rparr>"
  have at: "thread_at k ?c = Inr th" "thread_at ?k0 ?c = Inr th" "thread_at ?k1 ?c = Inr ?th1"
    "thread_at ?k2 ?c = Inr (?th1\<lparr>fd_list := remove_fd ?n (fd_list ?th1)\<rparr>)"
    using assms(2) z by (simp_all add: thread_at_Inr opened_def upd_thread_def)
  have g: "get_fd m k = Inr (get_fd_element m (fd_list th))"
    "get_fd m ?k1 = Inr (get_fd_element m (fd_list ?th1))"
    "get_fd m ?k2 = Inr (get_fd_element m (remove_fd ?n (fd_list ?th1)))" for m
    using cur at by (simp_all add: get_fd_def opened_def)
  have new: "get_fd_element ?n (fd_list th) = None"
    using assms(3) by (fastforce simp: get_fd_element_None fds_ok_def)
  have d: "distinct (map fd (fd_list ?th1))" using assms(3) by (fastforce simp: fds_ok_def)
  have "open_file dev True name k = Inr (?n, ?k1)"
    by (rule open_file_eq [OF assms])
  moreover have "close api ?n ?k1 = Inr ?k2"
    using cur at new by (simp add: close_def Let_def opened_def)
  moreover have "get_fd m ?k2 = get_fd m k" for m
    unfolding g get_fd_element_remove [OF d] using new by (simp split: option.splits)
  ultimately show ?thesis
    using g new by (intro exI [of _ ?k1] exI [of _ ?k2]) (simp split: option.splits)
qed

subsection \<open>Sample runs\<close>

definition sample_machine :: "string sys" where
  "sample_machine =
     \<lparr>phys_base = 0xC0000000, filesys_open = (\<lambda>n. None), file_length = (\<lambda>f. int (length f)),
      file_seek = (\<lambda>f i. drop (nat i) f), file_read = (\<lambda>f n. (map of_char (take n f), drop n f)),
      pagedir_create_ok = True, set_page_ok = (\<lambda>_. True), malloc_ok = (\<lambda>_. True)\<rparr>"

definition sample_dev :: "(string, string list) dev" where
  "sample_dev =
     \<lparr>machine = sample_machine,
      filesys_create = (\<lambda>n sz s. (True, s)), filesys_remove = (\<lambda>n s. (False, s)),
      filesys_open = (\<lambda>n s. (Some n, s)), file_length = (\<lambda>f s. int (length f)),
      file_read = (\<lambda>f n s. (take (unat n) (map of_char f), s)),
      file_accepts = (\<lambda>f n s. unat n), file_write = (\<lambda>f bs s. s),
      input_getc = (\<lambda>s. (65, s)), putbuf = (\<lambda>bs s. s),
      SYS_EXIT = 1, SYS_EXEC = 2, SYS_WAIT = 3, SYS_CREATE = 4, SYS_REMOVE = 5, SYS_OPEN = 6,
      SYS_FILESIZE = 7, SYS_READ = 8, SYS_WRITE = 9, SYS_CLOSE = 12\<rparr>"

definition with_memory :: "umem \<Rightarrow> ('f, 'fs) kernel \<Rightarrow> ('f, 'fs) kernel" where
  "with_memory m k =
     (upd_thread (running k) (\<lambda>th. th\<lparr>pagedir := Some m, fd_list := [], fd_size := 1\<rparr>) k)\<lparr>active_pagedir := Some m\<rparr>"

lemma with_memory_inv: "u_sched_inv k \<Longrightarrow> u_sched_inv (with_memory m k)"
  by (auto simp: with_memory_def intro: u_sched_inv_upd_thread)

definition name_memory :: umem where
  "name_memory = [0x8000 \<mapsto> 97, 0x8001 \<mapsto> 0]"

definition busy :: "umem \<Rightarrow> (string, string list) kernel" where
  "busy m = with_memory m (family THREAD_READY (new_child 0x4000 4) [])"

lemma u_sched_inv_busy: "u_sched_inv (busy m)"
  unfolding busy_def by (rule with_memory_inv) (simp add: u_sched_inv_family)

definition busy_thread :: "umem \<Rightarrow> string thread" where
  "busy_thread m = (family_child [])\<lparr>pagedir := Some m, fd_list := [], fd_size := 1\<rparr>"

lemma busy_fields [simp]:
  "running (busy m) = 0x4000" "idle_thread (busy m) = 0x2000" "initial_thread (busy m) = 0x1000"
  "in_interrupt (busy m) = False" "user_memory (busy m) = m" "fs (busy m) = []"
  "pages (busy m) 0x4000 = Some (busy_thread m)" "console (busy m) = []" "next_tid (busy m) = 5"
  by (simp_all add: busy_def with_memory_def user_memory_def busy_thread_def)
    (simp_all add: family_def family_child_def sample_thread_def upd_thread_def)

lemma fds_ok_busy: "fds_ok (busy_thread m)" "fd_list (busy_thread m) = []" "fd_size (busy_thread m) = 1"
  by (simp_all add: fds_ok_def busy_thread_def)

lemma user_string_name: "user_string 0x8000 (busy name_memory) = Inr ''a''"
proof -
  have "string_at (2 ^ 32) name_memory 0x8000 = Inr [97]"
    by (rule string_at_at) (simp_all add: name_memory_def)
  then show ?thesis by (simp add: user_string_def char_of_def bit_0)
qed

lemma open_busy: "open_file sample_dev True 0x8000 (busy name_memory) = Inr (2, opened ''a'' [] (busy name_memory))"
  using open_file_eq [OF u_sched_inv_busy _ fds_ok_busy(1) _ user_string_name, of name_memory sample_dev "''a''" "[]"]
  by (simp add: fds_ok_busy sample_dev_def)

theorem open_close_roundtrip_witness:
  "\<exists>k1 k2. open_file sample_dev True 0x8000 (busy name_memory) = Inr (2, k1) \<and>
    get_fd 2 (busy name_memory) = Inr None \<and> get_fd 2 k1 = Inr (Some \<lparr>fd = 2, my_file = ''a''\<rparr>) \<and>
    (\<forall>n. n \<noteq> 2 \<longrightarrow> get_fd n k1 = get_fd n (busy name_memory)) \<and>
    close sample_api 2 k1 = Inr k2 \<and> (\<forall>n. get_fd n k2 = get_fd n (busy name_memory)) \<and> fs k2 = [''a'']"
  using open_close_roundtrip [OF u_sched_inv_busy _ fds_ok_busy(1) _ user_string_name,
      of name_memory sample_dev "''a''" "[]" sample_api]
  by (simp add: fds_ok_busy sample_dev_def sample_api_def)

theorem descriptors_unique_witness:
  "\<exists>th'. pages (opened ''a'' [] (busy name_memory)) 0x4000 = Some th' \<and> distinct (map fd (fd_list th')) \<and>
    (\<forall>e \<in> set (fd_list th'). 2 \<le> fd e)"
proof -
  have "(file_call sample_api sample_dev ^^ 1) (busy name_memory) (opened ''a'' [] (busy name_memory))"
    unfolding relpowp_1 by (rule call_open [OF open_busy])
  from descriptors_unique [OF this, of "busy_thread name_memory"] show ?thesis
    by (auto simp: fds_ok_busy)
qed

end
