(* ===== verification/Syscall_Safety.thy ===== *)
theory Syscall_Safety
  imports File_Descriptors
begin

section \<open>What a user program can do to the kernel\<close>

text \<open>
  The system call handler on every kind of stack pointer, and the calls whose arguments it does not
  check enough.
\<close>

subsection \<open>Entering the kernel\<close>

text \<open>
  \<open>in_user k th m\<close>: the process of thread \<open>th\<close> runs in its own address space \<open>m\<close>.
\<close>

definition in_user :: "('f, 'fs) kernel \<Rightarrow> 'f thread \<Rightarrow> umem \<Rightarrow> bool" where
  "in_user k th m \<longleftrightarrow> u_sched_inv k \<and> pages k (running k) = Some th \<and> pagedir th = Some m \<and>
     active_pagedir k = Some m"

definition valid_ptr :: "('f, 'fs) dev \<Rightarrow> umem \<Rightarrow> 32 word \<Rightarrow> bool" where
  "valid_ptr dev m p \<longleftrightarrow> is_user_vaddr (machine dev) p \<and> m p \<noteq> None"

definition mapped :: "umem \<Rightarrow> 32 word \<Rightarrow> nat \<Rightarrow> bool" where
  "mapped m a n \<longleftrightarrow> (\<forall>i<n. m (a + of_nat i) \<noteq> None)"

definition bytes_at :: "umem \<Rightarrow> 32 word \<Rightarrow> nat \<Rightarrow> 8 word list" where
  "bytes_at m a n = map (\<lambda>i. the (m (a + of_nat i))) [0..<n]"

lemma in_user_thread_at: "in_user k th m \<Longrightarrow> thread_at k (running k) = Inr th"
  using u_sched_invD(1) [of k] by (auto simp: in_user_def thread_at_Inr u_threads_ok_def)

lemma in_user_memory: "in_user k th m \<Longrightarrow> user_memory k = m"
  by (simp add: in_user_def user_memory_def)

lemma checked_eq:
  assumes "in_user k th m"
  shows "checked api dev p k rest =
    (if valid_ptr dev m p then rest else bnd (exit api (- 1) k) (\<lambda>k'. Inr (Ended k')))"
proof -
  have "thread_current k = Inr (running k)" "pagedir th = Some m"
    using assms u_thread_current_eq [of k] by (simp_all add: in_user_def)
  moreover have "bnd (bnd (exit api (- 1) k) (\<lambda>k'. Inr (Some k')))
      (\<lambda>r. case r of None \<Rightarrow> rest | Some k' \<Rightarrow> Inr (Ended k')) = bnd (exit api (- 1) k) (\<lambda>k'. Inr (Ended k'))"
    by (cases "exit api (- 1) k") simp_all
  ultimately show ?thesis
    using in_user_thread_at [OF assms]
    by (cases "m p") (simp_all add: checked_def check_valid_ptr_def valid_ptr_def)
qed

lemma mapped_Suc: "mapped m a (Suc n) \<longleftrightarrow> m a \<noteq> None \<and> mapped m (a + 1) n"
  unfolding mapped_def by (subst All_less_Suc2) (simp add: add.assoc)

lemma bytes_at_Suc: "bytes_at m a (Suc n) = the (m a) # bytes_at m (a + 1) n"
  by (simp add: bytes_at_def upt_conv_Cons map_Suc_upt [symmetric] add.assoc del: upt_Suc)

lemma load_bytes_eq:
  "load_bytes n m a = (if mapped m a n then Inr (bytes_at m a n) else Inl Bad_pointer)"
proof (induction n arbitrary: a)
  case 0
  then show ?case by (simp add: mapped_def bytes_at_def)
next
  case (Suc n)
  then show ?case by (auto simp: mapped_Suc bytes_at_Suc split: option.splits)
qed

lemma store_bytes_unmapped:
  "\<not> mapped m a (length bs) \<Longrightarrow> store_bytes a bs m = Inl Bad_pointer"
proof (induction bs arbitrary: a m)
  case (Cons b bs)
  have *: "mapped (m(a \<mapsto> b)) x n = mapped m x n" if "m a \<noteq> None" for x n
    using that by (auto simp: mapped_def)
  show ?case
  proof (cases "m a")
    case (Some y)
    then have "\<not> mapped (m(a \<mapsto> b)) (a + 1) (length bs)"
      using Cons.prems * by (simp add: mapped_Suc)
    from Cons.IH [OF this] Some show ?thesis by (simp add: fun_upd_def)
  qed simp
qed (simp add: mapped_def)

text \<open>\<open>enters\<close>: the stack pointer and the first argument pass the check; the call has number \<open>n\<close>.\<close>

definition enters :: "('f, 'fs) dev \<Rightarrow> umem \<Rightarrow> intr_frame \<Rightarrow> int \<Rightarrow> bool" where
  "enters dev m f n \<longleftrightarrow> valid_ptr dev m (esp f) \<and> valid_ptr dev m (esp f + 4) \<and>
     (\<exists>w. load32 m (esp f) = Inr w \<and> sint w = n)"

definition arg :: "umem \<Rightarrow> intr_frame \<Rightarrow> nat \<Rightarrow> int \<Rightarrow> bool" where
  "arg m f i v \<longleftrightarrow> (\<exists>w. load32 m (esp f + 4 + 4 * of_nat i) = Inr w \<and> sint w = v)"

definition numbers_ok :: "('f, 'fs) dev \<Rightarrow> bool" where
  "numbers_ok dev \<longleftrightarrow> distinct [SYS_EXIT dev, SYS_EXEC dev, SYS_WAIT dev, SYS_CREATE dev, SYS_REMOVE dev,
     SYS_OPEN dev, SYS_FILESIZE dev, SYS_READ dev, SYS_WRITE dev, SYS_CLOSE dev]"

definition known_number :: "('f, 'fs) dev \<Rightarrow> int \<Rightarrow> bool" where
  "known_number dev n \<longleftrightarrow> n \<in> {SYS_EXIT dev, SYS_EXEC dev, SYS_WAIT dev, SYS_CREATE dev, SYS_REMOVE dev,
     SYS_OPEN dev, SYS_FILESIZE dev, SYS_READ dev, SYS_WRITE dev, SYS_CLOSE dev}"

lemma load_int_eq:
  assumes "in_user k th m"
  shows "load_int a k = bnd (load32 m a) (\<lambda>w. Inr (sint w))"
  using in_user_memory [OF assms] by (simp add: load_int_def)

lemma arg_loads:
  assumes "in_user k th m"
  shows "arg m f 0 v0 \<Longrightarrow> load_int (esp f + 4) k = Inr v0"
    and "arg m f 1 v1 \<Longrightarrow> load_int (esp f + 4 + 4) k = Inr v1"
    and "arg m f 2 v2 \<Longrightarrow> load_int (esp f + 4 + 8) k = Inr v2"
  by (auto simp: arg_def load_int_eq [OF assms])

lemma syscall_enters:
  assumes "in_user k th m" "numbers_ok dev" "enters dev m f n"
  shows "n = SYS_WAIT dev \<Longrightarrow> syscall_handler api dev env f k = handle_wait api f (esp f + 4) k"
    and "n = SYS_FILESIZE dev \<Longrightarrow> syscall_handler api dev env f k = handle_filesize dev f (esp f + 4) k"
    and "n = SYS_READ dev \<Longrightarrow> syscall_handler api dev env f k = handle_read api dev f (esp f + 4) k"
    and "n = SYS_WRITE dev \<Longrightarrow> syscall_handler api dev env f k = handle_write api dev f (esp f + 4) k"
    and "n = SYS_CLOSE dev \<Longrightarrow> syscall_handler api dev env f k = handle_close f (esp f + 4) k"
    and "\<not> known_number dev n \<Longrightarrow>
      syscall_handler api dev env f k = bnd (exit api (- 1) k) (\<lambda>k'. Inr (Ended k'))"
  using assms(2,3)
  by (auto simp: syscall_handler_def checked_eq [OF assms(1)] load_int_eq [OF assms(1)] enters_def
      numbers_ok_def known_number_def)

subsection \<open>Killing a process\<close>

lemma exit_orphan:
  assumes "in_user k th m" and "parent th \<noteq> 0" and "pages k (parent th) = None"
  shows "exit api st k = Inl Bad_pointer"
proof -
  have "thread_current k = Inr (running k)" using assms(1) u_thread_current_eq [of k] by (simp add: in_user_def)
  then show ?thesis
    using in_user_thread_at [OF assms(1)] assms(2,3)
    by (simp add: exit_def Let_def find_child_def thread_at_def)
qed

lemma bad_call_exits:
  assumes "numbers_ok dev" and "in_user k th m"
    and "\<not> valid_ptr dev m (esp f) \<or>
         (\<exists>n. load32 m (esp f) = Inr n \<and> (\<not> valid_ptr dev m (esp f + 4) \<or> \<not> known_number dev (sint n)))"
  shows "syscall_handler api dev env f k = bnd (exit api (- 1) k) (\<lambda>k'. Inr (Ended k'))"
proof (cases "valid_ptr dev m (esp f) \<and> valid_ptr dev m (esp f + 4)")
  case True
  then obtain n where n: "enters dev m f n" "\<not> known_number dev n"
    using assms(3) by (auto simp: enters_def)
  then show ?thesis by (rule syscall_enters(6) [OF assms(2,1)])
next
  case False
  then show ?thesis
    using assms(3)
    by (auto simp: syscall_handler_def checked_eq [OF assms(2)] load_int_eq [OF assms(2)])
qed

text \<open>
  C27: A bad system call ends the process and nothing else, unless its parent is gone. When \<^verbatim>\<open>esp\<close> or
  the address of the first argument is not a mapped user address, or the number is not that of a
  system call, the handler runs \<^verbatim>\<open>exit(-1)\<close>. If the parent is alive, and awake or the only thread
  asleep on the process, then no assertion fails, the scheduler's invariant holds afterwards, the
  process's files are closed, the parent's record of it says killed with status -1, its page is given
  back, and all other threads, the rest of the parent, the lists and the counters are as they were
  (\<open>only_ends\<close>). If the parent has ended and its page is free, the same call faults in the kernel:
  \<^verbatim>\<open>exit\<close> writes the status through the pointer to the parent, which nothing ever clears.
\<close>
theorem bad_call_kills_process:
  assumes "sema_ok api" and "numbers_ok dev" and "in_user k th m" and "\<not> in_interrupt k"
    and "running k \<noteq> idle_thread k" and "running k \<noteq> initial_thread k"
    and "\<not> valid_ptr dev m (esp f) \<or>
         (\<exists>n. load32 m (esp f) = Inr n \<and> (\<not> valid_ptr dev m (esp f + 4) \<or> \<not> known_number dev (sint n)))"
  shows "(child_of k p th e \<and> may_exit k p th \<longrightarrow>
      (\<exists>k' e'. syscall_handler api dev env f k = Inr (Ended k') \<and> u_sched_inv k' \<and>
        only_ends p th (- 1) k k' \<and> fs k' = exit_fs api th (fs k) \<and>
        map_option (\<lambda>thp. get_child_element (tid th) (child_list thp)) (pages k' p) = Some (Some e') \<and>
        exit_status e' = - 1 \<and> cur_status e' = KILLED)) \<and>
    (parent th \<noteq> 0 \<and> pages k (parent th) = None \<longrightarrow>
      syscall_handler api dev env f k = Inl Bad_pointer)"
proof (intro conjI impI; (elim conjE)?)
  assume c: "child_of k p th e" and w: "may_exit k p th"
  have i: "u_sched_inv k" using assms(3) by (simp add: in_user_def)
  obtain k' where k': "exit api (- 1) k = Inr k'" "u_sched_inv k'" "only_ends p th (- 1) k k'"
    "fs k' = exit_fs api th (fs k)"
    using exit_only_ends [OF assms(1) i assms(4-6) c w, of "- 1"] by blast
  obtain thp where "pages k' p = Some thp"
    "get_child_element (tid th) (child_list thp) = Some (exited_with (- 1) e)"
    using only_ends_entry [OF k'(3) c] by blast
  then show "\<exists>k' e'. syscall_handler api dev env f k = Inr (Ended k') \<and> u_sched_inv k' \<and>
        only_ends p th (- 1) k k' \<and> fs k' = exit_fs api th (fs k) \<and>
        map_option (\<lambda>thp. get_child_element (tid th) (child_list thp)) (pages k' p) = Some (Some e') \<and>
        exit_status e' = - 1 \<and> cur_status e' = KILLED"
    using k' bad_call_exits [OF assms(2,3,7), of api env]
    by (intro exI [of _ k'] exI [of _ "exited_with (- 1) e"]) (simp add: exited_with_def)
next
  assume "parent th \<noteq> 0" and "pages k (parent th) = None"
  then show "syscall_handler api dev env f k = Inl Bad_pointer"
    using bad_call_exits [OF assms(2,3,7), of api env] exit_orphan [OF assms(3), of api "- 1"] by simp
qed

text \<open>
  The check of a buffer is one byte too strict. \<^verbatim>\<open>handle_write\<close> checks the address behind the
  last byte; a process whose buffer lies completely in its own memory but ends where its memory
  ends is killed instead of served.
\<close>
theorem write_to_end_of_memory_kills:
  assumes "sema_ok api" and "numbers_ok dev" and "in_user k th m" and "\<not> in_interrupt k"
    and "running k \<noteq> idle_thread k" and "running k \<noteq> initial_thread k" and "child_of k p th e"
    and "sema_waiters (wait_exit th) = []"
    and "enters dev m f (SYS_WRITE dev)" and "arg m f 0 n" and "arg m f 1 (sint buf)" and "arg m f 2 (int sz)"
    and "0 < sz" and "mapped m buf sz" and "\<not> valid_ptr dev m (buf + of_nat sz)"
  shows "\<exists>k'. syscall_handler api dev env f k = Inr (Ended k') \<and> pages k' (running k) = None \<and>
    map_option (\<lambda>thp. map_option exit_status (get_child_element (tid th) (child_list thp))) (pages k' p) =
      Some (Some (- 1))"
proof -
  obtain k' where k': "exit api (- 1) k = Inr k'" "pages k' (running k) = None"
    "map_option (\<lambda>thp. get_child_element (tid th) (child_list thp)) (pages k' p) = Some (Some (exited_with (- 1) e))"
    using exit_ends_process [OF assms(1) _ assms(4-8), of "- 1"] assms(3) unfolding in_user_def by blast
  have "syscall_handler api dev env f k = Inr (Ended k')"
    using syscall_enters(4) [OF assms(3,2,9)] arg_loads [OF assms(3)] assms(10-12,15) k'(1)
    by (simp add: handle_write_def checked_eq [OF assms(3)])
  then show ?thesis using k'(2,3) by (auto simp: exited_with_def)
qed

subsection \<open>Serving a write\<close>

text \<open>
  A write that passes the checks and whose buffer is mapped is served faithfully: to the
  console go exactly the bytes of the buffer, to an open file exactly as many as the file accepts;
  the caller gets the number of bytes, its memory and all threads are as before.
\<close>
theorem write_serves_buffer:
  assumes "numbers_ok dev" and "in_user k th m" and "enters dev m f (SYS_WRITE dev)"
    and "arg m f 0 n" and "arg m f 1 (sint buf)" and "arg m f 2 (int sz)"
    and "valid_ptr dev m buf" and "buf \<noteq> 0" and "valid_ptr dev m (buf + of_nat sz)" and "mapped m buf sz"
    and "n = 1 \<or> get_fd_element n (fd_list th) = Some e \<and> file_accepts dev (my_file e) (of_nat sz) (fs k) \<le> sz"
  shows "\<exists>f' c s'. syscall_handler api dev env f k = Inr (Returned f' (k\<lparr>fs := s'\<rparr>)) \<and>
    eax f' = of_nat c \<and> c \<le> sz \<and>
    (n = 1 \<longrightarrow> c = sz \<and> s' = putbuf dev (bytes_at m buf sz) (fs k)) \<and>
    (n \<noteq> 1 \<longrightarrow> c = file_accepts dev (my_file e) (of_nat sz) (fs k) \<and>
       s' = file_write dev (my_file e) (bytes_at m buf c) (fs k))"
proof -
  obtain w where w: "sint (w :: 32 word) = int sz" using assms(6) by (auto simp: arg_def)
  have lt: "sz < 2 ^ 31" using w sint_lt [of w] by simp
  have "w = word_of_int (sint w)" by simp
  then have "sint (word_of_nat sz :: 32 word) = int sz" using w by (metis of_int_of_nat_eq)
  moreover have "unat (word_of_nat sz :: 32 word) = sz" using lt by (simp add: unat_of_nat)
  ultimately have u: "unat (word_of_nat sz :: 32 word) = sz" "sint (word_of_nat sz :: 32 word) = int sz" by simp_all
  have h: "syscall_handler api dev env f k = bnd (write_buffer dev n buf (word_of_nat sz) k)
      (\<lambda>(v, k1). Inr (ret f v k1))"
    using syscall_enters(4) [OF assms(2,1,3)] arg_loads [OF assms(2)] assms(4-7,9)
    by (simp add: handle_write_def checked_eq [OF assms(2)])
  have sub: "mapped m buf c" if "c \<le> sz" for c using assms(10) that by (simp add: mapped_def)
  show ?thesis
  proof (cases "n = 1")
    case True
    then have "write_buffer dev n buf (word_of_nat sz) k = Inr (int sz, k\<lparr>fs := putbuf dev (bytes_at m buf sz) (fs k)\<rparr>)"
      using assms(10) u by (simp add: write_buffer_def in_user_memory [OF assms(2)] load_bytes_eq)
    then show ?thesis
      using True h by (intro exI [of _ "f\<lparr>eax := word_of_nat sz\<rparr>"] exI [of _ sz]) (auto simp: ret_def)
  next
    case False
    let ?c = "file_accepts dev (my_file e) (word_of_nat sz) (fs k)"
    have c: "?c \<le> sz" "get_fd_element n (fd_list th) = Some e" using False assms(11) by auto
    have "get_fd n k = Inr (Some e)"
      using get_fd_eq [OF _ in_user_thread_at [OF assms(2)]] u_thread_current_eq [of k] assms(2) c(2)
      by (simp add: in_user_def)
    then have "write_buffer dev n buf (word_of_nat sz) k =
        Inr (int ?c, k\<lparr>fs := file_write dev (my_file e) (bytes_at m buf ?c) (fs k)\<rparr>)"
      using False assms(8) sub [OF c(1)]
      by (simp add: write_buffer_def in_user_memory [OF assms(2)] load_bytes_eq Let_def)
    then show ?thesis
      using False h c(1) by (intro exI [of _ "f\<lparr>eax := word_of_nat ?c\<rparr>"] exI [of _ ?c]) (auto simp: ret_def)
  qed
qed

subsection \<open>Calls that are not checked enough\<close>

text \<open>
  A read can leave the process. \<^verbatim>\<open>handle_read\<close> checks the first byte of the buffer and the
  address \<open>buffer + size\<close> with a signed size. With a negative size both can be valid while the
  file, read with the same number as an unsigned size, is longer than the memory behind the buffer:
  the kernel itself then writes past the memory of the process.
\<close>
theorem read_overruns_buffer:
  assumes "numbers_ok dev" and "in_user k th m" and "enters dev m f (SYS_READ dev)"
    and "arg m f 0 n" and "arg m f 1 (sint buf)" and "arg m f 2 (sint sz)" and "0 < n" and "buf \<noteq> 0"
    and "valid_ptr dev m buf" and "valid_ptr dev m (buf + sz)"
    and "get_fd_element n (fd_list th) = Some e"
    and "\<not> mapped m buf (length (fst (file_read dev (my_file e) sz (fs k))))"
  shows "syscall_handler api dev env f k = Inl Bad_pointer"
proof -
  have h: "syscall_handler api dev env f k = bnd (read dev n buf sz k) (\<lambda>(v, k1). Inr (ret f v k1))"
    using syscall_enters(3) [OF assms(2,1,3)] arg_loads [OF assms(2)] assms(4-6,9,10)
    by (simp add: handle_read_def checked_eq [OF assms(2)])
  have "get_fd n k = Inr (Some e)"
    using get_fd_eq [OF _ in_user_thread_at [OF assms(2)]] u_thread_current_eq [of k] assms(2,11)
    by (simp add: in_user_def)
  moreover have "user_memory (k\<lparr>fs := s\<rparr>) = m" for s
    using in_user_memory [OF assms(2)] by (simp add: user_memory_def)
  ultimately have "read dev n buf sz k = Inl Bad_pointer"
    using assms(7,8,12) by (simp add: read_def store_user_def Let_def split_beta store_bytes_unmapped)
  then show ?thesis by (simp add: h)
qed

text \<open>
  Two calls dereference what they did not find. \<^verbatim>\<open>wait\<close> for a thread that is no child of the
  caller and \<^verbatim>\<open>filesize\<close> of a descriptor that is not open follow a null pointer in the kernel,
  although the comment above \<^verbatim>\<open>process_wait\<close> promises -1.
\<close>
theorem unknown_child_or_file_faults:
  assumes "numbers_ok dev" and "in_user k th m" and "arg m f 0 n"
    and "enters dev m f (SYS_WAIT dev) \<and> get_child_element n (child_list th) = None \<or>
         enters dev m f (SYS_FILESIZE dev) \<and> get_fd_element n (fd_list th) = None"
  shows "syscall_handler api dev env f k = Inl Null_deref"
proof -
  have cur: "thread_current k = Inr (running k)" using assms(2) u_thread_current_eq by (auto simp: in_user_def)
  note at = in_user_thread_at [OF assms(2)] and arg = arg_loads(1) [OF assms(2,3)]
  from assms(4) show ?thesis
  proof
    assume "enters dev m f (SYS_WAIT dev) \<and> get_child_element n (child_list th) = None"
    then show ?thesis
      using syscall_enters(1) [OF assms(2,1)] arg cur at
      by (simp add: handle_wait_def wait_def process_wait_def find_child_def)
  next
    assume "enters dev m f (SYS_FILESIZE dev) \<and> get_fd_element n (fd_list th) = None"
    then show ?thesis
      using syscall_enters(2) [OF assms(2,1)] arg cur at
      by (simp add: handle_filesize_def filesize_def get_fd_def)
  qed
qed

text \<open>
  \<^verbatim>\<open>SYS_CLOSE\<close> closes nothing. The handler returns with the frame and the kernel unchanged, so
  the descriptor still names its file, where a call of \<^verbatim>\<open>close\<close> would have removed it.
\<close>
theorem sys_close_keeps_file_open:
  assumes "numbers_ok dev" and "in_user k th m" and "fds_ok th" and "enters dev m f (SYS_CLOSE dev)"
    and "arg m f 0 n" and "get_fd_element n (fd_list th) = Some e"
  shows "syscall_handler api dev env f k = Inr (Returned f k) \<and> get_fd n k = Inr (Some e) \<and>
    (\<exists>k'. close api n k = Inr k' \<and> get_fd n k' = Inr None)"
proof -
  let ?k1 = "upd_thread (running k) (\<lambda>th. th\<lparr>fd_list := remove_fd n (fd_list th)\<rparr>) k"
  have inv: "u_sched_inv k" using assms(2) by (simp add: in_user_def)
  note cur = u_thread_current_eq [OF inv] and at = in_user_thread_at [OF assms(2)]
  have "u_sched_inv (?k1\<lparr>fs := s\<rparr>)" for s using inv by (auto intro!: u_sched_inv_upd_thread)
  then have c1: "thread_current (?k1\<lparr>fs := s\<rparr>) = Inr (running k)" for s
    using u_thread_current_eq [of "?k1\<lparr>fs := s\<rparr>"] by simp
  have a1: "thread_at (?k1\<lparr>fs := s\<rparr>) (running k) = Inr (th\<lparr>fd_list := remove_fd n (fd_list th)\<rparr>)" for s
    using at by (simp add: thread_at_Inr)
  have "get_fd_element n (remove_fd n (fd_list th)) = None"
    using assms(3) by (simp add: get_fd_element_remove fds_ok_def)
  then have "close api n k = Inr (?k1\<lparr>fs := api_file_close api (Some (my_file e)) (fs k)\<rparr>)"
    "get_fd n (?k1\<lparr>fs := api_file_close api (Some (my_file e)) (fs k)\<rparr>) = Inr None"
    using cur at c1 a1 assms(6) by (simp_all add: close_def get_fd_def Let_def)
  moreover have "syscall_handler api dev env f k = Inr (Returned f k)"
    using syscall_enters(5) [OF assms(2,1,4)] arg_loads(1) [OF assms(2,5)] by (simp add: handle_close_def)
  moreover have "get_fd n k = Inr (Some e)" using get_fd_eq [OF cur at] assms(6) by simp
  ultimately show ?thesis by blast
qed

subsection \<open>Sample calls\<close>

text \<open>
  The child of the sample family with the four words of a call at 0x8000 as its whole memory and
  one open file.
\<close>

definition call_memory :: "32 word \<Rightarrow> 32 word \<Rightarrow> 32 word \<Rightarrow> 32 word \<Rightarrow> umem" where
  "call_memory n a0 a1 a2 =
     page_bytes 0x8000 (bytes32 n @ bytes32 a0 @ bytes32 a1 @ bytes32 a2) (\<lambda>_. None)"

definition calling :: "umem \<Rightarrow> (string, string list) kernel" where
  "calling m = upd_thread 0x4000 (\<lambda>th. th\<lparr>fd_list := [\<lparr>fd = 2, my_file = ''hello world''\<rparr>], fd_size := 2\<rparr>) (busy m)"

definition call_frame :: intr_frame where
  "call_frame = \<lparr>esp = 0x8000, eax = 0, cs = 0x1b, vec_no = 0x30, error_code = 0\<rparr>"

definition calling_thread :: "umem \<Rightarrow> string thread" where
  "calling_thread m = (busy_thread m)\<lparr>fd_list := [\<lparr>fd = 2, my_file = ''hello world''\<rparr>], fd_size := 2\<rparr>"

lemma in_user_calling: "in_user (calling m) (calling_thread m) m"
proof -
  have "u_sched_inv (calling m)"
    unfolding calling_def by (rule u_sched_inv_upd_thread [OF u_sched_inv_busy]) simp_all
  moreover have "pages (calling m) (running (calling m)) = Some (calling_thread m)"
    by (simp add: calling_def calling_thread_def)
  moreover have "active_pagedir (calling m) = Some m"
    by (simp add: calling_def busy_def with_memory_def)
  ultimately show ?thesis by (simp add: in_user_def calling_thread_def busy_thread_def)
qed

lemma sample_dev_fields [simp]:
  "SYS_EXIT sample_dev = 1" "SYS_EXEC sample_dev = 2" "SYS_WAIT sample_dev = 3" "SYS_FILESIZE sample_dev = 7"
  "SYS_READ sample_dev = 8" "SYS_WRITE sample_dev = 9" "SYS_CLOSE sample_dev = 12"
  "file_read sample_dev f n s = (take (unat n) (map of_char f), s)" "file_accepts sample_dev f n s = unat n"
  by (simp_all add: sample_dev_def)

lemma numbers_ok_sample: "numbers_ok sample_dev"
  by (simp add: numbers_ok_def sample_dev_def)

lemma call_memory_domain: "call_memory n a0 a1 a2 x \<noteq> None \<longleftrightarrow> unat (x - 0x8000) < 16"
  by (simp add: call_memory_def page_bytes_def bytes32_def)

lemma call_memory_word:
  "i < 16 \<Longrightarrow> call_memory n a0 a1 a2 (0x8000 + of_nat i) =
     Some ((bytes32 n @ bytes32 a0 @ bytes32 a1 @ bytes32 a2) ! i)"
  by (simp add: call_memory_def page_bytes_def bytes32_def unat_of_nat)

lemma call_memory_loads:
  "load32 (call_memory n a0 a1 a2) 0x8000 = Inr n" "load32 (call_memory n a0 a1 a2) 0x8004 = Inr a0"
  "load32 (call_memory n a0 a1 a2) 0x8008 = Inr a1" "load32 (call_memory n a0 a1 a2) 0x800C = Inr a2"
proof -
  note w = call_memory_word [of _ n a0 a1 a2]
  have "at (call_memory n a0 a1 a2) 0x8000 (bytes32 n)" "at (call_memory n a0 a1 a2) 0x8004 (bytes32 a0)"
    "at (call_memory n a0 a1 a2) 0x8008 (bytes32 a1)" "at (call_memory n a0 a1 a2) 0x800C (bytes32 a2)"
    using w [of 0] w [of 1] w [of 2] w [of 3] w [of 4] w [of 5] w [of 6] w [of 7] w [of 8] w [of 9]
      w [of 10] w [of 11] w [of 12] w [of 13] w [of 14] w [of 15]
    by (simp_all add: bytes32_def)
  then show "load32 (call_memory n a0 a1 a2) 0x8000 = Inr n" "load32 (call_memory n a0 a1 a2) 0x8004 = Inr a0"
    "load32 (call_memory n a0 a1 a2) 0x8008 = Inr a1" "load32 (call_memory n a0 a1 a2) 0x800C = Inr a2"
    by (simp_all add: load32_bytes32)
qed

lemma call_valid:
  "valid_ptr sample_dev (call_memory n a0 a1 a2) x \<longleftrightarrow> x < 0xC0000000 \<and> unat (x - 0x8000) < 16"
  using call_memory_domain [of n a0 a1 a2 x]
  by (simp add: valid_ptr_def is_user_vaddr_def sample_dev_def sample_machine_def)

lemma call_enters:
  "sint n = v \<Longrightarrow> enters sample_dev (call_memory n a0 a1 a2) call_frame v"
  by (auto simp: enters_def call_valid call_memory_loads call_frame_def)

lemma call_args:
  "arg (call_memory n a0 a1 a2) call_frame 0 (sint a0)"
  "arg (call_memory n a0 a1 a2) call_frame 1 (sint a1)"
  "arg (call_memory n a0 a1 a2) call_frame 2 (sint a2)"
  by (simp_all add: arg_def call_frame_def call_memory_loads)

lemma calling_fields [simp]:
  "running (calling m) = 0x4000" "idle_thread (calling m) = 0x2000" "initial_thread (calling m) = 0x1000"
  "in_interrupt (calling m) = False" "fs (calling m) = []"
  "sema_waiters (wait_exit (calling_thread m)) = []" "tid (calling_thread m) = 4"
  "fd_list (calling_thread m) = [\<lparr>fd = 2, my_file = ''hello world''\<rparr>]" "child_list (calling_thread m) = []"
  by (simp_all add: calling_def calling_thread_def busy_thread_def)
    (simp add: family_child_def sample_thread_def)

lemma child_of_calling: "child_of (calling m) 0x3000 (calling_thread m) (new_child 0x4000 4)"
  by (simp add: child_of_def calling_def calling_thread_def)
    (simp add: busy_def with_memory_def busy_thread_def upd_thread_def,
      simp add: family_def family_child_def sample_thread_def)

lemma mapped_call_memory: "sz \<le> 16 \<Longrightarrow> mapped (call_memory n a0 a1 a2) 0x8000 sz"
  using call_memory_word [of _ n a0 a1 a2] by (simp add: mapped_def)

definition sample_env :: call_env where
  "sample_env = \<lparr>call_exec = \<lparr>env_name_ok = True, env_fn_page = 0x6000, env_thread_page = 0x5000,
     env_child_ok = True\<rparr>, call_fd_ok = True\<rparr>"

lemma may_exit_calling: "may_exit (calling m) 0x3000 (calling_thread m)"
  by (simp add: may_exit_def)

text \<open>The same process when its parent is gone.\<close>

definition orphaned :: "umem \<Rightarrow> (string, string list) kernel" where
  "orphaned m = (calling m)\<lparr>pages := (pages (calling m))(0x3000 := None),
     ready_list := [], all_list := [0x1000, 0x2000, 0x4000]\<rparr>"

lemma in_user_orphaned: "in_user (orphaned m) (calling_thread m) m"
proof -
  have i: "u_sched_inv (calling m)" "pages (calling m) 0x4000 = Some (calling_thread m)"
    "active_pagedir (calling m) = Some m" "pagedir (calling_thread m) = Some m"
    using in_user_calling [of m] by (simp_all add: in_user_def)
  have st: "status_of (orphaned m) t = (if t = 0x3000 then None else status_of (calling m) t)" for t
    by (simp add: status_of_def orphaned_def)
  have l: "ready_list (calling m) = [0x3000]" "all_list (calling m) = [0x1000, 0x2000, 0x3000, 0x4000]"
    by (simp_all add: calling_def) (simp_all add: busy_def with_memory_def upd_thread_def)
  have sc: "status_of (calling m) 0x2000 = Some THREAD_BLOCKED" "status_of (calling m) 0x1000 = Some THREAD_BLOCKED"
    by (simp_all add: calling_def status_of_def)
      (simp_all add: busy_def with_memory_def upd_thread_def, simp_all add: family_def sample_thread_def)
  note f = u_sched_inv_sets [OF i(1), unfolded l]
  have "u_threads_ok (orphaned m)"
    using u_sched_invD(1) [OF i(1)] by (simp add: u_threads_ok_def orphaned_def)
  moreover have "u_queue_ok (orphaned m)"
    unfolding u_queue_ok_def st using f(3) by (simp add: orphaned_def)
  moreover have "u_all_ok (orphaned m)"
    unfolding u_all_ok_def st using f(4) by (simp add: orphaned_def) metis
  moreover have "u_idle_ok (orphaned m)"
    unfolding u_idle_ok_def st by (simp add: orphaned_def sc)
  moreover have "u_cpu_ok (orphaned m)"
    unfolding u_cpu_ok_def st using f(5,6) by (simp add: orphaned_def)
  ultimately have "u_sched_inv (orphaned m)" by (simp add: u_sched_inv_def)
  then show ?thesis using i by (simp add: in_user_def orphaned_def)
qed

theorem bad_call_kills_process_witness:
  "(\<exists>k' e'. syscall_handler sample_api sample_dev sample_env (call_frame\<lparr>esp := 0\<rparr>)
      (calling (call_memory 9 1 0 0)) = Inr (Ended k') \<and> u_sched_inv k' \<and>
    only_ends 0x3000 (calling_thread (call_memory 9 1 0 0)) (- 1) (calling (call_memory 9 1 0 0)) k' \<and>
    map_option (\<lambda>thp. get_child_element 4 (child_list thp)) (pages k' 0x3000) = Some (Some e') \<and>
    exit_status e' = - 1 \<and> cur_status e' = KILLED) \<and>
   syscall_handler sample_api sample_dev sample_env (call_frame\<lparr>esp := 0\<rparr>)
      (orphaned (call_memory 9 1 0 0)) = Inl Bad_pointer"
proof -
  have p: "\<not> valid_ptr sample_dev (call_memory 9 1 0 0) (esp (call_frame\<lparr>esp := 0\<rparr>))" by (simp add: call_valid)
  have o: "in_interrupt (orphaned m) = False" "running (orphaned m) = 0x4000" "idle_thread (orphaned m) = 0x2000"
    "initial_thread (orphaned m) = 0x1000" "pages (orphaned m) 0x3000 = None" for m
    by (simp_all add: orphaned_def)
  have "parent (calling_thread m) = 0x3000" for m
    using child_of_calling [of m] by (simp add: child_of_def)
  then show ?thesis
    using bad_call_kills_process [OF sema_ok_sample numbers_ok_sample in_user_calling _ _ _ disjI1 [OF p],
        of "0x3000" "new_child 0x4000 4" sample_env]
      bad_call_kills_process [OF sema_ok_sample numbers_ok_sample in_user_orphaned _ _ _ disjI1 [OF p],
        of "0x3000" "new_child 0x4000 4" sample_env]
      child_of_calling [of "call_memory 9 1 0 0"] may_exit_calling [of "call_memory 9 1 0 0"]
    by (simp add: o) blast
qed

theorem write_to_end_of_memory_kills_witness:
  "\<exists>k'. syscall_handler sample_api sample_dev sample_env call_frame
      (calling (call_memory 9 1 0x8000 16)) = Inr (Ended k') \<and> pages k' 0x4000 = None"
  using write_to_end_of_memory_kills [OF sema_ok_sample numbers_ok_sample in_user_calling _ _ _ child_of_calling,
      of "call_memory 9 1 0x8000 16" call_frame 1 "0x8000" 16 sample_env]
    call_enters [of 9 9 1 "0x8000" 16] call_args [of 9 1 "0x8000" 16]
  by (auto simp: call_valid mapped_call_memory)

theorem write_serves_buffer_witness:
  "\<exists>f' c s'. syscall_handler sample_api sample_dev sample_env call_frame
      (calling (call_memory 9 2 0x8000 15)) = Inr (Returned f' ((calling (call_memory 9 2 0x8000 15))\<lparr>fs := s'\<rparr>)) \<and>
    eax f' = 15"
proof -
  have e: "get_fd_element 2 (fd_list (calling_thread m)) = Some \<lparr>fd = 2, my_file = ''hello world''\<rparr>" for m
    by simp
  show ?thesis
    using write_serves_buffer [OF numbers_ok_sample in_user_calling, of "call_memory 9 2 0x8000 15" call_frame
        2 "0x8000" 15 "\<lparr>fd = 2, my_file = ''hello world''\<rparr>" sample_api sample_env]
      call_enters [of 9 9 2 "0x8000" 15] call_args [of 9 2 "0x8000" 15]
    by (auto simp: call_valid mapped_call_memory e)
qed

theorem read_overruns_buffer_witness:
  "syscall_handler sample_api sample_dev sample_env call_frame
     (calling (call_memory 8 2 0x800F 0xFFFFFFFF)) = Inl Bad_pointer"
proof -
  let ?m = "call_memory 8 2 0x800F 0xFFFFFFFF"
  have "?m (0x800F + word_of_nat 1) = None"
    using call_memory_domain [of 8 2 "0x800F" "0xFFFFFFFF" "0x8010"] by simp
  then have "\<not> mapped ?m 0x800F (Suc (Suc i))" for i by (auto simp: mapped_def intro!: exI [of _ 1])
  then show ?thesis
    using read_overruns_buffer [OF numbers_ok_sample in_user_calling, of ?m call_frame 2 "0x800F" "0xFFFFFFFF"
        "\<lparr>fd = 2, my_file = ''hello world''\<rparr>" sample_api sample_env]
      call_enters [of 8 8 2 "0x800F" "0xFFFFFFFF"] call_args [of 8 2 "0x800F" "0xFFFFFFFF"]
    by (simp add: call_valid)
qed

theorem unknown_child_or_file_faults_witness:
  "syscall_handler sample_api sample_dev sample_env call_frame (calling (call_memory 3 77 0 0)) = Inl Null_deref"
  using unknown_child_or_file_faults [OF numbers_ok_sample in_user_calling, of "call_memory 3 77 0 0" call_frame 77]
    call_enters [of 3 3 77 0 0] call_args(1) [of 3 77 0 0]
  by simp

theorem sys_close_keeps_file_open_witness:
  "syscall_handler sample_api sample_dev sample_env call_frame (calling (call_memory 12 2 0 0)) =
     Inr (Returned call_frame (calling (call_memory 12 2 0 0))) \<and>
   get_fd 2 (calling (call_memory 12 2 0 0)) = Inr (Some \<lparr>fd = 2, my_file = ''hello world''\<rparr>)"
  using sys_close_keeps_file_open [OF numbers_ok_sample in_user_calling, of "call_memory 12 2 0 0" call_frame 2
      "\<lparr>fd = 2, my_file = ''hello world''\<rparr>" sample_api sample_env]
    call_enters [of 12 12 2 0 0] call_args(1) [of 12 2 0 0]
  by (simp add: fds_ok_def) (simp add: calling_thread_def)

end
