(* ===== verification/Process_Creation.thy ===== *)
theory Process_Creation
  imports Process_Protocol
begin

section \<open>Creating a process\<close>

text \<open>
  What \<^verbatim>\<open>thread_create\<close> leaves behind: a ready thread that the scheduler and the parent know of.
\<close>

lemma u_sched_inv_new_page:
  assumes "u_sched_inv k" "pages k t = None" "t \<noteq> 0" "status th = THREAD_BLOCKED" "magic th = THREAD_MAGIC"
  shows "u_sched_inv (k\<lparr>pages := (pages k)(t \<mapsto> th), all_list := all_list k @ [t]\<rparr>)"
proof -
  let ?k = "k\<lparr>pages := (pages k)(t \<mapsto> th), all_list := all_list k @ [t]\<rparr>"
  have st: "status_of ?k u = (if u = t then Some THREAD_BLOCKED else status_of k u)" for u
    using assms(4) by (simp add: status_of_def)
  have no: "status_of k t = None" using assms(2) by (simp add: u_status_of_None)
  note inv = assms(1) [unfolded u_sched_inv_def]
  have "u_threads_ok ?k" using inv assms(3,5) by (simp add: u_threads_ok_def)
  moreover have "u_queue_ok ?k"
    unfolding u_queue_ok_def st using inv no by (simp add: u_queue_ok_def)
  moreover have "u_all_ok ?k"
    unfolding u_all_ok_def st using inv no by (simp add: u_all_ok_def)
  moreover have "u_idle_ok ?k" unfolding u_idle_ok_def st using inv no by (simp add: u_idle_ok_def)
  moreover have "t \<noteq> running k" using u_sched_invD(6) [OF assms(1)] no by auto
  then have "u_cpu_ok ?k" unfolding u_cpu_ok_def st using inv no by (auto simp: u_cpu_ok_def)
  ultimately show ?thesis by (simp add: u_sched_inv_def)
qed

lemma alloc_frame_eq:
  assumes "u_sched_inv k" "pages k t = Some th" "sz mod 4 = 0"
  shows "alloc_frame t sz k = Inr (upd_thread t (\<lambda>th. th\<lparr>stack := stack th - sz\<rparr>) k)"
proof -
  have "is_thread k t"
    using u_sched_invD(1) [OF assms(1)] assms(2) by (intro u_is_threadI) (auto simp: status_of_def)
  with assms(3) show ?thesis by (simp add: alloc_frame_def)
qed

definition fresh_thread :: "string \<Rightarrow> int \<Rightarrow> tptr \<Rightarrow> 'f thread" where
  "fresh_thread name prio0 t =
     \<lparr>tid = 0, status = THREAD_BLOCKED, tname = take 15 name, stack = t + PGSIZE,
      priority = prio0, fd_list = [], fd_size = 1, exec_file = None, wait_load = empty_sema,
      child_list = [], parent = 0, wait_exit = empty_sema, pagedir = None,
      magic = THREAD_MAGIC, start_function = 0, start_aux = 0, resume_level = INTR_ON\<rparr>"

definition frames_ok :: "('f, 'fs) api \<Rightarrow> bool" where
  "frames_ok api \<longleftrightarrow> api_sizeof_switch_entry_frame api mod 4 = 0 \<and> api_sizeof_switch_threads_frame api mod 4 = 0"

lemma thread_create_makes_thread:
  fixes k :: "('f, 'fs) kernel"
  assumes "frames_ok api" and "u_sched_inv k" and "pages k page = None" and "page \<noteq> 0"
    and "PRI_MIN \<le> pr" and "pr \<le> PRI_MAX" and "fn \<noteq> 0" and "pages k (running k) = Some par"
  shows "\<exists>k' th. thread_create api page True (Some name) pr fn aux k = Inr (next_tid k, k') \<and>
    u_sched_inv k' \<and> running k' = running k \<and> ready_list k' = ready_list k @ [page] \<and>
    pages k' page = Some th \<and> tid th = next_tid k \<and> parent th = running k \<and>
    start_function th = fn \<and> start_aux th = aux \<and>
    wait_load th = empty_sema \<and> wait_exit th = empty_sema \<and> idle_thread k' = idle_thread k \<and>
    pages k' (running k) = Some (par\<lparr>child_list := child_list par @ [new_child page (next_tid k)]\<rparr>) \<and>
    (\<forall>u. u \<noteq> page \<and> u \<noteq> running k \<longrightarrow> pages k' u = pages k u)"
proof -
  let ?c = "running k"
  have ne: "page \<noteq> ?c" using assms(3,8) by auto
  let ?k1 = "k\<lparr>pages := (pages k)(page \<mapsto> fresh_thread name pr page), all_list := all_list k @ [page]\<rparr>"
  have i1: "u_sched_inv ?k1"
    by (rule u_sched_inv_new_page [OF assms(2-4)]) (simp_all add: fresh_thread_def)
  have init: "init_thread page (Some name) pr k = Inr ?k1"
    using assms(4-6) by (simp add: init_thread_def fresh_thread_def Let_def)
  let ?k3 = "upd_thread page (\<lambda>th. th\<lparr>tid := next_tid k\<rparr>) (?k1\<lparr>next_tid := i32 (next_tid k + 1)\<rparr>)"
  have nt: "u_sched_inv (x\<lparr>next_tid := n\<rparr>) = u_sched_inv x" for x :: "('f, 'fs) kernel" and n
    by (simp add: u_sched_inv_def u_inv_defs status_of_def)
  have i3: "u_sched_inv ?k3"
    by (rule u_sched_inv_upd_thread) (use i1 nt in simp_all)
  let ?k5 = "upd_thread page (\<lambda>th. th\<lparr>parent := ?c\<rparr>)
    (upd_thread ?c (\<lambda>th. th\<lparr>child_list := child_list th @ [new_child page (next_tid k)]\<rparr>) ?k3)"
  have i5: "u_sched_inv ?k5"
    by (intro u_sched_inv_upd_thread i3) simp_all
  define th5 :: "'f thread" where "th5 = (fresh_thread name pr page)\<lparr>tid := next_tid k, parent := ?c\<rparr>"
  have p5: "pages ?k5 page = Some th5" using ne by (simp add: th5_def)
  have i6: "u_sched_inv (intr_disable ?k5)" using i5 by (simp add: u_intr_disable_eq)
  have p6: "pages (intr_disable ?k5) page = Some th5" using p5 by (simp add: u_intr_disable_eq intr_set_level_def)
  let ?k6 = "upd_thread page (\<lambda>th. th\<lparr>stack := stack th - 12\<rparr>) (intr_disable ?k5)"
  have a6: "alloc_frame page 12 (intr_disable ?k5) = Inr ?k6"
    by (rule alloc_frame_eq [OF i6 p6]) simp
  let ?k7 = "upd_thread page (\<lambda>th. th\<lparr>start_function := fn, start_aux := aux\<rparr>) ?k6"
  have i7: "u_sched_inv ?k7" by (intro u_sched_inv_upd_thread i6) simp_all
  let ?k8 = "upd_thread page (\<lambda>th. th\<lparr>stack := stack th - api_sizeof_switch_entry_frame api\<rparr>) ?k7"
  have a8: "alloc_frame page (api_sizeof_switch_entry_frame api) ?k7 = Inr ?k8"
    by (rule alloc_frame_eq [OF i7]) (use p6 assms(1) in \<open>simp_all add: frames_ok_def\<close>)
  have i8: "u_sched_inv ?k8" by (intro u_sched_inv_upd_thread i7) simp_all
  let ?k9 = "upd_thread page (\<lambda>th. th\<lparr>stack := stack th - api_sizeof_switch_threads_frame api\<rparr>) ?k8"
  have a9: "alloc_frame page (api_sizeof_switch_threads_frame api) ?k8 = Inr ?k9"
    by (rule alloc_frame_eq [OF i8]) (use p6 assms(1) in \<open>simp_all add: frames_ok_def\<close>)
  let ?kx = "intr_set_level (intr ?k5) ?k9"
  have ix: "u_sched_inv ?kx"
    unfolding u_sched_inv_intr by (intro u_sched_inv_upd_thread i8) simp_all
  have px: "pages ?kx u = pages ?k9 u" for u by (simp add: intr_set_level_def)
  have bx: "status_of ?kx page = Some THREAD_BLOCKED"
    using p6 by (simp add: status_of_def px th5_def fresh_thread_def)
  let ?k' = "set_status page THREAD_READY (?kx\<lparr>ready_list := ready_list ?kx @ [page]\<rparr>)"
  have un: "thread_unblock page ?kx = Inr ?k'" using u_thread_unblock_eq [OF ix bx] .
  have cur: "thread_current ?k3 = Inr ?c" using u_thread_current_eq [OF i3] by simp
  have "thread_create api page True (Some name) pr fn aux k = Inr (next_tid k, ?k')"
    unfolding thread_create_def init allocate_tid_def
    using assms(4,7) cur a6 a8 a9 un by (simp add: Let_def)
  moreover have "page \<noteq> idle_thread k"
    using u_sched_inv_sets(7) [OF assms(2)] assms(3) by (auto simp: status_of_def)
  then have "u_sched_inv ?k'"
    by (intro u_thread_unblock_inv [OF ix bx]) (simp add: u_upd_defs)
  ultimately show ?thesis
    using ne assms(8) by (intro exI [of _ ?k'] exI [of _ "the (pages ?k' page)"])
      (simp add: u_upd_defs fresh_thread_def)
qed

text \<open>
  C29: Creating a thread. With a free page and a priority in range no assertion of
  \<^verbatim>\<open>thread_create\<close> fails and the scheduler's invariant is kept. The new thread gets the next tid,
  waits at the end of the ready list with the function and argument it is to run, and knows its
  creator as its parent; the creator runs on and has one more child, alive, not loaded and not
  waited for, under that tid; every other thread is untouched.
\<close>
theorem thread_create_links_child:
  fixes k :: "('f, 'fs) kernel"
  assumes "frames_ok api" and "u_sched_inv k" and "pages k page = None" and "page \<noteq> 0"
    and "PRI_MIN \<le> pr" and "pr \<le> PRI_MAX" and "fn \<noteq> 0" and "pages k (running k) = Some par"
  shows "\<exists>k' th. thread_create api page True (Some name) pr fn aux k = Inr (next_tid k, k') \<and>
    u_sched_inv k' \<and> running k' = running k \<and> ready_list k' = ready_list k @ [page] \<and>
    pages k' page = Some th \<and> tid th = next_tid k \<and> parent th = running k \<and>
    start_function th = fn \<and> start_aux th = aux \<and>
    pages k' (running k) = Some (par\<lparr>child_list := child_list par @ [new_child page (next_tid k)]\<rparr>) \<and>
    (\<forall>u. u \<noteq> page \<and> u \<noteq> running k \<longrightarrow> pages k' u = pages k u)"
  using thread_create_makes_thread [OF assms, of name aux] by blast

theorem thread_create_links_child_witness:
  "\<exists>k' th. thread_create sample_api 0x5000 True (Some ''ls'') 31 (0x8048000 :: 32 word) 0
       (family THREAD_READY (new_child 0x4000 4) []) = Inr (5, k') \<and>
    u_sched_inv k' \<and> running k' = 0x4000 \<and> ready_list k' = [0x3000, 0x5000] \<and>
    pages k' 0x5000 = Some th \<and> tid th = 5 \<and> parent th = 0x4000"
proof -
  have f: "frames_ok sample_api" by (simp add: frames_ok_def sample_api_def)
  let ?k = "family THREAD_READY (new_child 0x4000 4) []"
  have p: "pages ?k 0x5000 = None" "pages ?k (running ?k) = Some (family_child [])"
    by (simp_all add: family_def family_child_def sample_thread_def)
  show ?thesis
    using thread_create_links_child [OF f u_sched_inv_family p(1) _ _ _ _ p(2),
      of 31 "0x8048000" "''ls''" 0] by (auto simp: PRI_MIN_def PRI_MAX_def)
qed

end
