(* ===== verification/Kernel_Invariant.thy ===== *)
theory Kernel_Invariant
  imports Syscall_Safety Process_Creation
begin

section \<open>No system call breaks the kernel's invariant\<close>

text \<open>
  The invariant of the scheduler together with what the semaphores in thread structures need (the
  idle thread never sleeps on one), kept by every system call that comes to an end.
\<close>

definition sleepers :: "'f thread \<Rightarrow> tptr set" where
  "sleepers th = set (sema_waiters (wait_load th)) \<union> set (sema_waiters (wait_exit th))"

definition sleepers_ok :: "('f, 'fs) kernel \<Rightarrow> bool" where
  "sleepers_ok k \<longleftrightarrow> (\<forall>t th. pages k t = Some th \<longrightarrow> idle_thread k \<notin> sleepers th)"

definition kernel_inv :: "('f, 'fs) kernel \<Rightarrow> bool" where
  "kernel_inv k \<longleftrightarrow> u_sched_inv k \<and> sleepers_ok k"

text \<open>\<open>fewer_sleepers k k'\<close>: no thread of \<open>k'\<close> has sleepers that it did not have in \<open>k\<close>.\<close>

definition fewer_sleepers :: "('f, 'fs) kernel \<Rightarrow> ('f, 'fs) kernel \<Rightarrow> bool" where
  "fewer_sleepers k k' \<longleftrightarrow> idle_thread k' = idle_thread k \<and>
     (\<forall>u th'. pages k' u = Some th' \<longrightarrow> (\<exists>th. pages k u = Some th \<and> sleepers th' \<subseteq> sleepers th))"

lemma fewer_sleepersD: "fewer_sleepers k k' \<Longrightarrow> sleepers_ok k \<Longrightarrow> sleepers_ok k'"
  unfolding fewer_sleepers_def sleepers_ok_def by (metis subsetD)

lemma fewer_sleepers_upd:
  assumes "\<And>th. pages k t = Some th \<Longrightarrow> sleepers (f th) \<subseteq> sleepers th"
  shows "fewer_sleepers k (upd_thread t f k)"
  using assms by (auto simp: fewer_sleepers_def)

lemma sleepers_fields [simp]:
  "sleepers (th\<lparr>status := s\<rparr>) = sleepers th" "sleepers (th\<lparr>child_list := c\<rparr>) = sleepers th"
  "sleepers (th\<lparr>resume_level := l\<rparr>) = sleepers th" "sleepers (th\<lparr>pagedir := p\<rparr>) = sleepers th"
  "sleepers (th\<lparr>fd_list := fl\<rparr>) = sleepers th" "sleepers (th\<lparr>fd_size := n\<rparr>) = sleepers th"
  "sleepers (th\<lparr>parent := pr\<rparr>) = sleepers th" "sleepers (th\<lparr>exec_file := ef\<rparr>) = sleepers th"
  by (simp_all add: sleepers_def)

lemma kernel_inv_upd:
  assumes "kernel_inv k" and "\<And>th. status (f th) = status th" and "\<And>th. magic (f th) = magic th"
    and "\<And>th. pages k t = Some th \<Longrightarrow> sleepers (f th) \<subseteq> sleepers th"
  shows "kernel_inv (upd_thread t f k)"
  using assms(1) u_sched_inv_upd_thread [of k f t, OF _ assms(2,3)]
    fewer_sleepersD [OF fewer_sleepers_upd [of k t f, OF assms(4)]] by (simp add: kernel_inv_def)

lemma kernel_inv_fields [simp]:
  "kernel_inv (k\<lparr>fs := a\<rparr>) = kernel_inv k" "kernel_inv (k\<lparr>active_pagedir := b\<rparr>) = kernel_inv k"
  "kernel_inv (k\<lparr>console := c\<rparr>) = kernel_inv k" "kernel_inv (k\<lparr>cmd_pages := d\<rparr>) = kernel_inv k"
  "kernel_inv (intr_set_level l k) = kernel_inv k"
  by (simp_all add: kernel_inv_def sleepers_ok_def)

subsection \<open>Waking and switching\<close>

lemma thread_unblock_keeps:
  assumes "thread_unblock w k = Inr k'" "kernel_inv k" "w \<noteq> idle_thread k"
  shows "kernel_inv k' \<and> running k' = running k \<and> idle_thread k' = idle_thread k"
proof -
  have b: "status_of k w = Some THREAD_BLOCKED"
    using assms(1) by (auto simp: thread_unblock_def Let_def split: if_splits)
  have i: "u_sched_inv k" using assms(2) by (simp add: kernel_inv_def)
  have k': "k' = set_status w THREAD_READY (k\<lparr>ready_list := ready_list k @ [w]\<rparr>)"
    using u_thread_unblock_eq [OF i b] assms(1) by simp
  have "fewer_sleepers k k'"
    unfolding k' by (auto simp: fewer_sleepers_def u_upd_defs)
  then show ?thesis
    using u_thread_unblock_inv [OF i b assms(3)] k' fewer_sleepersD [of k k'] assms(2)
    by (simp add: kernel_inv_def)
qed

lemma sema_up_result:
  assumes "sema_ok api" "api_sema_up api s = (wo, s')"
  shows "set (sema_waiters s') \<subseteq> set (sema_waiters s)" and "wo = Some w \<Longrightarrow> w \<in> set (sema_waiters s)"
proof -
  have "set (sema_waiters s') \<subseteq> set (sema_waiters s) \<and> (\<forall>w. wo = Some w \<longrightarrow> w \<in> set (sema_waiters s))"
  proof (cases "sema_waiters s = []")
    case True
    then have "api_sema_up api s = (None, s\<lparr>sema_value := Suc (sema_value s)\<rparr>)"
      using assms(1) unfolding sema_ok_def by blast
    then show ?thesis using assms(2) by auto
  next
    case False
    then obtain v where "v \<in> set (sema_waiters s)" "api_sema_up api s =
        (Some v, s\<lparr>sema_value := Suc (sema_value s), sema_waiters := remove1 v (sema_waiters s)\<rparr>)"
      using assms(1) unfolding sema_ok_def by blast
    then show ?thesis using assms(2) set_remove1_subset [of v "sema_waiters s"] by auto
  qed
  then show "set (sema_waiters s') \<subseteq> set (sema_waiters s)" "wo = Some w \<Longrightarrow> w \<in> set (sema_waiters s)"
    by auto
qed

lemma sema_up_keeps:
  assumes "sema_up api sel upd t k = Inr k'" "sema_ok api" "kernel_inv k"
    and "sel = wait_load \<and> upd = wait_load_update \<or> sel = wait_exit \<and> upd = wait_exit_update"
  shows "kernel_inv k' \<and> running k' = running k \<and> idle_thread k' = idle_thread k"
proof -
  obtain th where th: "pages k t = Some th" using assms(1) by (auto simp: sema_up_def bnd_eq_Inr thread_at_Inr)
  obtain wo s where up: "api_sema_up api (sel th) = (wo, s)" by fastforce
  let ?k1 = "upd_thread t (upd (\<lambda>_. s)) k"
  have at: "thread_at k t = Inr th" using assms(1) th by (auto simp: sema_up_def bnd_eq_Inr thread_at_Inr)
  note r = sema_up_result [OF assms(2) up]
  have k1: "kernel_inv ?k1"
    using assms(3) by (rule kernel_inv_upd) (use assms(4) r(1) th in \<open>auto simp: sleepers_def\<close>)
  have "(case wo of None \<Rightarrow> Inr ?k1 | Some w \<Rightarrow> thread_unblock w ?k1) = Inr k'"
    using assms(1) at up by (simp add: sema_up_def Let_def)
  moreover have "w \<noteq> idle_thread ?k1" if "wo = Some w" for w
    using r(2) [OF that] th assms(3,4) by (auto simp: kernel_inv_def sleepers_ok_def sleepers_def)
  ultimately show ?thesis
    using k1 thread_unblock_keeps [of _ ?k1 k'] by (cases wo) auto
qed

lemma switch_keeps:
  assumes "u_handover_inv k" "sleepers_ok k" "schedule k = Inr k'"
  shows "kernel_inv k'"
proof -
  have k': "k' = u_switched_to (u_chosen k) k" using u_schedule_eq [OF assms(1)] assms(3) by simp
  have "fewer_sleepers k k'"
    unfolding k' by (auto simp: fewer_sleepers_def u_pages_switched_to split: if_splits)
  then show ?thesis
    using u_switched_to_inv [OF assms(1)] fewer_sleepersD assms(2) k' by (auto simp: kernel_inv_def)
qed

lemma thread_block_keeps:
  assumes "thread_block k = Inr k'" "kernel_inv k"
  shows "kernel_inv k'"
proof -
  have i: "u_sched_inv k" using assms(2) by (simp add: kernel_inv_def)
  have "intr k = INTR_OFF" "schedule (u_blocked k) = Inr k'"
    using assms(1) u_thread_current_eq [OF i]
    by (auto simp: thread_block_def u_blocked_def split: if_splits)
  moreover have "sleepers_ok (u_blocked k)"
    using assms(2) fewer_sleepersD [of k "u_blocked k"]
    by (auto simp: kernel_inv_def u_blocked_def set_status_def fewer_sleepers_upd)
  ultimately show ?thesis using switch_keeps u_blocked_handover [OF i] by blast
qed

lemma sema_down_keeps:
  assumes "sema_down api sel upd t k = Inr (taken, k')" "sema_ok api" "kernel_inv k" "running k \<noteq> idle_thread k"
    and "sel = wait_load \<and> upd = wait_load_update \<or> sel = wait_exit \<and> upd = wait_exit_update"
  shows "kernel_inv k'"
proof -
  obtain th where at: "thread_at k t = Inr th" and th: "pages k t = Some th"
    using assms(1) by (auto simp: sema_down_def bnd_eq_Inr thread_at_Inr)
  show ?thesis
  proof (cases "api_sema_try_down api (sel th)")
    case (Some s)
    then have "s = (sel th)\<lparr>sema_value := sema_value (sel th) - 1\<rparr>"
      using assms(2) by (auto simp: sema_ok_def split: if_splits)
    then have "kernel_inv (upd_thread t (upd (\<lambda>_. s)) k)"
      by (intro kernel_inv_upd [OF assms(3)]) (use assms(5) th in \<open>auto simp: sleepers_def\<close>)
    then show ?thesis using assms(1) at Some by (simp add: sema_down_def)
  next
    case None
    have cur: "thread_current k = Inr (running k)"
      using assms(3) u_thread_current_eq by (auto simp: kernel_inv_def)
    let ?f = "upd (\<lambda>s. s\<lparr>sema_waiters := sema_waiters s @ [running k]\<rparr>)"
    let ?k1 = "upd_thread t ?f k"
    have s: "sleepers (?f th) \<subseteq> sleepers th \<union> {running k}" using assms(5) by (auto simp: sleepers_def)
    have "u_sched_inv ?k1"
      using assms(3,5) by (auto simp: kernel_inv_def intro!: u_sched_inv_upd_thread)
    moreover have "sleepers_ok ?k1"
      using assms(3,4) s th by (fastforce simp: kernel_inv_def sleepers_ok_def split: if_splits)
    ultimately have "kernel_inv ?k1" by (simp add: kernel_inv_def)
    then have "kernel_inv (intr_disable (set_resume (running k) (intr k) ?k1))"
      unfolding u_intr_disable_eq kernel_inv_fields set_resume_def by (rule kernel_inv_upd) simp_all
    then show ?thesis
      using assms(1) at cur None thread_block_keeps by (auto simp: sema_down_def Let_def bnd_eq_Inr)
  qed
qed

subsection \<open>Exiting\<close>

lemma upd_child_keeps:
  assumes "kernel_inv k"
  shows "kernel_inv (upd_child p t f k)"
  unfolding upd_child_def by (rule kernel_inv_upd [OF assms]) simp_all

lemma exit_mark_child_keeps:
  assumes "exit_mark_child th k = Inr k'" "kernel_inv k"
  shows "kernel_inv k' \<and> running k' = running k \<and> idle_thread k' = idle_thread k"
  using assms upd_child_keeps [OF assms(2)]
  by (auto simp: exit_mark_child_def bnd_eq_Inr upd_child_def split: if_splits)

lemma process_exit_keeps:
  assumes "process_exit api k = Inr k'" "sema_ok api" "kernel_inv k"
  shows "kernel_inv k' \<and> running k' = running k \<and> idle_thread k' = idle_thread k"
proof -
  have cur: "thread_current k = Inr (running k)"
    using assms(3) u_thread_current_eq by (auto simp: kernel_inv_def)
  then obtain th k1 k2 where th: "thread_at k (running k) = Inr th"
    and k1: "exit_mark_child th k = Inr k1"
    and k2: "sema_up api wait_exit wait_exit_update (running k) k1 = Inr k2"
    using assms(1) by (auto simp: process_exit_def bnd_eq_Inr)
  have i1: "kernel_inv k1 \<and> running k1 = running k \<and> idle_thread k1 = idle_thread k"
    by (rule exit_mark_child_keeps [OF k1 assms(3)])
  have i2: "kernel_inv k2 \<and> running k2 = running k \<and> idle_thread k2 = idle_thread k"
    using sema_up_keeps [OF k2 assms(2)] i1 by simp
  let ?k3 = "upd_thread (running k) (\<lambda>th. th\<lparr>child_list := [], parent := 0\<rparr>) k2"
  have i3: "kernel_inv ?k3" using i2 by (intro kernel_inv_upd) simp_all
  let ?k4 = "\<lambda>s. upd_thread (running k) (\<lambda>th. th\<lparr>fd_list := []\<rparr>) (?k3\<lparr>fs := s\<rparr>)"
  have i4: "kernel_inv (?k4 s)" for s by (rule kernel_inv_upd) (use i3 in simp_all)
  have i5: "kernel_inv (upd_thread (running k) (\<lambda>th. th\<lparr>pagedir := None\<rparr>) (?k4 s))" for s
    by (rule kernel_inv_upd [OF i4]) simp_all
  obtain s where "k' = ?k4 s \<or> k' = (upd_thread (running k) (\<lambda>th. th\<lparr>pagedir := None\<rparr>) (?k4 s))\<lparr>active_pagedir := None\<rparr>"
    using assms(1) cur th k1 k2 by (simp add: process_exit_def Let_def split: if_splits) blast+
  then show ?thesis using i2 i4 i5 by auto
qed

lemma thread_exit_keeps:
  assumes "thread_exit api k = Inr k'" "sema_ok api" "kernel_inv k" "running k \<noteq> idle_thread k"
  shows "kernel_inv k'"
proof -
  obtain k0 where k0: "process_exit api k = Inr k0"
    using assms(1) by (auto simp: thread_exit_def bnd_eq_Inr split: if_splits)
  have i0: "kernel_inv k0 \<and> running k0 = running k \<and> idle_thread k0 = idle_thread k"
    by (rule process_exit_keeps [OF k0 assms(2,3)])
  then have si: "u_sched_inv k0" by (simp add: kernel_inv_def)
  have cur: "thread_current (intr_disable k0) = Inr (running k0)"
    using u_thread_current_eq [of "intr_disable k0"] si by (simp add: u_intr_disable_eq)
  have e: "u_exited k0 = set_status (running k0) THREAD_DYING
    ((intr_disable k0)\<lparr>all_list := remove1 (running k0) (all_list (intr_disable k0))\<rparr>)"
    by (simp add: u_exited_def u_upd_defs)
  have "schedule (u_exited k0) = Inr k'"
    using assms(1) k0 cur by (simp add: thread_exit_def Let_def e split: if_splits)
  moreover have "fewer_sleepers k0 (u_exited k0)"
    by (auto simp: fewer_sleepers_def e u_upd_defs)
  then have "sleepers_ok (u_exited k0)"
    using i0 fewer_sleepersD [of k0 "u_exited k0"] unfolding kernel_inv_def by blast
  ultimately show ?thesis using switch_keeps u_exited_handover [OF si] i0 assms(4) by auto
qed

lemma exit_keeps:
  assumes "exit api st k = Inr k'" "sema_ok api" "kernel_inv k" "running k \<noteq> idle_thread k"
  shows "kernel_inv k'"
proof -
  have cur: "thread_current k = Inr (running k)"
    using assms(3) u_thread_current_eq by (auto simp: kernel_inv_def)
  then obtain th where "thread_at k (running k) = Inr th" and ex: "thread_exit api (upd_child (parent th) (tid th) (\<lambda>c. c\<lparr>exit_status := st,
      cur_status := (if st = - 1 then KILLED else EXITED)\<rparr>) (k\<lparr>console := console k @ [(tname th, st)]\<rparr>)) = Inr k'"
    using assms(1) by (auto simp: exit_def bnd_eq_Inr Let_def)
  show ?thesis
    by (rule thread_exit_keeps [OF ex assms(2)])
      (use assms(3,4) upd_child_keeps in \<open>simp_all add: upd_child_def kernel_inv_upd\<close>)
qed

subsection \<open>Waiting and executing\<close>

lemma process_wait_resume_keeps:
  assumes "process_wait_resume api t k = Inr (r, k')" "sema_ok api" "kernel_inv k" "running k \<noteq> idle_thread k"
  shows "kernel_inv k'"
proof -
  obtain c :: child_element and taken k1 where "sema_down api wait_exit wait_exit_update (child_thread c) k = Inr (taken, k1)" "k' = k1"
    using assms(1) by (auto simp: process_wait_resume_def bnd_eq_Inr split: if_splits)
  then show ?thesis using sema_down_keeps [OF _ assms(2-4)] by blast
qed

lemma process_wait_keeps:
  assumes "process_wait api t k = Inr (r, k')" "sema_ok api" "kernel_inv k" "running k \<noteq> idle_thread k"
  shows "kernel_inv k'"
proof -
  let ?k1 = "upd_child (running k) t (\<lambda>c. c\<lparr>parent_waiting := True\<rparr>) k"
  have cur: "thread_current k = Inr (running k)"
    using assms(3) u_thread_current_eq by (auto simp: kernel_inv_def)
  have k1: "kernel_inv ?k1" "running ?k1 \<noteq> idle_thread ?k1"
    using upd_child_keeps [OF assms(3)] assms(4) by (simp_all add: upd_child_def)
  have "k' = k \<or> k' = ?k1 \<or> process_wait_resume api t ?k1 = Inr (r, k')"
    using assms(1) cur by (auto simp: process_wait_def bnd_eq_Inr Let_def split: if_splits)
  then show ?thesis using assms(3) k1(1) process_wait_resume_keeps [OF _ assms(2) k1] by blast
qed

lemma exec_resume_keeps:
  assumes "exec_resume api t k = Inr (r, k')" "sema_ok api" "kernel_inv k" "running k \<noteq> idle_thread k"
  shows "kernel_inv k'"
proof -
  obtain c :: child_element and taken k1 where "sema_down api wait_load wait_load_update (child_thread c) k = Inr (taken, k1)" "k' = k1"
    using assms(1) by (auto simp: exec_resume_def bnd_eq_Inr split: if_splits)
  then show ?thesis using sema_down_keeps [OF _ assms(2-4)] by blast
qed

lemma thread_create_keeps:
  assumes "thread_create api page child_ok name pr fn aux k = Inr (t, k')" "frames_ok api" "kernel_inv k"
    and "pages k page = None"
  shows "kernel_inv k' \<and> running k' = running k \<and> idle_thread k' = idle_thread k"
proof (cases "page = 0")
  case True
  then show ?thesis using assms(1,3) by (auto simp: thread_create_def split: if_splits)
next
  case False
  have si: "u_sched_inv k" using assms(3) by (simp add: kernel_inv_def)
  obtain par where par: "pages k (running k) = Some par" using u_running_page [OF si] by blast
  obtain n where c: "fn \<noteq> 0" "PRI_MIN \<le> pr" "pr \<le> PRI_MAX" "name = Some n" "child_ok"
    using assms(1) False
    by (auto simp: thread_create_def init_thread_def bnd_eq_Inr Let_def allocate_tid_def split: if_splits)
  obtain kk th where kk: "thread_create api page True (Some n) pr fn aux k = Inr (next_tid k, kk)"
    "u_sched_inv kk" "running kk = running k" "idle_thread kk = idle_thread k" "pages kk page = Some th"
    "wait_load th = empty_sema" "wait_exit th = empty_sema"
    "pages kk (running k) = Some (par\<lparr>child_list := child_list par @ [new_child page (next_tid k)]\<rparr>)"
    "\<forall>u. u \<noteq> page \<and> u \<noteq> running k \<longrightarrow> pages kk u = pages k u"
    using thread_create_makes_thread [OF assms(2) si assms(4) False c(2,3,1) par, of n aux] by blast
  have k': "k' = kk" using assms(1) kk(1) c by simp
  have "idle_thread k \<notin> sleepers th'" if "pages kk u = Some th'" for u th'
  proof (cases "u = page \<or> u = running k")
    case True
    then show ?thesis
      using that kk par assms(3)
      by (auto simp: kernel_inv_def sleepers_ok_def) (auto simp: sleepers_def empty_sema_def)
  next
    case False
    then show ?thesis using that kk(9) assms(3) by (auto simp: kernel_inv_def sleepers_ok_def)
  qed
  then show ?thesis using kk k' by (simp add: kernel_inv_def sleepers_ok_def)
qed

lemma process_execute_keeps:
  assumes "process_execute api env name k = Inr (t, k')" "frames_ok api" "kernel_inv k"
    and "pages k (env_thread_page env) = None"
  shows "kernel_inv k' \<and> running k' = running k \<and> idle_thread k' = idle_thread k"
proof (cases "env_fn_page env = 0")
  case True
  then show ?thesis using assms(1,3) by (auto simp: process_execute_def Let_def split: if_splits)
next
  case False
  let ?k1 = "k\<lparr>cmd_pages := (cmd_pages k)(env_fn_page env \<mapsto> strlcpy name 4096)\<rparr>"
  obtain nm k2 where k2: "thread_create api (env_thread_page env) (env_child_ok env) nm PRI_DEFAULT
      (api_start_process api) (env_fn_page env) ?k1 = Inr (t, k2)" "k' = k2 \<or> (\<exists>c. k' = k2\<lparr>cmd_pages := c\<rparr>)"
    using assms(1) False by (auto simp: process_execute_def Let_def bnd_eq_Inr split: if_splits)
  have "kernel_inv k2 \<and> running k2 = running ?k1 \<and> idle_thread k2 = idle_thread ?k1"
    by (rule thread_create_keeps [OF k2(1) assms(2)]) (use assms(3,4) in simp_all)
  then show ?thesis using k2(2) by auto
qed

subsection \<open>File calls\<close>

lemma table_step_thread:
  "table_step th th' \<Longrightarrow> status th' = status th \<and> magic th' = magic th \<and> sleepers th' = sleepers th"
  by (auto simp: table_step_def)

lemma threads_step_keeps:
  assumes "threads_step k k'" "kernel_inv k"
  shows "kernel_inv k'"
proof -
  have i: "u_sched_inv k" using assms(2) by (simp add: kernel_inv_def)
  obtain th where th: "pages k (running k) = Some th" using u_running_page [OF i] by blast
  then obtain th' where th': "pages k' (running k) = Some th'" "table_step th th'"
    using assms(1) unfolding threads_step_def by blast
  have f: "running k' = running k" "ready_list k' = ready_list k" "all_list k' = all_list k"
    "idle_thread k' = idle_thread k" "initial_thread k' = initial_thread k"
    "pages k' = (pages k)(running k \<mapsto> th')"
    using assms(1) th'(1) by (auto simp: threads_step_def fun_eq_iff)
  have st: "status_of k' u = status_of k u" for u
    using th th' table_step_thread [OF th'(2)] by (auto simp: status_of_def f(6))
  have "u_threads_ok k'"
    using u_sched_invD(1) [OF i] th table_step_thread [OF th'(2)] by (auto simp: u_threads_ok_def f(6))
  moreover have "u_queue_ok k' = u_queue_ok k" "u_all_ok k' = u_all_ok k" "u_idle_ok k' = u_idle_ok k"
    "u_cpu_ok k' = u_cpu_ok k"
    unfolding u_queue_ok_def u_all_ok_def u_idle_ok_def u_cpu_ok_def st f(1-5) by (rule refl)+
  moreover have "sleepers_ok k'"
    using assms(2) th table_step_thread [OF th'(2)] by (auto simp: kernel_inv_def sleepers_ok_def f(4,6))
  ultimately show ?thesis using i by (simp add: kernel_inv_def u_sched_inv_def)
qed

lemma file_call_keeps: "file_call api dev k k' \<Longrightarrow> kernel_inv k \<Longrightarrow> kernel_inv k'"
  using file_call_step threads_step_keeps by blast

subsection \<open>The handler\<close>

fun kernel_of :: "('f, 'fs) outcome \<Rightarrow> ('f, 'fs) kernel" where
  "kernel_of (Returned f k) = k"
| "kernel_of (Ended k) = k"
| "kernel_of (Sleeps_in_exec t k) = k"
| "kernel_of (Sleeps_in_wait t k) = k"

lemma kernel_of_ret [simp]: "kernel_of (ret f v k) = k"
  by (simp add: ret_def)

lemma checked_cases:
  assumes "checked api dev p k rest = Inr out"
  obtains k' where "exit api (- 1) k = Inr k'" "out = Ended k'" | "rest = Inr out"
  using assms
  by (auto simp: checked_def check_valid_ptr_def bnd_eq_Inr split: if_splits option.splits)

lemma checked_preserves:
  assumes "checked api dev p k rest = Inr out"
    and "\<And>k'. exit api (- 1) k = Inr k' \<Longrightarrow> P k'" and "rest = Inr out \<Longrightarrow> P (kernel_of out)"
  shows "P (kernel_of out)"
  using assms(1) by (rule checked_cases) (use assms(2,3) in auto)

lemma if_elim: "(if b then x else y) = z \<Longrightarrow> (x = z \<Longrightarrow> P) \<Longrightarrow> (y = z \<Longrightarrow> P) \<Longrightarrow> P"
  by (cases b) simp_all

text \<open>
  What a system call keeps: a predicate that holds before the call, and that the four things a handler
  can do re-establish, holds afterwards.
\<close>

lemma handlers_preserve:
  assumes ex: "\<forall>st k'. exit api st k = Inr k' \<longrightarrow> P k'"
    and wt: "\<forall>t r k'. process_wait api t k = Inr (r, k') \<longrightarrow> P k'"
    and xc: "\<forall>c pid k1 r k2. process_execute api env c k = Inr (pid, k1) \<longrightarrow> exec_resume api pid k1 = Inr (r, k2) \<longrightarrow> P k2"
    and fc: "\<forall>k'. file_call api dev k k' \<longrightarrow> P k'" and "P k"
  shows "handle_exit api f args k = Inr out \<Longrightarrow> P (kernel_of out)"
    and "handle_exec api dev env f args k = Inr out \<Longrightarrow> P (kernel_of out)"
    and "handle_wait api f args k = Inr out \<Longrightarrow> P (kernel_of out)"
    and "handle_close f args k = Inr out \<Longrightarrow> P (kernel_of out)"
    and "handle_remove api dev f args k = Inr out \<Longrightarrow> P (kernel_of out)"
    and "handle_open api dev b f args k = Inr out \<Longrightarrow> P (kernel_of out)"
    and "handle_filesize dev f args k = Inr out \<Longrightarrow> P (kernel_of out)"
    and "handle_create api dev f args k = Inr out \<Longrightarrow> P (kernel_of out)"
    and "handle_write api dev f args k = Inr out \<Longrightarrow> P (kernel_of out)"
    and "handle_read api dev f args k = Inr out \<Longrightarrow> P (kernel_of out)"
proof -
  note ck = checked_preserves [of api dev _ k _ out P, OF _ ex [rule_format]] and fc = fc [rule_format]
  show "handle_exit api f args k = Inr out \<Longrightarrow> P (kernel_of out)"
    using ex by (auto simp: handle_exit_def bnd_eq_Inr)
  show "handle_wait api f args k = Inr out \<Longrightarrow> P (kernel_of out)"
    using wt by (auto simp: handle_wait_def wait_def bnd_eq_Inr split: option.splits)
  show "handle_close f args k = Inr out \<Longrightarrow> P (kernel_of out)"
    "handle_filesize dev f args k = Inr out \<Longrightarrow> P (kernel_of out)"
    using assms(5) by (auto simp: handle_close_def handle_filesize_def bnd_eq_Inr)
  show "handle_remove api dev f args k = Inr out \<Longrightarrow> P (kernel_of out)"
    using fc [OF call_remove] by (auto simp: handle_remove_def bnd_eq_Inr elim!: ck)
  show "handle_open api dev b f args k = Inr out \<Longrightarrow> P (kernel_of out)"
    using fc [OF call_open] by (auto simp: handle_open_def bnd_eq_Inr elim!: ck)
  show "handle_create api dev f args k = Inr out \<Longrightarrow> P (kernel_of out)"
    using fc [OF call_create] by (auto simp: handle_create_def bnd_eq_Inr elim!: ck)
  show "handle_write api dev f args k = Inr out \<Longrightarrow> P (kernel_of out)"
    using fc [OF call_write] by (auto simp: handle_write_def bnd_eq_Inr elim!: ck)
  show "handle_read api dev f args k = Inr out \<Longrightarrow> P (kernel_of out)"
    using fc [OF call_read] by (auto simp: handle_read_def bnd_eq_Inr elim!: ck)
  show "handle_exec api dev env f args k = Inr out \<Longrightarrow> P (kernel_of out)"
    using xc by (auto simp: handle_exec_def bnd_eq_Inr elim!: ck split: option.splits)
qed

lemma syscall_handler_preserves:
  assumes ex: "\<forall>st k'. exit api st k = Inr k' \<longrightarrow> P k'"
    and wt: "\<forall>t r k'. process_wait api t k = Inr (r, k') \<longrightarrow> P k'"
    and xc: "\<forall>c pid k1 r k2. process_execute api (call_exec env) c k = Inr (pid, k1) \<longrightarrow>
      exec_resume api pid k1 = Inr (r, k2) \<longrightarrow> P k2"
    and fc: "\<forall>k'. file_call api dev k k' \<longrightarrow> P k'" and "P k"
    and "syscall_handler api dev env f k = Inr out"
  shows "P (kernel_of out)"
proof -
  note ck = checked_preserves [of api dev _ k _ out P, OF _ ex [rule_format]]
    and h = handlers_preserve [of api k P "call_exec env" dev, OF ex wt xc fc assms(5)]
  show ?thesis
  proof (rule ck [OF assms(6) [unfolded syscall_handler_def]], assumption, unfold Let_def bnd_eq_Inr, elim exE conjE)
    fix n
    let ?call = "if n = SYS_EXIT dev then handle_exit api f (esp f + 4) k
       else if n = SYS_EXEC dev then handle_exec api dev (call_exec env) f (esp f + 4) k
       else if n = SYS_CREATE dev then handle_create api dev f (esp f + 4) k
       else if n = SYS_REMOVE dev then handle_remove api dev f (esp f + 4) k
       else if n = SYS_OPEN dev then handle_open api dev (call_fd_ok env) f (esp f + 4) k
       else if n = SYS_FILESIZE dev then handle_filesize dev f (esp f + 4) k
       else if n = SYS_READ dev then handle_read api dev f (esp f + 4) k
       else if n = SYS_WRITE dev then handle_write api dev f (esp f + 4) k
       else if n = SYS_CLOSE dev then handle_close f (esp f + 4) k
       else if n = SYS_WAIT dev then handle_wait api f (esp f + 4) k
       else bnd (exit api (- 1) k) (\<lambda>k'. Inr (Ended k'))"
    have other: "bnd (exit api (- 1) k) (\<lambda>k'. Inr (Ended k')) = Inr out \<Longrightarrow> P (kernel_of out)"
      using ex by (auto simp: bnd_eq_Inr)
    have call: "?call = Inr out \<Longrightarrow> P (kernel_of out)"
      by (elim if_elim; (erule h | erule other))
    assume "checked api dev (esp f + 4) k ?call = Inr out"
    then show "P (kernel_of out)" by (rule ck) (assumption, rule call)
  qed
qed

text \<open>
  C2: The kernel survives every system call it finishes. Whatever the user's registers and memory
  hold, when \<^verbatim>\<open>syscall_handler\<close> returns, ends the process or puts it to sleep, the invariant of the
  kernel holds again: the ready list and the list of all threads are exact and without repetition,
  one thread runs, nobody waits as the idle thread, and every page of a thread is intact.
\<close>
theorem syscall_keeps_invariant:
  assumes "sema_ok api" and "frames_ok api" and "kernel_inv k" and "running k \<noteq> idle_thread k"
    and "pages k (env_thread_page (call_exec env)) = None"
    and "syscall_handler api dev env f k = Inr out"
  shows "kernel_inv (kernel_of out)"
proof -
  have "\<forall>c pid k1 r k2. process_execute api (call_exec env) c k = Inr (pid, k1) \<longrightarrow>
      exec_resume api pid k1 = Inr (r, k2) \<longrightarrow> kernel_inv k2"
    using process_execute_keeps [OF _ assms(2,3,5)] exec_resume_keeps [OF _ assms(1)] assms(4) by metis
  then show ?thesis
    using exit_keeps [OF _ assms(1,3,4)] process_wait_keeps [OF _ assms(1,3,4)] file_call_keeps [OF _ assms(3)]
    by (intro syscall_handler_preserves [where P = kernel_inv, OF _ _ _ _ assms(3,6)]) blast+
qed

lemma sleepers_ok_calling: "sleepers_ok (calling m)"
  by (auto simp: sleepers_ok_def calling_def busy_def with_memory_def upd_thread_def split: if_splits)
    (auto simp: family_def sample_thread_def sleepers_def empty_sema_def split: if_splits)

lemma kernel_inv_calling: "kernel_inv (calling m)"
  using in_user_calling [of m] sleepers_ok_calling by (simp add: kernel_inv_def in_user_def)

theorem syscall_keeps_invariant_witness:
  "\<exists>k'. syscall_handler sample_api sample_dev sample_env (call_frame\<lparr>esp := 0\<rparr>) (calling (call_memory 9 1 0 0)) =
     Inr (Ended k') \<and> kernel_inv k' \<and> pages k' 0x4000 = None"
proof -
  let ?m = "call_memory 9 1 0 0"
  let ?k = "calling ?m" and ?f = "call_frame\<lparr>esp := 0\<rparr>"
  have p: "pages ?k (env_thread_page (call_exec sample_env)) = None"
    by (simp add: calling_def sample_env_def) (simp add: busy_def with_memory_def family_def)
  have fr: "frames_ok sample_api" by (simp add: frames_ok_def sample_api_def)
  have bad: "\<not> valid_ptr sample_dev ?m (esp ?f)" by (simp add: call_valid)
  have h: "syscall_handler sample_api sample_dev sample_env ?f ?k = bnd (exit sample_api (- 1) ?k) (\<lambda>k'. Inr (Ended k'))"
    using bad by (intro bad_call_exits [OF numbers_ok_sample in_user_calling] disjI1)
  obtain k' where k': "exit sample_api (- 1) ?k = Inr k'" "pages k' (running ?k) = None"
    using exit_ends_process [OF sema_ok_sample _ _ _ _ child_of_calling, of ?m "- 1"] in_user_calling [of ?m]
    unfolding in_user_def by auto
  have e: "syscall_handler sample_api sample_dev sample_env ?f ?k = Inr (Ended k')" using h k'(1) by simp
  from syscall_keeps_invariant [OF sema_ok_sample fr kernel_inv_calling _ p e]
  have "kernel_inv k'" by simp
  then show ?thesis using e k'(2) by (intro exI [of _ k']) simp
qed

end
