(* ===== verification/Exceptions.thy ===== *)
theory Exceptions
  imports Syscall_Safety
begin

section \<open>Exceptions (Assignment 6)\<close>

text \<open>
  \<^verbatim>\<open>exception.c\<close>: the handlers registered for processor exceptions, \<^verbatim>\<open>kill\<close> and \<^verbatim>\<open>page_fault\<close>.
  The segment selectors and the bits of a page fault's error code are defined in Pintos headers
  that are not in the repository and are the parameter \<open>x86\<close>. What is printed is the list \<open>faults\<close>.
\<close>

record x86 =
  SEL_UCSEG :: "16 word"
  SEL_KCSEG :: "16 word"
  PF_P :: "32 word"
  PF_W :: "32 word"
  PF_U :: "32 word"

datatype handler = kill_handler | page_fault_handler

text \<open>\<^verbatim>\<open>intr_register_int\<close> of vector, privilege level, interrupt level and handler.\<close>

record registration =
  reg_vec :: nat
  reg_dpl :: nat
  reg_level :: intr_level
  reg_handler :: handler

definition registered :: "nat \<Rightarrow> nat \<Rightarrow> intr_level \<Rightarrow> handler \<Rightarrow> registration" where
  "registered v d l h = \<lparr>reg_vec = v, reg_dpl = d, reg_level = l, reg_handler = h\<rparr>"

definition exception_init :: "registration list" where
  "exception_init =
     [registered 3 3 INTR_ON kill_handler, registered 4 3 INTR_ON kill_handler,
      registered 5 3 INTR_ON kill_handler,
      registered 0 0 INTR_ON kill_handler, registered 1 0 INTR_ON kill_handler,
      registered 6 0 INTR_ON kill_handler, registered 7 0 INTR_ON kill_handler,
      registered 11 0 INTR_ON kill_handler, registered 12 0 INTR_ON kill_handler,
      registered 13 0 INTR_ON kill_handler, registered 16 0 INTR_ON kill_handler,
      registered 19 0 INTR_ON kill_handler,
      registered 14 0 INTR_OFF page_fault_handler]"

definition kill ::
  "('f, 'fs) api \<Rightarrow> x86 \<Rightarrow> intr_frame \<Rightarrow> ('f, 'fs) kernel \<Rightarrow> ('f, 'fs) outcome result" where
  "kill api x f k =
     (if cs f = SEL_UCSEG x then
        bnd (thread_name k) (\<lambda>_. bnd (exit api (- 1) k) (\<lambda>k'. Inr (Ended k')))
      else if cs f = SEL_KCSEG x then Inl Assertion_failed
      else bnd (exit api (- 1) k) (\<lambda>k'. Inr (Ended k')))"

record fault_report =
  fault_addr :: "32 word"
  not_present :: bool
  fault_write :: bool
  fault_user :: bool

record fault_log =
  page_fault_cnt :: int
  faults :: "fault_report list"

definition page_fault ::
  "('f, 'fs) api \<Rightarrow> x86 \<Rightarrow> 32 word \<Rightarrow> intr_frame \<Rightarrow> fault_log \<Rightarrow> ('f, 'fs) kernel \<Rightarrow>
   fault_log \<times> ('f, 'fs) outcome result" where
  "page_fault api x cr2 f fl k =
     (let k1 = intr_set_level INTR_ON k;
          fl1 = fl\<lparr>page_fault_cnt := i64 (page_fault_cnt fl + 1)\<rparr>;
          report = \<lparr>fault_addr = cr2,
                    not_present = (error_code f AND PF_P x = 0),
                    fault_write = (error_code f AND PF_W x \<noteq> 0),
                    fault_user = (error_code f AND PF_U x \<noteq> 0)\<rparr> in
      (fl1\<lparr>faults := faults fl1 @ [report]\<rparr>, kill api x f k1))"

definition run_handler ::
  "('f, 'fs) api \<Rightarrow> x86 \<Rightarrow> 32 word \<Rightarrow> intr_frame \<Rightarrow> fault_log \<Rightarrow> ('f, 'fs) kernel \<Rightarrow> handler \<Rightarrow>
   ('f, 'fs) outcome result" where
  "run_handler api x cr2 f fl k h =
     (case h of kill_handler \<Rightarrow> kill api x f k | page_fault_handler \<Rightarrow> snd (page_fault api x cr2 f fl k))"

lemma child_of_intr [simp]: "child_of (intr_set_level l k) p th e = child_of k p th e"
  by (simp add: child_of_def intr_set_level_def)

lemma intr_set_level_fields [simp]:
  "running (intr_set_level l k) = running k" "idle_thread (intr_set_level l k) = idle_thread k"
  "initial_thread (intr_set_level l k) = initial_thread k" "in_interrupt (intr_set_level l k) = in_interrupt k"
  "fs (intr_set_level l k) = fs k" "pages (intr_set_level l k) = pages k"
  by (simp_all add: intr_set_level_def)

lemma only_ends_intr [simp]: "only_ends p th st (intr_set_level l k) k' = only_ends p th st k k'"
  by (cases k) (simp only: only_ends_def intr_set_level_def kernel.update_convs kernel.select_convs)

lemma may_exit_intr [simp]: "may_exit (intr_set_level l k) p th = may_exit k p th"
  by (simp add: may_exit_def intr_set_level_def status_of_def)

lemma kill_user:
  assumes "sema_ok api" and "u_sched_inv k" and "\<not> in_interrupt k" and "running k \<noteq> idle_thread k"
    and "running k \<noteq> initial_thread k" and "child_of k p th e" and "may_exit k p th"
    and "cs f \<noteq> SEL_KCSEG x"
  shows "\<exists>k'. kill api x f k = Inr (Ended k') \<and> u_sched_inv k' \<and> pages k' (running k) = None \<and>
    fs k' = exit_fs api th (fs k) \<and> only_ends p th (- 1) k k' \<and>
    map_option (\<lambda>thp. get_child_element (tid th) (child_list thp)) (pages k' p) = Some (Some (exited_with (- 1) e))"
proof -
  obtain k' where k': "exit api (- 1) k = Inr k'" "u_sched_inv k'" "only_ends p th (- 1) k k'"
    "fs k' = exit_fs api th (fs k)"
    using exit_only_ends [OF assms(1-7), of "- 1"] by blast
  obtain thp where "pages k' p = Some thp"
    "get_child_element (tid th) (child_list thp) = Some (exited_with (- 1) e)"
    using only_ends_entry [OF k'(3) assms(6)] by blast
  moreover have "pages k' (running k) = None" using k'(3) unfolding only_ends_def by blast
  moreover have "thread_name k = Inr (tname th)"
    using u_thread_current_eq [OF assms(2)] u_sched_invD(1) [OF assms(2)] assms(6)
    by (auto simp: thread_name_def bnd_eq_Inr thread_at_Inr child_of_def u_threads_ok_def)
  ultimately show ?thesis
    using k' assms(8) by (simp add: kill_def)
qed



end
