(* ===== verification/Kernel_Memory.thy ===== *)
theory Kernel_Memory
  imports Kernel_Invariant Exceptions Loader_Safety Arg_Overflow
begin

section \<open>Whose memory is active\<close>

text \<open>
  What the operations of Assignment 6.2 keep of the address spaces: the active page directory is the one of the
  running thread, and no process has an address mapped that is not a user address from the second
  page up. These facts need nothing of the scheduler's invariant: an operation that comes to an end keeps
  them. \<open>memory_inv base i\<close> also says which thread is the idle thread, and that no
  interrupt is being handled.
\<close>

definition user_range :: "32 word \<Rightarrow> umem \<Rightarrow> bool" where
  "user_range base m \<longleftrightarrow> (\<forall>a. m a \<noteq> None \<longrightarrow> 4096 \<le> unat a \<and> unat a < unat base)"

definition confined :: "32 word \<Rightarrow> ('f, 'fs) kernel \<Rightarrow> bool" where
  "confined base k \<longleftrightarrow> (\<forall>t th m. pages k t = Some th \<longrightarrow> pagedir th = Some m \<longrightarrow> user_range base m)"

definition active_ok :: "('f, 'fs) kernel \<Rightarrow> bool" where
  "active_ok k \<longleftrightarrow> active_pagedir k = Option.bind (pages k (running k)) pagedir"

definition handover_ok :: "32 word \<Rightarrow> tptr \<Rightarrow> ('f, 'fs) kernel \<Rightarrow> bool" where
  "handover_ok base i k \<longleftrightarrow> confined base k \<and> idle_thread k = i \<and> \<not> in_interrupt k"

definition memory_inv :: "32 word \<Rightarrow> tptr \<Rightarrow> ('f, 'fs) kernel \<Rightarrow> bool" where
  "memory_inv base i k \<longleftrightarrow> handover_ok base i k \<and> active_ok k"

lemmas memory_defs = memory_inv_def handover_ok_def active_ok_def confined_def

lemma memory_handover: "memory_inv base i k \<Longrightarrow> handover_ok base i k"
  by (simp add: memory_inv_def)

lemma memory_fields [simp]:
  "memory_inv base i (k\<lparr>ready_list := a1\<rparr>) = memory_inv base i k" "memory_inv base i (k\<lparr>all_list := a1\<rparr>) = memory_inv base i k"
  "memory_inv base i (k\<lparr>fs := a2\<rparr>) = memory_inv base i k" "memory_inv base i (k\<lparr>console := a3\<rparr>) = memory_inv base i k"
  "memory_inv base i (k\<lparr>cmd_pages := a4\<rparr>) = memory_inv base i k" "memory_inv base i (k\<lparr>next_tid := a5\<rparr>) = memory_inv base i k"
  "memory_inv base i (intr_set_level l k) = memory_inv base i k" "memory_inv base i (intr_disable k) = memory_inv base i k"
  "handover_ok base i (k\<lparr>ready_list := a1\<rparr>) = handover_ok base i k" "handover_ok base i (k\<lparr>all_list := a1\<rparr>) = handover_ok base i k"
  "handover_ok base i (intr_set_level l k) = handover_ok base i k" "handover_ok base i (intr_disable k) = handover_ok base i k"
  by (simp_all add: memory_defs intr_set_level_def intr_disable_def)

text \<open>Writing to a thread structure.\<close>

lemma memory_upd [intro]:
  assumes "memory_inv base i k" "\<And>th. pagedir (f th) = pagedir th"
  shows "memory_inv base i (upd_thread t f k)"
  using assms by (cases "pages k t") (auto simp: memory_defs)

lemma handover_upd [intro]:
  assumes "handover_ok base i k" "\<And>th. pagedir (f th) = pagedir th"
  shows "handover_ok base i (upd_thread t f k)"
  using assms by (cases "pages k t") (auto simp: memory_defs)

lemma memory_status [simp]:
  "memory_inv base i k \<Longrightarrow> memory_inv base i (set_status t s k)"
  "handover_ok base i k \<Longrightarrow> handover_ok base i (set_status t s k)"
  "memory_inv base i k \<Longrightarrow> memory_inv base i (set_resume t l k)"
  "handover_ok base i k \<Longrightarrow> handover_ok base i (set_resume t l k)"
  by (auto simp: set_status_def set_resume_def)

lemma memory_child [simp]: "memory_inv base i k \<Longrightarrow> memory_inv base i (upd_child p t f k)"
  by (auto simp: upd_child_def)

text \<open>The running thread gets new memory, and it becomes active.\<close>

lemma memory_new_space:
  assumes "handover_ok base i k" "pd = None \<or> (\<exists>m. pd = Some m \<and> user_range base m)"
    "\<And>th. pagedir (f th) = pd" "pages k (running k) \<noteq> None"
  shows "memory_inv base i ((upd_thread (running k) f k)\<lparr>active_pagedir := pd\<rparr>)"
  using assms by (auto simp: memory_defs)

subsection \<open>Switching, waking and sleeping\<close>

lemma schedule_tail_memory:
  assumes "thread_schedule_tail prev k = Inr k'" "handover_ok base i k"
  shows "memory_inv base i k'"
proof -
  let ?k1 = "(set_status (running k) THREAD_RUNNING k)\<lparr>thread_ticks := 0\<rparr>"
  obtain th k2 where th: "pages ?k1 (running k) = Some th" and k2: "k2 = ?k1\<lparr>active_pagedir := pagedir th\<rparr>"
    and k': "k' = k2 \<or> prev \<noteq> running k \<and> k' = k2\<lparr>pages := (pages k2)(prev := None)\<rparr>"
    using assms(1)
    by (auto simp: thread_schedule_tail_def process_activate_def bnd_eq_Inr thread_at_Inr thread_current_def Let_def
        set_status_def split: if_splits)
  have "handover_ok base i ?k1" using memory_status(2) [OF assms(2)] by (simp add: memory_defs)
  then have "handover_ok base i k2 \<and> active_ok k2" using th k2 by (auto simp: memory_defs)
  moreover have "running k2 = running k" using k2 by (simp add: set_status_def)
  ultimately show ?thesis using k' by (auto simp: memory_defs split: if_splits)
qed

lemma schedule_memory:
  assumes "schedule k = Inr k'" "handover_ok base i k"
  shows "memory_inv base i k'"
proof -
  have same: "k\<lparr>ready_list := tl (ready_list k)\<rparr> = k\<lparr>ready_list := tl (ready_list k), running := u_chosen k\<rparr>"
    if "running k = u_chosen k" unfolding that [symmetric] by simp
  have "\<exists>prev. thread_schedule_tail prev (k\<lparr>ready_list := tl (ready_list k), running := u_chosen k\<rparr>) = Inr k'"
  proof (cases "running k = u_chosen k")
    case True
    then have "thread_schedule_tail 0 (k\<lparr>ready_list := tl (ready_list k)\<rparr>) = Inr k'"
      using assms(1) by (simp add: schedule_def u_next_thread_to_run_eq Let_def split: if_splits)
    then show ?thesis by (intro exI [of _ 0]) (simp only: same [OF True, symmetric])
  next
    case False
    then show ?thesis
      using assms(1) by (auto simp: schedule_def u_next_thread_to_run_eq Let_def split: if_splits)
  qed
  moreover have "handover_ok base i (k\<lparr>ready_list := tl (ready_list k), running := u_chosen k\<rparr>)"
    using assms(2) by (simp add: memory_defs)
  ultimately show ?thesis using schedule_tail_memory by blast
qed

lemma thread_block_memory:
  "thread_block k = Inr k' \<Longrightarrow> handover_ok base i k \<Longrightarrow> memory_inv base i k'"
  by (auto simp: thread_block_def bnd_eq_Inr assert_eq_Inr elim!: schedule_memory split: if_splits)

lemma thread_yield_memory:
  "thread_yield k = Inr k' \<Longrightarrow> handover_ok base i k \<Longrightarrow> memory_inv base i k'"
  by (auto simp: thread_yield_def bnd_eq_Inr assert_eq_Inr Let_def elim!: schedule_memory split: if_splits)

lemma thread_unblock_memory:
  "thread_unblock t k = Inr k' \<Longrightarrow> memory_inv base i k \<Longrightarrow> memory_inv base i k'"
  by (auto simp: thread_unblock_def bnd_eq_Inr assert_eq_Inr Let_def split: if_splits)

lemma sema_up_memory:
  assumes "sema_up api sel upd t k = Inr k'" "memory_inv base i k" "\<And>f th. pagedir (upd f th) = pagedir th"
  shows "memory_inv base i k'"
proof -
  obtain th where th: "thread_at k t = Inr th" using assms(1) by (auto simp: sema_up_def bnd_eq_Inr)
  obtain wo s where up: "api_sema_up api (sel th) = (wo, s)" by fastforce
  have k': "(case wo of None \<Rightarrow> Inr (upd_thread t (upd (\<lambda>_. s)) k)
      | Some w \<Rightarrow> thread_unblock w (upd_thread t (upd (\<lambda>_. s)) k)) = Inr k'"
    using assms(1) th up by (simp add: sema_up_def Let_def)
  have "memory_inv base i (upd_thread t (upd (\<lambda>_. s)) k)" using assms(2,3) by (rule memory_upd)
  then show ?thesis using k' thread_unblock_memory by (cases wo) auto
qed

lemma thread_unblock_running: "thread_unblock t k = Inr k' \<Longrightarrow> running k' = running k"
  by (auto simp: thread_unblock_def Let_def u_intr_disable_eq split: if_splits)

lemma sema_up_running:
  assumes "sema_up api sel upd t k = Inr k'"
  shows "running k' = running k"
proof -
  obtain th where th: "thread_at k t = Inr th" using assms by (auto simp: sema_up_def bnd_eq_Inr)
  obtain wo s where "api_sema_up api (sel th) = (wo, s)" by fastforce
  then show ?thesis
    using assms th by (cases wo) (auto simp: sema_up_def Let_def dest: thread_unblock_running)
qed

lemma sema_down_memory:
  assumes "sema_down api sel upd t k = Inr (taken, k')" "memory_inv base i k" "\<And>f th. pagedir (upd f th) = pagedir th"
  shows "memory_inv base i k'"
proof -
  have u: "memory_inv base i (upd_thread t (upd g) k)" for g using assms(2,3) by (rule memory_upd)
  show ?thesis
    using assms(1) u by (auto simp: sema_down_def bnd_eq_Inr Let_def split: option.splits
        intro!: memory_handover elim!: thread_block_memory)
qed

subsection \<open>Processes\<close>

lemma exit_mark_child_memory:
  "exit_mark_child th k = Inr k' \<Longrightarrow> memory_inv base i k \<Longrightarrow> memory_inv base i k'"
  by (auto simp: exit_mark_child_def bnd_eq_Inr split: if_splits)

lemma exit_mark_child_running: "exit_mark_child th k = Inr k' \<Longrightarrow> running k' = running k"
  by (auto simp: exit_mark_child_def bnd_eq_Inr upd_child_def split: if_splits)

lemma memory_no_space:
  "memory_inv base i k \<Longrightarrow> t = running k \<Longrightarrow>
   memory_inv base i ((upd_thread t (\<lambda>th. th\<lparr>pagedir := None\<rparr>) k)\<lparr>active_pagedir := None\<rparr>)"
  by (cases "pages k t") (auto simp: memory_defs)

lemma process_exit_memory:
  assumes "process_exit api k = Inr k'" "memory_inv base i k"
  shows "memory_inv base i k'"
proof -
  let ?c = "running k"
  obtain th k1 k2 where cur: "thread_current k = Inr ?c" and th: "thread_at k ?c = Inr th"
    and k1: "exit_mark_child th k = Inr k1" and k2: "sema_up api wait_exit wait_exit_update ?c k1 = Inr k2"
    using assms(1) by (auto simp: process_exit_def bnd_eq_Inr dest: thread_current_running)
  have i2: "memory_inv base i k2"
    using sema_up_memory [OF k2 exit_mark_child_memory [OF k1 assms(2)]] by simp
  let ?k4 = "\<lambda>s. upd_thread ?c (\<lambda>th. th\<lparr>fd_list := []\<rparr>)
    ((upd_thread ?c (\<lambda>th. th\<lparr>child_list := [], parent := 0\<rparr>) k2)\<lparr>fs := s\<rparr>)"
  have i4: "memory_inv base i (?k4 s)" for s
    by (rule memory_upd) (use i2 in \<open>auto intro: memory_upd\<close>)
  obtain s where "k' = ?k4 s \<or> k' = (upd_thread ?c (\<lambda>th. th\<lparr>pagedir := None\<rparr>) (?k4 s))\<lparr>active_pagedir := None\<rparr>"
    using assms(1) cur th k1 k2 by (simp add: process_exit_def Let_def split: if_splits) blast+
  moreover have "running (?k4 s) = ?c"
    using exit_mark_child_running [OF k1] sema_up_running [OF k2] by simp
  ultimately show ?thesis using i4 memory_no_space [OF i4] by auto
qed

lemma thread_exit_memory:
  "thread_exit api k = Inr k' \<Longrightarrow> memory_inv base i k \<Longrightarrow> memory_inv base i k'"
  by (auto simp: thread_exit_def bnd_eq_Inr Let_def split: if_splits
      intro!: memory_handover dest!: process_exit_memory elim!: schedule_memory)

lemma exit_memory:
  assumes "exit api st k = Inr k'" "memory_inv base i k"
  shows "memory_inv base i k'"
  using assms by (auto simp: exit_def bnd_eq_Inr Let_def elim!: thread_exit_memory)

lemma process_wait_memory:
  "process_wait_resume api t k = Inr (r, k') \<Longrightarrow> memory_inv base i k \<Longrightarrow> memory_inv base i k'"
  "process_wait api t k = Inr (r, k') \<Longrightarrow> memory_inv base i k \<Longrightarrow> memory_inv base i k'"
proof -
  have resume: "process_wait_resume api t k = Inr (r, k') \<Longrightarrow> memory_inv base i k \<Longrightarrow> memory_inv base i k'" for k
    by (auto simp: process_wait_resume_def bnd_eq_Inr split: if_splits elim!: sema_down_memory)
  then show "process_wait_resume api t k = Inr (r, k') \<Longrightarrow> memory_inv base i k \<Longrightarrow> memory_inv base i k'" .
  show "process_wait api t k = Inr (r, k') \<Longrightarrow> memory_inv base i k \<Longrightarrow> memory_inv base i k'"
    by (auto simp: process_wait_def bnd_eq_Inr Let_def split: if_splits elim!: resume)
qed

lemma exec_resume_memory:
  "exec_resume api t k = Inr (r, k') \<Longrightarrow> memory_inv base i k \<Longrightarrow> memory_inv base i k'"
  by (auto simp: exec_resume_def bnd_eq_Inr split: if_splits elim!: sema_down_memory)

lemma memory_new_page:
  assumes "memory_inv base i k" "pages k t = None" "pagedir th = None"
  shows "memory_inv base i (k\<lparr>pages := (pages k)(t \<mapsto> th), all_list := al\<rparr>)"
  using assms by (auto simp: memory_defs)

lemma thread_create_memory:
  assumes "thread_create api page child_ok name pr fn aux k = Inr (t, k')" "memory_inv base i k" "pages k page = None"
  shows "memory_inv base i k'"
proof (cases "page = 0")
  case False
  obtain k1 where k1: "init_thread page name pr k = Inr k1"
    using assms(1) False by (auto simp: thread_create_def bnd_eq_Inr split: if_splits)
  have "memory_inv base i k1"
    using k1 assms(2,3) by (auto simp: init_thread_def Let_def intro!: memory_new_page split: if_splits)
  then show ?thesis
    using assms(1) False k1
    by (auto simp: thread_create_def allocate_tid_def alloc_frame_def bnd_eq_Inr Let_def
        intro!: memory_upd elim!: thread_unblock_memory split: if_splits)
qed (use assms in \<open>auto simp: thread_create_def split: if_splits\<close>)

lemma process_execute_memory:
  assumes "process_execute api env name k = Inr (t, k')" "memory_inv base i k" "pages k (env_thread_page env) = None"
  shows "memory_inv base i k'"
  using assms
  by (auto simp: process_execute_def Let_def bnd_eq_Inr split: if_splits elim!: thread_create_memory)

subsection \<open>System calls and exceptions\<close>

lemma store_bytes_range: "store_bytes a bs m = Inr m' \<Longrightarrow> user_range base m \<Longrightarrow> user_range base m'"
  using store_bytes_dom [of a bs m m'] by (auto simp: user_range_def)

lemma store_user_memory:
  assumes "store_user a bs k = Inr k'" "memory_inv base i k"
  shows "memory_inv base i k'"
proof (cases bs)
  case (Cons b bs')
  obtain m where m: "store_bytes a bs (user_memory k) = Inr m"
    and k': "k' = (upd_thread (running k) (\<lambda>th. th\<lparr>pagedir := Some m\<rparr>) k)\<lparr>active_pagedir := Some m\<rparr>"
    using assms(1) Cons by (auto simp: store_user_def bnd_eq_Inr)
  have "user_memory k a \<noteq> None" using m Cons by (auto split: if_splits)
  then obtain m0 where m0: "active_pagedir k = Some m0" "user_memory k = m0"
    by (cases "active_pagedir k") (auto simp: user_memory_def)
  moreover have "active_pagedir k = Option.bind (pages k (running k)) pagedir"
    using assms(2) by (simp add: memory_defs)
  ultimately obtain th where "pages k (running k) = Some th" "pagedir th = Some m0"
    by (metis bind_eq_Some_conv)
  moreover from this have "user_range base m0" using assms(2) by (auto simp: memory_defs)
  ultimately show ?thesis
    unfolding k' using store_bytes_range [OF m] m0(2) assms(2)
    by (intro memory_new_space) (auto intro: memory_handover)
qed (use assms in \<open>auto simp: store_user_def\<close>)

lemma file_call_memory:
  assumes "file_call api dev k k'" "memory_inv base i k"
  shows "memory_inv base i k'"
  using assms
proof (induction rule: file_call.induct)
  case (call_open fd_ok name k v k')
  from call_open(1) show ?case
    by (rule open_file_cases) (use call_open(2) in \<open>auto intro!: memory_upd\<close>)
next
  case (call_read n buf sz k v k')
  show ?case
  proof (cases "n > 0")
    case True
    obtain e where e: "get_fd n k = Inr e" using True call_read(1) by (auto simp: read_def bnd_eq_Inr)
    have st: "store_user a bs (k\<lparr>fs := s\<rparr>) = Inr k' \<Longrightarrow> memory_inv base i k'" for a bs s
      using store_user_memory [of a bs "k\<lparr>fs := s\<rparr>" k' base i] call_read(2) by simp
    show ?thesis
      using True call_read e
      by (cases e) (auto simp: read_def bnd_eq_Inr Let_def split_beta intro: st split: if_splits)
  next
    case False
    then show ?thesis using call_read by (auto simp: read_def split_beta split: if_splits)
  qed
next
  case (call_write n buf sz k v k')
  show ?case
  proof (cases "n = 1")
    case True
    then show ?thesis using call_write by (auto simp: write_buffer_def bnd_eq_Inr)
  next
    case False
    obtain e where e: "get_fd n k = Inr e" using False call_write(1) by (auto simp: write_buffer_def bnd_eq_Inr)
    show ?thesis
      using False call_write e by (cases e) (auto simp: write_buffer_def bnd_eq_Inr Let_def split: if_splits)
  qed
next
  case (call_close n k k')
  then show ?case
    by (auto simp: close_def bnd_eq_Inr Let_def split: option.splits intro!: memory_upd)
qed (auto simp: create_def remove_def bnd_eq_Inr split_beta)

lemma syscall_memory:
  assumes "syscall_handler api dev env f k = Inr out" "memory_inv base i k" "pages k (env_thread_page (call_exec env)) = None"
  shows "memory_inv base i (kernel_of out)"
proof -
  have "\<forall>c pid k1 r k2. process_execute api (call_exec env) c k = Inr (pid, k1) \<longrightarrow>
      exec_resume api pid k1 = Inr (r, k2) \<longrightarrow> memory_inv base i k2"
    using process_execute_memory [OF _ assms(2,3)] exec_resume_memory by blast
  then show ?thesis
    using exit_memory [OF _ assms(2)] process_wait_memory(2) [OF _ assms(2)] file_call_memory [OF _ assms(2)]
    by (intro syscall_handler_preserves [where P = "memory_inv base i", OF _ _ _ _ assms(2,1)]) blast+
qed

lemma run_handler_memory:
  assumes "run_handler api x cr2 f fl k h = Inr out" "memory_inv base i k"
  shows "memory_inv base i (kernel_of out)"
proof -
  have "memory_inv base i (kernel_of out)" if "kill api x f k0 = Inr out" "memory_inv base i k0" for k0
    using that exit_memory by (auto simp: kill_def bnd_eq_Inr split: if_splits)
  then show ?thesis using assms by (cases h) (auto simp: run_handler_def page_fault_def Let_def)
qed

text \<open>The steps of \<open>start_process\<close>: the address space, the parent's entry, the semaphore, and the end if loading failed.\<close>

definition loaded_into ::
  "('f, 'fs) api \<Rightarrow> 'f sys \<Rightarrow> 'f image \<Rightarrow> tptr \<Rightarrow> 'f load_result \<Rightarrow> ('f, 'fs) kernel \<Rightarrow> ('f, 'fs) kernel" where
  "loaded_into api sys im c r k =
     (case r of
        Load_failed im' \<Rightarrow>
          (if pagedir_create_ok sys
           then (upd_thread c (\<lambda>th. th\<lparr>pagedir := Some (space im')\<rparr>) k)\<lparr>active_pagedir := Some (space im')\<rparr> else k)
            \<lparr>fs := load_effects api im im' (fs k)\<rparr>
      | Load_succeeded eip sp im' \<Rightarrow>
          (upd_thread c (\<lambda>th. th\<lparr>pagedir := Some (space im'), exec_file := loaded_file im'\<rparr>) k)
            \<lparr>active_pagedir := Some (space im'), fs := load_effects api im im' (fs k)\<rparr>)"

lemma start_process_steps:
  assumes "start_process api sys im k = Inr (entry, k')"
  obtains th file_name r b k2 k3 cp where "pages k (running k) = Some th" "load sys file_name im = Inr r"
    "k2 = loaded_into api sys im (running k) r k \<or>
     k2 = upd_child (parent th) (tid th) (\<lambda>c. c\<lparr>load_status := b\<rparr>) (loaded_into api sys im (running k) r k)"
    "sema_up api wait_load wait_load_update (running k) k2 = Inr k3"
    "k' = k3\<lparr>cmd_pages := cp\<rparr> \<or> thread_exit api (k3\<lparr>cmd_pages := cp\<rparr>) = Inr k'"
proof -
  obtain c where "thread_current k = Inr c" using assms by (auto simp: start_process_def bnd_eq_Inr)
  then have cur: "thread_current k = Inr (running k)" using thread_current_running by metis
  obtain th where th: "thread_at k (running k) = Inr th"
    using assms cur by (auto simp: start_process_def bnd_eq_Inr)
  obtain file_name where fn: "cmd_pages k (start_aux th) = Some file_name"
    using assms cur th by (auto simp: start_process_def split: option.splits)
  obtain r where r: "load sys file_name im = Inr r"
    using assms cur th fn by (auto simp: start_process_def bnd_eq_Inr)
  let ?k1 = "loaded_into api sys im (running k) r k"
  have "\<exists>success ent. bnd (if parent th \<noteq> 0 then bnd (find_child ?k1 (parent th) (tid th)) (\<lambda>c.
        Inr (upd_child (parent th) (tid th) (\<lambda>c. c\<lparr>load_status := success\<rparr>) ?k1)) else Inr ?k1) (\<lambda>k2.
      bnd (sema_up api wait_load wait_load_update (running k) k2) (\<lambda>k3.
      let k4 = k3\<lparr>cmd_pages := (cmd_pages k3)(start_aux th := None)\<rparr> in
      if \<not> success then bnd (thread_exit api k4) (\<lambda>k5. Inr (None, k5)) else Inr (ent, k4))) = Inr (entry, k')"
  proof (cases r)
    case (Load_failed im')
    then show ?thesis
      using assms cur th fn r unfolding loaded_into_def Load_failed load_result.case
      by (intro exI [of _ False]) (simp add: start_process_def split del: if_split)
  next
    case (Load_succeeded eip sp im')
    then show ?thesis
      using assms cur th fn r unfolding loaded_into_def Load_succeeded load_result.case
      by (intro exI [of _ True] exI [of _ "Some (eip, sp)"]) (simp add: start_process_def split del: if_split)
  qed
  then obtain success ent k2 k3 where k2: "(if parent th \<noteq> 0 then bnd (find_child ?k1 (parent th) (tid th)) (\<lambda>c.
        Inr (upd_child (parent th) (tid th) (\<lambda>c. c\<lparr>load_status := success\<rparr>) ?k1)) else Inr ?k1) = Inr k2"
    and k3: "sema_up api wait_load wait_load_update (running k) k2 = Inr k3"
    and e: "(let k4 = k3\<lparr>cmd_pages := (cmd_pages k3)(start_aux th := None)\<rparr> in
      if \<not> success then bnd (thread_exit api k4) (\<lambda>k5. Inr (None, k5)) else Inr (ent, k4)) = Inr (entry, k')"
    by (auto simp: bnd_eq_Inr)
  show thesis
  proof (rule that [OF _ r _ k3])
    show "pages k (running k) = Some th" using th by (simp add: thread_at_Inr)
    show "k2 = ?k1 \<or> k2 = upd_child (parent th) (tid th) (\<lambda>c. c\<lparr>load_status := success\<rparr>) ?k1"
      using k2 by (auto simp: bnd_eq_Inr split: if_splits)
    show "k' = k3\<lparr>cmd_pages := (cmd_pages k3)(start_aux th := None)\<rparr> \<or>
        thread_exit api (k3\<lparr>cmd_pages := (cmd_pages k3)(start_aux th := None)\<rparr>) = Inr k'"
      using e by (auto simp: Let_def bnd_eq_Inr split: if_splits)
  qed
qed

lemma start_process_memory:
  assumes "start_process api sys im k = Inr (entry, k')" "memory_inv (phys_base sys) i k"
    and "sys_ok sys" "space im = (\<lambda>_. None)"
  shows "memory_inv (phys_base sys) i k'"
  using assms(1)
proof (rule start_process_steps)
  fix th file_name r b k2 k3 cp
  let ?k1 = "loaded_into api sys im (running k) r k"
  assume th: "pages k (running k) = Some th" and r: "load sys file_name im = Inr r"
    and k2: "k2 = ?k1 \<or> k2 = upd_child (parent th) (tid th) (\<lambda>c. c\<lparr>load_status := b\<rparr>) ?k1"
    and k3: "sema_up api wait_load wait_load_update (running k) k2 = Inr k3"
    and k': "k' = k3\<lparr>cmd_pages := cp\<rparr> \<or> thread_exit api (k3\<lparr>cmd_pages := cp\<rparr>) = Inr k'"
  have "user_range (phys_base sys) (space (result_image r))"
    using load_confines_process [OF assms(3) _ r] assms(4) by (auto simp: user_only_def user_range_def)
  then have "memory_inv (phys_base sys) i ((upd_thread (running k) f k)\<lparr>active_pagedir := Some (space (result_image r))\<rparr>)"
    if "\<And>th. pagedir (f th) = Some (space (result_image r))" for f
    using that th assms(2) by (intro memory_new_space) (auto intro: memory_handover)
  then have "memory_inv (phys_base sys) i ?k1"
    using assms(2) by (cases r) (auto simp: loaded_into_def)
  then have "memory_inv (phys_base sys) i k3" using sema_up_memory [OF k3] k2 by auto
  then show ?thesis using k' thread_exit_memory [of api "k3\<lparr>cmd_pages := cp\<rparr>" k'] by auto
qed

end
