(* ===== verification/Kernel_Runs.thy ===== *)
theory Kernel_Runs
  imports Kernel_Memory
begin

section \<open>Runs of the whole kernel\<close>

text \<open>
  Assignment 6.2 from the start of the machine on: the boot sequence, and then any interleaving of what processes,
  devices and the kernel's own threads do. A step is what a thread does until it returns to user mode, sleeps
  or ends, or a timer interrupt; the interrupts that follow are then on again.
\<close>

subsection \<open>Booting\<close>

text \<open>
  The calls that start the scheduler, in the order in which the processor comes to them if no timer interrupt
  arrives in between: \<^verbatim>\<open>thread_init\<close> and \<^verbatim>\<open>thread_start\<close>, which sleeps until the idle thread has
  started and called \<^verbatim>\<open>sema_up\<close>; the idle thread then blocks and the initial thread goes on. The semaphore is on the
  stack of \<^verbatim>\<open>thread_start\<close>; it is zero when that sleeps and has no other waiter.
\<close>

definition boot ::
  "('f, 'fs) api \<Rightarrow> tptr \<Rightarrow> 32 word \<Rightarrow> 32 word \<Rightarrow> ('f, 'fs) kernel \<Rightarrow> ('f, 'fs) kernel result" where
  "boot api page idle_fn idle_started k =
     bnd (thread_init k) (\<lambda>k1.
     bnd (thread_start api page True idle_fn idle_started k1) (\<lambda>k2.
     bnd (thread_current k2) (\<lambda>main.
     bnd (thread_block (intr_disable (set_resume main (intr k2) k2))) (\<lambda>k3.
     bnd (kernel_thread_begin idle_fn k3) (\<lambda>k4.
     bnd (idle_start k4) (\<lambda>k5.
     bnd (thread_unblock main k5) (\<lambda>k6.
     idle_round k6)))))))"

definition powered_on :: "('f, 'fs) kernel \<Rightarrow> bool" where
  "powered_on k \<longleftrightarrow> pages k = (\<lambda>_. None) \<and> running k \<noteq> 0 \<and> idle_thread k = 0 \<and> intr k = INTR_OFF \<and>
     \<not> in_interrupt k \<and> active_pagedir k = None"

lemmas boot_simps = boot_def thread_init_def init_thread_def Let_def allocate_tid_def PRI_DEFAULT_def PRI_MIN_def
  PRI_MAX_def thread_start_def thread_create_def thread_current_def is_thread_def alloc_frame_def thread_unblock_def
  u_upd_defs thread_block_def schedule_def next_thread_to_run_def thread_schedule_tail_def process_activate_def
  thread_at_def kernel_thread_begin_def idle_start_def idle_round_def

lemma boot_result:
  assumes "powered_on k" "frames_ok api" "page \<noteq> 0" "page \<noteq> running k" "idle_fn \<noteq> 0"
  shows "\<exists>k' m i. boot api page idle_fn idle_started k = Inr k' \<and> pages k' = [running k \<mapsto> m, page \<mapsto> i] \<and>
    status m = THREAD_RUNNING \<and> status i = THREAD_BLOCKED \<and> magic m = THREAD_MAGIC \<and> magic i = THREAD_MAGIC \<and>
    pagedir m = None \<and> pagedir i = None \<and> sleepers m = {} \<and> sleepers i = {} \<and>
    running k' = running k \<and> idle_thread k' = page \<and> initial_thread k' = running k \<and> ready_list k' = [] \<and>
    all_list k' = [running k, page] \<and> active_pagedir k' = None \<and> \<not> in_interrupt k'"
proof -
  have e: "sema_waiters empty_sema = []" by (simp add: empty_sema_def)
  have "\<exists>k'. boot api page idle_fn idle_started k = Inr k' \<and> pages k' = [running k \<mapsto> the (pages k' (running k)), page \<mapsto> the (pages k' page)] \<and>
    status (the (pages k' (running k))) = THREAD_RUNNING \<and> status (the (pages k' page)) = THREAD_BLOCKED \<and>
    magic (the (pages k' (running k))) = THREAD_MAGIC \<and> magic (the (pages k' page)) = THREAD_MAGIC \<and>
    pagedir (the (pages k' (running k))) = None \<and> pagedir (the (pages k' page)) = None \<and>
    sleepers (the (pages k' (running k))) = {} \<and> sleepers (the (pages k' page)) = {} \<and>
    running k' = running k \<and> idle_thread k' = page \<and> initial_thread k' = running k \<and> ready_list k' = [] \<and>
    all_list k' = [running k, page] \<and> active_pagedir k' = None \<and> \<not> in_interrupt k'"
    using assms by (simp add: boot_simps powered_on_def frames_ok_def status_of_def sleepers_def e fun_upd_twist)
  then show ?thesis by blast
qed

lemma boot_inv:
  assumes "pages k = [r \<mapsto> m, i \<mapsto> t]" "r \<noteq> i" "r \<noteq> 0" "i \<noteq> 0" "status m = THREAD_RUNNING" "status t = THREAD_BLOCKED"
    "magic m = THREAD_MAGIC" "magic t = THREAD_MAGIC" "pagedir m = None" "pagedir t = None" "sleepers m = {}" "sleepers t = {}"
    "running k = r" "idle_thread k = i" "initial_thread k = r" "ready_list k = []" "all_list k = [r, i]"
    "active_pagedir k = None" "\<not> in_interrupt k"
  shows "kernel_inv k" "memory_inv base i k"
proof -
  have st: "status_of k u = (if u = i then Some THREAD_BLOCKED else if u = r then Some THREAD_RUNNING else None)" for u
    using assms by (simp add: status_of_def)
  have "u_threads_ok k" using assms by (auto simp: u_threads_ok_def split: if_splits)
  moreover have "u_queue_ok k" "u_all_ok k" "u_idle_ok k" "u_cpu_ok k"
    using assms by (auto simp: u_inv_defs st)
  ultimately show "kernel_inv k"
    using assms by (auto simp: kernel_inv_def u_sched_inv_def sleepers_ok_def split: if_splits)
  show "memory_inv base i k" using assms by (auto simp: memory_defs split: if_splits)
qed

subsection \<open>Steps\<close>

text \<open>
  What \<^verbatim>\<open>interrupt.c\<close> documents of an external interrupt: its handler runs with interrupts off, and if it asks
  for it the interrupted thread yields when it is done.
\<close>

definition timer_interrupt :: "('f, 'fs) kernel \<Rightarrow> ('f, 'fs) kernel result" where
  "timer_interrupt k =
     bnd (thread_tick ((intr_disable k)\<lparr>in_interrupt := True, yield_on_return := False\<rparr>)) (\<lambda>k1.
     let k2 = k1\<lparr>in_interrupt := False\<rparr> in
     if yield_on_return k1 then thread_yield k2 else Inr k2)"

text \<open>What each thread does when it runs next; \<open>Main\<close> is the initial thread, which starts the first program.\<close>

datatype activity = Main | Idle | Starting | User | In_exec int | In_wait int

record ('f, 'fs) world =
  kern :: "('f, 'fs) kernel"
  doing :: "tptr \<Rightarrow> activity"

abbreviation now :: "('f, 'fs) world \<Rightarrow> ('f, 'fs) kernel" where
  "now w \<equiv> intr_set_level INTR_ON (kern w)"

abbreviation at_work :: "('f, 'fs) world \<Rightarrow> activity" where
  "at_work w \<equiv> doing w (running (kern w))"

definition returned_to :: "('f, 'fs) kernel \<Rightarrow> tptr \<Rightarrow> activity" where
  "returned_to k t = (if t = initial_thread k then Main else User)"

fun after_call :: "('f, 'fs) outcome \<Rightarrow> activity" where
  "after_call (Returned f k) = User"
| "after_call (Ended k) = User"
| "after_call (Sleeps_in_exec t k) = In_exec t"
| "after_call (Sleeps_in_wait t k) = In_wait t"

definition booted :: "('f, 'fs) kernel \<Rightarrow> ('f, 'fs) world" where
  "booted k = \<lparr>kern = k, doing = (\<lambda>t. if t = idle_thread k then Idle else Main)\<rparr>"

inductive kernel_step ::
  "('f, 'fs) api \<Rightarrow> ('f, 'fs) dev \<Rightarrow> x86 \<Rightarrow> ('f, 'fs) world \<Rightarrow> ('f, 'fs) world \<Rightarrow> bool"
  for api :: "('f, 'fs) api" and dev :: "('f, 'fs) dev" and x :: x86 where
  tick: "timer_interrupt (now w) = Inr k' \<Longrightarrow> kernel_step api dev x w (w\<lparr>kern := k'\<rparr>)"
| user: "at_work w = User \<Longrightarrow> active_pagedir (kern w) = Some m \<Longrightarrow> dom m' = dom m \<Longrightarrow>
    kernel_step api dev x w (w\<lparr>kern :=
      (upd_thread (running (kern w)) (\<lambda>th. th\<lparr>pagedir := Some m'\<rparr>) (now w))\<lparr>active_pagedir := Some m'\<rparr>\<rparr>)"
| call: "at_work w = User \<Longrightarrow> pages (kern w) (env_thread_page (call_exec env)) = None \<Longrightarrow>
    syscall_handler api dev env f (now w) = Inr out \<Longrightarrow>
    kernel_step api dev x w \<lparr>kern = kernel_of out,
      doing = (doing w)(env_thread_page (call_exec env) := Starting, running (kern w) := after_call out)\<rparr>"
| wake_in_exec: "at_work w = In_exec t \<Longrightarrow> exec_resume api t (now w) = Inr (r, k') \<Longrightarrow>
    kernel_step api dev x w \<lparr>kern = k',
      doing = (doing w)(running (kern w) := if r = None then In_exec t else User)\<rparr>"
| wake_in_wait: "at_work w = In_wait t \<Longrightarrow> process_wait_resume api t (now w) = Inr (r, k') \<Longrightarrow>
    kernel_step api dev x w \<lparr>kern = k',
      doing = (doing w)(running (kern w) := if r = None then In_wait t else returned_to (kern w) (running (kern w)))\<rparr>"
| start: "at_work w = Starting \<Longrightarrow> pages (kern w) (running (kern w)) = Some th \<Longrightarrow>
    kernel_thread_begin (start_function th) (now w) = Inr k1 \<Longrightarrow>
    sys_ok sys \<Longrightarrow> phys_base sys = phys_base (machine dev) \<Longrightarrow> space im = (\<lambda>_. None) \<Longrightarrow>
    start_process api sys im k1 = Inr (entry, k') \<Longrightarrow>
    kernel_step api dev x w \<lparr>kern = k', doing = (doing w)(running (kern w) := User)\<rparr>"
| fault: "at_work w = User \<Longrightarrow> r \<in> set exception_init \<Longrightarrow>
    run_handler api x cr2 f fl (now w) (reg_handler r) = Inr out \<Longrightarrow>
    kernel_step api dev x w (w\<lparr>kern := kernel_of out\<rparr>)"
| idle: "at_work w = Idle \<Longrightarrow> idle_round (now w) = Inr k' \<Longrightarrow> kernel_step api dev x w (w\<lparr>kern := k'\<rparr>)"
| main_execute: "at_work w = Main \<Longrightarrow> pages (kern w) (env_thread_page env) = None \<Longrightarrow>
    process_execute api env task (now w) = Inr (t, k') \<Longrightarrow>
    kernel_step api dev x w \<lparr>kern = k', doing = (doing w)(env_thread_page env := Starting, running (kern w) := Main)\<rparr>"
| main_wait: "at_work w = Main \<Longrightarrow> process_wait api t (now w) = Inr (r, k') \<Longrightarrow>
    kernel_step api dev x w \<lparr>kern = k', doing = (doing w)(running (kern w) := if r = None then In_wait t else Main)\<rparr>"
| main_exit: "at_work w = Main \<Longrightarrow> thread_exit api (now w) = Inr k' \<Longrightarrow> kernel_step api dev x w (w\<lparr>kern := k'\<rparr>)"

subsection \<open>What each step keeps\<close>

definition world_inv :: "32 word \<Rightarrow> ('f, 'fs) world \<Rightarrow> bool" where
  "world_inv base w \<longleftrightarrow> kernel_inv (kern w) \<and> memory_inv base (idle_thread (kern w)) (kern w) \<and>
     doing w (idle_thread (kern w)) = Idle"

lemma thread_tick_only:
  assumes "thread_tick k = Inr k'"
  shows "k' = k\<lparr>idle_ticks := idle_ticks k', kernel_ticks := kernel_ticks k', user_ticks := user_ticks k',
    thread_ticks := thread_ticks k', yield_on_return := yield_on_return k'\<rparr>"
proof -
  obtain b c d e f where "k' = k\<lparr>idle_ticks := b, thread_ticks := c\<rparr> \<or> k' = k\<lparr>user_ticks := b, thread_ticks := c\<rparr> \<or>
      k' = k\<lparr>kernel_ticks := b, thread_ticks := c\<rparr> \<or>
      k' = k\<lparr>idle_ticks := b, thread_ticks := c, yield_on_return := True\<rparr> \<or>
      k' = k\<lparr>user_ticks := b, thread_ticks := c, yield_on_return := True\<rparr> \<or>
      k' = k\<lparr>kernel_ticks := b, thread_ticks := c, yield_on_return := True\<rparr>"
    using assms by (simp add: thread_tick_def bnd_eq_Inr Let_def split: if_splits) blast+
  then show ?thesis by (elim disjE) simp_all
qed

lemma thread_yield_keeps:
  assumes "thread_yield k = Inr k'" "kernel_inv k"
  shows "kernel_inv k'"
proof -
  have i: "u_sched_inv k" using assms(2) by (simp add: kernel_inv_def)
  have "schedule (u_yielded k) = Inr k'"
    using assms(1) u_thread_current_eq [OF i]
    by (auto simp: thread_yield_def u_yielded_def Let_def intr_disable_def split: if_splits)
  moreover have "fewer_sleepers k (u_yielded k)"
    by (auto simp: fewer_sleepers_def u_yielded_def Let_def u_upd_defs)
  then have "sleepers_ok (u_yielded k)" using assms(2) fewer_sleepersD by (auto simp: kernel_inv_def)
  ultimately show ?thesis using switch_keeps u_yielded_handover [OF i] by blast
qed

lemma kernel_inv_flags [simp]:
  "kernel_inv (k\<lparr>idle_ticks := n\<rparr>) = kernel_inv k" "kernel_inv (k\<lparr>kernel_ticks := n\<rparr>) = kernel_inv k"
  "kernel_inv (k\<lparr>user_ticks := n\<rparr>) = kernel_inv k" "kernel_inv (k\<lparr>thread_ticks := v\<rparr>) = kernel_inv k"
  "kernel_inv (k\<lparr>in_interrupt := b\<rparr>) = kernel_inv k" "kernel_inv (k\<lparr>yield_on_return := b\<rparr>) = kernel_inv k"
  by (simp_all add: kernel_inv_def u_sched_inv_def u_inv_defs sleepers_ok_def status_of_def)

lemma timer_interrupt_keeps:
  assumes "timer_interrupt k = Inr k'" "kernel_inv k" "memory_inv base i k"
  shows "kernel_inv k' \<and> memory_inv base i k'"
proof -
  let ?k0 = "(intr_disable k)\<lparr>in_interrupt := True, yield_on_return := False\<rparr>"
  obtain k1 where k1: "thread_tick ?k0 = Inr k1"
    and k': "(if yield_on_return k1 then thread_yield (k1\<lparr>in_interrupt := False\<rparr>) else Inr (k1\<lparr>in_interrupt := False\<rparr>)) = Inr k'"
    using assms(1) by (auto simp: timer_interrupt_def bnd_eq_Inr Let_def)
  have i0: "kernel_inv ?k0" using assms(2) by (simp add: u_intr_disable_eq)
  have "kernel_inv k1" by (subst thread_tick_only [OF k1]) (use i0 in simp)
  moreover have "memory_inv base i (k1\<lparr>in_interrupt := False\<rparr>)"
    by (subst thread_tick_only [OF k1]) (use assms(3) in \<open>simp add: memory_defs intr_set_level_def intr_disable_def\<close>)
  ultimately show ?thesis
    using k' thread_yield_keeps [of "k1\<lparr>in_interrupt := False\<rparr>" k'] thread_yield_memory [of "k1\<lparr>in_interrupt := False\<rparr>" k' base i]
    by (auto intro: memory_handover split: if_splits)
qed

lemma timer_interrupt_served:
  assumes "kernel_inv k"
  shows "\<exists>k'. timer_interrupt k = Inr k'"
proof -
  let ?k0 = "(intr_disable k)\<lparr>in_interrupt := True, yield_on_return := False\<rparr>"
  have i0: "kernel_inv ?k0" using assms by (simp add: u_intr_disable_eq)
  then have s0: "u_sched_inv ?k0" by (simp add: kernel_inv_def)
  obtain th where "pages ?k0 (running ?k0) = Some th" using u_running_page [OF s0] by blast
  moreover have "running ?k0 \<noteq> 0" using u_sched_invD(7) [OF s0] by (simp add: is_thread_def)
  ultimately obtain k1 where k1: "thread_tick ?k0 = Inr k1"
    using u_thread_current_eq [OF s0] by (simp add: thread_tick_def Let_def thread_at_def)
  have "kernel_inv k1" by (subst thread_tick_only [OF k1]) (use i0 in simp)
  then have "kernel_inv (k1\<lparr>in_interrupt := False\<rparr>)" by simp
  then have "u_sched_inv (k1\<lparr>in_interrupt := False\<rparr>)" by (simp only: kernel_inv_def)
  then have "\<exists>k'. thread_yield (k1\<lparr>in_interrupt := False\<rparr>) = Inr k'" using u_thread_yield_eq by fastforce
  then show ?thesis using k1 by (auto simp: timer_interrupt_def Let_def)
qed

lemma start_process_keeps:
  assumes "start_process api sys im k = Inr (entry, k')" "sema_ok api" "kernel_inv k" "running k \<noteq> idle_thread k"
  shows "kernel_inv k'"
  using assms(1)
proof (rule start_process_steps)
  fix th file_name r b k2 k3 cp
  let ?k1 = "loaded_into api sys im (running k) r k"
  assume k2: "k2 = ?k1 \<or> k2 = upd_child (parent th) (tid th) (\<lambda>c. c\<lparr>load_status := b\<rparr>) ?k1"
    and k3: "sema_up api wait_load wait_load_update (running k) k2 = Inr k3"
    and k': "k' = k3\<lparr>cmd_pages := cp\<rparr> \<or> thread_exit api (k3\<lparr>cmd_pages := cp\<rparr>) = Inr k'"
  have k1: "kernel_inv ?k1" "running ?k1 = running k" "idle_thread ?k1 = idle_thread k"
    using assms(3) by (auto simp: loaded_into_def intro!: kernel_inv_upd split: load_result.splits)
  then have "kernel_inv k2" "running k2 = running k" "idle_thread k2 = idle_thread k"
    using k2 upd_child_keeps by (auto simp: upd_child_def)
  then have "kernel_inv k3" "running k3 = running k" "idle_thread k3 = idle_thread k"
    using sema_up_keeps [OF k3 assms(2)] by auto
  then show ?thesis using k' thread_exit_keeps [of api "k3\<lparr>cmd_pages := cp\<rparr>" k'] assms(2,4) by auto
qed

lemma run_handler_keeps:
  assumes "run_handler api x cr2 f fl k h = Inr out" "sema_ok api" "kernel_inv k" "running k \<noteq> idle_thread k"
  shows "kernel_inv (kernel_of out)"
proof -
  have "kernel_inv (kernel_of out)" if "kill api x f k0 = Inr out" "kernel_inv k0" "running k0 \<noteq> idle_thread k0" for k0
    using that exit_keeps [OF _ assms(2)] by (auto simp: kill_def bnd_eq_Inr split: if_splits)
  then show ?thesis using assms by (cases h) (auto simp: run_handler_def page_fault_def Let_def)
qed

lemma new_page_not_idle: "kernel_inv k \<Longrightarrow> pages k page = None \<Longrightarrow> page \<noteq> idle_thread k"
  using u_sched_inv_sets(7) [of k] by (auto simp: kernel_inv_def status_of_def)

lemma world_inv_now:
  assumes "world_inv (phys_base (machine dev)) w"
  shows "kernel_inv (now w)" "memory_inv (phys_base (machine dev)) (idle_thread (now w)) (now w)"
    "at_work w \<noteq> Idle \<Longrightarrow> running (now w) \<noteq> idle_thread (now w)"
  using assms by (auto simp: world_inv_def)

text \<open>A step of a thread that is not the idle thread.\<close>

lemma world_inv_thread:
  assumes "world_inv base w" "at_work w \<noteq> Idle" "kernel_inv k'" "memory_inv base (idle_thread (kern w)) k'"
    and "\<And>t. t \<noteq> running (kern w) \<Longrightarrow> t = idle_thread (kern w) \<Longrightarrow> d t = doing w t"
  shows "world_inv base \<lparr>kern = k', doing = d\<rparr>"
proof -
  have i: "idle_thread k' = idle_thread (kern w)" using assms(4) by (simp add: memory_defs)
  moreover have "running (kern w) \<noteq> idle_thread (kern w)" using assms(1,2) by (auto simp: world_inv_def)
  ultimately show ?thesis using assms by (auto simp: world_inv_def)
qed

lemma world_inv_kern:
  assumes "world_inv base w" "kernel_inv k'" "memory_inv base (idle_thread (kern w)) k'"
  shows "world_inv base (w\<lparr>kern := k'\<rparr>)"
  using assms by (auto simp: world_inv_def memory_defs)

lemma user_range_dom: "user_range base m \<longleftrightarrow> (\<forall>a \<in> dom m. 4096 \<le> unat a \<and> unat a < unat base)"
  by (auto simp: user_range_def)

lemma kernel_step_keeps:
  assumes "kernel_step api dev x w w'" "sema_ok api" "frames_ok api" "world_inv (phys_base (machine dev)) w"
  shows "world_inv (phys_base (machine dev)) w'"
  using assms(1)
proof cases
  note n = world_inv_now [OF assms(4)] and thr = world_inv_thread [OF assms(4)] and krn = world_inv_kern [OF assms(4)]
  note ki = n(1) [simplified] and mi = n(2) [simplified]
  note new = new_page_not_idle [OF ki]
  {
    case (tick k')
    show ?thesis unfolding tick(1) using timer_interrupt_keeps [OF tick(2) n(1,2)] by (intro krn) simp_all
  next
    case (user m m')
    have "active_pagedir (kern w) = Option.bind (pages (kern w) (running (kern w))) pagedir"
      using mi by (simp add: memory_defs)
    then have "Option.bind (pages (kern w) (running (kern w))) pagedir = Some m" using user(3) by simp
    then obtain th where th: "pages (kern w) (running (kern w)) = Some th" "pagedir th = Some m"
      by (auto simp only: bind_eq_Some_conv)
    have "confined (phys_base (machine dev)) (kern w)" using mi by (simp add: memory_inv_def handover_ok_def)
    then have "user_range (phys_base (machine dev)) m" using th unfolding confined_def by blast
    then have m: "user_range (phys_base (machine dev)) m'" using user(4) by (simp add: user_range_dom)
    have k: "kernel_inv (upd_thread (running (kern w)) (\<lambda>th. th\<lparr>pagedir := Some m'\<rparr>) (now w))"
      by (rule kernel_inv_upd [OF n(1)]) simp_all
    have "memory_inv (phys_base (machine dev)) (idle_thread (kern w))
        ((upd_thread (running (now w)) (\<lambda>th. th\<lparr>pagedir := Some m'\<rparr>) (now w))\<lparr>active_pagedir := Some m'\<rparr>)"
      by (rule memory_new_space) (use memory_handover [OF n(2)] m th(1) in auto)
    then show ?thesis unfolding user(1) using k by (intro krn) simp_all
  next
    case (call env f out)
    have "kernel_inv (kernel_of out)"
      using syscall_keeps_invariant [OF assms(2,3) n(1) _ _ call(4)] n(3) call(2,3) by simp
    moreover have "memory_inv (phys_base (machine dev)) (idle_thread (kern w)) (kernel_of out)"
      using syscall_memory [OF call(4) n(2)] call(3) by simp
    ultimately show ?thesis unfolding call(1) using call(2) new [OF call(3)] by (intro thr) auto
  next
    case (wake_in_exec t r k')
    then show ?thesis
      using exec_resume_keeps [OF wake_in_exec(3) assms(2) n(1)] exec_resume_memory [OF wake_in_exec(3) n(2)] n(3)
      unfolding wake_in_exec(1) by (intro thr) simp_all
  next
    case (wake_in_wait t r k')
    then show ?thesis
      using process_wait_resume_keeps [OF wake_in_wait(3) assms(2) n(1)] process_wait_memory(1) [OF wake_in_wait(3) n(2)] n(3)
      unfolding wake_in_wait(1) by (intro thr) simp_all
  next
    case (start th k1 sys im entry k')
    have k1: "k1 = now w" using start(4) by (simp add: kernel_thread_begin_def intr_set_level_def split: if_splits)
    have "kernel_inv k'"
      using start_process_keeps [OF start(8) assms(2)] n(1,3) start(2) k1 by simp
    moreover have "memory_inv (phys_base (machine dev)) (idle_thread (kern w)) k'"
      using start_process_memory [OF start(8) _ start(5,7)] n(2) start(6) k1 by simp
    ultimately show ?thesis unfolding start(1) using start(2) by (intro thr) simp_all
  next
    case (fault r cr2 f fl out)
    then show ?thesis
      using run_handler_keeps [OF fault(4) assms(2) n(1)] run_handler_memory [OF fault(4) n(2)] n(3)
      unfolding fault(1) by (intro krn) simp_all
  next
    case (idle k')
    have "thread_block (intr_disable (now w)) = Inr k'" using idle(3) by (simp add: idle_round_def)
    then have "kernel_inv k'" "memory_inv (phys_base (machine dev)) (idle_thread (kern w)) k'"
      using thread_block_keeps n(1) thread_block_memory memory_handover [OF n(2)] by (fastforce simp: u_intr_disable_eq)+
    then show ?thesis unfolding idle(1) by (rule krn)
  next
    case (main_execute env task t k')
    then show ?thesis
      using process_execute_keeps [OF main_execute(4) assms(3) n(1)] process_execute_memory [OF main_execute(4) n(2)]
        new [OF main_execute(3)]
      unfolding main_execute(1) by (intro thr) auto
  next
    case (main_wait t r k')
    then show ?thesis
      using process_wait_keeps [OF main_wait(3) assms(2) n(1)] process_wait_memory(2) [OF main_wait(3) n(2)] n(3)
      unfolding main_wait(1) by (intro thr) simp_all
  next
    case (main_exit k')
    then show ?thesis
      using thread_exit_keeps [OF main_exit(3) assms(2) n(1)] thread_exit_memory [OF main_exit(3) n(2)] n(3)
      unfolding main_exit(1) by (intro krn) simp_all
  }
qed

lemma reachable_world_inv:
  assumes "(kernel_step api dev x)\<^sup>*\<^sup>* w w'" "sema_ok api" "frames_ok api" "world_inv (phys_base (machine dev)) w"
  shows "world_inv (phys_base (machine dev)) w'"
  using assms(1,4) by (induction rule: rtranclp_induct) (auto intro: kernel_step_keeps assms(2,3))

subsection \<open>From the start of the machine on\<close>

text \<open>
  C30: The kernel comes up. Started with interrupts off and no other thread, the boot sequence fails no
  assertion: afterwards the initial thread runs, the idle thread is blocked and known to the scheduler, nobody is
  ready, both are in the list of all threads and the invariant of the kernel holds.
\<close>
theorem boot_establishes_invariant:
  assumes "powered_on k" and "frames_ok api" and "page \<noteq> 0" and "page \<noteq> running k" and "idle_fn \<noteq> 0"
  shows "\<exists>k'. boot api page idle_fn idle_started k = Inr k' \<and> kernel_inv k' \<and> running k' = running k \<and>
    initial_thread k' = running k \<and> idle_thread k' = page \<and> status_of k' page = Some THREAD_BLOCKED \<and>
    ready_list k' = [] \<and> all_list k' = [running k, page]"
proof -
  obtain k' m i where b: "boot api page idle_fn idle_started k = Inr k'" "pages k' = [running k \<mapsto> m, page \<mapsto> i]"
    and *: "status m = THREAD_RUNNING" "status i = THREAD_BLOCKED" "magic m = THREAD_MAGIC" "magic i = THREAD_MAGIC"
    "pagedir m = None" "pagedir i = None" "sleepers m = {}" "sleepers i = {}" "running k' = running k" "idle_thread k' = page"
    "initial_thread k' = running k" "ready_list k' = []" "all_list k' = [running k, page]" "active_pagedir k' = None"
    "\<not> in_interrupt k'"
    using boot_result [OF assms, of idle_started] by blast
  have "running k \<noteq> 0" using assms(1) by (simp add: powered_on_def)
  then have "kernel_inv k'" using boot_inv(1) [OF b(2) _ _ assms(3) *] assms(4) by blast
  then show ?thesis using b * by (simp add: status_of_def)
qed

text \<open>
  C1: Every run of the kernel is safe, and can be interrupted. After any number of steps from the boot on, of
  system calls with any arguments, sleeping calls that go on, new processes that load any file, exceptions
  and timer interrupts in any order: the ready list and the list of all threads are exact, one thread
  runs, the active page directory is that of the running thread, no process has anything mapped but user
  addresses from 4096 up, and the next timer interrupt can be served.
\<close>
theorem kernel_runs_safe:
  assumes "sema_ok api" and "frames_ok api" and "powered_on k0" and "page \<noteq> 0" and "page \<noteq> running k0" and "idle_fn \<noteq> 0"
    and "boot api page idle_fn idle_started k0 = Inr k" and "(kernel_step api dev x)\<^sup>*\<^sup>* (booted k) w"
  shows "kernel_inv (kern w) \<and>
    active_pagedir (kern w) = Option.bind (pages (kern w) (running (kern w))) pagedir \<and>
    (\<forall>t th m a. pages (kern w) t = Some th \<and> pagedir th = Some m \<and> m a \<noteq> None \<longrightarrow>
       4096 \<le> unat a \<and> unat a < unat (phys_base (machine dev))) \<and>
    (\<exists>k'. timer_interrupt (kern w) = Inr k')"
proof -
  obtain m i where b: "pages k = [running k0 \<mapsto> m, page \<mapsto> i]"
    and *: "status m = THREAD_RUNNING" "status i = THREAD_BLOCKED" "magic m = THREAD_MAGIC" "magic i = THREAD_MAGIC"
    "pagedir m = None" "pagedir i = None" "sleepers m = {}" "sleepers i = {}" "running k = running k0" "idle_thread k = page"
    "initial_thread k = running k0" "ready_list k = []" "all_list k = [running k0, page]" "active_pagedir k = None"
    "\<not> in_interrupt k"
    using boot_result [OF assms(3,2,4-6), of idle_started] assms(7) by auto
  have z: "running k0 \<noteq> page" "running k0 \<noteq> 0" using assms(3,5) by (auto simp: powered_on_def)
  have "world_inv (phys_base (machine dev)) (booted k)"
    using boot_inv [OF b z assms(4) *] *(10) by (simp add: world_inv_def booted_def)
  then have w: "world_inv (phys_base (machine dev)) w" by (rule reachable_world_inv [OF assms(8,1,2)])
  then have "confined (phys_base (machine dev)) (kern w)" "active_ok (kern w)" "kernel_inv (kern w)"
    by (simp_all add: world_inv_def memory_inv_def handover_ok_def)
  then show ?thesis
    using timer_interrupt_served [of "kern w"] unfolding confined_def active_ok_def user_range_def by blast
qed

subsection \<open>A concrete run\<close>

definition switched_on :: "(string, string list) kernel" where
  "switched_on = \<lparr>pages = (\<lambda>_. None), ready_list = [], all_list = [], idle_thread = 0, initial_thread = 0,
     running = 0x1000, idle_ticks = 0, kernel_ticks = 0, user_ticks = 0, thread_ticks = 0, next_tid = 1,
     intr = INTR_OFF, in_interrupt = False, yield_on_return = False, active_pagedir = None,
     cmd_pages = (\<lambda>_. None), fs = [], console = []\<rparr>"

lemma powered_on_sample: "powered_on switched_on" "running switched_on = 0x1000"
  by (simp_all add: powered_on_def switched_on_def)

lemma frames_ok_sample: "frames_ok sample_api"
  by (simp add: frames_ok_def sample_api_def)

theorem boot_establishes_invariant_witness:
  "\<exists>k. boot sample_api 0x2000 7 8 switched_on = Inr k \<and> kernel_inv k \<and> idle_thread k = 0x2000"
  using boot_establishes_invariant [OF powered_on_sample(1) frames_ok_sample, of "0x2000" 7 8]
  by (auto simp: powered_on_sample)

lemma main_execute_succeeds:
  assumes "kernel_inv k" "pages k 0x5000 = None"
  shows "\<exists>t k'. process_execute sample_api (call_exec sample_env) ''prog x'' k = Inr (t, k')"
proof -
  let ?k = "k\<lparr>cmd_pages := (cmd_pages k)(0x6000 \<mapsto> strlcpy ''prog x'' 4096)\<rparr>"
  have t: "strtok_r '' '' (strlcpy ''prog x'' (length ''prog x'' + 1)) = Some (0, ''prog'', ''x'')"
    by (simp add: strtok_r_def strlcpy_def)
  have i: "u_sched_inv ?k" using assms(1) by (simp add: kernel_inv_def)
  obtain par where "pages ?k (running ?k) = Some par" using u_running_page [OF i] by blast
  then obtain k2 where "thread_create sample_api 0x5000 True (Some ''prog'') PRI_DEFAULT 1 0x6000 ?k = Inr (next_tid ?k, k2)"
    using thread_create_makes_thread [OF frames_ok_sample i, of "0x5000" PRI_DEFAULT 1 _ "''prog''" "0x6000"] assms(2)
    by (auto simp: PRI_DEFAULT_def PRI_MIN_def PRI_MAX_def)
  then show ?thesis
    using t by (auto simp: process_execute_def sample_env_def sample_api_def Let_def)
qed

theorem kernel_runs_safe_witness:
  "\<exists>k t k1 (w :: (string, string list) world). boot sample_api 0x2000 7 8 switched_on = Inr k \<and>
     process_execute sample_api (call_exec sample_env) ''prog x'' (now (booted k)) = Inr (t, k1) \<and>
     timer_interrupt (intr_set_level INTR_ON k1) = Inr (kern w) \<and> kernel_inv (kern w) \<and>
     active_pagedir (kern w) = Option.bind (pages (kern w) (running (kern w))) pagedir"
proof -
  obtain k m i where b: "boot sample_api 0x2000 7 8 switched_on = Inr k" "pages k = [0x1000 \<mapsto> m, 0x2000 \<mapsto> i]"
    "running k = 0x1000" "idle_thread k = 0x2000"
    using boot_result [OF powered_on_sample(1) frames_ok_sample, of "0x2000" 7 8] by (auto simp: powered_on_sample)
  note safe = kernel_runs_safe [OF sema_ok_sample frames_ok_sample powered_on_sample(1) _ _ _ b(1), of sample_dev]
  let ?x = "\<lparr>SEL_UCSEG = 0x1b, SEL_KCSEG = 8, PF_P = 1, PF_W = 2, PF_U = 4\<rparr>"
  have k: "kernel_inv (now (booted k))" using safe [of ?x "booted k"] by (simp add: powered_on_sample booted_def)
  have p: "pages (now (booted k)) 0x5000 = None" using b(2) by (simp add: booted_def)
  obtain t k1 where e: "process_execute sample_api (call_exec sample_env) ''prog x'' (now (booted k)) = Inr (t, k1)"
    using main_execute_succeeds [OF k p] by blast
  let ?w1 = "\<lparr>kern = k1, doing = (doing (booted k))(0x5000 := Starting, 0x1000 := Main)\<rparr>"
  have s1: "kernel_step sample_api sample_dev ?x (booted k) ?w1"
    using main_execute [of "booted k" "call_exec sample_env" sample_api "''prog x''" t k1] e p b
    by (simp add: booted_def sample_env_def)
  then have r1: "(kernel_step sample_api sample_dev ?x)\<^sup>*\<^sup>* (booted k) ?w1" by blast
  then have "kernel_inv (now ?w1)" using safe [of ?x ?w1] by (simp add: powered_on_sample)
  then obtain k2 where t2: "timer_interrupt (now ?w1) = Inr k2" using timer_interrupt_served by blast
  let ?w2 = "?w1\<lparr>kern := k2\<rparr>"
  have "(kernel_step sample_api sample_dev ?x)\<^sup>*\<^sup>* (booted k) ?w2"
    using r1 tick [OF t2] by (rule rtranclp.rtrancl_into_rtrancl)
  then have "kernel_inv k2 \<and> active_pagedir k2 = Option.bind (pages k2 (running k2)) pagedir"
    using safe [of ?x ?w2] by (simp add: powered_on_sample)
  then have "boot sample_api 0x2000 7 8 switched_on = Inr k \<and>
      process_execute sample_api (call_exec sample_env) ''prog x'' (now (booted k)) = Inr (t, k1) \<and>
      timer_interrupt (intr_set_level INTR_ON k1) = Inr (kern ?w2) \<and> kernel_inv (kern ?w2) \<and>
      active_pagedir (kern ?w2) = Option.bind (pages (kern ?w2) (running (kern ?w2))) pagedir"
    using b(1) e t2 by (simp only: world.simps simp_thms)
  then show ?thesis by (intro exI) assumption
qed

end
