(* ===== verification/Shell.thy ===== *)
theory Shell
  imports C_String
begin

section \<open>The shell (Assignment 2)\<close>

text \<open>
  \<^verbatim>\<open>Assignment_2/Assignment_2_submission.c\<close>: reading a line, splitting it, the built-in commands,
  launching a command with its redirections, pipelines, and the command loop.

  The heap is modelled as far as the code can go wrong on it: an array of pointers is the list of
  its cells, growing it needs \<^verbatim>\<open>realloc\<close> to succeed, and an access outside of it is \<open>Bad_pointer\<close>.
  The table of file descriptors is a list indexed by descriptor, with \<^verbatim>\<open>open\<close>, \<^verbatim>\<open>dup\<close> and
  \<^verbatim>\<open>pipe\<close> taking the lowest free one. What the system decides (success of an allocation, the pid
  of a child, how a child changes state, what \<^verbatim>\<open>chdir\<close> and \<^verbatim>\<open>open\<close> find) is the parameter \<open>os\<close> or
  a list of answers in the state. Lengths of the arrays stay far below \<open>2 ^ 31\<close> in any address
  space the program runs in and are natural numbers. So is the length of a line: where the source
  counts it in an \<^verbatim>\<open>int\<close>, a line of \<open>2 ^ 31\<close> bytes and more would overflow, and is left out.
\<close>

datatype cell = Str string | Null | Junk

datatype desc = Terminal | Read_end nat | Write_end nat | Opened string bool

datatype wait_status = Exited_status | Signaled_status | Stopped_status

type_synonym fd_table = "desc option list"

record os =
  alloc_ok :: "nat \<Rightarrow> bool"
  array :: "int \<Rightarrow> cell list"
  chdir :: "string \<Rightarrow> string \<Rightarrow> string option"
  open_ok :: "string option \<Rightarrow> bool \<Rightarrow> bool"
  max_fds :: nat

text \<open>
  How a function ends: it returns, it ends the process with \<^verbatim>\<open>exit\<close>, or it blocks for good in
  \<^verbatim>\<open>waitpid\<close>.
\<close>

datatype 'a run = Done 'a | Terminated int | Blocked

definition seq :: "'a run result \<Rightarrow> ('a \<Rightarrow> 'b run result) \<Rightarrow> 'b run result" where
  "seq m f = bnd m (\<lambda>r. case r of Done x \<Rightarrow> f x | Terminated n \<Rightarrow> Inr (Terminated n) | Blocked \<Rightarrow> Inr Blocked)"

lemma seq_simps [simp]:
  "seq (Inl e) f = Inl e" "seq (Inr (Done x)) f = f x"
  "seq (Inr (Terminated n)) f = Inr (Terminated n)" "seq (Inr Blocked) f = Inr Blocked"
  by (simp_all add: seq_def)

lemma seq_Done [res_simps]:
  "seq m f = Inr (Done y) \<longleftrightarrow> (\<exists>x. m = Inr (Done x) \<and> f x = Inr (Done y))"
proof (cases m)
  case (Inr r)
  then show ?thesis by (cases r) simp_all
qed simp

lemma seq_assoc: "seq (seq m f) g = seq m (\<lambda>x. seq (f x) g)"
proof (cases m)
  case (Inr r)
  then show ?thesis by (cases r) simp_all
qed simp

definition SHELL_BUFSIZE :: nat where "SHELL_BUFSIZE = 1024"
definition SHELL_TOK_BUFSIZE :: nat where "SHELL_TOK_BUFSIZE = 64"
definition SHELL_TOK_DELIM :: string where "SHELL_TOK_DELIM = [CHR '' '', CHR 0x09, CHR 0x0D, CHR 0x0A, CHR 0x07]"
definition SHELL_PIPE_DELIM :: string where "SHELL_PIPE_DELIM = ''|''"
definition built_in :: "string list" where "built_in = [''cd'', ''exit'', ''help'']"

definition shell_num_builtins :: nat where "shell_num_builtins = length built_in"

definition memory_failed_error :: "'a run result" where
  "memory_failed_error = Inr (Terminated 1)"

subsection \<open>Reading a line\<close>

text \<open>
  The buffer is its list of bytes, \<open>None\<close> for one that was never written. The C string in it ends
  at the first zero byte.
\<close>

definition c_string :: "char option list \<Rightarrow> string result" where
  "c_string buf =
     (let s = takeWhile (\<lambda>c. c \<noteq> Some (CHR 0x00)) buf in
      if length s = length buf then Inl Bad_pointer
      else if None \<in> set s then Inl Uninitialized
      else Inr (map the s))"

fun read_loop :: "os \<Rightarrow> string \<Rightarrow> char option list \<Rightarrow> nat \<Rightarrow> (string \<times> string) run result" where
  "read_loop os [] buf position =
     (if position \<ge> length buf then Inl Bad_pointer
      else bnd (c_string (buf[position := Some (CHR 0x00)])) (\<lambda>s. Inr (Done (s, []))))"
| "read_loop os (c # cs) buf position =
     (if position \<ge> length buf then Inl Bad_pointer
      else if c = CHR 0x0A then
        bnd (c_string (buf[position := Some (CHR 0x00)])) (\<lambda>s. Inr (Done (s, cs)))
      else
        let buf1 = buf[position := Some c];
            position1 = position + 1 in
        if position1 \<ge> length buf1 then
          if alloc_ok os (length buf1 + SHELL_BUFSIZE)
          then read_loop os cs (buf1 @ replicate SHELL_BUFSIZE None) position1
          else memory_failed_error
        else read_loop os cs buf1 position1)"

definition shell_read_line :: "os \<Rightarrow> string \<Rightarrow> (string \<times> string) run result" where
  "shell_read_line os input =
     (if \<not> alloc_ok os SHELL_BUFSIZE then memory_failed_error
      else read_loop os input (replicate SHELL_BUFSIZE None) 0)"

subsection \<open>Splitting\<close>

text \<open>The common loop of the two splitters: \<open>save\<close> is the text \<^verbatim>\<open>strtok\<close> goes on with.\<close>

function split_loop :: "os \<Rightarrow> string \<Rightarrow> string \<Rightarrow> cell list \<Rightarrow> nat \<Rightarrow> (cell list \<times> nat) run result" where
  "split_loop os delims save toks position =
     (case strtok_r delims save of
        None \<Rightarrow>
          if position \<ge> length toks then Inl Bad_pointer
          else Inr (Done (toks[position := Null], position))
      | Some (skip, token, rest) \<Rightarrow>
          if position \<ge> length toks then Inl Bad_pointer
          else
            let toks1 = toks[position := Str token];
                position1 = position + 1 in
            if position1 \<ge> length toks1 then
              if alloc_ok os (8 * (length toks1 + SHELL_TOK_BUFSIZE))
              then split_loop os delims rest (toks1 @ replicate SHELL_TOK_BUFSIZE Junk) position1
              else memory_failed_error
            else split_loop os delims rest toks1 position1)"
  by pat_completeness auto
termination
  by (relation "measure (\<lambda>(os, d, s, t, p). length s)") (auto dest: strtok_r_shorter)

declare split_loop.simps [simp del]

definition shell_split_line :: "os \<Rightarrow> string \<Rightarrow> (cell list \<times> nat) run result" where
  "shell_split_line os line =
     (if \<not> alloc_ok os (8 * SHELL_TOK_BUFSIZE) then memory_failed_error
      else split_loop os SHELL_TOK_DELIM line (replicate SHELL_TOK_BUFSIZE Junk) 0)"

definition shell_split_pipe :: "os \<Rightarrow> string \<Rightarrow> (cell list \<times> nat) run result" where
  "shell_split_pipe os line =
     (if \<not> alloc_ok os (8 * SHELL_TOK_BUFSIZE) then memory_failed_error
      else split_loop os SHELL_PIPE_DELIM line (replicate SHELL_TOK_BUFSIZE Junk) 0)"

subsection \<open>File descriptors\<close>

definition lowest_free :: "fd_table \<Rightarrow> nat" where
  "lowest_free fds = length (takeWhile (\<lambda>d. d \<noteq> None) fds)"

definition put_fd :: "nat \<Rightarrow> desc \<Rightarrow> fd_table \<Rightarrow> fd_table" where
  "put_fd i d fds = (if i < length fds then fds[i := Some d]
                     else fds @ replicate (i - length fds) None @ [Some d])"

definition fd_at :: "int \<Rightarrow> fd_table \<Rightarrow> desc option" where
  "fd_at n fds = (if 0 \<le> n \<and> nat n < length fds then fds ! nat n else None)"

definition close_fd :: "int \<Rightarrow> fd_table \<Rightarrow> fd_table" where
  "close_fd n fds = (if 0 \<le> n \<and> nat n < length fds then fds[nat n := None] else fds)"

definition dup2_fd :: "int \<Rightarrow> nat \<Rightarrow> fd_table \<Rightarrow> fd_table" where
  "dup2_fd n m fds = (case fd_at n fds of None \<Rightarrow> fds | Some d \<Rightarrow> put_fd m d fds)"

definition dup_fd :: "int \<Rightarrow> fd_table \<Rightarrow> fd_table" where
  "dup_fd n fds = (case fd_at n fds of None \<Rightarrow> fds | Some d \<Rightarrow> put_fd (lowest_free fds) d fds)"

definition open_fd :: "os \<Rightarrow> string option \<Rightarrow> bool \<Rightarrow> fd_table \<Rightarrow> int \<times> fd_table" where
  "open_fd os name wr fds =
     (case name of
        Some n \<Rightarrow> if open_ok os name wr
          then (int (lowest_free fds), put_fd (lowest_free fds) (Opened n wr) fds) else (- 1, fds)
      | None \<Rightarrow> (- 1, fds))"

subsection \<open>The child\<close>

definition arg_at :: "cell list \<Rightarrow> int \<Rightarrow> string option result" where
  "arg_at args i =
     (if i < 0 \<or> nat i \<ge> length args then Inl Bad_pointer
      else case args ! nat i of Str s \<Rightarrow> Inr (Some s) | Null \<Rightarrow> Inr None | Junk \<Rightarrow> Inl Uninitialized)"

definition arg_string :: "cell list \<Rightarrow> int \<Rightarrow> string result" where
  "arg_string args i = bnd (arg_at args i) (\<lambda>a. case a of None \<Rightarrow> Inl Null_deref | Some s \<Rightarrow> Inr s)"

text \<open>\<open>redirect_loop n i\<close> runs the loop for the \<open>n\<close> arguments from \<open>i\<close> on.\<close>

fun redirect_loop :: "os \<Rightarrow> cell list \<Rightarrow> nat \<Rightarrow> int \<Rightarrow> fd_table \<times> int \<Rightarrow> (fd_table \<times> int) result" where
  "redirect_loop os args 0 i st = Inr st"
| "redirect_loop os args (Suc n) i (fds, cnt) =
     bnd (arg_string args i) (\<lambda>a.
     let count1 = (if a = ''&'' then cnt + 1 else cnt) in
     bnd (if a = ''>'' then
            bnd (arg_at args (i + 1)) (\<lambda>name.
            let (fd, fds1) = open_fd os name True (close_fd 1 fds) in
            Inr (dup_fd fd fds1, count1 + 2))
          else Inr (fds, count1)) (\<lambda>(fds2, count2).
     bnd (if a = ''<'' then
            bnd (arg_at args (i + 1)) (\<lambda>name.
            let (fd, fds3) = open_fd os name False (close_fd 0 fds2) in
            Inr (dup_fd fd fds3, count2 + 2))
          else Inr (fds2, count2)) (\<lambda>st'.
     redirect_loop os args n (i + 1) st')))"

fun copy_args :: "cell list \<Rightarrow> nat \<Rightarrow> nat \<Rightarrow> cell list \<Rightarrow> cell list result" where
  "copy_args args 0 i args2 = Inr args2"
| "copy_args args (Suc n) i args2 =
     (if i \<ge> length args2 \<or> i \<ge> length args then Inl Bad_pointer
      else copy_args args n (i + 1) (args2[i := args ! i]))"

text \<open>What \<^verbatim>\<open>execvp\<close> finds in an argument vector: the strings before the first null pointer.\<close>

fun read_argv :: "cell list \<Rightarrow> string list result" where
  "read_argv [] = Inl Bad_pointer"
| "read_argv (Null # cs) = Inr []"
| "read_argv (Junk # cs) = Inl Uninitialized"
| "read_argv (Str s # cs) = bnd (read_argv cs) (\<lambda>ss. Inr (s # ss))"

text \<open>
  What the child does to the descriptors it inherits: descriptor 0 becomes what \<open>inn\<close> is, descriptor 1
  what \<open>out\<close> is, and the originals are closed.
\<close>

definition child_fds :: "int \<Rightarrow> int \<Rightarrow> fd_table \<Rightarrow> fd_table" where
  "child_fds inn out fds =
     (let fds1 = (if inn \<noteq> 0 then close_fd inn (dup2_fd inn 0 fds) else fds) in
      if out \<noteq> 1 then close_fd out (dup2_fd out 1 fds1) else fds1)"

text \<open>
  The code of the child up to \<^verbatim>\<open>execvp\<close>: its descriptors and the argument vector of the new
  program. \<open>array os n\<close> is the block \<^verbatim>\<open>malloc\<close> returns for \<open>n\<close> pointers.
\<close>

definition shell_child ::
  "os \<Rightarrow> fd_table \<Rightarrow> cell list \<Rightarrow> nat \<Rightarrow> int \<Rightarrow> int \<Rightarrow> (fd_table \<times> string list) result" where
  "shell_child os fds args position inn out =
     (let size1 = int position in
      bnd (redirect_loop os args position 0 (child_fds inn out fds, 0)) (\<lambda>(fds3, cnt).
      bnd (copy_args args (nat (size1 - cnt)) 0 (array os (size1 - 1))) (\<lambda>args2.
      bnd (read_argv args2) (\<lambda>argv. Inr (fds3, argv)))))"

subsection \<open>The state of the shell\<close>

text \<open>
  \<open>args_block\<close> tells what the variable \<^verbatim>\<open>args\<close> of \<^verbatim>\<open>shell_loop\<close> points to, \<open>status\<close> is its
  variable \<^verbatim>\<open>status\<close>, \<open>None\<close> before the first assignment. \<open>forks\<close> are the results of the next calls of
  \<^verbatim>\<open>fork\<close> and \<open>waits\<close> the state changes the next calls of \<^verbatim>\<open>waitpid\<close> report. \<open>events\<close> is what the
  shell has done to the system, in order.
\<close>

datatype block = Unset | Allocated | Freed

datatype event =
    Piped nat nat
  | Forked int fd_table "cell list" nat int int
  | Waited int wait_status
  | Closed int
  | Message string

record shell =
  stdin_text :: string
  cwd :: string
  fds :: fd_table
  pipes_made :: nat
  forks :: "int list"
  waits :: "wait_status list"
  args_block :: block
  status :: "int option"
  events :: "event list"

definition emit :: "event \<Rightarrow> shell \<Rightarrow> shell" where
  "emit e sh = sh\<lparr>events := events sh @ [e]\<rparr>"

subsection \<open>Built-in commands\<close>

definition shell_cd :: "os \<Rightarrow> cell list \<Rightarrow> shell \<Rightarrow> (int \<times> shell) run result" where
  "shell_cd os args sh =
     bnd (arg_at args 1) (\<lambda>a.
     (case a of
        None \<Rightarrow> Inr (Done (1, emit (Message ''shell: expected argument to cd command'') sh))
      | Some d \<Rightarrow>
          (case chdir os (cwd sh) d of
             None \<Rightarrow> Inr (Done (1, emit (Message ''shell'') sh))
           | Some c \<Rightarrow> Inr (Done (1, sh\<lparr>cwd := c\<rparr>)))))"

text \<open>\<^verbatim>\<open>shell_help\<close> ends without a \<^verbatim>\<open>return\<close>; its caller uses the value.\<close>

definition shell_help :: "cell list \<Rightarrow> shell \<Rightarrow> int option \<times> shell" where
  "shell_help args sh =
     (None, emit (Message ''Use the man command for knowing about other commands!'')
       (fold (\<lambda>b. emit (Message b)) built_in
         (emit (Message ''The builtin commands are:'') (emit (Message ''Shell help!'') sh))))"

definition shell_exit :: "cell list \<Rightarrow> shell \<Rightarrow> (int \<times> shell) run result" where
  "shell_exit args sh = Inr (Done (0, sh))"

subsection \<open>Launching a command\<close>

text \<open>
  The \<^verbatim>\<open>waitpid\<close> loop: if it ends, the state change that ended it and those that are left.
\<close>

fun wait_loop :: "wait_status list \<Rightarrow> (wait_status \<times> wait_status list) option" where
  "wait_loop [] = None"
| "wait_loop (s # ss) = (if s = Exited_status \<or> s = Signaled_status then Some (s, ss) else wait_loop ss)"

definition shell_launch ::
  "os \<Rightarrow> cell list \<Rightarrow> nat \<Rightarrow> int \<Rightarrow> int \<Rightarrow> shell \<Rightarrow> (int \<times> shell) run result" where
  "shell_launch os args position inn out sh =
     (let (pid, rest) = (case forks sh of [] \<Rightarrow> (- 1, []) | p # ps \<Rightarrow> (p, ps));
          sh1 = sh\<lparr>forks := rest\<rparr> in
      if pid < 0 then Inr (Done (1, emit (Message ''forking error!'') sh1))
      else
        let sh2 = emit (Forked pid (fds sh1) args position inn out) sh1 in
        bnd (arg_string args (int position - 1)) (\<lambda>a.
        if a \<noteq> ''&'' then
          (case wait_loop (waits sh2) of
             None \<Rightarrow> Inr Blocked
           | Some (s, ws) \<Rightarrow> Inr (Done (1, emit (Waited pid s) (sh2\<lparr>waits := ws\<rparr>))))
        else Inr (Done (1, sh2))))"

definition execute :: "os \<Rightarrow> cell list \<Rightarrow> nat \<Rightarrow> shell \<Rightarrow> (int \<times> shell) run result" where
  "execute os args position sh =
     bnd (arg_at args 0) (\<lambda>a0.
     (case a0 of
        None \<Rightarrow> Inr (Done (1, sh))
      | Some a \<Rightarrow>
          if a = built_in ! 0 then shell_cd os args sh
          else if a = built_in ! 1 then shell_exit args sh
          else if a = built_in ! 2 then
            (case shell_help args sh of (None, sh1) \<Rightarrow> Inl Uninitialized | (Some v, sh1) \<Rightarrow> Inr (Done (v, sh1)))
          else shell_launch os args position 0 1 sh))"

subsection \<open>Pipelines and the command loop\<close>

text \<open>
  \<open>pipeline os pipes n i inn fd\<close> is the \<^verbatim>\<open>for\<close> loop with \<open>n\<close> commands to go before the last one;
  \<open>fd\<close> are the two descriptors of the last successful \<^verbatim>\<open>pipe\<close> call.
\<close>

definition make_pipe :: "os \<Rightarrow> (nat \<times> nat) option \<Rightarrow> shell \<Rightarrow> (nat \<times> nat) option \<times> shell" where
  "make_pipe os fd sh =
     (let r = lowest_free (fds sh);
          fds1 = put_fd r (Read_end (pipes_made sh)) (fds sh);
          w = lowest_free fds1 in
      if r \<ge> max_fds os \<or> w \<ge> max_fds os then (fd, sh)
      else (Some (r, w), emit (Piped r w)
              (sh\<lparr>fds := put_fd w (Write_end (pipes_made sh)) fds1, pipes_made := pipes_made sh + 1\<rparr>)))"

fun pipeline ::
  "os \<Rightarrow> cell list \<Rightarrow> nat \<Rightarrow> nat \<Rightarrow> int \<Rightarrow> (nat \<times> nat) option \<Rightarrow> shell \<Rightarrow> (int \<times> shell) run result" where
  "pipeline os pipes 0 i inn fd sh =
     bnd (arg_string pipes (int i)) (\<lambda>p.
     seq (shell_split_line os p) (\<lambda>(args, position).
     shell_launch os args position inn 1 sh))"
| "pipeline os pipes (Suc n) i inn fd sh =
     (let (fd1, sh1) = make_pipe os fd sh in
      bnd (arg_string pipes (int i)) (\<lambda>p.
      seq (shell_split_line os p) (\<lambda>(args, position).
      (case fd1 of
         None \<Rightarrow> Inl Uninitialized
       | Some (r, w) \<Rightarrow>
           seq (shell_launch os args position inn (int w) sh1) (\<lambda>(st, sh2).
           pipeline os pipes n (i + 1) (int r) fd1
             (emit (Closed (int w)) (sh2\<lparr>fds := close_fd (int w) (fds sh2)\<rparr>))))))) "

text \<open>\<^verbatim>\<open>free(args)\<close>; the array of the last \<^verbatim>\<open>shell_split_line\<close> of the round.\<close>

definition free_args :: "shell \<Rightarrow> shell result" where
  "free_args sh =
     (case args_block sh of
        Unset \<Rightarrow> Inl Uninitialized
      | Freed \<Rightarrow> Inl Bad_free
      | Allocated \<Rightarrow> Inr (sh\<lparr>args_block := Freed\<rparr>))"

text \<open>
  What is left of the line buffer as a C string after \<^verbatim>\<open>shell_split_pipe\<close>: \<^verbatim>\<open>strtok\<close> has put a zero
  byte behind the first token.
\<close>

definition after_split :: "string \<Rightarrow> string \<Rightarrow> string" where
  "after_split delims line =
     (case strtok_r delims line of None \<Rightarrow> line | Some (skip, token, rest) \<Rightarrow> take skip line @ token)"

definition shell_round :: "os \<Rightarrow> shell \<Rightarrow> shell run result" where
  "shell_round os sh =
     seq (shell_read_line os (stdin_text sh)) (\<lambda>(line, rest).
     let sh0 = sh\<lparr>stdin_text := rest\<rparr> in
     seq (shell_split_pipe os line) (\<lambda>(pipes, pipe_size).
     seq (if pipe_size = 1 then
            seq (shell_split_line os (after_split SHELL_PIPE_DELIM line)) (\<lambda>(args, position).
            seq (execute os args position (sh0\<lparr>args_block := Allocated\<rparr>)) (\<lambda>(st, sh1).
            Inr (Done (sh1\<lparr>status := Some st\<rparr>))))
          else if pipe_size > 1 then
            seq (pipeline os pipes (pipe_size - 1) 0 0 None (sh0\<lparr>args_block := Allocated\<rparr>)) (\<lambda>(st, sh1).
            Inr (Done (sh1\<lparr>status := Some st\<rparr>)))
          else Inr (Done sh0)) (\<lambda>sh1.
     bnd (free_args sh1) (\<lambda>sh2. Inr (Done sh2)))))"

text \<open>
  The command loop with fuel: \<open>None\<close> when it is still running after \<open>n\<close> rounds.
\<close>

fun shell_loop :: "os \<Rightarrow> nat \<Rightarrow> shell \<Rightarrow> shell run result option" where
  "shell_loop os 0 sh = None"
| "shell_loop os (Suc n) sh =
     (case shell_round os sh of
        Inr (Done sh1) \<Rightarrow>
          (case status sh1 of
             None \<Rightarrow> Some (Inl Uninitialized)
           | Some st \<Rightarrow> if st \<noteq> 0 then shell_loop os n sh1 else Some (Inr (Done sh1)))
      | r \<Rightarrow> Some r)"

end
