(* ===== verification/Shell_Correctness.thy ===== *)
theory Shell_Correctness
  imports Shell
begin

section \<open>Correctness of the shell's parser\<close>

text \<open>
  Reading and splitting agree with their one-line specifications for inputs of every length, the
  growth of the buffers included.
\<close>

subsection \<open>Reading\<close>

lemma take_update_last:
  assumes "p < length xs"
  shows "take (p + 1) (xs[p := y]) = take p xs @ [y]"
proof -
  have "take (p + 1) (xs[p := y]) = take p (xs[p := y]) @ [xs[p := y] ! p]"
    using assms by (simp add: take_Suc_conv_app_nth)
  then show ?thesis using assms by simp
qed

lemma takeWhile_append_stop: "\<not> P y \<Longrightarrow> takeWhile P (xs @ y # ys) = takeWhile P xs"
  by (induction xs) auto

lemma c_string_terminated:
  assumes "p < length buf" and "take p buf = map Some s"
  shows "c_string (buf[p := Some (CHR 0x00)]) = Inr (takeWhile (\<lambda>c. c \<noteq> CHR 0x00) s)"
proof -
  let ?P = "\<lambda>c. c \<noteq> Some (CHR 0x00)" and ?b = "buf[p := Some (CHR 0x00)]"
  have b: "?b = map Some s @ Some (CHR 0x00) # drop (p + 1) buf"
    using assms by (simp add: upd_conv_take_nth_drop)
  have t: "takeWhile ?P ?b = map Some (takeWhile (\<lambda>c. c \<noteq> CHR 0x00) s)"
    unfolding b by (subst takeWhile_append_stop) (simp_all add: takeWhile_map comp_def)
  have "length s = p" using assms by (metis length_map length_take min.absorb4)
  moreover have "length (takeWhile (\<lambda>c. c \<noteq> CHR 0x00) s) \<le> length s" by (rule length_takeWhile_le)
  ultimately have "length (takeWhile ?P ?b) \<noteq> length ?b" using assms(1) unfolding t by simp
  moreover have "None \<notin> set (takeWhile ?P ?b)" unfolding t by auto
  ultimately show ?thesis by (simp add: c_string_def Let_def t comp_def)
qed

lemma read_loop_spec:
  assumes "p < length buf" and "take p buf = map Some s"
  shows "read_loop os input buf p = Inr (Terminated 1) \<and> (\<exists>n. \<not> alloc_ok os n) \<or>
    read_loop os input buf p = Inr (Done (takeWhile (\<lambda>c. c \<noteq> CHR 0x00) (s @ takeWhile (\<lambda>c. c \<noteq> CHR 0x0A) input),
      drop 1 (dropWhile (\<lambda>c. c \<noteq> CHR 0x0A) input)))"
  using assms
proof (induction input arbitrary: buf p s)
  case Nil
  then show ?case by (simp add: c_string_terminated)
next
  case (Cons c cs)
  show ?case
  proof (cases "c = CHR 0x0A")
    case True
    then show ?thesis using Cons.prems by (simp add: c_string_terminated)
  next
    case False
    let ?b = "buf[p := Some c]"
    have t: "take (p + 1) ?b = map Some (s @ [c])"
      using take_update_last [OF Cons.prems(1), of "Some c"] Cons.prems(2) by simp
    have sp: "s @ takeWhile (\<lambda>c. c \<noteq> CHR 0x0A) (c # cs) = (s @ [c]) @ takeWhile (\<lambda>c. c \<noteq> CHR 0x0A) cs"
      "dropWhile (\<lambda>c. c \<noteq> CHR 0x0A) (c # cs) = dropWhile (\<lambda>c. c \<noteq> CHR 0x0A) cs"
      using False by simp_all
    show ?thesis
    proof (cases "p + 1 \<ge> length buf")
      case True
      let ?b2 = "?b @ replicate SHELL_BUFSIZE None"
      have eq: "read_loop os (c # cs) buf p = (if alloc_ok os (length ?b + SHELL_BUFSIZE)
          then read_loop os cs ?b2 (p + 1) else memory_failed_error)"
        using True False Cons.prems(1) by (simp add: Let_def)
      have b2: "p + 1 < length ?b2" "take (p + 1) ?b2 = map Some (s @ [c])"
        using t Cons.prems(1) by (simp_all add: SHELL_BUFSIZE_def)
      show ?thesis
        unfolding eq sp using Cons.IH [OF b2] by (auto simp: memory_failed_error_def simp del: append_assoc)
    next
      case more: False
      have eq: "read_loop os (c # cs) buf p = read_loop os cs ?b (p + 1)"
        using more False Cons.prems(1) by (simp add: Let_def)
      have "p + 1 < length ?b" using more by simp
      from Cons.IH [OF this t] show ?thesis unfolding eq sp .
    qed
  qed
qed

text \<open>
  C32: Reading a line. Whatever is on the input, \<^verbatim>\<open>shell_read_line\<close> never writes outside its buffer
  and never reads an uninitialised byte: it returns exactly the characters before the next newline
  or the end of the input (up to a zero byte, if the line has one) and consumes the newline, however
  often the buffer has to grow; the only other outcome is the exit after a failed allocation.
\<close>
theorem shell_read_line_spec:
  "shell_read_line os input = Inr (Terminated 1) \<and> (\<exists>n. \<not> alloc_ok os n) \<or>
   shell_read_line os input =
     Inr (Done (takeWhile (\<lambda>c. c \<noteq> CHR 0x00) (takeWhile (\<lambda>c. c \<noteq> CHR 0x0A) input),
                drop 1 (dropWhile (\<lambda>c. c \<noteq> CHR 0x0A) input)))"
proof (cases "alloc_ok os SHELL_BUFSIZE")
  case True
  have "0 < length (replicate SHELL_BUFSIZE (None :: char option))" by (simp add: SHELL_BUFSIZE_def)
  from read_loop_spec [OF this, of "[]" os input] True show ?thesis
    by (simp add: shell_read_line_def)
qed (auto simp: shell_read_line_def memory_failed_error_def)

subsection \<open>Splitting\<close>

lemma split_loop_spec:
  assumes "p < length toks"
  shows "split_loop os d save toks p = Inr (Terminated 1) \<and> (\<exists>n. \<not> alloc_ok os n) \<or>
    (\<exists>toks'. split_loop os d save toks p = Inr (Done (toks', p + length (tokens d save))) \<and>
       p + length (tokens d save) < length toks' \<and>
       take (p + length (tokens d save) + 1) toks' = take p toks @ map Str (tokens d save) @ [Null])"
  using assms
proof (induction save arbitrary: toks p rule: tokens_induct [where d = d])
  case (None s)
  then show ?case
    by (subst (2) split_loop.simps, subst split_loop.simps)
      (simp add: tokens_None take_update_last del: One_nat_def add_Suc_right)
next
  case (Some s n t r)
  let ?toks1 = "toks[p := Str t]"
  have tk: "tokens d s = t # tokens d r" using Some(1) by (rule tokens_Some)
  have t1: "take (p + 1) ?toks1 = take p toks @ [Str t]" using Some.prems by (rule take_update_last)
  show ?case
  proof (cases "p + 1 \<ge> length toks")
    case True
    let ?toks2 = "?toks1 @ replicate SHELL_TOK_BUFSIZE Junk"
    have eq: "split_loop os d s toks p = (if alloc_ok os (8 * (length ?toks1 + SHELL_TOK_BUFSIZE))
        then split_loop os d r ?toks2 (p + 1) else memory_failed_error)"
      using True Some.prems by (subst split_loop.simps) (simp add: Some(1) Let_def)
    have "take (p + 1) ?toks2 = take p toks @ [Str t]" using t1 Some.prems by simp
    moreover have "p + 1 < length ?toks2" using Some.prems by (simp add: SHELL_TOK_BUFSIZE_def)
    ultimately show ?thesis
      using Some.IH [of "p + 1" ?toks2] unfolding eq tk
      by (auto simp: memory_failed_error_def)
  next
    case False
    have eq: "split_loop os d s toks p = split_loop os d r ?toks1 (p + 1)"
      using False Some.prems by (subst split_loop.simps) (simp add: Some(1) Let_def)
    show ?thesis using Some.IH [of "p + 1" ?toks1] False t1 unfolding eq tk by simp
  qed
qed

definition splits_into :: "os \<Rightarrow> (cell list \<times> nat) run result \<Rightarrow> string list \<Rightarrow> bool" where
  "splits_into os r ts \<longleftrightarrow>
     r = Inr (Terminated 1) \<and> (\<exists>n. \<not> alloc_ok os n) \<or>
     (\<exists>cells. r = Inr (Done (cells, length ts)) \<and> take (length ts + 1) cells = map Str ts @ [Null] \<and>
        length ts < length cells)"

lemma split_loop_start:
  "splits_into os (split_loop os d save (replicate SHELL_TOK_BUFSIZE Junk) 0) (tokens d save)"
  using split_loop_spec [of 0 "replicate SHELL_TOK_BUFSIZE Junk" os d save]
  by (auto simp: splits_into_def SHELL_TOK_BUFSIZE_def)

text \<open>
  C11: Splitting agrees with the tokens of the line. Both splitters produce exactly the sequence of
  tokens of their input, in order and followed by a null pointer, for any number of tokens: the
  array has always grown before it is written. The only other outcome is the exit after a failed
  allocation.
\<close>
theorem shell_split_tokens:
  "splits_into os (shell_split_line os line) (tokens SHELL_TOK_DELIM line) \<and>
   splits_into os (shell_split_pipe os line) (tokens SHELL_PIPE_DELIM line)"
proof -
  have "\<not> alloc_ok os (8 * SHELL_TOK_BUFSIZE) \<Longrightarrow> splits_into os memory_failed_error ts" for ts
    by (auto simp: splits_into_def memory_failed_error_def)
  then show ?thesis
    using split_loop_start unfolding shell_split_line_def shell_split_pipe_def by simp
qed

lemma split_line_words:
  assumes "\<And>n. alloc_ok os n"
  shows "\<exists>cells. shell_split_line os line = Inr (Done (cells, length (tokens SHELL_TOK_DELIM line))) \<and>
    take (length (tokens SHELL_TOK_DELIM line) + 1) cells = map Str (tokens SHELL_TOK_DELIM line) @ [Null] \<and>
    length (tokens SHELL_TOK_DELIM line) < length cells"
  using split_loop_start [of os SHELL_TOK_DELIM line] assms
  by (simp add: shell_split_line_def splits_into_def)

text \<open>
  A command line is split back into the words it was typed from. Words without delimiters,
  typed with single spaces between them, come back as the argument vector, whatever their number.
\<close>
theorem split_line_roundtrip:
  assumes "\<And>n. alloc_ok os n" and "\<forall>w \<in> set ws. w \<noteq> [] \<and> set w \<inter> set SHELL_TOK_DELIM = {}"
  shows "\<exists>cells. shell_split_line os (join (CHR '' '') ws) = Inr (Done (cells, length ws)) \<and>
    take (length ws + 1) cells = map Str ws @ [Null]"
proof -
  have "tokens SHELL_TOK_DELIM (join (CHR '' '') ws) = ws"
    by (rule tokens_join [OF assms(2)]) (simp add: SHELL_TOK_DELIM_def)
  then show ?thesis using split_line_words [OF assms(1), of "join (CHR '' '') ws"] by auto
qed

definition sample_os :: os where
  "sample_os = \<lparr>alloc_ok = (\<lambda>_. True), array = (\<lambda>n. replicate (nat n) Null), chdir = (\<lambda>c d. Some d),
     open_ok = (\<lambda>n w. n \<noteq> None), max_fds = 1024\<rparr>"

lemma sample_os_fields [simp]:
  "alloc_ok sample_os n" "array sample_os i = replicate (nat i) Null" "chdir sample_os c d = Some d"
  "open_ok sample_os name w = (name \<noteq> None)" "max_fds sample_os = 1024"
  by (simp_all add: sample_os_def)

theorem split_line_roundtrip_witness:
  "\<exists>cells. shell_split_line sample_os ''ls -l'' = Inr (Done (cells, 2)) \<and>
    take 3 cells = [Str ''ls'', Str ''-l'', Null]"
  using split_line_roundtrip [of sample_os "[''ls'', ''-l'']"]
  by (simp add: SHELL_TOK_DELIM_def numeral_2_eq_2 numeral_3_eq_3)

end
