(* ===== verification/Shell_Launch.thy ===== *)
theory Shell_Launch
  imports Shell_Correctness
begin

section \<open>Correctness of launching commands\<close>

text \<open>
  What the child makes of its argument vector and its descriptors, how the stages of a pipeline are
  connected, and how the command loop ends.
\<close>

subsection \<open>The argument vector\<close>

definition args_of :: "cell list \<Rightarrow> string list \<Rightarrow> bool" where
  "args_of args ws \<longleftrightarrow> (\<exists>zs. args = map Str ws @ Null # zs)"

definition special :: "string set" where
  "special = {''&'', ''>'', ''<''}"

fun cost :: "string list \<Rightarrow> nat" where
  "cost [] = 0"
| "cost (w # ws) = (if w = ''&'' then 1 else if w = ''>'' \<or> w = ''<'' then 2 else 0) + cost ws"

definition redirect :: "os \<Rightarrow> int \<Rightarrow> bool \<Rightarrow> string list \<Rightarrow> fd_table \<Rightarrow> fd_table" where
  "redirect os n wr ws t =
     (let (fd, t1) = open_fd os (case ws of [] \<Rightarrow> None | w # _ \<Rightarrow> Some w) wr (close_fd n t) in dup_fd fd t1)"

fun redirects :: "os \<Rightarrow> string list \<Rightarrow> fd_table \<Rightarrow> fd_table" where
  "redirects os [] t = t"
| "redirects os (w # ws) t = redirects os ws
     (if w = ''>'' then redirect os 1 True ws t
      else if w = ''<'' then redirect os 0 False ws t else t)"

lemma args_of_take: "take (length ws + 1) args = map Str ws @ [Null] \<Longrightarrow> args_of args ws"
proof -
  assume "take (length ws + 1) args = map Str ws @ [Null]"
  then have "args = (map Str ws @ [Null]) @ drop (length ws + 1) args" by (metis append_take_drop_id)
  then show "args_of args ws" by (auto simp: args_of_def)
qed

lemma arg_at_words:
  assumes "args_of args ws" "ws = us @ vs"
  shows "arg_at args (int (length us)) = Inr (case vs of [] \<Rightarrow> None | v # _ \<Rightarrow> Some v)"
  using assms by (auto simp: args_of_def arg_at_def nth_append split: list.splits)

lemma redirect_loop_eq:
  assumes "args_of args (us @ vs)"
  shows "redirect_loop os args (length vs) (int (length us)) (t, c) =
    Inr (redirects os vs t, c + int (cost vs))"
  using assms
proof (induction vs arbitrary: us t c)
  case (Cons v vs)
  have a: "arg_at args (int (length us)) = Inr (Some v)"
    using arg_at_words [OF Cons.prems refl] by simp
  have b: "arg_at args (int (length us) + 1) = Inr (case vs of [] \<Rightarrow> None | w # _ \<Rightarrow> Some w)"
  proof -
    have i: "int (length us) + 1 = int (length (us @ [v]))" by simp
    show ?thesis unfolding i by (rule arg_at_words [OF Cons.prems]) simp
  qed
  let ?t = "if v = ''>'' then redirect os 1 True vs t else if v = ''<'' then redirect os 0 False vs t else t"
  have s: "arg_string args (int (length us)) = Inr v" using a by (simp add: arg_string_def)
  have "redirect_loop os args (length (v # vs)) (int (length us)) (t, c) =
      redirect_loop os args (length vs) (int (length us) + 1) (?t, c + int (cost [v]))"
    by (simp add: s b redirect_def split_beta Let_def)
  also have "\<dots> = redirect_loop os args (length vs) (int (length (us @ [v]))) (?t, c + int (cost [v]))"
    by (simp add: add.commute)
  also have "\<dots> = Inr (redirects os vs ?t, c + int (cost [v]) + int (cost vs))"
    by (rule Cons.IH) (use Cons.prems in simp)
  also have "\<dots> = Inr (redirects os (v # vs) t, c + int (cost (v # vs)))"
    by simp
  finally show ?case .
qed simp

lemma copy_args_eq:
  assumes "i + n \<le> length args" "i \<le> length args2"
  shows "copy_args args n i args2 =
    (if i + n \<le> length args2 then Inr (take i args2 @ take n (drop i args) @ drop (i + n) args2)
     else Inl Bad_pointer)"
  using assms
proof (induction n arbitrary: i args2)
  case (Suc n)
  show ?case
  proof (cases "i < length args2")
    case True
    let ?a = "args2[i := args ! i]"
    have t: "take (i + 1) ?a = take i args2 @ [args ! i]" using True by (rule take_update_last)
    have d: "args ! i # take n (drop (i + 1) args) = take (Suc n) (drop i args)"
      using Suc.prems(1) by (simp add: Cons_nth_drop_Suc [symmetric])
    have "copy_args args (Suc n) i args2 = copy_args args n (i + 1) ?a"
      using True Suc.prems(1) by simp
    also have "\<dots> = (if i + 1 + n \<le> length ?a
        then Inr (take (i + 1) ?a @ take n (drop (i + 1) args) @ drop (i + 1 + n) ?a) else Inl Bad_pointer)"
      by (rule Suc.IH) (use Suc.prems(1) True in simp_all)
    finally show ?thesis using t d by simp
  qed (use Suc.prems in simp)
qed simp

lemma read_argv_strings: "read_argv (map Str ws @ Null # cs) = Inr ws"
  by (induction ws) simp_all

lemma take_map_Str: "n \<le> length ws \<Longrightarrow> take n (map Str ws @ cs) = map Str (take n ws)"
  by (simp add: take_map)

lemma shell_child_eq:
  assumes "args_of args ws"
  shows "shell_child os t args (length ws) 0 1 =
    bnd (copy_args args (nat (int (length ws) - int (cost ws))) 0 (array os (int (length ws) - 1))) (\<lambda>args2.
    bnd (read_argv args2) (\<lambda>argv. Inr (redirects os ws t, argv)))"
  using redirect_loop_eq [of args "[]" ws os t 0] assms by (simp add: shell_child_def child_fds_def Let_def)

text \<open>The child's argument vector when its block is big enough and holds a null pointer in the right place.\<close>

lemma shell_child_argv:
  assumes "args_of args ws" "n = length ws - cost ws" "cost ws \<le> length ws"
    and "n < length (array os (int (length ws) - 1))" "array os (int (length ws) - 1) ! n = Null"
  shows "shell_child os t args (length ws) 0 1 = Inr (redirects os ws t, take n ws)"
proof -
  let ?a = "array os (int (length ws) - 1)"
  have n: "nat (int (length ws) - int (cost ws)) = n" using assms(2,3) by simp
  obtain zs where args: "args = map Str ws @ Null # zs" using assms(1) by (auto simp: args_of_def)
  have "copy_args args n 0 ?a = Inr (take n args @ drop n ?a)"
    using copy_args_eq [of 0 n args ?a] assms(2,4) args by simp
  also have "take n args = map Str (take n ws)" unfolding args using assms(2) by (intro take_map_Str) simp
  also have "drop n ?a = Null # drop (Suc n) ?a" using assms(4,5) by (metis Cons_nth_drop_Suc)
  finally show ?thesis unfolding shell_child_eq [OF assms(1)] n by (simp add: read_argv_strings)
qed

lemma cost_plain: "set ws \<inter> special = {} \<Longrightarrow> cost ws = 0"
  by (induction ws) (auto simp: special_def)

lemma cost_append: "cost (us @ vs) = cost us + cost vs"
  by (induction us) simp_all

lemma redirects_plain: "set us \<inter> special = {} \<Longrightarrow> redirects os (us @ vs) t = redirects os vs t"
  by (induction us) (auto simp: special_def)

text \<open>
  A plain command writes past its block. Without \<open>&\<close>, \<open><\<close> and \<open>>\<close> the child copies all of its
  arguments into a block it has asked for one pointer less, and never writes a terminating null
  pointer: with an allocator that gives exactly what was asked for, every such command overruns the
  heap before \<^verbatim>\<open>execvp\<close> is reached.
\<close>
theorem plain_command_overruns_block:
  assumes "args_of args ws" and "ws \<noteq> []" and "set ws \<inter> special = {}"
    and "length (array os (int (length ws) - 1)) = length ws - 1"
  shows "shell_child os t args (length ws) 0 1 = Inl Bad_pointer"
proof -
  obtain zs where args: "args = map Str ws @ Null # zs" using assms(1) by (auto simp: args_of_def)
  have "copy_args args (length ws) 0 (array os (int (length ws) - 1)) = Inl Bad_pointer"
    by (subst copy_args_eq) (use assms(2,4) args in \<open>(cases ws; simp)+\<close>)
  then show ?thesis using shell_child_eq [OF assms(1)] cost_plain [OF assms(3)] by simp
qed

theorem plain_command_overruns_block_witness:
  "shell_child sample_os [Some Terminal, Some Terminal, Some Terminal] [Str ''ls'', Str ''-l'', Null] 2 0 1 = Inl Bad_pointer"
proof -
  have "args_of [Str ''ls'', Str ''-l'', Null] [''ls'', ''-l'']" by (simp add: args_of_def)
  from plain_command_overruns_block [OF this, of sample_os] show ?thesis
    by (simp add: special_def eval_nat_numeral)
qed

subsection \<open>Redirections\<close>

lemma fd_at_put: "fd_at n (put_fd i d t) = (if n = int i then Some d else fd_at n t)"
  by (auto simp: fd_at_def put_fd_def nth_append nth_Cons' nat_eq_iff)

lemma fd_at_close: "fd_at n (close_fd m t) = (if n = m then None else fd_at n t)"
  by (auto simp: fd_at_def close_fd_def nth_list_update nat_eq_iff)

lemma lowest_free_eqI:
  assumes "\<And>j. j < k \<Longrightarrow> fd_at (int j) t \<noteq> None" and "fd_at (int k) t = None"
  shows "lowest_free t = k"
proof -
  have l: "k \<le> length t"
  proof (rule ccontr)
    assume "\<not> k \<le> length t"
    then show False using assms(1) [of "length t"] by (simp add: fd_at_def)
  qed
  have "takeWhile (\<lambda>d. d \<noteq> None) t = take k t"
  proof (rule takeWhile_eq_take_P_nth)
    show "t ! i \<noteq> None" if "i < k" "i < length t" for i
      using assms(1) [OF that(1)] that(2) by (simp add: fd_at_def)
    show "\<not> t ! k \<noteq> None" if "k < length t" using assms(2) that by (simp add: fd_at_def)
  qed
  then show ?thesis using l by (simp add: lowest_free_def)
qed

lemma fd_at_lowest_free: "fd_at (int (lowest_free t)) t = None"
proof (cases "lowest_free t < length t")
  case True
  then have "t ! lowest_free t = None"
    using nth_length_takeWhile [of "\<lambda>d. d \<noteq> None" t] by (simp add: lowest_free_def)
  then show ?thesis by (simp add: fd_at_def)
qed (simp add: fd_at_def)

lemma dup_keeps: "fd_at n t \<noteq> None \<Longrightarrow> fd_at n (dup_fd m t) = fd_at n t"
  using fd_at_lowest_free [of t] by (auto simp: dup_fd_def fd_at_put split: option.splits)

lemma redirect_output:
  assumes "open_ok os (Some name) True" and "fd_at 0 t \<noteq> None"
  shows "fd_at 1 (redirect os 1 True (name # ws) t) = Some (Opened name True)"
    and "n \<noteq> 1 \<Longrightarrow> fd_at n t \<noteq> None \<Longrightarrow> fd_at n (redirect os 1 True (name # ws) t) = fd_at n t"
proof -
  let ?t1 = "close_fd 1 t"
  have "lowest_free ?t1 = 1"
    by (rule lowest_free_eqI) (use assms(2) in \<open>simp_all add: fd_at_close\<close>)
  then have r: "redirect os 1 True (name # ws) t = dup_fd 1 (put_fd 1 (Opened name True) ?t1)"
    using assms(1) by (simp add: redirect_def open_fd_def)
  show "fd_at 1 (redirect os 1 True (name # ws) t) = Some (Opened name True)"
    unfolding r by (subst dup_keeps) (simp_all add: fd_at_put)
  show "n \<noteq> 1 \<Longrightarrow> fd_at n t \<noteq> None \<Longrightarrow> fd_at n (redirect os 1 True (name # ws) t) = fd_at n t"
    unfolding r by (subst dup_keeps) (simp_all add: fd_at_put fd_at_close)
qed

text \<open>
  A command with its output redirected runs as typed, if the heap is kind. For
  \<open>cmd > name\<close> the block has exactly one cell more than the command has words; if the allocator
  happens to give a null pointer in it, \<^verbatim>\<open>execvp\<close> gets the words of the command without the
  redirection, descriptor 1 is the file, opened for writing, and every other open descriptor is
  what it was; if the cell holds anything else, \<^verbatim>\<open>execvp\<close> reads an uninitialised pointer.
\<close>
theorem redirected_command_runs:
  assumes "args_of args (cmd @ [''>'', name])" and "set cmd \<inter> special = {}" and "name \<notin> special"
    and "open_ok os (Some name) True" and "fd_at 0 t \<noteq> None"
    and "length (array os (int (length cmd) + 1)) = length cmd + 1"
  shows "(array os (int (length cmd) + 1) ! length cmd = Null \<longrightarrow>
    (\<exists>t'. shell_child os t args (length cmd + 2) 0 1 = Inr (t', cmd) \<and>
      fd_at 1 t' = Some (Opened name True) \<and> (\<forall>n. n \<noteq> 1 \<longrightarrow> fd_at n t \<noteq> None \<longrightarrow> fd_at n t' = fd_at n t))) \<and>
    (array os (int (length cmd) + 1) ! length cmd = Junk \<longrightarrow>
     shell_child os t args (length cmd + 2) 0 1 = Inl Uninitialized)"
proof -
  let ?ws = "cmd @ [''>'', name]"
  have c: "cost ?ws = 2" using assms(3) cost_plain [OF assms(2)] by (simp add: cost_append special_def)
  have r: "redirects os ?ws t = redirect os 1 True [name] t"
    using redirects_plain [OF assms(2)] assms(3) by (simp add: special_def)
  note o = redirect_output [OF assms(4,5), where ws = "[]"]
  have 1: "\<exists>t'. shell_child os t args (length cmd + 2) 0 1 = Inr (t', cmd) \<and>
      fd_at 1 t' = Some (Opened name True) \<and> (\<forall>n. n \<noteq> 1 \<longrightarrow> fd_at n t \<noteq> None \<longrightarrow> fd_at n t' = fd_at n t)"
    if "array os (int (length cmd) + 1) ! length cmd = Null"
  proof -
    have "shell_child os t args (length ?ws) 0 1 = Inr (redirects os ?ws t, take (length cmd) ?ws)"
      by (rule shell_child_argv [OF assms(1)]) (use c assms(6) that in \<open>simp_all add: add.commute\<close>)
    then show ?thesis using r o by auto
  qed
  obtain zs where args: "args = map Str ?ws @ Null # zs" using assms(1) by (auto simp: args_of_def)
  have "shell_child os t args (length cmd + 2) 0 1 = Inl Uninitialized"
    if "array os (int (length cmd) + 1) ! length cmd = Junk"
  proof -
    let ?a = "array os (int (length cmd) + 1)"
    have "copy_args args (length cmd) 0 ?a = Inr (map Str cmd @ [Junk])"
      using copy_args_eq [of 0 "length cmd" args ?a] assms(6) that args
        Cons_nth_drop_Suc [of "length cmd" ?a] by simp
    moreover have "read_argv (map Str cmd @ [Junk]) = Inl Uninitialized" by (induction cmd) simp_all
    ultimately show ?thesis using shell_child_eq [OF assms(1), of os t] c by (simp add: add.commute)
  qed
  with 1 show ?thesis by blast
qed

theorem redirected_command_runs_witness:
  "\<exists>t'. shell_child sample_os [Some Terminal, Some Terminal, Some Terminal]
      [Str ''ls'', Str ''>'', Str ''out'', Null] 3 0 1 = Inr (t', [''ls'']) \<and> fd_at 1 t' = Some (Opened ''out'' True)"
proof -
  have ar: "args_of [Str ''ls'', Str ''>'', Str ''out'', Null] ([''ls''] @ [''>'', ''out''])" by (simp add: args_of_def)
  have "fd_at 0 [Some Terminal, Some Terminal, Some Terminal] \<noteq> None" by (simp add: fd_at_def)
  from redirected_command_runs [OF ar _ _ _ this, of sample_os] show ?thesis
    by (auto simp: special_def eval_nat_numeral)
qed

text \<open>
  A redirection that is not last corrupts the command. The child drops as many words as the
  redirections have from the end of the argument vector, whatever stands there: with words after the
  redirection the new program gets \<open>>\<close> as an argument and loses its last two.
\<close>
theorem redirection_in_the_middle:
  assumes "args_of args (cmd @ [''>'', name] @ others)" and "set cmd \<inter> special = {}" and "name \<notin> special"
    and "set others \<inter> special = {}" and "others \<noteq> []"
    and "length (array os (int (length cmd + length others) + 1)) = length cmd + length others + 1"
    and "array os (int (length cmd + length others) + 1) ! (length cmd + length others) = Null"
  shows "\<exists>t'. shell_child os t args (length cmd + length others + 2) 0 1 =
    Inr (t', cmd @ take (length others) (''>'' # name # others))"
proof -
  let ?ws = "cmd @ [''>'', name] @ others"
  have c: "cost ?ws = 2"
    using assms(3) cost_plain [OF assms(2)] cost_plain [OF assms(4)] by (simp add: cost_append special_def)
  have "shell_child os t args (length ?ws) 0 1 = Inr (redirects os ?ws t, take (length cmd + length others) ?ws)"
    by (rule shell_child_argv [OF assms(1)]) (use c assms(6,7) in \<open>simp_all add: add.commute\<close>)
  then show ?thesis by (simp add: add.commute)
qed

theorem redirection_in_the_middle_witness:
  "\<exists>t'. shell_child sample_os [Some Terminal, Some Terminal, Some Terminal]
      [Str ''sort'', Str ''>'', Str ''out'', Str ''-r'', Null] 4 0 1 = Inr (t', [''sort'', ''>''])"
proof -
  have "args_of [Str ''sort'', Str ''>'', Str ''out'', Str ''-r'', Null] ([''sort''] @ [''>'', ''out''] @ [''-r''])"
    by (simp add: args_of_def)
  from redirection_in_the_middle [OF this, of sample_os] show ?thesis
    by (simp add: special_def eval_nat_numeral)
qed

subsection \<open>Standard input and output of a child\<close>

lemma fd_at_dup2: "fd_at n t = Some d \<Longrightarrow> fd_at m (dup2_fd n i t) = (if m = int i then Some d else fd_at m t)"
  by (simp add: dup2_fd_def fd_at_put)

text \<open>
  Descriptors 0 and 1 of the child are what the launcher named, and the originals are closed, if the
  two are open and not crossed over.
\<close>

lemma child_fds_connects:
  assumes "fd_at inn t = Some din" and "fd_at out t = Some dout" and "inn \<noteq> out" and "inn \<noteq> 1" and "out \<noteq> 0"
  shows "fd_at 0 (child_fds inn out t) = Some din" and "fd_at 1 (child_fds inn out t) = Some dout"
    and "inn \<noteq> 0 \<Longrightarrow> fd_at inn (child_fds inn out t) = None"
    and "out \<noteq> 1 \<Longrightarrow> fd_at out (child_fds inn out t) = None"
    and "n \<notin> {0, 1, inn, out} \<Longrightarrow> fd_at n (child_fds inn out t) = fd_at n t"
proof -
  define t1 where "t1 = (if inn \<noteq> 0 then close_fd inn (dup2_fd inn 0 t) else t)"
  have t1: "fd_at m t1 = (if m = 0 then Some din else if m = inn \<and> inn \<noteq> 0 then None else fd_at m t)" for m
    using assms(1) fd_at_dup2 [OF assms(1), of m 0] by (auto simp: t1_def fd_at_close)
  have o: "fd_at out t1 = Some dout" using assms(2,3,5) by (simp add: t1)
  have c: "child_fds inn out t = (if out \<noteq> 1 then close_fd out (dup2_fd out 1 t1) else t1)"
    by (simp add: child_fds_def t1_def Let_def)
  have all: "fd_at m (child_fds inn out t) =
      (if m = out \<and> out \<noteq> 1 then None else if m = 1 then Some dout else fd_at m t1)" for m
    unfolding c using o fd_at_dup2 [OF o, of m 1] by (auto simp: fd_at_close)
  show "fd_at 0 (child_fds inn out t) = Some din" using assms(5) by (simp add: all t1)
  show "fd_at 1 (child_fds inn out t) = Some dout" by (simp add: all)
  show "inn \<noteq> 0 \<Longrightarrow> fd_at inn (child_fds inn out t) = None" using assms(3,4) by (simp add: all t1)
  show "out \<noteq> 1 \<Longrightarrow> fd_at out (child_fds inn out t) = None" by (simp add: all)
  show "n \<notin> {0, 1, inn, out} \<Longrightarrow> fd_at n (child_fds inn out t) = fd_at n t" by (simp add: all t1)
qed

end
