(* ===== verification/Shell_Loop.thy ===== *)
theory Shell_Loop
  imports Shell_Launch
begin

section \<open>Pipelines and the command loop\<close>

subsection \<open>Pipelines\<close>

text \<open>
  \<open>launched pid p inn out din dout es\<close>: the events \<open>es\<close> start the command typed as \<open>p\<close> in process \<open>pid\<close>. Its
  arguments are exactly the words of \<open>p\<close>; in the table \<open>t\<close> it inherits its descriptors become what
  \<^verbatim>\<open>shell_launch\<close> makes of them in the child (\<open>child_fds\<close>), so that it reads from \<open>din\<close> and writes to
  \<open>dout\<close> and the descriptors it inherited them by are closed; and unless its last word is \<open>&\<close>, it has been waited
  for and has exited or been killed by a signal.

  \<open>wired d1 k stages inn din es\<close> is what the events of a correctly connected pipeline look like from a
  stage on whose input is descriptor \<open>inn\<close> of the shell, open as \<open>din\<close>; \<open>stages\<close> are the processes and texts of
  the commands still to start. Each stage but the last writes to pipe \<open>k\<close>, made just for it, whose
  read end is the input of the next stage; the last one writes to \<open>d1\<close>; and the write end is closed in
  the shell before the next stage starts.
\<close>

definition launched :: "int \<Rightarrow> string \<Rightarrow> int \<Rightarrow> int \<Rightarrow> desc \<Rightarrow> desc \<Rightarrow> event list \<Rightarrow> bool" where
  "launched pid p inn out din dout es \<longleftrightarrow>
     (\<exists>t args. let ws = tokens SHELL_TOK_DELIM p in ws \<noteq> [] \<and> args_of args ws \<and>
        fd_at 0 (child_fds inn out t) = Some din \<and> fd_at 1 (child_fds inn out t) = Some dout \<and>
        (inn \<noteq> 0 \<longrightarrow> fd_at inn (child_fds inn out t) = None) \<and>
        (out \<noteq> 1 \<longrightarrow> fd_at out (child_fds inn out t) = None) \<and>
        (if last ws = ''&'' then es = [Forked pid t args (length ws) inn out]
         else \<exists>s \<in> {Exited_status, Signaled_status}.
           es = [Forked pid t args (length ws) inn out, Waited pid s]))"

fun wired :: "desc \<Rightarrow> nat \<Rightarrow> (int \<times> string) list \<Rightarrow> int \<Rightarrow> desc \<Rightarrow> event list \<Rightarrow> bool" where
  "wired d1 k [] inn din es \<longleftrightarrow> False"
| "wired d1 k [(pid, p)] inn din es \<longleftrightarrow> launched pid p inn 1 din d1 es"
| "wired d1 k ((pid, p) # stage # stages) inn din es \<longleftrightarrow>
     (\<exists>r w es1 es2. es = Piped r w # es1 @ Closed (int w) # es2 \<and>
        launched pid p inn (int w) din (Write_end k) es1 \<and>
        wired d1 (Suc k) (stage # stages) (int r) (Read_end k) es2)"

lemma shell_wait_loop_Some: "wait_loop ss = Some (s, ws) \<Longrightarrow> s = Exited_status \<or> s = Signaled_status"
  by (induction ss) (auto split: if_splits)

lemma arg_string_nth: "args_of args ws \<Longrightarrow> i < length ws \<Longrightarrow> arg_string args (int i) = Inr (ws ! i)"
  by (auto simp: args_of_def arg_string_def arg_at_def nth_append)

lemma arg_string_last:
  assumes "args_of args ws"
  shows "arg_string args (int (length ws) - 1) = (if ws = [] then Inl Bad_pointer else Inr (last ws))"
proof (cases ws rule: rev_cases)
  case (snoc us w)
  have "int (length ws) - 1 = int (length us)" using snoc by simp
  then show ?thesis
    using arg_at_words [OF assms snoc] snoc by (simp add: arg_string_def)
qed (simp add: arg_string_def arg_at_def)

lemma shell_launch_done:
  assumes "shell_launch os args (length ws) inn out sh = Inr (Done (st, sh'))" and "args_of args ws"
    and "forks sh = pid # pids" and "0 < pid"
  shows "ws \<noteq> []" and "fds sh' = fds sh" and "forks sh' = pids" and "pipes_made sh' = pipes_made sh"
    and "\<exists>es. events sh' = events sh @ es \<and>
      (if last ws = ''&'' then es = [Forked pid (fds sh) args (length ws) inn out]
       else \<exists>s \<in> {Exited_status, Signaled_status}. es = [Forked pid (fds sh) args (length ws) inn out, Waited pid s])"
proof -
  let ?sh2 = "emit (Forked pid (fds sh) args (length ws) inn out) (sh\<lparr>forks := pids\<rparr>)"
  have l: "shell_launch os args (length ws) inn out sh = bnd (arg_string args (int (length ws) - 1)) (\<lambda>a.
      if a \<noteq> ''&'' then
        (case wait_loop (waits ?sh2) of
           None \<Rightarrow> Inr Blocked
         | Some (s, ss) \<Rightarrow> Inr (Done (1, emit (Waited pid s) (?sh2\<lparr>waits := ss\<rparr>))))
      else Inr (Done (1, ?sh2)))"
    using assms(3,4) by (simp add: shell_launch_def Let_def)
  show ne: "ws \<noteq> []" using assms(1) unfolding l arg_string_last [OF assms(2)] by auto
  have e: "sh' = ?sh2 \<and> last ws = ''&'' \<or> last ws \<noteq> ''&'' \<and> (\<exists>s ss. wait_loop (waits ?sh2) = Some (s, ss) \<and>
      sh' = emit (Waited pid s) (?sh2\<lparr>waits := ss\<rparr>))"
    using assms(1) ne unfolding l arg_string_last [OF assms(2)]
    by (cases "last ws = ''&''"; cases "wait_loop (waits ?sh2)") auto
  then show "fds sh' = fds sh" "forks sh' = pids" "pipes_made sh' = pipes_made sh" by (auto simp: emit_def)
  show "\<exists>es. events sh' = events sh @ es \<and>
      (if last ws = ''&'' then es = [Forked pid (fds sh) args (length ws) inn out]
       else \<exists>s \<in> {Exited_status, Signaled_status}. es = [Forked pid (fds sh) args (length ws) inn out, Waited pid s])"
    using e shell_wait_loop_Some by (auto simp: emit_def)
qed

lemma split_line_done:
  assumes "shell_split_line os p = Inr (Done (args, position))"
  shows "position = length (tokens SHELL_TOK_DELIM p)" and "args_of args (tokens SHELL_TOK_DELIM p)"
proof -
  have "split_loop os SHELL_TOK_DELIM p (replicate SHELL_TOK_BUFSIZE Junk) 0 = Inr (Done (args, position))"
    using assms by (simp add: shell_split_line_def memory_failed_error_def split: if_splits)
  then have "position = length (tokens SHELL_TOK_DELIM p) \<and>
      take (length (tokens SHELL_TOK_DELIM p) + 1) args = map Str (tokens SHELL_TOK_DELIM p) @ [Null]"
    using split_loop_start [of os SHELL_TOK_DELIM p] by (auto simp: splits_into_def)
  then show "position = length (tokens SHELL_TOK_DELIM p)" "args_of args (tokens SHELL_TOK_DELIM p)"
    using args_of_take by blast+
qed

lemma split_pipe_done:
  assumes "shell_split_pipe os line = Inr (Done (pipes, m))"
  shows "m = length (tokens SHELL_PIPE_DELIM line)" and "args_of pipes (tokens SHELL_PIPE_DELIM line)"
proof -
  have "split_loop os SHELL_PIPE_DELIM line (replicate SHELL_TOK_BUFSIZE Junk) 0 = Inr (Done (pipes, m))"
    using assms by (simp add: shell_split_pipe_def memory_failed_error_def split: if_splits)
  then have "m = length (tokens SHELL_PIPE_DELIM line) \<and>
      take (length (tokens SHELL_PIPE_DELIM line) + 1) pipes = map Str (tokens SHELL_PIPE_DELIM line) @ [Null]"
    using split_loop_start [of os SHELL_PIPE_DELIM line] by (auto simp: splits_into_def)
  then show "m = length (tokens SHELL_PIPE_DELIM line)" "args_of pipes (tokens SHELL_PIPE_DELIM line)"
    using args_of_take by blast+
qed

text \<open>One stage: the shell splits its text and launches it.\<close>

lemma stage_launched:
  assumes "shell_split_line os p = Inr (Done (args, m))"
    and "shell_launch os args m inn out sh = Inr (Done (st, sh'))"
    and "forks sh = pid # pids" and "0 < pid"
    and "fd_at inn (fds sh) = Some din" and "fd_at out (fds sh) = Some dout" and "inn \<noteq> out" "inn \<noteq> 1" "out \<noteq> 0"
  shows "\<exists>es. events sh' = events sh @ es \<and> launched pid p inn out din dout es"
    and "fds sh' = fds sh" and "forks sh' = pids" and "pipes_made sh' = pipes_made sh"
proof -
  note w = split_line_done [OF assms(1)]
  note d = shell_launch_done [OF assms(2) [unfolded w(1)] w(2) assms(3,4)]
  obtain es where es: "events sh' = events sh @ es"
    "if last (tokens SHELL_TOK_DELIM p) = ''&''
     then es = [Forked pid (fds sh) args (length (tokens SHELL_TOK_DELIM p)) inn out]
     else \<exists>s \<in> {Exited_status, Signaled_status}.
       es = [Forked pid (fds sh) args (length (tokens SHELL_TOK_DELIM p)) inn out, Waited pid s]"
    using d(5) by blast
  note c = child_fds_connects [OF assms(5-9)]
  have "launched pid p inn out din dout es"
    unfolding launched_def Let_def using d(1) w(2) c(1-4) es(2) by blast
  with es(1) show "\<exists>es. events sh' = events sh @ es \<and> launched pid p inn out din dout es" by blast
  show "fds sh' = fds sh" "forks sh' = pids" "pipes_made sh' = pipes_made sh" by (rule d)+
qed

lemma make_pipe_done:
  assumes "length (fds sh) + 2 \<le> max_fds os"
  shows "\<exists>r w sh1. make_pipe os fd sh = (Some (r, w), sh1) \<and>
    fd_at (int r) (fds sh) = None \<and> fd_at (int w) (fds sh) = None \<and> r \<noteq> w \<and>
    (\<forall>n. fd_at n (fds sh1) = (if n = int w then Some (Write_end (pipes_made sh))
       else if n = int r then Some (Read_end (pipes_made sh)) else fd_at n (fds sh))) \<and>
    forks sh1 = forks sh \<and> events sh1 = events sh @ [Piped r w] \<and> length (fds sh1) \<le> length (fds sh) + 2 \<and>
    pipes_made sh1 = Suc (pipes_made sh)"
proof -
  define r where "r = lowest_free (fds sh)"
  define t1 where "t1 = put_fd r (Read_end (pipes_made sh)) (fds sh)"
  define w where "w = lowest_free t1"
  have le: "lowest_free t \<le> length t" for t by (simp add: lowest_free_def length_takeWhile_le)
  have lp: "length (put_fd i d t) \<le> Suc (length t)" if "i \<le> length t" for i d t
    using that by (simp add: put_fd_def)
  have l1: "length t1 \<le> Suc (length (fds sh))" unfolding t1_def using le lp by (simp add: r_def)
  have r: "fd_at (int r) (fds sh) = None" unfolding r_def by (rule fd_at_lowest_free)
  have w: "fd_at (int w) t1 = None" unfolding w_def by (rule fd_at_lowest_free)
  have "r < max_fds os" "w < max_fds os"
    using le [of "fds sh"] le [of t1] l1 assms(1) by (simp_all add: r_def w_def)
  then have "make_pipe os fd sh = (Some (r, w), emit (Piped r w)
      (sh\<lparr>fds := put_fd w (Write_end (pipes_made sh)) t1, pipes_made := pipes_made sh + 1\<rparr>))"
    by (simp add: make_pipe_def Let_def r_def t1_def w_def)
  moreover have "length (put_fd w (Write_end (pipes_made sh)) t1) \<le> length (fds sh) + 2"
    using lp [of w t1 "Write_end (pipes_made sh)"] le [of t1] l1 by (simp add: w_def)
  moreover have "r \<noteq> w" "fd_at (int w) (fds sh) = None"
    using w by (auto simp: t1_def fd_at_put split: if_splits)
  ultimately show ?thesis
    using r by (intro exI [of _ r] exI [of _ w]) (simp add: emit_def fd_at_put t1_def)
qed

lemma length_close_fd [simp]: "length (close_fd n t) = length t"
  by (simp add: close_fd_def)

lemma pipeline_wired:
  assumes "pipeline os pipes n i inn fd sh = Inr (Done (st, sh'))" and "args_of pipes ts" and "i + Suc n = length ts"
    and "\<forall>p \<in> set (forks sh). p > 0" and "n < length (forks sh)" and "length (fds sh) + 2 * n \<le> max_fds os"
    and "fd_at inn (fds sh) = Some d" and "fd_at 1 (fds sh) = Some d1" and "inn \<noteq> 1" and "fd_at 0 (fds sh) \<noteq> None"
  shows "\<exists>es. events sh' = events sh @ es \<and> wired d1 (pipes_made sh) (zip (forks sh) (drop i ts)) inn d es"
  using assms(1,3-)
proof (induction n arbitrary: i inn fd sh d)
  case 0
  have dr: "drop i ts = [ts ! i]" using 0(2) by (simp add: Cons_nth_drop_Suc [symmetric])
  obtain pid pids where f: "forks sh = pid # pids" "0 < pid" using 0(3,4) by (cases "forks sh") auto
  have p: "arg_string pipes (int i) = Inr (ts ! i)"
    by (rule arg_string_nth [OF assms(2)]) (use 0(2) in simp)
  obtain args m where l: "shell_split_line os (ts ! i) = Inr (Done (args, m))"
    "shell_launch os args m inn 1 sh = Inr (Done (st, sh'))"
    using 0(1) p by (auto simp: seq_Done)
  show ?case
    using stage_launched(1) [OF l f 0(6,7) 0(8,8)] by (simp add: f(1) dr)
next
  case (Suc n)
  have dr: "drop i ts = ts ! i # ts ! (i + 1) # drop (i + 2) ts"
    using Suc.prems(2) by (simp add: Cons_nth_drop_Suc)
  have dr1: "drop (i + 1) ts = ts ! (i + 1) # drop (i + 2) ts"
    using Suc.prems(2) by (simp add: Cons_nth_drop_Suc)
  obtain pid pid2 pids where f: "forks sh = pid # pid2 # pids" "0 < pid"
    using Suc.prems(3,4) by (cases "forks sh" rule: remdups_adj.cases) auto
  have p: "arg_string pipes (int i) = Inr (ts ! i)"
    by (rule arg_string_nth [OF assms(2)]) (use Suc.prems(2) in simp)
  have len: "length (fds sh) + 2 \<le> max_fds os" using Suc.prems(5) by simp
  obtain r w sh1 where mp: "make_pipe os fd sh = (Some (r, w), sh1)"
    and fr: "fd_at (int r) (fds sh) = None" "fd_at (int w) (fds sh) = None" "r \<noteq> w"
    and t: "\<forall>n. fd_at n (fds sh1) = (if n = int w then Some (Write_end (pipes_made sh))
       else if n = int r then Some (Read_end (pipes_made sh)) else fd_at n (fds sh))"
    and g: "forks sh1 = forks sh" "events sh1 = events sh @ [Piped r w]" "length (fds sh1) \<le> length (fds sh) + 2"
      "pipes_made sh1 = Suc (pipes_made sh)"
    using make_pipe_done [OF len, of fd] by (elim exE conjE) (rule that)
  have ne: "inn \<noteq> int w" "inn \<noteq> int r" "int w \<noteq> 0" "int r \<noteq> 0" "int w \<noteq> 1" "int r \<noteq> 1"
    using fr Suc.prems(6,7,9) by (metis option.distinct(1))+
  obtain args m st1 sh2 where l: "shell_split_line os (ts ! i) = Inr (Done (args, m))"
      "shell_launch os args m inn (int w) sh1 = Inr (Done (st1, sh2))"
    and rest: "pipeline os pipes n (i + 1) (int r) (Some (r, w))
      (emit (Closed (int w)) (sh2\<lparr>fds := close_fd (int w) (fds sh2)\<rparr>)) = Inr (Done (st, sh'))"
    using Suc.prems(1) mp p by (auto simp: seq_Done)
  have f1: "forks sh1 = pid # (pid2 # pids)" using f(1) g(1) by simp
  have io: "fd_at inn (fds sh1) = Some d" "fd_at (int w) (fds sh1) = Some (Write_end (pipes_made sh))"
    using t ne Suc.prems(6) by simp_all
  note d = stage_launched [OF l f1 f(2) io ne(1) Suc.prems(8) ne(3)]
  let ?sh3 = "emit (Closed (int w)) (sh2\<lparr>fds := close_fd (int w) (fds sh2)\<rparr>)"
  have s3: "forks ?sh3 = pid2 # pids" "fds ?sh3 = close_fd (int w) (fds sh1)"
    "pipes_made ?sh3 = Suc (pipes_made sh)" "events ?sh3 = events sh2 @ [Closed (int w)]"
    using d(2-4) g(4) by (simp_all add: emit_def)
  have "\<exists>es. events sh' = events ?sh3 @ es \<and>
      wired d1 (pipes_made ?sh3) (zip (forks ?sh3) (drop (i + 1) ts)) (int r) (Read_end (pipes_made sh)) es"
  proof (rule Suc.IH [OF rest])
    show "\<forall>p \<in> set (forks ?sh3). p > 0" "n < length (forks ?sh3)"
      using Suc.prems(3,4) by (simp_all add: s3 f(1))
    show "length (fds ?sh3) + 2 * n \<le> max_fds os" using Suc.prems(5) g(3) by (simp add: s3)
    show "i + 1 + Suc n = length ts" using Suc.prems(2) by simp
    show "fd_at (int r) (fds ?sh3) = Some (Read_end (pipes_made sh))" "fd_at 1 (fds ?sh3) = Some d1"
      "int r \<noteq> 1" "fd_at 0 (fds ?sh3) \<noteq> None"
      using t ne fr(3) Suc.prems(7,9) by (simp_all add: s3 fd_at_close)
  qed
  then obtain es2 where es2: "events sh' = events ?sh3 @ es2"
    "wired d1 (Suc (pipes_made sh)) ((pid2, ts ! (i + 1)) # zip pids (drop (i + 2) ts)) (int r) (Read_end (pipes_made sh)) es2"
    unfolding s3 dr1 by auto
  obtain es1 where es1: "events sh2 = events sh1 @ es1" "launched pid (ts ! i) inn (int w) d (Write_end (pipes_made sh)) es1"
    using d(1) by blast
  have "events sh' = events sh @ (Piped r w # es1 @ Closed (int w) # es2)"
    unfolding es2(1) s3 es1(1) g(2) by simp
  moreover have "wired d1 (pipes_made sh) (zip (forks sh) (drop i ts)) inn d (Piped r w # es1 @ Closed (int w) # es2)"
    unfolding f(1) dr using es1(2) es2(2) by auto
  ultimately show ?case by blast
qed


subsection \<open>The command loop\<close>

lemma split_pipe_words:
  assumes "\<And>n. alloc_ok os n"
  shows "\<exists>cells. shell_split_pipe os line = Inr (Done (cells, length (tokens SHELL_PIPE_DELIM line)))"
  using split_loop_start [of os SHELL_PIPE_DELIM line] assms
  by (auto simp: shell_split_pipe_def splits_into_def)

lemma read_line_eq:
  assumes "\<And>n. alloc_ok os n"
  shows "shell_read_line os input =
     Inr (Done (takeWhile (\<lambda>c. c \<noteq> CHR 0x00) (takeWhile (\<lambda>c. c \<noteq> CHR 0x0A) input),
                drop 1 (dropWhile (\<lambda>c. c \<noteq> CHR 0x0A) input)))"
proof -
  have "0 < length (replicate SHELL_BUFSIZE (None :: char option))" by (simp add: SHELL_BUFSIZE_def)
  from read_loop_spec [OF this, of "[]" os input] assms show ?thesis
    by (simp add: shell_read_line_def)
qed

lemma tokens_only_delims: "set s \<subseteq> set d \<Longrightarrow> tokens d s = []"
proof -
  assume "set s \<subseteq> set d"
  then have "strtok_r d s = None" by (auto simp: strtok_r_def dropWhile_eq_Nil_conv Let_def)
  then show ?thesis by (rule tokens_None)
qed

text \<open>
  A line without a command crashes the shell. Every round that is completed leaves \<^verbatim>\<open>args\<close>
  pointing to a block that has been freed. If the next line is empty or has only pipe characters,
  and also at the end of the input, nothing is assigned to \<^verbatim>\<open>args\<close> and the round frees it a second
  time; as the very first line it frees an uninitialised pointer.
\<close>
theorem empty_line_crashes:
  assumes "\<And>n. alloc_ok os n" and "shell_round os sh0 = Inr (Done sh1)" and "args_block sh = Unset"
    and "set (takeWhile (\<lambda>c. c \<noteq> CHR 0x0A) (stdin_text sh1)) \<subseteq> {CHR ''|''}"
    and "set (takeWhile (\<lambda>c. c \<noteq> CHR 0x0A) (stdin_text sh)) \<subseteq> {CHR ''|''}"
  shows "shell_round os sh1 = Inl Bad_free \<and> shell_round os sh = Inl Uninitialized"
proof -
  have "shell_round os s = bnd (free_args (s\<lparr>stdin_text := drop 1 (dropWhile (\<lambda>c. c \<noteq> CHR 0x0A) (stdin_text s))\<rparr>))
      (\<lambda>s'. Inr (Done s'))" if "set (takeWhile (\<lambda>c. c \<noteq> CHR 0x0A) (stdin_text s)) \<subseteq> {CHR ''|''}" for s
  proof -
    let ?line = "takeWhile (\<lambda>c. c \<noteq> CHR 0x00) (takeWhile (\<lambda>c. c \<noteq> CHR 0x0A) (stdin_text s))"
    have "set ?line \<subseteq> set SHELL_PIPE_DELIM"
      using that by (auto simp: SHELL_PIPE_DELIM_def dest: set_takeWhileD)
    then have "tokens SHELL_PIPE_DELIM ?line = []" by (rule tokens_only_delims)
    then obtain cells where "shell_split_pipe os ?line = Inr (Done (cells, 0))"
      using split_pipe_words [OF assms(1), of ?line] by auto
    then show ?thesis using assms(1) by (simp add: shell_round_def read_line_eq Let_def)
  qed
  moreover have "args_block sh1 = Freed"
  proof -
    obtain s where "free_args s = Inr sh1" using assms(2) by (auto simp: shell_round_def seq_Done bnd_eq_Inr Let_def)
    then show ?thesis by (auto simp: free_args_def split: block.splits)
  qed
  ultimately show ?thesis using assms(3-5) by (simp add: free_args_def)
qed

lemma simple_round:
  assumes "\<And>n. alloc_ok os n" and "stdin_text sh = line @ CHR 0x0A # rest" and "line \<noteq> []"
    and "set line \<inter> {CHR 0x0A, CHR 0x00, CHR ''|''} = {}"
  shows "\<exists>cells. take (length (tokens SHELL_TOK_DELIM line) + 1) cells = map Str (tokens SHELL_TOK_DELIM line) @ [Null] \<and>
    shell_round os sh = seq (execute os cells (length (tokens SHELL_TOK_DELIM line)) (sh\<lparr>stdin_text := rest, args_block := Allocated\<rparr>))
      (\<lambda>(st, sh1). bnd (free_args (sh1\<lparr>status := Some st\<rparr>)) (\<lambda>sh2. Inr (Done sh2)))"
proof -
  have nn: "\<forall>c \<in> set line. c \<noteq> CHR 0x0A" "\<forall>c \<in> set line. c \<noteq> CHR 0x00" using assms(4) by auto
  then have r: "shell_read_line os (stdin_text sh) = Inr (Done (line, rest))"
    unfolding read_line_eq [OF assms(1)] assms(2) by (simp add: takeWhile_append_stop)
  have st: "strtok_r SHELL_PIPE_DELIM line = Some (0, line, [])"
    using assms(3,4) by (intro strtok_r_last) (auto simp: SHELL_PIPE_DELIM_def)
  then have "tokens SHELL_PIPE_DELIM line = [line]"
    by (simp add: tokens_Some tokens_only_delims)
  then obtain pcells where p: "shell_split_pipe os line = Inr (Done (pcells, 1))"
    using split_pipe_words [OF assms(1), of line] by auto
  obtain cells where c: "shell_split_line os line = Inr (Done (cells, length (tokens SHELL_TOK_DELIM line)))"
    "take (length (tokens SHELL_TOK_DELIM line) + 1) cells = map Str (tokens SHELL_TOK_DELIM line) @ [Null]"
    using split_line_words [OF assms(1), of line] by blast
  have "shell_round os sh = seq (execute os cells (length (tokens SHELL_TOK_DELIM line)) (sh\<lparr>stdin_text := rest, args_block := Allocated\<rparr>))
      (\<lambda>(st, sh1). bnd (free_args (sh1\<lparr>status := Some st\<rparr>)) (\<lambda>sh2. Inr (Done sh2)))"
    by (simp add: shell_round_def r p c(1) after_split_def st Let_def case_prod_unfold seq_assoc)
  with c(2) show ?thesis by blast
qed

text \<open>
  The built-in commands. On a line with the command \<^verbatim>\<open>exit\<close> the loop ends with status 0 after this
  round; \<^verbatim>\<open>cd\<close> with a directory that exists changes the current directory and the loop goes on; \<^verbatim>\<open>cd\<close>
  without an argument only complains; and \<^verbatim>\<open>help\<close> makes the shell branch on the value of a
  function that returned none.
\<close>
theorem builtin_commands:
  assumes "\<And>n. alloc_ok os n" and "stdin_text sh = line @ CHR 0x0A # rest" and "line \<noteq> []"
    and "set line \<inter> {CHR 0x0A, CHR 0x00, CHR ''|''} = {}" and "tokens SHELL_TOK_DELIM line = c # ws"
  shows "(c = ''exit'' \<longrightarrow> shell_loop os (Suc n) sh =
      Some (Inr (Done (sh\<lparr>stdin_text := rest, args_block := Freed, status := Some 0\<rparr>)))) \<and>
    (c = ''cd'' \<longrightarrow> ws \<noteq> [] \<longrightarrow> chdir os (cwd sh) (hd ws) = Some d \<longrightarrow> shell_loop os (Suc n) sh =
      shell_loop os n (sh\<lparr>stdin_text := rest, cwd := d, status := Some 1, args_block := Freed\<rparr>)) \<and>
    (c = ''cd'' \<longrightarrow> ws = [] \<longrightarrow> (\<exists>m. shell_loop os (Suc n) sh =
      shell_loop os n ((emit (Message m) (sh\<lparr>stdin_text := rest\<rparr>))\<lparr>status := Some 1, args_block := Freed\<rparr>))) \<and>
    (c = ''help'' \<longrightarrow> shell_loop os (Suc n) sh = Some (Inl Uninitialized))"
proof -
  obtain cells where cells: "take (length (c # ws) + 1) cells = map Str (c # ws) @ [Null]"
    and round: "shell_round os sh = seq (execute os cells (length (c # ws)) (sh\<lparr>stdin_text := rest, args_block := Allocated\<rparr>))
      (\<lambda>(st, sh1). bnd (free_args (sh1\<lparr>status := Some st\<rparr>)) (\<lambda>sh2. Inr (Done sh2)))"
    using simple_round [OF assms(1-4)] unfolding assms(5) by blast
  have a: "args_of cells (c # ws)" by (rule args_of_take [OF cells])
  have a0: "arg_at cells 0 = Inr (Some c)" using arg_at_words [OF a, of "[]" "c # ws"] by simp
  have a1: "arg_at cells 1 = Inr (case ws of [] \<Rightarrow> None | w # _ \<Rightarrow> Some w)"
    using arg_at_words [OF a, of "[c]" ws] by simp
  note e = execute_def a0 built_in_def free_args_def emit_def
  have 1: "shell_loop os (Suc n) sh =
      Some (Inr (Done (sh\<lparr>stdin_text := rest, args_block := Freed, status := Some 0\<rparr>)))" if "c = ''exit''"
    using that by (simp add: round e shell_exit_def)
  have 2: "shell_loop os (Suc n) sh =
      shell_loop os n (sh\<lparr>stdin_text := rest, cwd := d, status := Some 1, args_block := Freed\<rparr>)"
    if "c = ''cd''" "ws \<noteq> []" "chdir os (cwd sh) (hd ws) = Some d"
    using that a1 by (cases ws) (simp_all add: round e shell_cd_def)
  have 3: "\<exists>m. shell_loop os (Suc n) sh =
      shell_loop os n ((emit (Message m) (sh\<lparr>stdin_text := rest\<rparr>))\<lparr>status := Some 1, args_block := Freed\<rparr>)"
    if "c = ''cd''" "ws = []"
    using that a1 by (intro exI [of _ "''shell: expected argument to cd command''"]) (simp add: round e shell_cd_def)
  have 4: "shell_loop os (Suc n) sh = Some (Inl Uninitialized)" if "c = ''help''"
    using that by (simp add: round e shell_help_def)
  show ?thesis using 1 2 3 4 by blast
qed

subsection \<open>Sample runs\<close>

definition sample_shell :: "string \<Rightarrow> shell" where
  "sample_shell input = \<lparr>stdin_text = input, cwd = ''/'', fds = [Some Terminal, Some Terminal, Some Terminal],
     pipes_made = 0, forks = [100, 101], waits = [Exited_status, Exited_status], args_block = Unset,
     status = None, events = []\<rparr>"

lemma sample_tokens:
  "tokens SHELL_TOK_DELIM ''cd x'' = [''cd'', ''x'']" "tokens SHELL_TOK_DELIM ''ls'' = [''ls'']"
  "tokens SHELL_TOK_DELIM ''wc'' = [''wc'']"
  using tokens_join [of "[''cd'', ''x'']" SHELL_TOK_DELIM "CHR '' ''"]
    tokens_join [of "[''ls'']" SHELL_TOK_DELIM "CHR '' ''"] tokens_join [of "[''wc'']" SHELL_TOK_DELIM "CHR '' ''"]
  by (simp_all add: SHELL_TOK_DELIM_def)

theorem builtin_commands_witness:
  "shell_loop sample_os 1 (sample_shell ''cd x\<newline>'') =
     shell_loop sample_os 0 ((sample_shell [])\<lparr>cwd := ''x'', status := Some 1, args_block := Freed\<rparr>)"
  using builtin_commands [where os = sample_os and sh = "sample_shell ''cd x\<newline>''" and line = "''cd x''"
      and rest = "[]" and c = "''cd''" and ws = "[''x'']" and d = "''x''" and n = 0]
  by (simp add: sample_shell_def sample_tokens)

lemma cd_round:
  "shell_round sample_os (sample_shell ''cd x\<newline>'') =
     Inr (Done ((sample_shell [])\<lparr>cwd := ''x'', status := Some 1, args_block := Freed\<rparr>))"
proof -
  let ?sh = "sample_shell ''cd x\<newline>''"
  obtain cells where cells: "take (length [''cd'', ''x''] + 1) cells = map Str [''cd'', ''x''] @ [Null]"
    and round: "shell_round sample_os ?sh = seq (execute sample_os cells (length [''cd'', ''x'']) (?sh\<lparr>stdin_text := [], args_block := Allocated\<rparr>))
      (\<lambda>(st, sh1). bnd (free_args (sh1\<lparr>status := Some st\<rparr>)) (\<lambda>sh2. Inr (Done sh2)))"
    using simple_round [of sample_os ?sh "''cd x''" "[]"] unfolding sample_tokens by (auto simp: sample_shell_def)
  have a: "args_of cells [''cd'', ''x'']" by (rule args_of_take [OF cells])
  have "arg_at cells 0 = Inr (Some ''cd'')" "arg_at cells 1 = Inr (Some ''x'')"
    using arg_at_words [OF a, of "[]" "[''cd'', ''x'']"] arg_at_words [OF a, of "[''cd'']" "[''x'']"] by simp_all
  then show ?thesis
    unfolding round by (simp add: execute_def built_in_def shell_cd_def free_args_def sample_shell_def)
qed

theorem empty_line_crashes_witness:
  "shell_round sample_os ((sample_shell [])\<lparr>cwd := ''x'', status := Some 1, args_block := Freed\<rparr>) = Inl Bad_free \<and>
   shell_round sample_os (sample_shell []) = Inl Uninitialized"
  using empty_line_crashes [OF _ cd_round, of "sample_shell []"] by (simp add: sample_shell_def)

lemma sample_stage:
  assumes "tokens SHELL_TOK_DELIM p = [w]" "w \<noteq> ''&''"
  shows "\<exists>cells. shell_split_line sample_os p = Inr (Done (cells, 1)) \<and> arg_string cells 0 = Inr w"
proof -
  obtain cells where c: "shell_split_line sample_os p = Inr (Done (cells, 1))" "take 2 cells = [Str w, Null]"
    using split_line_words [of sample_os p] assms(1) by (auto simp: numeral_2_eq_2)
  have "args_of cells [w]" using c(2) by (intro args_of_take) (simp add: numeral_2_eq_2)
  from arg_at_words [OF this, of "[]" "[w]"] have "arg_string cells 0 = Inr w" by (simp add: arg_string_def)
  with c(1) show ?thesis by blast
qed

lemma sample_pipe_tokens: "tokens SHELL_PIPE_DELIM ''ls|wc'' = [''ls'', ''wc'']"
  using tokens_join [of "[''ls'', ''wc'']" SHELL_PIPE_DELIM "CHR ''|''"] by (simp add: SHELL_PIPE_DELIM_def)


end
