(* ===== verification/Timer.thy ===== *)
theory Timer
  imports Prelude
begin

section \<open>The timer (Assignment 3)\<close>

text \<open>
  \<^verbatim>\<open>Assignment_3/.../timer.c\<close>: the clock, the sleeping threads, the conversions of real time into
  ticks and the calibration of the delay loop. The assignment has no \<^verbatim>\<open>thread.c\<close> of its own: the
  operations of the thread module that the timer calls, on a kernel state of any type \<open>'k\<close>, are
  fields of the parameter \<open>env\<close>, as are the list functions of Pintos.

  \<^verbatim>\<open>sleep_time\<close> is a field of \<^verbatim>\<open>struct thread\<close> that only the timer uses; it is a map from threads here.
\<close>

unbundle bit_operations_syntax

record 'k env =
  op_current :: "'k \<Rightarrow> tptr result"
  op_block :: "'k \<Rightarrow> 'k result"
  op_unblock :: "tptr \<Rightarrow> 'k \<Rightarrow> 'k result"
  op_tick :: "'k \<Rightarrow> 'k result"
  op_intr_on :: "'k \<Rightarrow> bool"
  op_set_intr :: "bool \<Rightarrow> 'k \<Rightarrow> 'k"
  insert_ordered :: "(tptr \<Rightarrow> tptr \<Rightarrow> bool) \<Rightarrow> tptr \<Rightarrow> tptr list \<Rightarrow> tptr list"
  removed_keeps_links :: bool
  TIMER_FREQ :: int
  too_many_loops :: "32 word \<Rightarrow> bool"

record 'k clock =
  kern :: 'k
  ticks :: int
  sleep_time :: "tptr \<Rightarrow> 64 word"
  sleeping_threads :: "tptr list"
  loops_per_tick :: "32 word"

subsection \<open>The clock\<close>

definition timer_init :: "'k clock \<Rightarrow> 'k clock" where
  "timer_init c = c\<lparr>sleeping_threads := []\<rparr>"

definition timer_ticks :: "'k env \<Rightarrow> 'k clock \<Rightarrow> int \<times> 'k clock" where
  "timer_ticks e c =
     (let old_level = op_intr_on e (kern c);
          c1 = c\<lparr>kern := op_set_intr e False (kern c)\<rparr>;
          t = ticks c1 in
      (t, c1\<lparr>kern := op_set_intr e old_level (kern c1)\<rparr>))"

definition timer_elapsed :: "'k env \<Rightarrow> int \<Rightarrow> 'k clock \<Rightarrow> int \<times> 'k clock" where
  "timer_elapsed e thn c = (let (t, c1) = timer_ticks e c in (i64 (t - thn), c1))"

subsection \<open>Sleeping\<close>

definition lesser_sleep :: "(tptr \<Rightarrow> 64 word) \<Rightarrow> tptr \<Rightarrow> tptr \<Rightarrow> bool" where
  "lesser_sleep st t u \<longleftrightarrow> st t < st u"

text \<open>\<open>timer_sleep\<close> goes up to the switch to another thread, \<open>timer_sleep_return\<close> is the rest.\<close>

definition timer_sleep :: "'k env \<Rightarrow> int \<Rightarrow> 'k clock \<Rightarrow> 'k clock result" where
  "timer_sleep e n c =
     (if n \<le> 0 then Inr c
      else
        let (start, c1) = timer_ticks e c in
        bnd (assert (op_intr_on e (kern c1))) (\<lambda>_.
        let c2 = c1\<lparr>kern := op_set_intr e False (kern c1)\<rparr> in
        bnd (op_current e (kern c2)) (\<lambda>cur.
        let c3 = c2\<lparr>sleep_time := (sleep_time c2)(cur := word_of_int (i64 (start + n)))\<rparr>;
            c4 = c3\<lparr>sleeping_threads :=
                   insert_ordered e (lesser_sleep (sleep_time c3)) cur (sleeping_threads c3)\<rparr> in
        bnd (op_block e (kern c4)) (\<lambda>k. Inr (c4\<lparr>kern := k\<rparr>)))))"

definition timer_sleep_return :: "'k env \<Rightarrow> 'k clock \<Rightarrow> 'k clock" where
  "timer_sleep_return e c = c\<lparr>kern := op_set_intr e True (kern c)\<rparr>"

text \<open>
  The loop of the interrupt handler. It steps from a list element it has just removed, which the
  documentation of the list module does not allow; \<open>removed_keeps_links\<close> tells whether the links of
  a removed element are still there.
\<close>

fun wake_loop :: "'k env \<Rightarrow> tptr list \<Rightarrow> 'k clock \<Rightarrow> 'k clock result" where
  "wake_loop e [] c = Inr c"
| "wake_loop e (t # ts) c =
     (if sleep_time c t > word_of_int (ticks c) then Inr c
      else
        let c1 = c\<lparr>sleep_time := (sleep_time c)(t := 0)\<rparr> in
        bnd (op_unblock e t (kern c1)) (\<lambda>k.
        let c2 = c1\<lparr>kern := k, sleeping_threads := remove1 t (sleeping_threads c1)\<rparr> in
        if \<not> removed_keeps_links e then Inl Bad_pointer
        else wake_loop e ts c2))"

definition timer_interrupt :: "'k env \<Rightarrow> 'k clock \<Rightarrow> 'k clock result" where
  "timer_interrupt e c =
     (let c1 = c\<lparr>ticks := i64 (ticks c + 1)\<rparr> in
      bnd (op_tick e (kern c1)) (\<lambda>k.
      wake_loop e (sleeping_threads c1) (c1\<lparr>kern := k\<rparr>)))"

subsection \<open>Real time\<close>

text \<open>\<open>busy_wait\<close> gives the number of rounds the loop makes.\<close>

function busy_wait :: "int \<Rightarrow> nat" where
  "busy_wait loops = (if loops > 0 then Suc (busy_wait (i64 (loops - 1))) else 0)"
  by pat_completeness auto
termination
proof (relation "measure nat")
  fix loops :: int
  assume "loops > 0"
  then show "(i64 (loops - 1), loops) \<in> measure nat" using i64_le [of "loops - 1"] by simp
qed simp

declare busy_wait.simps [simp del]

definition real_time_delay :: "'k clock \<Rightarrow> 'k env \<Rightarrow> int \<Rightarrow> int \<Rightarrow> nat result" where
  "real_time_delay c e num denom =
     bnd (assert (denom smod 1000 = 0)) (\<lambda>_.
     if denom sdiv 1000 = 0 then Inl Divide_error
     else Inr (busy_wait
       (i64 (i64 (uint (loops_per_tick c) * num) sdiv 1000 * TIMER_FREQ e) sdiv (denom sdiv 1000))))"

definition real_time_sleep :: "'k env \<Rightarrow> int \<Rightarrow> int \<Rightarrow> 'k clock \<Rightarrow> 'k clock result" where
  "real_time_sleep e num denom c =
     (if denom = 0 then Inl Divide_error
      else
        let n = i64 (num * TIMER_FREQ e) sdiv denom in
        bnd (assert (op_intr_on e (kern c))) (\<lambda>_.
        if n > 0 then timer_sleep e n c
        else bnd (real_time_delay c e num denom) (\<lambda>_. Inr c)))"

definition timer_msleep :: "'k env \<Rightarrow> int \<Rightarrow> 'k clock \<Rightarrow> 'k clock result" where
  "timer_msleep e ms = real_time_sleep e ms 1000"

definition timer_usleep :: "'k env \<Rightarrow> int \<Rightarrow> 'k clock \<Rightarrow> 'k clock result" where
  "timer_usleep e us = real_time_sleep e us (1000 * 1000)"

definition timer_nsleep :: "'k env \<Rightarrow> int \<Rightarrow> 'k clock \<Rightarrow> 'k clock result" where
  "timer_nsleep e ns = real_time_sleep e ns (1000 * 1000 * 1000)"

definition timer_mdelay :: "'k env \<Rightarrow> int \<Rightarrow> 'k clock \<Rightarrow> nat result" where
  "timer_mdelay e ms c = real_time_delay c e ms 1000"

definition timer_udelay :: "'k env \<Rightarrow> int \<Rightarrow> 'k clock \<Rightarrow> nat result" where
  "timer_udelay e us c = real_time_delay c e us (1000 * 1000)"

definition timer_ndelay :: "'k env \<Rightarrow> int \<Rightarrow> 'k clock \<Rightarrow> nat result" where
  "timer_ndelay e ns c = real_time_delay c e ns (1000 * 1000 * 1000)"

subsection \<open>Calibration\<close>

text \<open>
  \<open>now i\<close> is the value of \<^verbatim>\<open>ticks\<close> after \<open>i\<close> rounds of a loop, which the timer interrupt advances meanwhile. The
  measurement starts at \<open>i\<close>; it is \<open>None\<close> if no tick ever comes.
\<close>

partial_function (option) await_tick :: "(nat \<Rightarrow> int) \<Rightarrow> int \<Rightarrow> nat \<Rightarrow> nat option" where
  "await_tick now start i = (if now i = start then await_tick now start (Suc i) else Some i)"

definition measure_loops :: "(nat \<Rightarrow> int) \<Rightarrow> nat \<Rightarrow> 32 word \<Rightarrow> bool option" where
  "measure_loops now i loops =
     (case await_tick now (now i) i of
        None \<Rightarrow> None
      | Some j \<Rightarrow> let start = now j; k = j + busy_wait (uint loops) in Some (start \<noteq> now k))"

text \<open>
  What the measurement finds is the field \<open>too_many_loops\<close> of \<open>env\<close>. The loops that use it have fuel, one unit for
  each round; \<open>None\<close> is a loop that has not ended.
\<close>

fun calibrate_grow :: "(32 word \<Rightarrow> bool) \<Rightarrow> nat \<Rightarrow> 32 word \<Rightarrow> 32 word result option" where
  "calibrate_grow too_many 0 l = None"
| "calibrate_grow too_many (Suc n) l =
     (if \<not> too_many (push_bit 1 l) then
        let l1 = push_bit 1 l in
        if l1 = 0 then Some (Inl Assertion_failed) else calibrate_grow too_many n l1
      else Some (Inr l))"

fun calibrate_refine ::
  "(32 word \<Rightarrow> bool) \<Rightarrow> 32 word \<Rightarrow> nat \<Rightarrow> 32 word \<Rightarrow> 32 word \<Rightarrow> 32 word option" where
  "calibrate_refine too_many high_bit 0 test_bit l = None"
| "calibrate_refine too_many high_bit (Suc n) test_bit l =
     (if test_bit = drop_bit 10 high_bit then Some l
      else calibrate_refine too_many high_bit n (drop_bit 1 test_bit)
        (if \<not> too_many (high_bit OR test_bit) then l OR test_bit else l))"

definition timer_calibrate :: "'k env \<Rightarrow> nat \<Rightarrow> 'k clock \<Rightarrow> 'k clock result option" where
  "timer_calibrate e fuel c =
     (if \<not> op_intr_on e (kern c) then Some (Inl Assertion_failed)
      else
        case calibrate_grow (too_many_loops e) fuel (push_bit 10 1) of
          None \<Rightarrow> None
        | Some (Inl f) \<Rightarrow> Some (Inl f)
        | Some (Inr high_bit) \<Rightarrow>
            (case calibrate_refine (too_many_loops e) high_bit fuel (drop_bit 1 high_bit) high_bit of
               None \<Rightarrow> None
             | Some l \<Rightarrow> Some (Inr (c\<lparr>loops_per_tick := l\<rparr>))))"

end
