(* ===== verification/Alarm.thy ===== *)
theory Alarm
  imports Timer
begin

section \<open>Correctness of the alarm clock\<close>

text \<open>
  What the timer relies on in a thread module is the locale \<open>thread_module\<close>: \<open>inv\<close> is the module's
  invariant, \<open>cur\<close> its running thread, \<open>asleep k t\<close> says that \<open>t\<close> is blocked until somebody unblocks it,
  and \<open>may_block\<close> that the running thread may block, \<open>ready\<close> that a thread is in the ready list. The lemmas
  about the timer are proved from these laws; \<open>Alarm_Round_Robin\<close> shows that a thread module keeps them.
\<close>

definition insert_ok :: "((tptr \<Rightarrow> tptr \<Rightarrow> bool) \<Rightarrow> tptr \<Rightarrow> tptr list \<Rightarrow> tptr list) \<Rightarrow> bool" where
  "insert_ok ins \<longleftrightarrow> (\<forall>lt x xs. mset (ins lt x xs) = add_mset x (mset xs)) \<and>
     (\<forall>(key :: tptr \<Rightarrow> 64 word) x xs. sorted (map key xs) \<longrightarrow>
        sorted (map key (ins (\<lambda>a b. key a < key b) x xs)))"

text \<open>
  The invariant of the alarm clock: the list holds sleeping threads without repetition, in the order
  of their wake-up times, all of them in the future.
\<close>

definition alarm_inv :: "('k \<Rightarrow> bool) \<Rightarrow> ('k \<Rightarrow> tptr \<Rightarrow> bool) \<Rightarrow> 'k clock \<Rightarrow> bool" where
  "alarm_inv good asleep c \<longleftrightarrow> good (kern c) \<and> 0 \<le> ticks c \<and> distinct (sleeping_threads c) \<and>
     sorted (map (sleep_time c) (sleeping_threads c)) \<and>
     (\<forall>t \<in> set (sleeping_threads c). asleep (kern c) t \<and> ticks c < uint (sleep_time c t))"

definition sleeps_until :: "'k clock \<Rightarrow> tptr \<Rightarrow> int \<Rightarrow> bool" where
  "sleeps_until c t w \<longleftrightarrow> t \<in> set (sleeping_threads c) \<and> uint (sleep_time c t) = w"

text \<open>No sleeper is due at the next tick, or the links of a removed element are still there.\<close>

definition wakes_safely :: "'k env \<Rightarrow> 'k clock \<Rightarrow> bool" where
  "wakes_safely e c \<longleftrightarrow> removed_keeps_links e \<or> (\<forall>t \<in> set (sleeping_threads c). ticks c + 1 < uint (sleep_time c t))"

text \<open>
  What can happen while threads sleep: a timer interrupt, another thread that goes to sleep, and
  whatever else the kernel does that keeps its invariant and wakes nobody who sleeps in the timer.
\<close>

inductive alarm_step ::
  "'k env \<Rightarrow> ('k \<Rightarrow> bool) \<Rightarrow> ('k \<Rightarrow> tptr \<Rightarrow> bool) \<Rightarrow> ('k \<Rightarrow> bool) \<Rightarrow> 'k clock \<Rightarrow> 'k clock \<Rightarrow> bool"
  for e good asleep may_block
where
  interrupts: "ticks c + 1 < 2 ^ 63 \<Longrightarrow> timer_interrupt e c = Inr c' \<Longrightarrow> alarm_step e good asleep may_block c c'"
| sleeps: "may_block (kern c) \<Longrightarrow> op_intr_on e (kern c) \<Longrightarrow> ticks c + n < 2 ^ 63 \<Longrightarrow>
    timer_sleep e n c = Inr c' \<Longrightarrow> alarm_step e good asleep may_block c c'"
| others: "good k \<Longrightarrow> (\<forall>t \<in> set (sleeping_threads c). asleep k t) \<Longrightarrow>
    alarm_step e good asleep may_block c (c\<lparr>kern := k\<rparr>)"

lemma mem_dropWhile_sorted:
  fixes f :: "_ \<Rightarrow> 64 word"
  assumes "sorted (map f xs)"
  shows "t \<in> set (dropWhile (\<lambda>t. uint (f t) \<le> n) xs) \<longleftrightarrow> t \<in> set xs \<and> \<not> uint (f t) \<le> n"
  using assms
proof (induction xs)
  case (Cons x xs)
  then have le: "uint (f x) \<le> uint (f y)" if "y \<in> set xs" for y using that by (simp add: word_le_def)
  show ?case
  proof (cases "uint (f x) \<le> n")
    case True
    then show ?thesis using Cons by auto
  next
    case False
    then have "\<not> uint (f y) \<le> n" if "y \<in> set (x # xs)" for y using that le [of y] by auto
    then show ?thesis using False by auto
  qed
qed simp

locale thread_module =
  fixes e :: "'k env" and inv :: "'k \<Rightarrow> bool" and cur :: "'k \<Rightarrow> tptr"
    and asleep ready :: "'k \<Rightarrow> tptr \<Rightarrow> bool" and may_block :: "'k \<Rightarrow> bool"
  assumes current: "inv k \<Longrightarrow> op_current e k = Inr (cur k)"
    and awake: "inv k \<Longrightarrow> \<not> asleep k (cur k)"
    and set_intr: "inv (op_set_intr e l k) = inv k" "cur (op_set_intr e l k) = cur k"
      "asleep (op_set_intr e l k) = asleep k" "may_block (op_set_intr e l k) = may_block k"
      "op_intr_on e (op_set_intr e l k) = l"
    and block: "inv k \<Longrightarrow> may_block k \<Longrightarrow> \<not> op_intr_on e k \<Longrightarrow>
      \<exists>k'. op_block e k = Inr k' \<and> inv k' \<and> (\<forall>t. asleep k' t \<longleftrightarrow> asleep k t \<or> t = cur k)"
    and unblock: "inv k \<Longrightarrow> asleep k t \<Longrightarrow>
      \<exists>k'. op_unblock e t k = Inr k' \<and> inv k' \<and> (\<forall>u. asleep k' u \<longleftrightarrow> asleep k u \<and> u \<noteq> t) \<and>
        ready k' t \<and> (\<forall>u. ready k u \<longrightarrow> ready k' u)"
    and tick: "inv k \<Longrightarrow> \<exists>k'. op_tick e k = Inr k' \<and> inv k' \<and> asleep k' = asleep k"
    and inserts: "inv k \<Longrightarrow> insert_ok (insert_ordered e)"
begin

lemma insert_facts:
  assumes "inv k"
  shows "set (insert_ordered e lt x xs) = insert x (set xs)"
    and "distinct (insert_ordered e lt x xs) \<longleftrightarrow> distinct (x # xs)"
    and "sorted (map (key :: tptr \<Rightarrow> 64 word) xs) \<Longrightarrow>
      sorted (map key (insert_ordered e (\<lambda>a b. key a < key b) x xs))"
proof -
  have m: "mset (insert_ordered e lt x xs) = mset (x # xs)"
    using inserts [OF assms] by (simp add: insert_ok_def)
  then show "set (insert_ordered e lt x xs) = insert x (set xs)"
    by (metis list.simps(15) mset_eq_setD)
  show "distinct (insert_ordered e lt x xs) \<longleftrightarrow> distinct (x # xs)"
    using m by (metis mset_eq_imp_distinct_iff)
  show "sorted (map key xs) \<Longrightarrow> sorted (map key (insert_ordered e (\<lambda>a b. key a < key b) x xs))"
    using inserts [OF assms] by (simp add: insert_ok_def)
qed

lemma uint_wake: "0 \<le> x \<Longrightarrow> x < 2 ^ 63 \<Longrightarrow> uint (word_of_int (i64 x) :: 64 word) = x"
  by (simp add: i64_id uint_word_of_int)

lemma timer_sleep_sleeps:
  assumes "alarm_inv inv asleep c" "may_block (kern c)" "op_intr_on e (kern c)" "0 < n" "ticks c + n < 2 ^ 63"
  shows "\<exists>c'. timer_sleep e n c = Inr c' \<and> alarm_inv inv asleep c' \<and> ticks c' = ticks c \<and>
    sleeps_until c' (cur (kern c)) (ticks c + n) \<and>
    (\<forall>t w. sleeps_until c t w \<longrightarrow> sleeps_until c' t w)"
proof -
  let ?k2 = "op_set_intr e False (op_set_intr e (op_intr_on e (kern c)) (op_set_intr e False (kern c)))"
  let ?t = "cur (kern c)"
  have i: "inv (kern c)" using assms(1) by (simp add: alarm_inv_def)
  have k2: "inv ?k2" "may_block ?k2" "\<not> op_intr_on e ?k2" "cur ?k2 = ?t" "asleep ?k2 = asleep (kern c)"
    using i assms(2) by (simp_all add: set_intr)
  obtain k3 where k3: "op_block e ?k2 = Inr k3" "inv k3" "\<forall>t. asleep k3 t \<longleftrightarrow> asleep (kern c) t \<or> t = ?t"
    using block [OF k2(1-3)] k2(4,5) by auto
  define st where "st = (sleep_time c)(?t := word_of_int (i64 (ticks c + n)))"
  define xs where "xs = insert_ordered e (lesser_sleep st) ?t (sleeping_threads c)"
  have w: "uint (st ?t) = ticks c + n"
    using assms(1,4,5) uint_wake [of "ticks c + n"] by (simp add: st_def alarm_inv_def)
  have fresh: "?t \<notin> set (sleeping_threads c)" using assms(1) awake [OF i] by (auto simp: alarm_inv_def)
  then have st: "st t = sleep_time c t" if "t \<in> set (sleeping_threads c)" for t using that by (auto simp: st_def)
  have ts: "timer_sleep e n c = Inr (c\<lparr>kern := k3, sleep_time := st, sleeping_threads := xs\<rparr>)"
    using assms(3,4) current [OF k2(1)] k2(4) k3(1)
    by (simp add: timer_sleep_def timer_ticks_def Let_def set_intr st_def xs_def)
  have xset: "set xs = insert ?t (set (sleeping_threads c))" unfolding xs_def by (rule insert_facts(1) [OF i])
  moreover have "distinct xs"
    unfolding xs_def insert_facts(2) [OF i] using assms(1) fresh by (simp add: alarm_inv_def)
  moreover have "map st (sleeping_threads c) = map (sleep_time c) (sleeping_threads c)" using st by simp
  then have "sorted (map st (sleeping_threads c))" using assms(1) by (simp only: alarm_inv_def)
  then have "sorted (map st (insert_ordered e (\<lambda>a b. st a < st b) ?t (sleeping_threads c)))"
    by (rule insert_facts(3) [OF i])
  then have "sorted (map st xs)" by (simp only: xs_def lesser_sleep_def [abs_def])
  ultimately have "alarm_inv inv asleep (c\<lparr>kern := k3, sleep_time := st, sleeping_threads := xs\<rparr>)"
    using assms(1,4) k3(2,3) w st by (auto simp: alarm_inv_def)
  with ts w st xset show ?thesis by (auto simp: sleeps_until_def)
qed

lemma wake_loop_wakes:
  assumes "inv (kern c)" "0 \<le> ticks c" "ticks c < 2 ^ 63" "sleeping_threads c = ts" "distinct ts"
    "sorted (map (sleep_time c) ts)" "\<forall>t \<in> set ts. asleep (kern c) t"
    "removed_keeps_links e \<or> (\<forall>t \<in> set ts. ticks c < uint (sleep_time c t))"
  shows "\<exists>c'. wake_loop e ts c = Inr c' \<and> inv (kern c') \<and> ticks c' = ticks c \<and>
    sleeping_threads c' = dropWhile (\<lambda>t. uint (sleep_time c t) \<le> ticks c) ts \<and>
    (\<forall>t \<in> set (sleeping_threads c'). sleep_time c' t = sleep_time c t) \<and>
    (\<forall>u. asleep (kern c') u \<longleftrightarrow> asleep (kern c) u \<and> \<not> (u \<in> set ts \<and> uint (sleep_time c u) \<le> ticks c)) \<and>
    (\<forall>u. ready (kern c) u \<longrightarrow> ready (kern c') u) \<and>
    (\<forall>u \<in> set ts. uint (sleep_time c u) \<le> ticks c \<longrightarrow> ready (kern c') u)"
  using assms
proof (induction ts arbitrary: c)
  case (Cons t ts)
  have cmp: "sleep_time c t > word_of_int (ticks c) \<longleftrightarrow> ticks c < uint (sleep_time c t)"
    using Cons.prems(2,3) by (simp add: word_less_def uint_word_of_int)
  show ?case
  proof (cases "ticks c < uint (sleep_time c t)")
    case True
    have "ticks c < uint (sleep_time c u)" if "u \<in> set (t # ts)" for u
      using that True Cons.prems(6) by (auto simp: word_le_def)
    then have "dropWhile (\<lambda>t. uint (sleep_time c t) \<le> ticks c) (t # ts) = t # ts"
      and "\<not> (u \<in> set (t # ts) \<and> uint (sleep_time c u) \<le> ticks c)" for u
      by force+
    moreover have "wake_loop e (t # ts) c = Inr c" using True cmp by simp
    ultimately show ?thesis using Cons.prems(1,4) by (intro exI [of _ c]) auto
  next
    case False
    let ?c1 = "c\<lparr>sleep_time := (sleep_time c)(t := 0)\<rparr>"
    have links: "removed_keeps_links e" using False Cons.prems(8) by auto
    obtain k where k: "op_unblock e t (kern c) = Inr k" "inv k" "\<forall>u. asleep k u \<longleftrightarrow> asleep (kern c) u \<and> u \<noteq> t"
      and rd: "ready k t" "\<forall>u. ready (kern c) u \<longrightarrow> ready k u"
      using unblock [OF Cons.prems(1), of t] Cons.prems(7) by (metis list.set_intros(1))
    let ?c2 = "?c1\<lparr>kern := k, sleeping_threads := ts\<rparr>"
    have nt: "t \<notin> set ts" using Cons.prems(5) by simp
    then have st: "sleep_time ?c2 u = sleep_time c u" if "u \<in> set ts" for u using that by auto
    have "wake_loop e (t # ts) c = wake_loop e ts ?c2"
      using False cmp k(1) links Cons.prems(4) by (simp add: Let_def)
    moreover have "\<exists>c'. wake_loop e ts ?c2 = Inr c' \<and> inv (kern c') \<and> ticks c' = ticks ?c2 \<and>
      sleeping_threads c' = dropWhile (\<lambda>t. uint (sleep_time ?c2 t) \<le> ticks ?c2) ts \<and>
      (\<forall>t \<in> set (sleeping_threads c'). sleep_time c' t = sleep_time ?c2 t) \<and>
      (\<forall>u. asleep (kern c') u \<longleftrightarrow> asleep (kern ?c2) u \<and> \<not> (u \<in> set ts \<and> uint (sleep_time ?c2 u) \<le> ticks ?c2)) \<and>
      (\<forall>u. ready (kern ?c2) u \<longrightarrow> ready (kern c') u) \<and>
      (\<forall>u \<in> set ts. uint (sleep_time ?c2 u) \<le> ticks ?c2 \<longrightarrow> ready (kern c') u)"
    proof (rule Cons.IH)
      show "inv (kern ?c2)" "0 \<le> ticks ?c2" "ticks ?c2 < 2 ^ 63" "sleeping_threads ?c2 = ts" "distinct ts"
        using k(2) Cons.prems(2,3,5) by simp_all
      have "map (sleep_time ?c2) ts = map (sleep_time c) ts" using st by (intro map_cong refl)
      moreover have "sorted (map (sleep_time c) ts)" using Cons.prems(6) by simp
      ultimately show "sorted (map (sleep_time ?c2) ts)" by (simp only:)
      show "\<forall>u \<in> set ts. asleep (kern ?c2) u" using k(3) nt Cons.prems(7) by auto
      show "removed_keeps_links e \<or> (\<forall>t \<in> set ts. ticks ?c2 < uint (sleep_time ?c2 t))" using links by simp
    qed
    then obtain c' where c': "wake_loop e ts ?c2 = Inr c'" "inv (kern c')" "ticks c' = ticks c"
      "sleeping_threads c' = dropWhile (\<lambda>t. uint (sleep_time ?c2 t) \<le> ticks c) ts"
      "\<forall>t \<in> set (sleeping_threads c'). sleep_time c' t = sleep_time ?c2 t"
      "\<forall>u. asleep (kern c') u \<longleftrightarrow> asleep k u \<and> \<not> (u \<in> set ts \<and> uint (sleep_time ?c2 u) \<le> ticks c)"
      and rd': "\<forall>u. ready k u \<longrightarrow> ready (kern c') u"
        "\<forall>u \<in> set ts. uint (sleep_time ?c2 u) \<le> ticks c \<longrightarrow> ready (kern c') u"
      using k by force
    have dw: "dropWhile (\<lambda>t. uint (sleep_time ?c2 t) \<le> ticks c) ts =
        dropWhile (\<lambda>t. uint (sleep_time c t) \<le> ticks c) ts"
      using st by (intro dropWhile_cong) auto
    have "sleep_time c' u = sleep_time c u" if "u \<in> set (sleeping_threads c')" for u
    proof -
      have "u \<in> set ts" using that unfolding c'(4) by (rule set_dropWhileD)
      then show ?thesis using c'(5) that st by simp
    qed
    moreover have "asleep (kern c') u \<longleftrightarrow>
        asleep (kern c) u \<and> \<not> (u \<in> set (t # ts) \<and> uint (sleep_time c u) \<le> ticks c)" for u
    proof (cases "u = t")
      case True
      then show ?thesis using c'(6) [rule_format, of u] k(3) [rule_format, of u] False by simp
    next
      case ut: False
      then have "sleep_time ?c2 u = sleep_time c u" by simp
      then show ?thesis using ut c'(6) [rule_format, of u] k(3) [rule_format, of u] by simp
    qed
    moreover have "ready (kern c') u" if "ready (kern c) u" for u using that rd(2) rd'(1) by blast
    moreover have "ready (kern c') u" if "u \<in> set (t # ts)" "uint (sleep_time c u) \<le> ticks c" for u
      using that rd(1) rd' st [of u] by auto
    ultimately show ?thesis
      using c'(1-3) c'(4) [unfolded dw] False \<open>wake_loop e (t # ts) c = wake_loop e ts ?c2\<close>
      by (intro exI [of _ c'] conjI ballI allI impI) simp_all
  qed
qed (auto intro!: exI)

lemma timer_interrupt_faults:
  assumes "alarm_inv inv asleep c" "ticks c + 1 < 2 ^ 63" "\<not> removed_keeps_links e"
    "t \<in> set (sleeping_threads c)" "uint (sleep_time c t) \<le> ticks c + 1"
  shows "timer_interrupt e c = Inl Bad_pointer"
proof -
  obtain k where k: "op_tick e (kern c) = Inr k" "inv k" "asleep k = asleep (kern c)"
    using tick assms(1) by (auto simp: alarm_inv_def)
  let ?c1 = "c\<lparr>ticks := ticks c + 1, kern := k\<rparr>"
  obtain u us where u: "sleeping_threads c = u # us" using assms(4) by (cases "sleeping_threads c") auto
  have "sleep_time c u \<le> sleep_time c t"
    using assms(1,4) unfolding alarm_inv_def u by auto
  then have due: "\<not> sleep_time c u > word_of_int (ticks c + 1)"
    using assms(2,5) uint_word_of_int_eq [where 'a = 64, of "ticks c + 1"] assms(1) [unfolded alarm_inv_def]
    by (simp add: word_less_def word_le_def take_bit_int_eq_self del: of_int_add)
  have "asleep k u" using assms(1) k(3) u by (simp add: alarm_inv_def)
  from unblock [OF k(2) this] obtain k2 where k2: "op_unblock e u k = Inr k2" by blast
  have "i64 (ticks c + 1) = ticks c + 1" using assms(1,2) by (intro i64_id) (auto simp: alarm_inv_def)
  then have "timer_interrupt e c = wake_loop e (u # us) ?c1"
    using k(1) u by (simp add: timer_interrupt_def Let_def del: wake_loop.simps)
  also have "\<dots> = Inl Bad_pointer" using due k2 assms(3) by (simp add: Let_def)
  finally show ?thesis .
qed

lemma timer_interrupt_returns:
  assumes "alarm_inv inv asleep c" "ticks c + 1 < 2 ^ 63" "timer_interrupt e c = Inr c'"
  shows "wakes_safely e c"
  using timer_interrupt_faults [OF assms(1,2)] assms(3) by (force simp: wakes_safely_def)

lemma timer_interrupt_wakes:
  assumes "alarm_inv inv asleep c" "ticks c + 1 < 2 ^ 63" "wakes_safely e c"
  shows "\<exists>c'. timer_interrupt e c = Inr c' \<and> alarm_inv inv asleep c' \<and> ticks c' = ticks c + 1 \<and>
    (\<forall>t w. sleeps_until c t w \<and> ticks c' < w \<longrightarrow> sleeps_until c' t w) \<and>
    (\<forall>t w. sleeps_until c t w \<and> w \<le> ticks c' \<longrightarrow> ready (kern c') t \<and> t \<notin> set (sleeping_threads c'))"
proof -
  obtain k where k: "op_tick e (kern c) = Inr k" "inv k" "asleep k = asleep (kern c)"
    using tick assms(1) by (auto simp: alarm_inv_def)
  let ?c1 = "c\<lparr>ticks := ticks c + 1, kern := k\<rparr>" and ?due = "\<lambda>t. uint (sleep_time c t) \<le> ticks c + 1"
  have "i64 (ticks c + 1) = ticks c + 1" using assms by (intro i64_id) (auto simp: alarm_inv_def)
  then have ti: "timer_interrupt e c = wake_loop e (sleeping_threads c) ?c1"
    using k(1) by (simp add: timer_interrupt_def Let_def)
  obtain c' where c': "wake_loop e (sleeping_threads c) ?c1 = Inr c'" "inv (kern c')" "ticks c' = ticks c + 1"
    "sleeping_threads c' = dropWhile ?due (sleeping_threads c)"
    "\<forall>t \<in> set (sleeping_threads c'). sleep_time c' t = sleep_time c t"
    "\<forall>u. asleep (kern c') u \<longleftrightarrow> asleep (kern c) u \<and> \<not> (u \<in> set (sleeping_threads c) \<and> ?due u)"
    "\<forall>u \<in> set (sleeping_threads c). ?due u \<longrightarrow> ready (kern c') u"
    using wake_loop_wakes [of ?c1 "sleeping_threads c"] assms k(2,3) by (auto simp: alarm_inv_def wakes_safely_def)
  have srt: "sorted (map (sleep_time c) (sleeping_threads c))" using assms(1) by (simp add: alarm_inv_def)
  have mem: "t \<in> set (sleeping_threads c') \<longleftrightarrow> t \<in> set (sleeping_threads c) \<and> \<not> ?due t" for t
    unfolding c'(4) by (rule mem_dropWhile_sorted [OF srt])
  have st: "sleep_time c' t = sleep_time c t" if "t \<in> set (sleeping_threads c')" for t using c'(5) that by blast
  have "distinct (sleeping_threads c')" unfolding c'(4) using assms(1) by (simp add: alarm_inv_def distinct_dropWhile)
  moreover have "map (sleep_time c') (sleeping_threads c') = map (sleep_time c) (sleeping_threads c')"
    using st by (intro map_cong refl)
  moreover have "sorted (map (sleep_time c) (sleeping_threads c'))"
    using srt unfolding c'(4) sorted_map by (rule sorted_wrt_dropWhile)
  ultimately have "sorted (map (sleep_time c') (sleeping_threads c'))" "distinct (sleeping_threads c')"
    by (simp_all only:)
  then have "alarm_inv inv asleep c'"
    using c'(2,3,6) mem st assms(1) by (auto simp: alarm_inv_def)
  then show ?thesis using ti c'(1,3,7) mem st by (auto simp: sleeps_until_def)
qed

lemma step_keeps_alarm:
  assumes "alarm_step e inv asleep may_block c c'" "alarm_inv inv asleep c"
  shows "alarm_inv inv asleep c' \<and> ticks c \<le> ticks c' \<and>
    (\<forall>t w. sleeps_until c t w \<and> ticks c' < w \<longrightarrow> sleeps_until c' t w)"
  using assms(1)
proof cases
  case interrupts
  then show ?thesis
    using timer_interrupt_wakes [OF assms(2)] timer_interrupt_returns [OF assms(2)] by auto
next
  case (sleeps n)
  show ?thesis
  proof (cases "0 < n")
    case True
    then show ?thesis using timer_sleep_sleeps [OF assms(2) sleeps(1,2) True sleeps(3)] sleeps(4) by auto
  next
    case False
    then show ?thesis using sleeps(4) assms(2) by (simp add: timer_sleep_def)
  qed
next
  case (others k)
  then show ?thesis using assms(2) by (simp add: alarm_inv_def sleeps_until_def)
qed

lemma steps_keep_alarm:
  assumes "(alarm_step e inv asleep may_block)\<^sup>*\<^sup>* c c'" "alarm_inv inv asleep c"
  shows "alarm_inv inv asleep c' \<and> ticks c \<le> ticks c' \<and>
    (\<forall>t w. sleeps_until c t w \<and> ticks c' < w \<longrightarrow> sleeps_until c' t w)"
  using assms(1)
proof induction
  case (step d d')
  have "\<forall>t w. sleeps_until c t w \<and> ticks d' < w \<longrightarrow> sleeps_until d' t w"
    using step.IH step_keeps_alarm [OF step.hyps(2)] by fastforce
  then show ?case using step.IH step_keeps_alarm [OF step.hyps(2)] by fastforce
qed (use assms(2) in simp)

lemma sleeper_wakes:
  assumes "alarm_inv inv asleep c" "may_block (kern c)" "op_intr_on e (kern c)" "0 < n" "ticks c + n < 2 ^ 63"
  shows "\<exists>c1. timer_sleep e n c = Inr c1 \<and> ticks c1 = ticks c \<and>
    (\<forall>c2. (alarm_step e inv asleep may_block)\<^sup>*\<^sup>* c1 c2 \<longrightarrow> alarm_inv inv asleep c2 \<and>
      (ticks c2 < ticks c + n \<longrightarrow> asleep (kern c2) (cur (kern c))) \<and>
      (ticks c2 + 1 = ticks c + n \<longrightarrow>
        (if removed_keeps_links e
         then \<exists>c3. timer_interrupt e c2 = Inr c3 \<and> alarm_inv inv asleep c3 \<and> ready (kern c3) (cur (kern c))
         else timer_interrupt e c2 = Inl Bad_pointer)))"
proof -
  obtain c1 where c1: "timer_sleep e n c = Inr c1" "alarm_inv inv asleep c1" "ticks c1 = ticks c"
    "sleeps_until c1 (cur (kern c)) (ticks c + n)"
    using timer_sleep_sleeps [OF assms] by blast
  have inv2: "alarm_inv inv asleep c2" "ticks c2 < ticks c + n \<Longrightarrow> sleeps_until c2 (cur (kern c)) (ticks c + n)"
    if "(alarm_step e inv asleep may_block)\<^sup>*\<^sup>* c1 c2" for c2
    using steps_keep_alarm [OF that c1(2)] c1(4) by blast+
  have "asleep (kern c2) (cur (kern c))"
    if "(alarm_step e inv asleep may_block)\<^sup>*\<^sup>* c1 c2" "ticks c2 < ticks c + n" for c2
    using inv2(1) [OF that(1)] inv2(2) [OF that] by (simp add: alarm_inv_def sleeps_until_def)
  moreover have "if removed_keeps_links e
      then \<exists>c3. timer_interrupt e c2 = Inr c3 \<and> alarm_inv inv asleep c3 \<and> ready (kern c3) (cur (kern c))
      else timer_interrupt e c2 = Inl Bad_pointer"
    if "(alarm_step e inv asleep may_block)\<^sup>*\<^sup>* c1 c2" "ticks c2 + 1 = ticks c + n" for c2
  proof -
    have t: "ticks c2 + 1 < 2 ^ 63" "ticks c2 < ticks c + n" using that(2) assms(5) by linarith+
    note s = inv2(2) [OF that(1) t(2)] and i = inv2(1) [OF that(1)]
    show ?thesis
    proof (cases "removed_keeps_links e")
      case True
      then have "wakes_safely e c2" by (simp add: wakes_safely_def)
      from timer_interrupt_wakes [OF i t(1) this] s that(2) True show ?thesis by force
    next
      case False
      have "timer_interrupt e c2 = Inl Bad_pointer"
        using timer_interrupt_faults [OF i t(1) False, of "cur (kern c)"] s that(2) by (simp add: sleeps_until_def)
      then show ?thesis using False by simp
    qed
  qed
  ultimately show ?thesis using c1(1,3) inv2(1) by blast
qed

end

end
