(* ===== verification/Alarm_Round_Robin.thy ===== *)
theory Alarm_Round_Robin
  imports Alarm User_Scheduler
begin

section \<open>The alarm clock on the round-robin scheduler\<close>

text \<open>
  The timer of Assignment 3 comes without a \<^verbatim>\<open>thread.c\<close>. Here it runs on the thread module the
  repository has for the same Pintos, the round-robin scheduler of Assignment 6: that module keeps the
  laws of \<open>thread_module\<close>, so everything proved of the timer holds of the two together.

  \<open>links\<close> tells whether an element that \<^verbatim>\<open>list_remove\<close> took out still has its links. The list module is
  not in the repository and its documentation leaves that undefined; what is proved says what happens
  in either case.
\<close>

definition round_robin ::
  "((tptr \<Rightarrow> tptr \<Rightarrow> bool) \<Rightarrow> tptr \<Rightarrow> tptr list \<Rightarrow> tptr list) \<Rightarrow> int \<Rightarrow> (32 word \<Rightarrow> bool) \<Rightarrow> bool \<Rightarrow>
   ('f, 'fs) kernel env" where
  "round_robin ins freq too_many links =
     \<lparr>op_current = thread_current, op_block = thread_block, op_unblock = thread_unblock,
      op_tick = thread_tick, op_intr_on = (\<lambda>k. intr k = INTR_ON),
      op_set_intr = (\<lambda>b. intr_set_level (if b then INTR_ON else INTR_OFF)),
      insert_ordered = ins, removed_keeps_links = links, TIMER_FREQ = freq, too_many_loops = too_many\<rparr>"

lemma round_robin_fields [simp]:
  "op_current (round_robin ins freq tm lk) = thread_current" "op_block (round_robin ins freq tm lk) = thread_block"
  "op_unblock (round_robin ins freq tm lk) = thread_unblock" "op_tick (round_robin ins freq tm lk) = thread_tick"
  "op_intr_on (round_robin ins freq tm lk) k \<longleftrightarrow> intr k = INTR_ON"
  "op_set_intr (round_robin ins freq tm lk) b = intr_set_level (if b then INTR_ON else INTR_OFF)"
  "insert_ordered (round_robin ins freq tm lk) = ins" "removed_keeps_links (round_robin ins freq tm lk) = lk"
  "TIMER_FREQ (round_robin ins freq tm lk) = freq"
  by (simp_all add: round_robin_def)

text \<open>A blocked thread sleeps, except the idle thread, which runs when nobody else can.\<close>

definition u_asleep :: "('f, 'fs) kernel \<Rightarrow> tptr \<Rightarrow> bool" where
  "u_asleep k t \<longleftrightarrow> status_of k t = Some THREAD_BLOCKED \<and> t \<noteq> idle_thread k"

definition u_ready :: "('f, 'fs) kernel \<Rightarrow> tptr \<Rightarrow> bool" where
  "u_ready k t \<longleftrightarrow> t \<in> set (ready_list k)"

definition u_may_block :: "('f, 'fs) kernel \<Rightarrow> bool" where
  "u_may_block k \<longleftrightarrow> \<not> in_interrupt k \<and> running k \<noteq> idle_thread k"

lemma u_thread_block_asleep:
  assumes "u_sched_inv k" "\<not> in_interrupt k" "intr k = INTR_OFF" "running k \<noteq> idle_thread k"
  shows "\<exists>k'. thread_block k = Inr k' \<and> u_sched_inv k' \<and> (\<forall>t. u_asleep k' t \<longleftrightarrow> u_asleep k t \<or> t = running k)"
proof -
  let ?b = "u_blocked k"
  obtain th where r: "pages k (running k) = Some th" using u_running_page [OF assms(1)] by blast
  have st: "status_of ?b u = (if u = running k then Some THREAD_BLOCKED else status_of k u)" for u
    using r by (simp add: u_blocked_def)
  have h: "u_handover_inv ?b" by (rule u_blocked_handover [OF assms(1,3)])
  have nf: "\<not> u_freed_by_switch ?b u" for u by (simp add: u_freed_by_switch_def st) (simp add: u_blocked_def)
  have ch: "u_chosen ?b = idle_thread k \<or> u_chosen ?b \<in> set (ready_list k)"
    by (simp add: u_chosen_def u_blocked_def split: list.split)
  then have nb: "u_chosen ?b \<noteq> idle_thread k \<longrightarrow> status_of k (u_chosen ?b) = Some THREAD_READY"
    using u_sched_inv_sets(3) [OF assms(1)] by blast
  have "u_asleep (u_switched_to (u_chosen ?b) ?b) t \<longleftrightarrow> u_asleep k t \<or> t = running k" for t
  proof (cases "t = u_chosen ?b")
    case True
    have "status_of (u_switched_to (u_chosen ?b) ?b) t \<noteq> Some THREAD_BLOCKED"
      using True nf by (simp add: u_status_of_switched_to)
    moreover have "t \<noteq> running k"
      using True nb ch assms(4) u_running_not_ready [OF assms(1)] by auto
    ultimately show ?thesis using True nb by (auto simp: u_asleep_def)
  next
    case False
    then show ?thesis
      using nf st [of t] assms(4) by (auto simp: u_asleep_def u_status_of_switched_to u_blocked_def)
  qed
  then show ?thesis using u_thread_block_eq [OF assms(1-3)] u_switched_to_inv [OF h] by simp
qed

lemma u_thread_unblock_wakes:
  assumes "u_sched_inv k" "u_asleep k t"
  shows "\<exists>k'. thread_unblock t k = Inr k' \<and> u_sched_inv k' \<and> (\<forall>u. u_asleep k' u \<longleftrightarrow> u_asleep k u \<and> u \<noteq> t) \<and>
    u_ready k' t \<and> (\<forall>u. u_ready k u \<longrightarrow> u_ready k' u)"
proof -
  have b: "status_of k t = Some THREAD_BLOCKED" "t \<noteq> idle_thread k" using assms(2) by (simp_all add: u_asleep_def)
  then obtain th where "pages k t = Some th" by (auto simp: status_of_def)
  then show ?thesis
    unfolding u_thread_unblock_eq [OF assms(1) b(1)]
    using u_thread_unblock_inv [OF assms(1) b] by (auto simp: u_asleep_def u_ready_def)
qed

lemma u_sched_inv_ticks [simp]:
  "u_sched_inv (k\<lparr>idle_ticks := a\<rparr>) = u_sched_inv k" "u_sched_inv (k\<lparr>kernel_ticks := a\<rparr>) = u_sched_inv k"
  "u_sched_inv (k\<lparr>user_ticks := a\<rparr>) = u_sched_inv k"
  "u_sched_inv (k\<lparr>thread_ticks := b\<rparr>) = u_sched_inv k" "u_sched_inv (k\<lparr>yield_on_return := c\<rparr>) = u_sched_inv k"
  by (cases k; simp only: u_sched_inv_def u_inv_defs status_of_def kernel.update_convs kernel.select_convs)+

lemma u_asleep_ticks [simp]:
  "u_asleep (k\<lparr>idle_ticks := a\<rparr>) = u_asleep k" "u_asleep (k\<lparr>kernel_ticks := a\<rparr>) = u_asleep k"
  "u_asleep (k\<lparr>user_ticks := a\<rparr>) = u_asleep k"
  "u_asleep (k\<lparr>thread_ticks := b\<rparr>) = u_asleep k" "u_asleep (k\<lparr>yield_on_return := c\<rparr>) = u_asleep k"
  "u_asleep (intr_set_level l k) = u_asleep k"
  by (simp_all add: u_asleep_def fun_eq_iff status_of_def intr_set_level_def)

lemma u_thread_tick_keeps:
  assumes "u_sched_inv k"
  shows "\<exists>k'. thread_tick k = Inr k' \<and> u_sched_inv k' \<and> u_asleep k' = u_asleep k"
proof -
  obtain th where "pages k (running k) = Some th" "running k \<noteq> 0"
    using u_running_page [OF assms] u_sched_invD(1) [OF assms] by (auto simp: u_threads_ok_def)
  then have "thread_at k (running k) = Inr th" by (simp add: thread_at_Inr)
  then show ?thesis using assms u_thread_current_eq [OF assms] by (simp add: thread_tick_def Let_def)
qed

definition rr_inv :: "((tptr \<Rightarrow> tptr \<Rightarrow> bool) \<Rightarrow> tptr \<Rightarrow> tptr list \<Rightarrow> tptr list) \<Rightarrow> ('f, 'fs) kernel \<Rightarrow> bool" where
  "rr_inv ins k \<longleftrightarrow> u_sched_inv k \<and> insert_ok ins"

abbreviation rr_step where
  "rr_step ins freq too_many links \<equiv> alarm_step (round_robin ins freq too_many links) (rr_inv ins) u_asleep u_may_block"

interpretation rr: thread_module "round_robin ins freq too_many links" "rr_inv ins" running u_asleep
  u_ready u_may_block for ins freq too_many links
proof unfold_locales
  fix k :: "('a, 'b) kernel" and t and l
  let ?e = "round_robin ins freq too_many links"
  show "rr_inv ins k \<Longrightarrow> op_current ?e k = Inr (running k)"
    by (simp add: u_thread_current_eq rr_inv_def)
  show "rr_inv ins k \<Longrightarrow> \<not> u_asleep k (running k)"
    using u_sched_invD(6) [of k] by (simp add: u_asleep_def rr_inv_def)
  show "u_may_block (op_set_intr ?e l k) = u_may_block k"
    by (simp add: u_may_block_def)
  show "rr_inv ins k \<Longrightarrow> u_may_block k \<Longrightarrow> \<not> op_intr_on ?e k \<Longrightarrow>
      \<exists>k'. op_block ?e k = Inr k' \<and> rr_inv ins k' \<and>
        (\<forall>t. u_asleep k' t \<longleftrightarrow> u_asleep k t \<or> t = running k)"
    using u_thread_block_asleep [of k] by (cases "intr k") (auto simp: u_may_block_def rr_inv_def)
  show "rr_inv ins k \<Longrightarrow> u_asleep k t \<Longrightarrow>
      \<exists>k'. op_unblock ?e t k = Inr k' \<and> rr_inv ins k' \<and>
        (\<forall>u. u_asleep k' u \<longleftrightarrow> u_asleep k u \<and> u \<noteq> t) \<and> u_ready k' t \<and> (\<forall>u. u_ready k u \<longrightarrow> u_ready k' u)"
    using u_thread_unblock_wakes [of k t] by (simp add: rr_inv_def)
  show "rr_inv ins k \<Longrightarrow>
      \<exists>k'. op_tick ?e k = Inr k' \<and> rr_inv ins k' \<and> u_asleep k' = u_asleep k"
    using u_thread_tick_keeps [of k] by (simp add: rr_inv_def)
qed (simp_all add: rr_inv_def)

lemma rr_sleeper_wakes:
  assumes "alarm_inv (rr_inv ins) u_asleep c" "\<not> in_interrupt (kern c)" "running (kern c) \<noteq> idle_thread (kern c)"
    "intr (kern c) = INTR_ON" "0 < n" "ticks c + n < 2 ^ 63"
  shows "\<exists>c1. timer_sleep (round_robin ins freq tm links) n c = Inr c1 \<and> ticks c1 = ticks c \<and>
    (\<forall>c2. (rr_step ins freq tm links)\<^sup>*\<^sup>* c1 c2 \<longrightarrow> alarm_inv (rr_inv ins) u_asleep c2 \<and>
      (ticks c2 < ticks c + n \<longrightarrow> status_of (kern c2) (running (kern c)) = Some THREAD_BLOCKED) \<and>
      (ticks c2 + 1 = ticks c + n \<longrightarrow>
        (links \<longrightarrow> (\<exists>c3. timer_interrupt (round_robin ins freq tm links) c2 = Inr c3 \<and>
          alarm_inv (rr_inv ins) u_asleep c3 \<and> running (kern c) \<in> set (ready_list (kern c3)))) \<and>
        (\<not> links \<longrightarrow> timer_interrupt (round_robin ins freq tm links) c2 = Inl Bad_pointer)))"
proof -
  have "u_may_block (kern c)" "op_intr_on (round_robin ins freq tm links) (kern c)"
    using assms(2-4) by (simp_all add: u_may_block_def)
  from rr.sleeper_wakes [OF assms(1) this assms(5,6), unfolded round_robin_fields]
  show ?thesis by (cases links) (simp_all add: u_ready_def u_asleep_def, blast+)
qed

text \<open>
  C8: The alarm clock wakes nobody early, and a sleeper on time if a removed list element keeps its
  links. If the running thread (not the idle thread) sleeps for \<open>n > 0\<close> ticks, \<open>timer_sleep\<close> blocks it,
  and then, whatever else happens (interrupts, other threads that go to sleep, anything else that keeps
  the scheduler's invariant and wakes none of the sleepers): the list of sleeping threads stays sorted
  by wake-up time and holds threads of the future only, and before tick \<open>ticks c + n\<close> the thread stays
  blocked. The interrupt that counts that tick takes it from the list and steps on with \<^verbatim>\<open>list_next\<close>
  from the element just removed, which the list module leaves undefined: if the links are still there,
  no assertion fails and the thread is put into the ready list; if they are not, that very interrupt
  follows a dangling pointer. The timer is that of Assignment 3, the scheduler that of Assignment 6.
\<close>
theorem sleeper_wakes_on_time:
  assumes "alarm_inv (rr_inv ins) u_asleep c" "\<not> in_interrupt (kern c)" "running (kern c) \<noteq> idle_thread (kern c)"
    "intr (kern c) = INTR_ON" "0 < n" "ticks c + n < 2 ^ 63"
  shows "\<exists>c1. timer_sleep (round_robin ins freq tm links) n c = Inr c1 \<and> ticks c1 = ticks c \<and>
    (\<forall>c2. (rr_step ins freq tm links)\<^sup>*\<^sup>* c1 c2 \<longrightarrow> alarm_inv (rr_inv ins) u_asleep c2 \<and>
      (ticks c2 < ticks c + n \<longrightarrow> status_of (kern c2) (running (kern c)) = Some THREAD_BLOCKED) \<and>
      (ticks c2 + 1 = ticks c + n \<longrightarrow>
        (links \<longrightarrow> (\<exists>c3. timer_interrupt (round_robin ins freq tm links) c2 = Inr c3 \<and>
          alarm_inv (rr_inv ins) u_asleep c3 \<and> running (kern c) \<in> set (ready_list (kern c3)))) \<and>
        (\<not> links \<longrightarrow> timer_interrupt (round_robin ins freq tm links) c2 = Inl Bad_pointer)))"
  using rr_sleeper_wakes [OF assms] by blast

lemma insert_ok_sample: "insert_ok insert_before_greater"
  by (simp add: insert_ok_def mset_insert_before_greater sorted_insert_before_greater)

text \<open>The sample kernel at tick 7, with nobody asleep in the timer.\<close>

definition sample_clock :: "(string, string list) kernel clock" where
  "sample_clock = \<lparr>kern = family THREAD_READY (new_child 0x4000 4) [], ticks = 7, sleep_time = (\<lambda>_. 0),
     sleeping_threads = [], loops_per_tick = 0\<rparr>"

lemma alarm_inv_sample_clock: "alarm_inv (rr_inv insert_before_greater) u_asleep sample_clock"
  using insert_ok_sample u_sched_inv_family by (simp add: alarm_inv_def rr_inv_def sample_clock_def)

theorem sleeper_wakes_on_time_witness:
  "(\<exists>c1 c3. timer_sleep (round_robin insert_before_greater 100 (\<lambda>_. False) True) 1 sample_clock = Inr c1 \<and>
     ticks c1 = 7 \<and> status_of (kern c1) 0x4000 = Some THREAD_BLOCKED \<and>
     timer_interrupt (round_robin insert_before_greater 100 (\<lambda>_. False) True) c1 = Inr c3 \<and>
     0x4000 \<in> set (ready_list (kern c3))) \<and>
   (\<exists>c1. timer_sleep (round_robin insert_before_greater 100 (\<lambda>_. False) False) 1 sample_clock = Inr c1 \<and>
     timer_interrupt (round_robin insert_before_greater 100 (\<lambda>_. False) False) c1 = Inl Bad_pointer)"
proof -
  have h: "\<not> in_interrupt (kern sample_clock)" "running (kern sample_clock) \<noteq> idle_thread (kern sample_clock)"
    "intr (kern sample_clock) = INTR_ON" "(0 :: int) < 1" "ticks sample_clock + 1 < 2 ^ 63"
    and f: "ticks sample_clock = 7" "running (kern sample_clock) = 0x4000"
    by (simp_all add: sample_clock_def)
  note w = sleeper_wakes_on_time [OF alarm_inv_sample_clock h, where freq = 100 and tm = "\<lambda>_. False", unfolded f]
  obtain c1 where c1: "timer_sleep (round_robin insert_before_greater 100 (\<lambda>_. False) True) 1 sample_clock = Inr c1"
    "ticks c1 = 7" "status_of (kern c1) 0x4000 = Some THREAD_BLOCKED"
    "\<exists>c3. timer_interrupt (round_robin insert_before_greater 100 (\<lambda>_. False) True) c1 = Inr c3 \<and>
      0x4000 \<in> set (ready_list (kern c3))"
    using w [of True] by auto
  obtain d1 where d1: "timer_sleep (round_robin insert_before_greater 100 (\<lambda>_. False) False) 1 sample_clock = Inr d1"
    "timer_interrupt (round_robin insert_before_greater 100 (\<lambda>_. False) False) d1 = Inl Bad_pointer"
    using w [of False] by auto
  from c1 d1 show ?thesis by blast
qed

end
