(* ===== verification/Priority_Threads.thy ===== *)
theory Priority_Threads
  imports Fixed_Point
begin

section \<open>Threads and the priority scheduler (Assignment 4)\<close>

text \<open>
  \<^verbatim>\<open>Assignment_4/.../thread.h\<close> and \<^verbatim>\<open>thread.c\<close>: the thread structure, the life cycle of a thread
  and the priority scheduler. A thread is named by the address of its page. The state
  \<open>kernel\<close> holds the threads' pages and the file's static variables, together with the two
  pieces of processor state the code reads and writes through the interrupt functions
  (interrupt level, external interrupt context) and the page its stack pointer is in
  (\<^verbatim>\<open>running_thread ()\<close>).

  A context switch is seen from outside: \<open>schedule\<close> changes \<open>running\<close> and completes the switch
  (\<^verbatim>\<open>thread_schedule_tail\<close> runs on the new thread, with the old one as argument, both when a
  suspended thread continues and when a new one starts). What the resumed thread then does
  first, restoring the interrupt level its own stack remembers, is \<open>thread_resume\<close>; the level is
  kept in \<open>resume_level\<close>.

  The Pintos list, palloc and interrupt modules are not part of the repository. A \<^verbatim>\<open>struct list\<close> of
  threads is the list of their addresses. The result of \<^verbatim>\<open>palloc_get_page\<close> is an argument of
  \<open>thread_create\<close>; \<^verbatim>\<open>list_insert_ordered\<close>, the sizes of two stack frames and what a misdirected
  \<^verbatim>\<open>list_entry\<close> reads are fields of the parameter \<open>pintos\<close>.
\<close>

subsection \<open>Data\<close>

datatype intr_level = INTR_OFF | INTR_ON

datatype thread_status = THREAD_RUNNING | THREAD_READY | THREAD_BLOCKED | THREAD_DYING

definition THREAD_MAGIC :: "32 word" where "THREAD_MAGIC = 0xcd6abf4b"
definition TIME_SLICE :: "32 word" where "TIME_SLICE = 4"
definition TID_ERROR :: int where "TID_ERROR = - 1"
definition PGSIZE :: "32 word" where "PGSIZE = 4096"

record thread =
  tid :: int
  status :: thread_status
  tname :: string
  stack :: "32 word"
  priority :: int
  sleep_time :: "64 word"
  base_priority :: int
  locks_holding :: "32 word list"
  nice :: int
  recent_cpu :: int
  magic :: "32 word"
  start_function :: "32 word"
  start_aux :: "32 word"
  resume_level :: intr_level

record kernel =
  pages :: "tptr \<Rightarrow> thread option"
  ready_list :: "tptr list"
  all_list :: "tptr list"
  idle_thread :: tptr
  wake_up :: tptr
  initial_thread :: tptr
  running :: tptr
  idle_ticks :: int
  kernel_ticks :: int
  thread_ticks :: "32 word"
  thread_mlfqs :: bool
  load_avg :: int
  next_tid :: int
  intr :: intr_level
  in_interrupt :: bool
  yield_on_return :: bool

record pintos =
  list_insert_ordered :: "(tptr \<Rightarrow> tptr \<Rightarrow> bool) \<Rightarrow> tptr \<Rightarrow> tptr list \<Rightarrow> tptr list"
  misread_priority :: "tptr \<Rightarrow> int"
  sizeof_switch_entry_frame :: "32 word"
  sizeof_switch_threads_frame :: "32 word"

subsection \<open>Small accesses\<close>

definition status_of :: "kernel \<Rightarrow> tptr \<Rightarrow> thread_status option" where
  "status_of k t = map_option status (pages k t)"

definition prio :: "kernel \<Rightarrow> tptr \<Rightarrow> int" where
  "prio k t = (case pages k t of Some th \<Rightarrow> priority th | None \<Rightarrow> 0)"

definition upd_thread :: "tptr \<Rightarrow> (thread \<Rightarrow> thread) \<Rightarrow> kernel \<Rightarrow> kernel" where
  "upd_thread t f k = k\<lparr>pages := (pages k)(t := map_option f (pages k t))\<rparr>"

definition set_status :: "tptr \<Rightarrow> thread_status \<Rightarrow> kernel \<Rightarrow> kernel" where
  "set_status t s = upd_thread t (\<lambda>th. th\<lparr>status := s\<rparr>)"

definition set_resume :: "tptr \<Rightarrow> intr_level \<Rightarrow> kernel \<Rightarrow> kernel" where
  "set_resume t l = upd_thread t (\<lambda>th. th\<lparr>resume_level := l\<rparr>)"

definition intr_set_level :: "intr_level \<Rightarrow> kernel \<Rightarrow> kernel" where
  "intr_set_level l k = k\<lparr>intr := l\<rparr>"

definition intr_disable :: "kernel \<Rightarrow> kernel" where
  "intr_disable = intr_set_level INTR_OFF"

definition is_thread :: "kernel \<Rightarrow> tptr \<Rightarrow> bool" where
  "is_thread k t \<longleftrightarrow> t \<noteq> 0 \<and> (case pages k t of Some th \<Rightarrow> magic th = THREAD_MAGIC | None \<Rightarrow> False)"

definition thread_current :: "kernel \<Rightarrow> tptr result" where
  "thread_current k =
     (let t = running k in
      bnd (assert (is_thread k t)) (\<lambda>_.
      bnd (assert (status_of k t = Some THREAD_RUNNING)) (\<lambda>_.
      Inr t)))"

definition thread_name :: "kernel \<Rightarrow> string result" where
  "thread_name k = bnd (thread_current k) (\<lambda>t.
     (case pages k t of None \<Rightarrow> Inl Bad_pointer | Some th \<Rightarrow> Inr (tname th)))"

definition thread_tid :: "kernel \<Rightarrow> int result" where
  "thread_tid k = bnd (thread_current k) (\<lambda>t.
     (case pages k t of None \<Rightarrow> Inl Bad_pointer | Some th \<Rightarrow> Inr (tid th)))"

definition thread_cmp_priority :: "kernel \<Rightarrow> tptr \<Rightarrow> tptr \<Rightarrow> bool" where
  "thread_cmp_priority k a b \<longleftrightarrow> prio k a > prio k b"

subsection \<open>Switching threads\<close>

definition next_thread_to_run :: "kernel \<Rightarrow> tptr \<times> kernel" where
  "next_thread_to_run k =
     (case ready_list k of
        [] \<Rightarrow> (idle_thread k, k)
      | t # ts \<Rightarrow> (t, k\<lparr>ready_list := ts\<rparr>))"

definition thread_schedule_tail :: "tptr \<Rightarrow> kernel \<Rightarrow> kernel result" where
  "thread_schedule_tail prev k =
     (let cur = running k in
      bnd (assert (intr k = INTR_OFF)) (\<lambda>_.
      let k1 = (set_status cur THREAD_RUNNING k)\<lparr>thread_ticks := 0\<rparr> in
      if prev \<noteq> 0 \<and> status_of k1 prev = Some THREAD_DYING \<and> prev \<noteq> initial_thread k1
      then bnd (assert (prev \<noteq> cur)) (\<lambda>_. Inr (k1\<lparr>pages := (pages k1)(prev := None)\<rparr>))
      else Inr k1))"

definition schedule :: "kernel \<Rightarrow> kernel result" where
  "schedule k =
     (let cur = running k;
          (nxt, k1) = next_thread_to_run k in
      bnd (assert (intr k1 = INTR_OFF)) (\<lambda>_.
      bnd (assert (status_of k1 cur \<noteq> Some THREAD_RUNNING)) (\<lambda>_.
      bnd (assert (is_thread k1 nxt)) (\<lambda>_.
      if cur \<noteq> nxt then thread_schedule_tail cur (k1\<lparr>running := nxt\<rparr>)
      else thread_schedule_tail 0 k1))))"

definition thread_resume :: "kernel \<Rightarrow> kernel" where
  "thread_resume k =
     intr_set_level (case pages k (running k) of Some th \<Rightarrow> resume_level th | None \<Rightarrow> intr k) k"

definition thread_block :: "kernel \<Rightarrow> kernel result" where
  "thread_block k =
     bnd (assert (\<not> in_interrupt k)) (\<lambda>_.
     bnd (assert (intr k = INTR_OFF)) (\<lambda>_.
     bnd (thread_current k) (\<lambda>cur.
     schedule (set_status cur THREAD_BLOCKED k))))"

definition thread_unblock :: "pintos \<Rightarrow> tptr \<Rightarrow> kernel \<Rightarrow> kernel result" where
  "thread_unblock lib t k =
     bnd (assert (is_thread k t)) (\<lambda>_.
     let old_level = intr k;
         k1 = intr_disable k in
     bnd (assert (status_of k1 t = Some THREAD_BLOCKED)) (\<lambda>_.
     let k2 = k1\<lparr>ready_list := list_insert_ordered lib (thread_cmp_priority k1) t (ready_list k1)\<rparr>;
         k3 = set_status t THREAD_READY k2 in
     Inr (intr_set_level old_level k3)))"

definition thread_yield :: "pintos \<Rightarrow> kernel \<Rightarrow> kernel result" where
  "thread_yield lib k =
     bnd (thread_current k) (\<lambda>cur.
     bnd (assert (\<not> in_interrupt k)) (\<lambda>_.
     let old_level = intr k;
         k1 = intr_disable k;
         k2 = (if cur \<noteq> idle_thread k1
               then k1\<lparr>ready_list := list_insert_ordered lib (thread_cmp_priority k1) cur (ready_list k1)\<rparr>
               else k1);
         k3 = set_resume cur old_level (set_status cur THREAD_READY k2) in
     schedule k3))"

definition thread_exit :: "kernel \<Rightarrow> kernel result" where
  "thread_exit k =
     bnd (assert (\<not> in_interrupt k)) (\<lambda>_.
     let k1 = intr_disable k in
     bnd (thread_current k1) (\<lambda>cur.
     let k2 = k1\<lparr>all_list := remove1 cur (all_list k1)\<rparr>;
         k3 = set_status cur THREAD_DYING k2 in
     schedule k3))"

subsection \<open>Creating threads\<close>

definition allocate_tid :: "kernel \<Rightarrow> int \<times> kernel" where
  "allocate_tid k = (next_tid k, k\<lparr>next_tid := i32 (next_tid k + 1)\<rparr>)"

text \<open>
  The element inserted into \<^verbatim>\<open>all_list\<close> is \<^verbatim>\<open>allelem\<close>, while \<^verbatim>\<open>thread_cmp_priority\<close> converts it as if it
  were \<^verbatim>\<open>elem\<close>: the two priorities compared are whatever lies at the wrong offset.
\<close>

definition init_thread ::
  "pintos \<Rightarrow> tptr \<Rightarrow> string option \<Rightarrow> int \<Rightarrow> kernel \<Rightarrow> kernel result" where
  "init_thread lib t name prio0 k =
     bnd (assert (t \<noteq> 0)) (\<lambda>_.
     bnd (assert (PRI_MIN \<le> prio0 \<and> prio0 \<le> PRI_MAX)) (\<lambda>_.
     bnd (assert (name \<noteq> None)) (\<lambda>_.
     let th = \<lparr>tid = 0, status = THREAD_BLOCKED, tname = take 15 (the name), stack = t + PGSIZE,
               priority = prio0, sleep_time = 0, base_priority = prio0, locks_holding = [],
               nice = 0, recent_cpu = FP_CONST 0, magic = THREAD_MAGIC,
               start_function = 0, start_aux = 0, resume_level = INTR_ON\<rparr>;
         k1 = k\<lparr>pages := (pages k)(t \<mapsto> th)\<rparr>;
         old_level = intr k1;
         k2 = intr_disable k1;
         k3 = k2\<lparr>all_list := list_insert_ordered lib
                  (\<lambda>a b. misread_priority lib a > misread_priority lib b) t (all_list k2)\<rparr> in
     Inr (intr_set_level old_level k3))))"

definition thread_init :: "pintos \<Rightarrow> kernel \<Rightarrow> kernel result" where
  "thread_init lib k =
     bnd (assert (intr k = INTR_OFF)) (\<lambda>_.
     let k1 = k\<lparr>ready_list := [], all_list := [], initial_thread := running k\<rparr> in
     bnd (init_thread lib (initial_thread k1) (Some ''main'') PRI_DEFAULT k1) (\<lambda>k2.
     let k3 = set_status (initial_thread k2) THREAD_RUNNING k2;
         (t, k4) = allocate_tid k3 in
     Inr (upd_thread (initial_thread k4) (\<lambda>th. th\<lparr>tid := t\<rparr>) k4)))"

definition alloc_frame :: "tptr \<Rightarrow> 32 word \<Rightarrow> kernel \<Rightarrow> kernel result" where
  "alloc_frame t sz k =
     bnd (assert (is_thread k t)) (\<lambda>_.
     bnd (assert (sz mod 4 = 0)) (\<lambda>_.
     Inr (upd_thread t (\<lambda>th. th\<lparr>stack := stack th - sz\<rparr>) k)))"

definition thread_create ::
  "pintos \<Rightarrow> tptr \<Rightarrow> string option \<Rightarrow> int \<Rightarrow> 32 word \<Rightarrow> 32 word \<Rightarrow> kernel \<Rightarrow> (int \<times> kernel) result"
where
  "thread_create lib page name prio0 function aux k =
     bnd (assert (function \<noteq> 0)) (\<lambda>_.
     if page = 0 then Inr (TID_ERROR, k)
     else
       bnd (init_thread lib page name prio0 k) (\<lambda>k1.
       let (new_tid, k2) = allocate_tid k1;
           k3 = upd_thread page (\<lambda>th. th\<lparr>tid := new_tid\<rparr>) k2 in
       bnd (alloc_frame page 12 k3) (\<lambda>k4.
       let k5 = upd_thread page (\<lambda>th. th\<lparr>start_function := function, start_aux := aux\<rparr>) k4 in
       bnd (alloc_frame page (sizeof_switch_entry_frame lib) k5) (\<lambda>k6.
       bnd (alloc_frame page (sizeof_switch_threads_frame lib) k6) (\<lambda>k7.
       bnd (thread_unblock lib page k7) (\<lambda>k8.
       bnd (thread_current k8) (\<lambda>cur.
       if prio k8 cur < prio0
       then bnd (thread_yield lib k8) (\<lambda>k9. Inr (new_tid, k9))
       else Inr (new_tid, k8))))))))"

subsection \<open>Time slices and priorities\<close>

definition thread_tick :: "kernel \<Rightarrow> kernel result" where
  "thread_tick k =
     bnd (thread_current k) (\<lambda>t.
     let k1 = (if t = idle_thread k then k\<lparr>idle_ticks := i64 (idle_ticks k + 1)\<rparr>
               else k\<lparr>kernel_ticks := i64 (kernel_ticks k + 1)\<rparr>);
         k2 = k1\<lparr>thread_ticks := thread_ticks k1 + 1\<rparr> in
     Inr (if thread_ticks k2 \<ge> TIME_SLICE then k2\<lparr>yield_on_return := True\<rparr> else k2))"

definition thread_update_priority :: "tptr \<Rightarrow> kernel \<Rightarrow> kernel" where
  "thread_update_priority t k =
     (let old_level = intr k in
      intr_set_level old_level
        (upd_thread t (\<lambda>th. th\<lparr>priority := base_priority th\<rparr>) (intr_disable k)))"

definition thread_set_priority :: "pintos \<Rightarrow> int \<Rightarrow> kernel \<Rightarrow> kernel result" where
  "thread_set_priority lib new_priority k =
     (if thread_mlfqs k then Inr k
      else
        let old_level = intr k;
            k1 = intr_disable k in
        bnd (thread_current k1) (\<lambda>cur.
        let old_priority = prio k1 cur;
            k2 = upd_thread cur (\<lambda>th. th\<lparr>base_priority := new_priority\<rparr>) k1 in
        if (case pages k2 cur of Some th \<Rightarrow> locks_holding th = [] | None \<Rightarrow> False)
           \<or> new_priority > old_priority
        then
          let k3 = upd_thread cur (\<lambda>th. th\<lparr>priority := new_priority\<rparr>) k2 in
          bnd (thread_yield lib k3) (\<lambda>k4.
          Inr (set_resume cur old_level k4))
        else Inr (intr_set_level old_level k2)))"

definition thread_get_priority :: "kernel \<Rightarrow> int result" where
  "thread_get_priority k = bnd (thread_current k) (\<lambda>cur. Inr (prio k cur))"

definition thread_foreach :: "(tptr \<Rightarrow> kernel \<Rightarrow> kernel) \<Rightarrow> kernel \<Rightarrow> kernel result" where
  "thread_foreach func k =
     bnd (assert (intr k = INTR_OFF)) (\<lambda>_. Inr (fold func (all_list k) k))"

end
