(* ===== verification/Scheduler.thy ===== *)
theory Scheduler
  imports Priority_Threads
begin

section \<open>Correctness of the priority scheduler\<close>

text \<open>
  The scheduler's invariant \<open>sched_inv\<close> (which thread is where, and in which list), the proof that
  every operation of \<open>Priority_Threads\<close> keeps it and never fails an assertion when it is called as
  its comment demands, and what the priority order of the ready list gives.
\<close>

subsection \<open>What the code relies on in the list module\<close>

text \<open>
  The documented behaviour of \<^verbatim>\<open>list_insert_ordered\<close>: it inserts its element (nothing is lost,
  nothing else appears), and in a list that is sorted according to the given order it inserts it
  in a proper position, so the list stays sorted. Orders are given by a key, as all orders of
  this code are.
\<close>

definition insert_ordered_spec :: "pintos \<Rightarrow> bool" where
  "insert_ordered_spec lib \<longleftrightarrow>
     (\<forall>lt x xs. mset (list_insert_ordered lib lt x xs) = add_mset x (mset xs)) \<and>
     (\<forall>(key :: tptr \<Rightarrow> int) x xs. sorted (map key xs) \<longrightarrow>
        sorted (map key (list_insert_ordered lib (\<lambda>a b. key a < key b) x xs)))"

definition frames_aligned :: "pintos \<Rightarrow> bool" where
  "frames_aligned lib \<longleftrightarrow>
     sizeof_switch_entry_frame lib mod 4 = 0 \<and> sizeof_switch_threads_frame lib mod 4 = 0"

definition pintos_ok :: "pintos \<Rightarrow> bool" where
  "pintos_ok lib \<longleftrightarrow> insert_ordered_spec lib \<and> frames_aligned lib"

text \<open>A concrete library that meets the contract, for closed examples.\<close>

definition sample_pintos :: pintos where
  "sample_pintos = \<lparr>list_insert_ordered = insert_before_greater, misread_priority = (\<lambda>_. 0),
     sizeof_switch_entry_frame = 4, sizeof_switch_threads_frame = 28\<rparr>"

lemma pintos_ok_sample: "pintos_ok sample_pintos"
  unfolding pintos_ok_def insert_ordered_spec_def frames_aligned_def
proof (intro conjI allI impI)
  fix lt and x :: tptr and xs
  show "mset (list_insert_ordered sample_pintos lt x xs) = add_mset x (mset xs)"
    by (simp add: sample_pintos_def mset_insert_before_greater)
next
  fix key :: "tptr \<Rightarrow> int" and x xs
  show "sorted (map key xs) \<Longrightarrow>
    sorted (map key (list_insert_ordered sample_pintos (\<lambda>a b. key a < key b) x xs))"
    by (simp add: sample_pintos_def sorted_insert_before_greater)
qed (simp_all add: sample_pintos_def)

lemma insert_ordered_facts:
  assumes "pintos_ok lib"
  shows "set (list_insert_ordered lib lt x xs) = insert x (set xs)"
    and "distinct (list_insert_ordered lib lt x xs) \<longleftrightarrow> x \<notin> set xs \<and> distinct xs"
proof -
  have m: "mset (list_insert_ordered lib lt x xs) = mset (x # xs)"
    using assms by (simp add: pintos_ok_def insert_ordered_spec_def)
  show "set (list_insert_ordered lib lt x xs) = insert x (set xs)"
    using mset_eq_setD [OF m] by simp
  show "distinct (list_insert_ordered lib lt x xs) \<longleftrightarrow> x \<notin> set xs \<and> distinct xs"
    using mset_eq_imp_distinct_iff [OF m] by simp
qed

subsection \<open>The invariant\<close>

definition threads_ok :: "kernel \<Rightarrow> bool" where
  "threads_ok k \<longleftrightarrow> (\<forall>t th. pages k t = Some th \<longrightarrow> t \<noteq> 0 \<and> magic th = THREAD_MAGIC)"

definition queue_ok :: "kernel \<Rightarrow> bool" where
  "queue_ok k \<longleftrightarrow> distinct (ready_list k) \<and>
     (\<forall>t. t \<in> set (ready_list k) \<longleftrightarrow> status_of k t = Some THREAD_READY \<and> t \<noteq> idle_thread k)"

definition all_ok :: "kernel \<Rightarrow> bool" where
  "all_ok k \<longleftrightarrow> distinct (all_list k) \<and>
     (\<forall>t. t \<in> set (all_list k) \<longleftrightarrow>
        (\<exists>s. status_of k t = Some s \<and> s \<noteq> THREAD_DYING))"

definition idle_ok :: "kernel \<Rightarrow> bool" where
  "idle_ok k \<longleftrightarrow> (\<exists>s. status_of k (idle_thread k) = Some s \<and> s \<noteq> THREAD_DYING)"

definition cpu_ok :: "kernel \<Rightarrow> bool" where
  "cpu_ok k \<longleftrightarrow> (\<forall>t. status_of k t = Some THREAD_RUNNING \<longleftrightarrow> t = running k) \<and>
     (\<forall>t. status_of k t = Some THREAD_DYING \<longrightarrow> t = initial_thread k)"

definition sched_inv :: "kernel \<Rightarrow> bool" where
  "sched_inv k \<longleftrightarrow> threads_ok k \<and> queue_ok k \<and> all_ok k \<and> idle_ok k \<and> cpu_ok k"

text \<open>Between giving up the processor and \<open>schedule\<close> nobody is running.\<close>

definition handover_inv :: "kernel \<Rightarrow> bool" where
  "handover_inv k \<longleftrightarrow> threads_ok k \<and> queue_ok k \<and> all_ok k \<and> idle_ok k \<and> intr k = INTR_OFF \<and>
     (\<forall>t. status_of k t \<noteq> Some THREAD_RUNNING) \<and> status_of k (running k) \<noteq> None \<and>
     (\<forall>t. status_of k t = Some THREAD_DYING \<longrightarrow> t = initial_thread k \<or> t = running k)"

lemmas inv_defs = threads_ok_def queue_ok_def all_ok_def idle_ok_def cpu_ok_def
lemmas upd_defs = upd_thread_def set_status_def set_resume_def intr_set_level_def intr_disable_def

text \<open>What \<open>schedule\<close> computes when it is called as it must be.\<close>

definition switched_to :: "tptr \<Rightarrow> kernel \<Rightarrow> kernel" where
  "switched_to t k =
     (let k1 = (set_status t THREAD_RUNNING (k\<lparr>ready_list := tl (ready_list k), running := t\<rparr>))
                 \<lparr>thread_ticks := 0\<rparr> in
      if status_of k (running k) = Some THREAD_DYING \<and> running k \<noteq> initial_thread k
      then k1\<lparr>pages := (pages k1)(running k := None)\<rparr> else k1)"

definition chosen :: "kernel \<Rightarrow> tptr" where
  "chosen k = (case ready_list k of [] \<Rightarrow> idle_thread k | t # _ \<Rightarrow> t)"

lemma status_of_upd [simp]:
  "status_of (set_status t s k) u = (if u = t then map_option (\<lambda>_. s) (pages k t) else status_of k u)"
  "status_of (set_resume t l k) u = status_of k u"
  "status_of (intr_set_level l k) u = status_of k u"
  "status_of (intr_disable k) u = status_of k u"
  by (simp_all add: status_of_def upd_defs option.map_comp comp_def)

lemma status_of_fields [simp]:
  "status_of (k\<lparr>ready_list := x\<rparr>) u = status_of k u"
  "status_of (k\<lparr>all_list := x\<rparr>) u = status_of k u"
  "status_of (k\<lparr>running := y\<rparr>) u = status_of k u"
  "status_of (k\<lparr>thread_ticks := z\<rparr>) u = status_of k u"
  by (simp_all add: status_of_def)

lemma status_of_None: "status_of k t = None \<longleftrightarrow> pages k t = None"
  by (simp add: status_of_def)

lemma is_threadI: "threads_ok k \<Longrightarrow> status_of k t \<noteq> None \<Longrightarrow> is_thread k t"
  by (auto simp: threads_ok_def is_thread_def status_of_None)

lemma chosen_facts:
  assumes "queue_ok k" "idle_ok k"
  shows "status_of k (chosen k) \<noteq> None" and "status_of k (chosen k) \<noteq> Some THREAD_DYING"
proof -
  have "\<exists>s. status_of k (chosen k) = Some s \<and> s \<noteq> THREAD_DYING"
  proof (cases "ready_list k")
    case Nil
    with assms(2) show ?thesis by (simp add: chosen_def idle_ok_def)
  next
    case (Cons t ts)
    then have "t \<in> set (ready_list k)" by simp
    with assms(1) have "status_of k t = Some THREAD_READY" unfolding queue_ok_def by blast
    with Cons show ?thesis by (simp add: chosen_def)
  qed
  then show "status_of k (chosen k) \<noteq> None" "status_of k (chosen k) \<noteq> Some THREAD_DYING"
    by auto
qed

lemma next_thread_to_run_eq:
  "next_thread_to_run k = (chosen k, k\<lparr>ready_list := tl (ready_list k)\<rparr>)"
proof (cases "ready_list k")
  case Nil
  then have "k\<lparr>ready_list := []\<rparr> = k" by (metis kernel.surjective kernel.update_convs(2))
  with Nil show ?thesis by (simp add: next_thread_to_run_def chosen_def)
next
  case (Cons t ts)
  then show ?thesis by (simp add: next_thread_to_run_def chosen_def)
qed

lemma is_thread_fields [simp]:
  "is_thread (k\<lparr>ready_list := x\<rparr>) t = is_thread k t"
  "is_thread (k\<lparr>running := y\<rparr>) t = is_thread k t"
  by (simp_all add: is_thread_def)

lemma kernel_upd [simp]:
  "intr (set_status t s k) = intr k" "running (set_status t s k) = running k"
  "initial_thread (set_status t s k) = initial_thread k"
  "ready_list (set_status t s k) = ready_list k" "all_list (set_status t s k) = all_list k"
  "idle_thread (set_status t s k) = idle_thread k"
  "in_interrupt (set_status t s k) = in_interrupt k"
  "thread_mlfqs (set_status t s k) = thread_mlfqs k"
  by (simp_all add: upd_defs)

lemma schedule_eq:
  assumes "handover_inv k"
  shows "schedule k = Inr (switched_to (chosen k) k)"
proof -
  let ?k1 = "k\<lparr>ready_list := tl (ready_list k)\<rparr>"
  have inv: "threads_ok k" "queue_ok k" "idle_ok k" "intr k = INTR_OFF"
    and no: "status_of k (running k) \<noteq> Some THREAD_RUNNING" "status_of k (running k) \<noteq> None"
    using assms unfolding handover_inv_def by blast+
  note c = chosen_facts [OF inv(2,3)]
  have ct: "is_thread k (chosen k)" using inv(1) c(1) by (rule is_threadI)
  have z: "running k \<noteq> 0" using inv(1) no(2) by (auto simp: threads_ok_def status_of_None)
  have sch: "schedule k = (if running k \<noteq> chosen k
      then thread_schedule_tail (running k) (?k1\<lparr>running := chosen k\<rparr>)
      else thread_schedule_tail 0 ?k1)"
    using inv(4) no(1) ct by (simp add: schedule_def next_thread_to_run_eq Let_def)
  show ?thesis
  proof (cases "running k = chosen k")
    case True
    then show ?thesis
      using inv(4) c(2) unfolding sch switched_to_def thread_schedule_tail_def Let_def
      by (simp add: upd_defs)
  next
    case False
    then show ?thesis
      using inv(4) z unfolding sch switched_to_def thread_schedule_tail_def Let_def by simp
  qed
qed

subsection \<open>A switch re-establishes the invariant\<close>

definition freed_by_switch :: "kernel \<Rightarrow> tptr \<Rightarrow> bool" where
  "freed_by_switch k u \<longleftrightarrow>
     u = running k \<and> status_of k u = Some THREAD_DYING \<and> u \<noteq> initial_thread k"

lemma switched_to_fields [simp]:
  "running (switched_to t k) = t" "ready_list (switched_to t k) = tl (ready_list k)"
  "all_list (switched_to t k) = all_list k" "idle_thread (switched_to t k) = idle_thread k"
  "initial_thread (switched_to t k) = initial_thread k" "intr (switched_to t k) = intr k"
  "in_interrupt (switched_to t k) = in_interrupt k" "thread_ticks (switched_to t k) = 0"
  "thread_mlfqs (switched_to t k) = thread_mlfqs k" "next_tid (switched_to t k) = next_tid k"
  "yield_on_return (switched_to t k) = yield_on_return k"
  by (simp_all add: switched_to_def Let_def upd_defs)

lemma pages_switched_to:
  "pages (switched_to t k) u =
     (if freed_by_switch k u then None
      else if u = t then map_option (\<lambda>th. th\<lparr>status := THREAD_RUNNING\<rparr>) (pages k u)
      else pages k u)"
  by (auto simp: switched_to_def Let_def upd_defs freed_by_switch_def)

lemma status_of_switched_to:
  "status_of (switched_to t k) u =
     (if freed_by_switch k u then None
      else if u = t then map_option (\<lambda>_. THREAD_RUNNING) (pages k u)
      else status_of k u)"
  by (simp add: status_of_def pages_switched_to option.map_comp comp_def)

lemma prio_switched_to:
  "\<not> freed_by_switch k u \<Longrightarrow> prio (switched_to t k) u = prio k u"
  by (simp add: prio_def pages_switched_to split: option.splits)

lemma switched_to_inv:
  assumes "handover_inv k"
  shows "sched_inv (switched_to (chosen k) k)"
proof -
  let ?c = "chosen k" and ?k = "switched_to (chosen k) k"
  have q: "distinct (ready_list k)"
    and qs: "\<And>t. t \<in> set (ready_list k) \<longleftrightarrow> status_of k t = Some THREAD_READY \<and> t \<noteq> idle_thread k"
    and a: "distinct (all_list k)"
    and al: "\<And>t. t \<in> set (all_list k) \<longleftrightarrow> (\<exists>s. status_of k t = Some s \<and> s \<noteq> THREAD_DYING)"
    and th: "threads_ok k" and i: "idle_ok k"
    and nr: "\<And>t. status_of k t \<noteq> Some THREAD_RUNNING"
    and dy: "\<And>t. status_of k t = Some THREAD_DYING \<Longrightarrow> t = initial_thread k \<or> t = running k"
    using assms unfolding handover_inv_def queue_ok_def all_ok_def by blast+
  have qk: "queue_ok k" using q qs by (auto simp: queue_ok_def)
  have nfc: "\<not> freed_by_switch k ?c"
    using chosen_facts [OF qk i] by (auto simp: freed_by_switch_def)
  have sc: "\<exists>s. status_of k ?c = Some s" and snd: "status_of k ?c \<noteq> Some THREAD_DYING"
    using chosen_facts [OF qk i] by auto
  then have pc: "pages k ?c \<noteq> None" by (auto simp: status_of_None [symmetric])
  have st: "status_of ?k u = (if freed_by_switch k u then None else if u = ?c
      then Some THREAD_RUNNING else status_of k u)" for u
    using pc by (auto simp: status_of_switched_to)
  have "threads_ok ?k"
    using th by (auto simp: threads_ok_def pages_switched_to split: if_splits)
  moreover have "queue_ok ?k"
    unfolding queue_ok_def
  proof (intro conjI allI)
    show "distinct (ready_list ?k)" using q by (simp add: distinct_tl)
    fix t
    have "t \<in> set (tl (ready_list k)) \<longleftrightarrow> t \<in> set (ready_list k) \<and> (ready_list k = [] \<or> t \<noteq> ?c)"
      using q by (cases "ready_list k") (auto simp: chosen_def)
    moreover have "ready_list k = [] \<Longrightarrow> ?c = idle_thread k" by (simp add: chosen_def)
    ultimately show "t \<in> set (ready_list ?k) \<longleftrightarrow>
        status_of ?k t = Some THREAD_READY \<and> t \<noteq> idle_thread ?k"
      using qs [of t] by (auto simp: st freed_by_switch_def)
  qed
  moreover have "all_ok ?k"
    using a al snd sc by (auto simp: all_ok_def st freed_by_switch_def)
  moreover have "idle_ok ?k"
    using i by (auto simp: idle_ok_def st freed_by_switch_def)
  moreover have "cpu_ok ?k"
    using nr dy nfc by (auto simp: cpu_ok_def st) (auto simp: freed_by_switch_def)
  ultimately show ?thesis by (simp add: sched_inv_def)
qed

lemma schedule_inv:
  assumes "handover_inv k"
  shows "\<exists>k'. schedule k = Inr k' \<and> sched_inv k' \<and> k' = switched_to (chosen k) k"
  using schedule_eq [OF assms] switched_to_inv [OF assms] by blast

subsection \<open>Giving up the processor\<close>

lemma sched_invD:
  assumes "sched_inv k"
  shows "threads_ok k" "queue_ok k" "all_ok k" "idle_ok k" "cpu_ok k"
    and "status_of k (running k) = Some THREAD_RUNNING"
    and "is_thread k (running k)"
  using assms by (auto simp: sched_inv_def cpu_ok_def intro: is_threadI)

lemma thread_current_eq:
  assumes "sched_inv k"
  shows "thread_current k = Inr (running k)"
  using sched_invD [OF assms] by (simp add: thread_current_def)

lemma threads_ok_upd:
  assumes "threads_ok k" and "\<And>th. magic (f th) = magic th"
  shows "threads_ok (upd_thread t f k)"
  using assms by (auto simp: threads_ok_def upd_thread_def)

lemma threads_ok_set [simp]:
  "threads_ok k \<Longrightarrow> threads_ok (set_status t s k)"
  "threads_ok k \<Longrightarrow> threads_ok (set_resume t l k)"
  by (simp_all add: set_status_def set_resume_def threads_ok_upd)

lemma threads_ok_fields [simp]:
  "threads_ok (k\<lparr>ready_list := x\<rparr>) = threads_ok k"
  "threads_ok (k\<lparr>all_list := x\<rparr>) = threads_ok k"
  "threads_ok (intr_set_level l k) = threads_ok k"
  "threads_ok (intr_disable k) = threads_ok k"
  by (simp_all add: threads_ok_def upd_defs)

lemma kernel_upd2 [simp]:
  "intr (set_resume t l k) = intr k" "running (set_resume t l k) = running k"
  "initial_thread (set_resume t l k) = initial_thread k"
  "ready_list (set_resume t l k) = ready_list k" "all_list (set_resume t l k) = all_list k"
  "idle_thread (set_resume t l k) = idle_thread k"
  "in_interrupt (set_resume t l k) = in_interrupt k"
  "thread_mlfqs (set_resume t l k) = thread_mlfqs k"
  "intr (intr_set_level l k) = l" "running (intr_set_level l k) = running k"
  "initial_thread (intr_set_level l k) = initial_thread k"
  "ready_list (intr_set_level l k) = ready_list k" "all_list (intr_set_level l k) = all_list k"
  "idle_thread (intr_set_level l k) = idle_thread k"
  "in_interrupt (intr_set_level l k) = in_interrupt k"
  "thread_mlfqs (intr_set_level l k) = thread_mlfqs k"
  "pages (intr_set_level l k) = pages k"
  by (simp_all add: upd_defs)

lemma intr_disable_eq: "intr_disable k = intr_set_level INTR_OFF k"
  by (simp add: intr_disable_def)

text \<open>The state in which each operation calls \<open>schedule\<close>.\<close>

definition blocked :: "kernel \<Rightarrow> kernel" where
  "blocked k = set_status (running k) THREAD_BLOCKED k"

definition yielded :: "pintos \<Rightarrow> kernel \<Rightarrow> kernel" where
  "yielded lib k =
     (let k1 = intr_set_level INTR_OFF k;
          k2 = (if running k \<noteq> idle_thread k
                then k1\<lparr>ready_list :=
                  list_insert_ordered lib (thread_cmp_priority k1) (running k) (ready_list k)\<rparr>
                else k1) in
      set_resume (running k) (intr k) (set_status (running k) THREAD_READY k2))"

definition exited :: "kernel \<Rightarrow> kernel" where
  "exited k =
     set_status (running k) THREAD_DYING
       (intr_set_level INTR_OFF (k\<lparr>all_list := remove1 (running k) (all_list k)\<rparr>))"

lemma running_page: "sched_inv k \<Longrightarrow> \<exists>th. pages k (running k) = Some th"
  using sched_invD(6) [of k] by (auto simp: status_of_def)

lemma sched_inv_sets:
  assumes "sched_inv k"
  shows "distinct (ready_list k)" "distinct (all_list k)"
    and "\<And>t. t \<in> set (ready_list k) \<longleftrightarrow> status_of k t = Some THREAD_READY \<and> t \<noteq> idle_thread k"
    and "\<And>t. t \<in> set (all_list k) \<longleftrightarrow> (\<exists>s. status_of k t = Some s \<and> s \<noteq> THREAD_DYING)"
    and "\<And>t. status_of k t = Some THREAD_RUNNING \<longleftrightarrow> t = running k"
    and "\<And>t. status_of k t = Some THREAD_DYING \<Longrightarrow> t = initial_thread k"
    and "\<exists>s. status_of k (idle_thread k) = Some s \<and> s \<noteq> THREAD_DYING"
  using assms unfolding sched_inv_def inv_defs by blast+

lemma running_not_ready: "sched_inv k \<Longrightarrow> running k \<notin> set (ready_list k)"
  using sched_inv_sets(3) [of k "running k"] sched_invD(6) [of k] by simp

lemma blocked_handover:
  assumes "sched_inv k" and "intr k = INTR_OFF"
  shows "handover_inv (blocked k)"
proof -
  note f = sched_inv_sets [OF assms(1)] and r = running_page [OF assms(1)]
  have st: "status_of (blocked k) u = (if u = running k then Some THREAD_BLOCKED else status_of k u)" for u
    using r by (auto simp: blocked_def)
  have n: "running k \<notin> set (ready_list k)" using assms(1) by (rule running_not_ready)
  have "queue_ok (blocked k)"
    unfolding queue_ok_def st using f(1,3) n by (simp add: blocked_def; metis)
  moreover have "all_ok (blocked k)"
    unfolding all_ok_def st using f(2,4,5) by (simp add: blocked_def; metis thread_status.distinct(5))
  moreover have "idle_ok (blocked k)"
    unfolding idle_ok_def st using f(7) by (simp add: blocked_def)
  ultimately show ?thesis
    using sched_invD(1) [OF assms(1)] assms(2) f(5,6) unfolding handover_inv_def st
    by (simp add: blocked_def; metis)
qed

lemma exited_handover:
  assumes "sched_inv k" and "running k \<noteq> idle_thread k"
  shows "handover_inv (exited k)"
proof -
  note f = sched_inv_sets [OF assms(1)] and r = running_page [OF assms(1)]
  have st: "status_of (exited k) u = (if u = running k then Some THREAD_DYING else status_of k u)" for u
    using r by (auto simp: exited_def)
  have n: "running k \<notin> set (ready_list k)" using assms(1) by (rule running_not_ready)
  have "queue_ok (exited k)"
    unfolding queue_ok_def st using f(1,3) n by (simp add: exited_def; metis)
  moreover have "all_ok (exited k)"
    unfolding all_ok_def st using f(2,4) by (simp add: exited_def; metis)
  moreover have "idle_ok (exited k)"
    unfolding idle_ok_def st using f(7) assms(2) by (simp add: exited_def)
  ultimately show ?thesis
    using sched_invD(1) [OF assms(1)] f(5,6) unfolding handover_inv_def st
    by (simp add: exited_def; metis)
qed

lemma yielded_handover:
  assumes "pintos_ok lib" and "sched_inv k"
  shows "handover_inv (yielded lib k)"
proof -
  let ?y = "yielded lib k"
  note f = sched_inv_sets [OF assms(2)] and r = running_page [OF assms(2)]
  note ins = insert_ordered_facts [OF assms(1)]
  have st: "status_of ?y u = (if u = running k then Some THREAD_READY else status_of k u)" for u
    using r by (auto simp: yielded_def Let_def)
  have n: "running k \<notin> set (ready_list k)" using assms(2) by (rule running_not_ready)
  have rl: "set (ready_list ?y) = set (ready_list k) \<union> ({running k} - {idle_thread k})"
    and dl: "distinct (ready_list ?y)"
    using f(1) n by (auto simp: yielded_def Let_def ins)
  have "queue_ok ?y"
    unfolding queue_ok_def st rl using dl f(3) by (simp add: yielded_def Let_def; metis)
  moreover have "all_ok ?y"
    unfolding all_ok_def st using f(2,4,5)
    by (simp add: yielded_def Let_def; metis thread_status.distinct(5,9))
  moreover have "idle_ok ?y"
    unfolding idle_ok_def st using f(7) by (simp add: yielded_def Let_def)
  ultimately show ?thesis
    using sched_invD(1) [OF assms(2)] f(5,6) unfolding handover_inv_def st
    by (simp add: yielded_def Let_def; metis)
qed

lemma thread_block_eq:
  assumes "sched_inv k" "\<not> in_interrupt k" "intr k = INTR_OFF"
  shows "thread_block k = Inr (switched_to (chosen (blocked k)) (blocked k))"
  using assms schedule_eq [OF blocked_handover [OF assms(1,3)]] thread_current_eq [OF assms(1)]
  by (simp add: thread_block_def blocked_def)

lemma thread_yield_eq:
  assumes "pintos_ok lib" "sched_inv k" "\<not> in_interrupt k"
  shows "thread_yield lib k = Inr (switched_to (chosen (yielded lib k)) (yielded lib k))"
proof -
  have "thread_yield lib k = schedule (yielded lib k)"
    using assms(3) thread_current_eq [OF assms(2)]
    by (simp add: thread_yield_def yielded_def Let_def intr_disable_def)
  then show ?thesis using schedule_eq [OF yielded_handover [OF assms(1,2)]] by simp
qed

lemma sched_inv_intr [simp]: "sched_inv (intr_set_level l k) = sched_inv k"
  by (simp add: sched_inv_def inv_defs)

lemma status_of_yielded:
  assumes "sched_inv k"
  shows "status_of (yielded lib k) u = (if u = running k then Some THREAD_READY else status_of k u)"
  using running_page [OF assms] by (auto simp: yielded_def Let_def)

lemma thread_exit_eq:
  assumes "sched_inv k" "\<not> in_interrupt k" "running k \<noteq> idle_thread k"
  shows "thread_exit k = Inr (switched_to (chosen (exited k)) (exited k))"
proof -
  have "thread_current (intr_disable k) = Inr (running k)"
    using thread_current_eq [of "intr_disable k"] assms(1) by (simp add: intr_disable_eq)
  moreover have "exited k = set_status (running k) THREAD_DYING
    ((intr_disable k)\<lparr>all_list := remove1 (running k) (all_list (intr_disable k))\<rparr>)"
    by (simp add: exited_def upd_defs)
  ultimately show ?thesis
    using assms schedule_eq [OF exited_handover [OF assms(1,3)]]
    by (simp add: thread_exit_def Let_def)
qed

lemma thread_unblock_eq:
  assumes "sched_inv k" "status_of k t = Some THREAD_BLOCKED"
  shows "thread_unblock lib t k = Inr (set_status t THREAD_READY
    (k\<lparr>ready_list := list_insert_ordered lib (thread_cmp_priority k) t (ready_list k)\<rparr>))"
proof -
  have "is_thread k t" using sched_invD(1) [OF assms(1)] assms(2) by (intro is_threadI) auto
  moreover have "thread_cmp_priority (intr_disable k) = thread_cmp_priority k"
    by (simp add: thread_cmp_priority_def prio_def fun_eq_iff intr_disable_eq)
  moreover have "intr_set_level (intr k) (set_status t THREAD_READY ((intr_disable k)\<lparr>ready_list := r\<rparr>))
    = set_status t THREAD_READY (k\<lparr>ready_list := r\<rparr>)" for r
    by (simp add: upd_defs)
  ultimately show ?thesis
    using assms(2) by (simp add: thread_unblock_def Let_def intr_disable_eq)
qed

lemma thread_unblock_inv:
  assumes "pintos_ok lib" "sched_inv k" "status_of k t = Some THREAD_BLOCKED" "t \<noteq> idle_thread k"
  shows "\<exists>k'. thread_unblock lib t k = Inr k' \<and> sched_inv k'"
proof -
  let ?k = "set_status t THREAD_READY
    (k\<lparr>ready_list := list_insert_ordered lib (thread_cmp_priority k) t (ready_list k)\<rparr>)"
  note f = sched_inv_sets [OF assms(2)] and ins = insert_ordered_facts [OF assms(1)]
  obtain th where "pages k t = Some th" using assms(3) by (auto simp: status_of_def)
  then have st: "status_of ?k u = (if u = t then Some THREAD_READY else status_of k u)" for u by simp
  have n: "t \<notin> set (ready_list k)" using f(3) [of t] assms(3) by simp
  have "queue_ok ?k" unfolding queue_ok_def st using f(1,3) n assms(4) by (simp add: ins; metis)
  moreover have "all_ok ?k" unfolding all_ok_def st using f(2,4) assms(3) by simp
  moreover have "idle_ok ?k" unfolding idle_ok_def st using f(7) by simp
  moreover have "t \<noteq> running k" using f(5) [of t] assms(3) by auto
  then have "cpu_ok ?k" unfolding cpu_ok_def st by (auto simp: f(5) dest: f(6))
  ultimately have "sched_inv ?k" using sched_invD(1) [OF assms(2)] by (simp add: sched_inv_def)
  with thread_unblock_eq [OF assms(2,3)] show ?thesis by blast
qed

subsection \<open>Priority order\<close>

definition prio_sorted :: "kernel \<Rightarrow> bool" where
  "prio_sorted k \<longleftrightarrow> sorted (map (\<lambda>t. - prio k t) (ready_list k))"

definition highest_runs :: "kernel \<Rightarrow> bool" where
  "highest_runs k \<longleftrightarrow>
     (\<forall>t. status_of k t = Some THREAD_READY \<and> t \<noteq> idle_thread k \<longrightarrow> prio k t \<le> prio k (running k))"

lemma thread_cmp_priority_key:
  "thread_cmp_priority k = (\<lambda>a b. - prio k a < - prio k b)"
  by (simp add: thread_cmp_priority_def fun_eq_iff)

lemma prio_upd [simp]:
  "prio (set_status t s k) u = prio k u" "prio (set_resume t l k) u = prio k u"
  "prio (intr_set_level l k) u = prio k u"
  "prio (k\<lparr>ready_list := x\<rparr>) u = prio k u" "prio (k\<lparr>all_list := x\<rparr>) u = prio k u"
  by (auto simp: prio_def upd_defs split: option.splits)

lemma sorted_insert_prio:
  assumes "pintos_ok lib" "sorted (map (\<lambda>t. - prio k t) xs)"
  shows "sorted (map (\<lambda>t. - prio k t) (list_insert_ordered lib (thread_cmp_priority k) t xs))"
  using assms unfolding thread_cmp_priority_key pintos_ok_def insert_ordered_spec_def
  by (elim conjE) (rule allE, assumption, blast)

lemma hd_sorted_highest:
  assumes "sorted (map (\<lambda>t. - prio k t) xs)" "t \<in> set xs"
  shows "prio k t \<le> prio k (hd xs)"
  using assms by (cases xs) auto

lemma prio_sorted_tl: "prio_sorted k \<Longrightarrow> sorted (map (\<lambda>t. - prio k t) (tl (ready_list k)))"
  by (cases "ready_list k") (simp_all add: prio_sorted_def)

lemma not_freed: "status_of k u \<noteq> Some THREAD_DYING \<Longrightarrow> \<not> freed_by_switch k u"
  by (simp add: freed_by_switch_def)

lemma switch_highest:
  assumes "handover_inv k" "prio_sorted k"
  shows "prio_sorted (switched_to (chosen k) k)" and "highest_runs (switched_to (chosen k) k)"
proof -
  let ?k = "switched_to (chosen k) k"
  have q: "\<And>t. t \<in> set (ready_list k) \<longleftrightarrow> status_of k t = Some THREAD_READY \<and> t \<noteq> idle_thread k"
    and qk: "queue_ok k" and i: "idle_ok k"
    using assms(1) unfolding handover_inv_def queue_ok_def by blast+
  have c: "prio ?k (chosen k) = prio k (chosen k)"
    using chosen_facts(2) [OF qk i] by (simp add: prio_switched_to not_freed)
  have p: "prio ?k t = prio k t" if "t \<in> set (ready_list k)" for t
    using that q [of t] by (simp add: prio_switched_to not_freed)
  have eq: "map (\<lambda>t. - prio ?k t) (tl (ready_list k)) = map (\<lambda>t. - prio k t) (tl (ready_list k))"
    by (intro map_cong refl) (metis list.set_sel(2) p tl_Nil)
  show "prio_sorted ?k"
    unfolding prio_sorted_def switched_to_fields eq by (rule prio_sorted_tl [OF assms(2)])
  have "prio ?k t \<le> prio ?k (chosen k)"
    if "status_of ?k t = Some THREAD_READY" "t \<noteq> idle_thread k" for t
  proof -
    from that have "t \<in> set (ready_list k)" and "status_of k t = Some THREAD_READY"
      using q [of t] by (auto simp: status_of_switched_to split: if_splits)
    then show ?thesis
      using assms(2) hd_sorted_highest [of k "ready_list k" t] p [of t] c
      by (cases "ready_list k") (auto simp: chosen_def prio_sorted_def)
  qed
  then show "highest_runs ?k" by (simp add: highest_runs_def)
qed

lemma yielded_sorted:
  assumes "pintos_ok lib" "prio_sorted k"
  shows "prio_sorted (yielded lib k)"
proof -
  have "thread_cmp_priority (intr_set_level INTR_OFF k) = thread_cmp_priority k"
    by (simp add: thread_cmp_priority_def fun_eq_iff)
  then show ?thesis
    using assms sorted_insert_prio [OF assms(1)]
    by (auto simp: prio_sorted_def yielded_def Let_def)
qed

lemma prio_yielded [simp]: "prio (yielded lib k) u = prio k u"
  by (simp add: yielded_def Let_def)

lemma running_yielded [simp]: "running (yielded lib k) = running k"
  by (simp add: yielded_def Let_def)

definition base_prio :: "kernel \<Rightarrow> tptr \<Rightarrow> int option" where
  "base_prio k t = map_option base_priority (pages k t)"

lemma base_prio_sets [simp]:
  "base_prio (set_resume t l k) u = base_prio k u" "base_prio (set_status t s k) u = base_prio k u"
  "base_prio (intr_set_level l k) u = base_prio k u" "base_prio (k\<lparr>ready_list := q\<rparr>) u = base_prio k u"
  by (simp_all add: base_prio_def upd_defs option.map_comp comp_def)

lemma base_prio_switched_to:
  "\<not> freed_by_switch k u \<Longrightarrow> base_prio (switched_to t k) u = base_prio k u"
  by (simp add: base_prio_def pages_switched_to option.map_comp comp_def)

lemma base_prio_yielded [simp]: "base_prio (yielded lib k) u = base_prio k u"
  by (simp add: yielded_def Let_def)

lemma thread_yield_frame:
  assumes "pintos_ok lib" "sched_inv k" "\<not> in_interrupt k" "thread_yield lib k = Inr k'"
    and "status_of k u = Some s" "s \<noteq> THREAD_DYING"
  shows "prio k' u = prio k u" and "base_prio k' u = base_prio k u"
    and "status_of k' u = (if u = running k' then Some THREAD_RUNNING
           else if u = running k then Some THREAD_READY else Some s)"
proof -
  let ?y = "yielded lib k"
  have k': "k' = switched_to (chosen ?y) ?y" using thread_yield_eq [OF assms(1-3)] assms(4) by simp
  have nf: "\<not> freed_by_switch ?y u"
    using assms(5,6) by (auto simp: freed_by_switch_def status_of_yielded [OF assms(2)])
  have "status_of ?y u \<noteq> None" using assms(5) by (simp add: status_of_yielded [OF assms(2)])
  then obtain th where "pages ?y u = Some th" by (auto simp: status_of_def)
  with nf show "status_of k' u = (if u = running k' then Some THREAD_RUNNING
      else if u = running k then Some THREAD_READY else Some s)"
    using assms(5) by (auto simp: k' status_of_switched_to status_of_yielded [OF assms(2)])
  show "prio k' u = prio k u" using nf by (simp add: k' prio_switched_to)
  show "base_prio k' u = base_prio k u" using nf by (simp add: k' base_prio_switched_to)
qed

lemma thread_yield_facts:
  assumes "pintos_ok lib" and "sched_inv k" and "\<not> in_interrupt k" and "prio_sorted k"
  shows "\<exists>k'. thread_yield lib k = Inr k' \<and> sched_inv k' \<and> prio_sorted k' \<and> highest_runs k' \<and>
           (running k \<noteq> idle_thread k \<longrightarrow> prio k (running k) \<le> prio k' (running k'))"
proof -
  let ?y = "yielded lib k"
  let ?k = "switched_to (chosen ?y) ?y"
  have h: "handover_inv ?y" using assms(1,2) by (rule yielded_handover)
  have s: "prio_sorted ?y" using assms(1,4) by (rule yielded_sorted)
  note highest = switch_highest [OF h s]
  have "prio k (running k) \<le> prio ?k (running ?k)" if "running k \<noteq> idle_thread k"
  proof -
    have r: "running k \<in> set (ready_list ?y)"
      using that insert_ordered_facts(1) [OF assms(1)] by (simp add: yielded_def Let_def)
    have "\<not> freed_by_switch ?y (chosen ?y)"
      using h chosen_facts [of ?y] by (intro not_freed) (auto simp: handover_inv_def)
    then have "prio ?k (chosen ?y) = prio k (chosen ?y)"
      by (simp add: prio_switched_to)
    then show ?thesis
      using hd_sorted_highest [OF s [unfolded prio_sorted_def] r] r
      by (cases "ready_list ?y") (auto simp: chosen_def)
  qed
  with thread_yield_eq [OF assms(1-3)] switched_to_inv [OF h] highest show ?thesis by blast
qed

text \<open>
  \<^verbatim>\<open>thread_yield\<close> never fails an assertion, keeps the scheduler's invariant, and dispatches by
  priority: with the ready list in priority order, afterwards the running thread has a
  priority at least that of every ready thread and of the thread that yielded (unless that was
  the idle thread), and the ready list is still in order.
\<close>
theorem thread_yield_dispatches_highest:
  assumes "pintos_ok lib" and "sched_inv k" and "\<not> in_interrupt k" and "prio_sorted k"
  shows "\<exists>k'. thread_yield lib k = Inr k' \<and> sched_inv k' \<and> prio_sorted k' \<and> highest_runs k' \<and>
           (running k \<noteq> idle_thread k \<longrightarrow> prio k (running k) \<le> prio k' (running k'))"
  using assms by (rule thread_yield_facts)

subsection \<open>Operations that update thread fields only\<close>

lemma upd_thread_fields [simp]:
  "ready_list (upd_thread t f k) = ready_list k" "all_list (upd_thread t f k) = all_list k"
  "idle_thread (upd_thread t f k) = idle_thread k" "running (upd_thread t f k) = running k"
  "initial_thread (upd_thread t f k) = initial_thread k" "intr (upd_thread t f k) = intr k"
  "in_interrupt (upd_thread t f k) = in_interrupt k"
  "thread_mlfqs (upd_thread t f k) = thread_mlfqs k"
  by (simp_all add: upd_thread_def)

lemma status_of_upd_thread:
  "(\<And>th. status (f th) = status th) \<Longrightarrow> status_of (upd_thread t f k) u = status_of k u"
  by (simp add: status_of_def upd_thread_def option.map_comp comp_def)

lemma sched_inv_upd_thread:
  assumes "sched_inv k" "\<And>th. status (f th) = status th" "\<And>th. magic (f th) = magic th"
  shows "sched_inv (upd_thread t f k)"
proof -
  have st: "status_of (upd_thread t f k) u = status_of k u" for u
    using assms(2) by (rule status_of_upd_thread)
  have "threads_ok (upd_thread t f k)"
    using sched_invD(1) [OF assms(1)] assms(3) by (rule threads_ok_upd)
  moreover have "queue_ok (upd_thread t f k) = queue_ok k" "all_ok (upd_thread t f k) = all_ok k"
    "idle_ok (upd_thread t f k) = idle_ok k" "cpu_ok (upd_thread t f k) = cpu_ok k"
    unfolding queue_ok_def all_ok_def idle_ok_def cpu_ok_def st upd_thread_fields by (rule refl)+
  ultimately show ?thesis using assms(1) by (simp add: sched_inv_def)
qed

lemma prio_upd_other: "u \<noteq> t \<Longrightarrow> prio (upd_thread t f k) u = prio k u"
  by (simp add: prio_def upd_thread_def)

lemma prio_upd_same:
  "(\<And>th. priority (f th) = priority th) \<Longrightarrow> prio (upd_thread t f k) u = prio k u"
  by (simp add: prio_def upd_thread_def split: option.splits)

lemma prio_sorted_cong:
  "ready_list k' = ready_list k \<Longrightarrow> (\<And>t. t \<in> set (ready_list k) \<Longrightarrow> prio k' t = prio k t) \<Longrightarrow>
   prio_sorted k \<Longrightarrow> prio_sorted k'"
  unfolding prio_sorted_def by (metis (no_types, lifting) map_cong)

lemma prio_sorted_upd_running:
  assumes "sched_inv k" "prio_sorted k"
  shows "prio_sorted (upd_thread (running k) f k)"
proof (rule prio_sorted_cong [OF _ _ assms(2)])
  fix t assume "t \<in> set (ready_list k)"
  with running_not_ready [OF assms(1)] have "t \<noteq> running k" by blast
  then show "prio (upd_thread (running k) f k) t = prio k t" by (rule prio_upd_other)
qed simp

lemma order_set_resume [simp]:
  "prio_sorted (set_resume t l k) = prio_sorted k" "highest_runs (set_resume t l k) = highest_runs k"
  "prio_sorted (intr_set_level l k) = prio_sorted k" "highest_runs (intr_set_level l k) = highest_runs k"
  by (simp_all add: prio_sorted_def highest_runs_def)

lemma sched_inv_set_resume: "sched_inv k \<Longrightarrow> sched_inv (set_resume t l k)"
  by (simp add: set_resume_def sched_inv_upd_thread)

lemma status_of_switched_other:
  "handover_inv k \<Longrightarrow> status_of k u = Some THREAD_BLOCKED \<Longrightarrow> u \<noteq> chosen k \<Longrightarrow>
   status_of (switched_to (chosen k) k) u = Some THREAD_BLOCKED"
  by (simp add: status_of_switched_to freed_by_switch_def)

definition priority_set :: "kernel \<Rightarrow> int \<Rightarrow> int" where
  "priority_set k p =
     (if (\<exists>th. pages k (running k) = Some th \<and> locks_holding th = []) \<or> p > prio k (running k)
      then p else prio k (running k))"

lemma prio_set_resume [simp]: "prio (set_resume t l k) u = prio k u"
  by (simp add: set_resume_def prio_upd_same)

text \<open>
  C6: \<^verbatim>\<open>thread_set_priority\<close> keeps the system's promise that no ready thread outranks the
  running one: under the round-robin scheduler, from a state where it holds, it returns, keeps
  the scheduler's invariant and the order of the ready list, and the promise holds again,
  whatever the new priority and whether or not the thread holds locks. The base priority of the
  thread that called is the new one, and so is its priority, unless it holds locks and the new one is
  no higher: then the priority, which a waiting thread may have donated, stays.
\<close>
theorem thread_set_priority_keeps_highest:
  assumes "pintos_ok lib" and "sched_inv k" and "\<not> in_interrupt k" and "\<not> thread_mlfqs k"
    and "prio_sorted k" and "highest_runs k"
  shows "\<exists>k'. thread_set_priority lib p k = Inr k' \<and> sched_inv k' \<and> prio_sorted k' \<and> highest_runs k' \<and>
    base_prio k' (running k) = Some p \<and> prio k' (running k) = priority_set k p"
proof -
  let ?k1 = "intr_set_level INTR_OFF k"
  let ?k2 = "upd_thread (running k) (\<lambda>th. th\<lparr>base_priority := p\<rparr>) ?k1"
  let ?k3 = "upd_thread (running k) (\<lambda>th. th\<lparr>priority := p\<rparr>) ?k2"
  obtain th where th: "pages k (running k) = Some th" using running_page [OF assms(2)] by blast
  have i1: "sched_inv ?k1" using assms(2) by simp
  have i2: "sched_inv ?k2" by (rule sched_inv_upd_thread [OF i1]) simp_all
  have i3: "sched_inv ?k3" by (rule sched_inv_upd_thread [OF i2]) simp_all
  have s2: "prio_sorted ?k2" using prio_sorted_upd_running [OF i1] assms(5) by simp
  have s3: "prio_sorted ?k3" using prio_sorted_upd_running [OF i2] s2 by simp
  have h2: "highest_runs ?k2"
    using assms(6) by (simp add: highest_runs_def status_of_upd_thread prio_upd_same)
  have e2: "base_prio ?k2 (running k) = Some p" "prio ?k2 (running k) = prio k (running k)"
    by (simp_all add: base_prio_def upd_thread_def intr_set_level_def prio_def th)
  have e3: "base_prio ?k3 (running k) = Some p" "prio ?k3 (running k) = p"
    by (simp_all add: base_prio_def upd_thread_def intr_set_level_def prio_def th)
  from thread_yield_facts [OF assms(1) i3 _ s3] assms(3) obtain k4
    where y: "thread_yield lib ?k3 = Inr k4" "sched_inv k4" "prio_sorted k4" "highest_runs k4"
    by auto
  have "status_of ?k3 (running k) = Some THREAD_RUNNING" using sched_invD(6) [OF i3] by simp
  then have e4: "base_prio k4 (running k) = Some p" "prio k4 (running k) = p"
    using thread_yield_frame [OF assms(1) i3 _ y(1)] assms(3) e3 by auto
  have p1: "prio ?k1 (running k) = prio k (running k)" by (simp add: prio_def intr_set_level_def)
  have p2: "pages ?k2 (running k) = Some (th\<lparr>base_priority := p\<rparr>)"
    by (simp add: upd_thread_def intr_set_level_def th)
  show ?thesis
    using assms(4) thread_current_eq [OF i1] i2 s2 h2 e2 y e4
    by (simp add: thread_set_priority_def Let_def intr_disable_eq sched_inv_set_resume priority_set_def p1 p2 th)
qed

subsection \<open>Creating and ending threads\<close>

definition created ::
  "pintos \<Rightarrow> tptr \<Rightarrow> string \<Rightarrow> int \<Rightarrow> 32 word \<Rightarrow> 32 word \<Rightarrow> kernel \<Rightarrow> kernel" where
  "created lib t name p f a k =
     k\<lparr>all_list := list_insert_ordered lib
         (\<lambda>a b. misread_priority lib a > misread_priority lib b) t (all_list k),
       next_tid := i32 (next_tid k + 1),
       pages := (pages k)(t \<mapsto>
         \<lparr>tid = next_tid k, status = THREAD_BLOCKED, tname = take 15 name,
          stack = t + PGSIZE - 12 - sizeof_switch_entry_frame lib - sizeof_switch_threads_frame lib,
          priority = p, sleep_time = 0, base_priority = p, locks_holding = [], nice = 0,
          recent_cpu = FP_CONST 0, magic = THREAD_MAGIC, start_function = f, start_aux = a,
          resume_level = INTR_ON\<rparr>)\<rparr>"

lemma created_fields [simp]:
  "ready_list (created lib t n p f a k) = ready_list k" "running (created lib t n p f a k) = running k"
  "idle_thread (created lib t n p f a k) = idle_thread k" "intr (created lib t n p f a k) = intr k"
  "initial_thread (created lib t n p f a k) = initial_thread k"
  "in_interrupt (created lib t n p f a k) = in_interrupt k"
  "thread_mlfqs (created lib t n p f a k) = thread_mlfqs k"
  "status_of (created lib t n p f a k) u = (if u = t then Some THREAD_BLOCKED else status_of k u)"
  "prio (created lib t n p f a k) u = (if u = t then p else prio k u)"
  by (simp_all add: created_def status_of_def prio_def)

lemma thread_create_eq:
  assumes "pintos_ok lib" "t \<noteq> 0" "PRI_MIN \<le> p" "p \<le> PRI_MAX" "f \<noteq> 0"
  shows "thread_create lib t (Some n) p f a k =
    bnd (thread_unblock lib t (created lib t n p f a k)) (\<lambda>k8.
    bnd (thread_current k8) (\<lambda>cur.
    if prio k8 cur < p then bnd (thread_yield lib k8) (\<lambda>k9. Inr (next_tid k, k9))
    else Inr (next_tid k, k8)))"
proof -
  have al: "sizeof_switch_entry_frame lib mod 4 = 0" "sizeof_switch_threads_frame lib mod 4 = 0"
    using assms(1) by (simp_all add: pintos_ok_def frames_aligned_def)
  show ?thesis
    using assms(2-)
    by (simp add: thread_create_def init_thread_def alloc_frame_def allocate_tid_def is_thread_def
        upd_defs Let_def created_def al cong: if_cong)
qed

lemma created_inv:
  assumes "pintos_ok lib" "sched_inv k" "t \<noteq> 0" "pages k t = None"
  shows "sched_inv (created lib t n p f a k)"
proof -
  let ?k = "created lib t n p f a k"
  note g = sched_inv_sets [OF assms(2)] and ins = insert_ordered_facts [OF assms(1)]
  have none: "status_of k t = None" using assms(4) by (simp add: status_of_None)
  then have ti: "t \<noteq> idle_thread k" and tr: "t \<noteq> running k" and ta: "t \<notin> set (all_list k)"
    using g(4) [of t] g(7) sched_invD(6) [OF assms(2)] by auto
  have al: "all_list ?k = list_insert_ordered lib
      (\<lambda>a b. misread_priority lib a > misread_priority lib b) t (all_list k)"
    by (simp add: created_def)
  have "threads_ok ?k"
    using sched_invD(1) [OF assms(2)] assms(3) by (auto simp: threads_ok_def created_def)
  moreover have "queue_ok ?k" unfolding queue_ok_def using g(1,3) none by simp
  moreover have "all_ok ?k" unfolding all_ok_def al using g(2,4) ta by (simp add: ins)
  moreover have "idle_ok ?k" unfolding idle_ok_def using g(7) ti by simp
  moreover have "cpu_ok ?k" unfolding cpu_ok_def using g(5,6) tr by (simp; metis)
  ultimately show ?thesis by (simp add: sched_inv_def)
qed

text \<open>
  C28: \<^verbatim>\<open>thread_create\<close> with a fresh page, a legal priority and a function creates the thread and
  preempts when it must: no assertion fails, the new thread gets the next tid and a page of its
  own, the invariant and the order of the ready list are kept, and no ready thread outranks the
  thread that runs afterwards; in particular a new thread of higher priority than its creator
  does not have to wait for the creator.
\<close>
theorem thread_create_preempts:
  assumes "pintos_ok lib" and "sched_inv k" and "\<not> in_interrupt k" and "prio_sorted k"
    and "highest_runs k" and "t \<noteq> 0" and "pages k t = None"
    and "PRI_MIN \<le> p" and "p \<le> PRI_MAX" and "f \<noteq> 0"
  shows "\<exists>k'. thread_create lib t (Some n) p f a k = Inr (next_tid k, k') \<and> sched_inv k' \<and>
           prio_sorted k' \<and> highest_runs k' \<and> p \<le> prio k' (running k') \<and> status_of k' t \<noteq> None"
proof -
  let ?c = "created lib t n p f a k"
  have ic: "sched_inv ?c" using assms(1,2,6,7) by (rule created_inv)
  have none: "status_of k t = None" using assms(7) by (simp add: status_of_None)
  have ti: "t \<noteq> idle_thread k" and tr: "t \<noteq> running k" and tq: "t \<notin> set (ready_list k)"
    using sched_inv_sets(3) [OF assms(2), of t] sched_inv_sets(7) [OF assms(2)]
      sched_invD(6) [OF assms(2)] none by auto
  have sc: "prio_sorted ?c" by (rule prio_sorted_cong [OF _ _ assms(4)]) (use tq in auto)
  let ?u = "set_status t THREAD_READY
    (?c\<lparr>ready_list := list_insert_ordered lib (thread_cmp_priority ?c) t (ready_list ?c)\<rparr>)"
  have eq: "thread_unblock lib t ?c = Inr ?u" using ic by (rule thread_unblock_eq) simp
  have iu: "sched_inv ?u" using thread_unblock_inv [OF assms(1) ic _, of t] eq ti by simp
  have su: "prio_sorted ?u"
    using sorted_insert_prio [OF assms(1) sc [unfolded prio_sorted_def], of t]
    by (simp add: prio_sorted_def)
  have cu: "thread_current ?u = Inr (running k)" using thread_current_eq [OF iu] by simp
  have pu: "prio ?u (running k) = prio k (running k)" using tr by simp
  note create = thread_create_eq [OF assms(1,6,8,9,10), of n a k] eq cu pu
  show ?thesis
  proof (cases "prio k (running k) < p")
    case True
    obtain k' where y: "thread_yield lib ?u = Inr k'" "sched_inv k'" "prio_sorted k'" "highest_runs k'"
      using thread_yield_facts [OF assms(1) iu _ su] assms(3) by auto
    have "status_of ?u t = Some THREAD_READY" by (simp add: created_def)
    note live = thread_yield_frame [OF assms(1) iu _ y(1) this] 
    have "idle_thread k' = idle_thread k"
      using thread_yield_eq [OF assms(1) iu] y(1) assms(3) by (auto simp: yielded_def Let_def)
    with live y(4) ti tr have "p \<le> prio k' (running k')"
      using assms(3) by (cases "t = running k'") (auto simp: highest_runs_def)
    then show ?thesis using create True y live assms(3) by simp
  next
    case False
    have "highest_runs ?u"
      using assms(5) False tr by (auto simp: highest_runs_def)
    then show ?thesis using create False iu su tr by (simp add: created_def)
  qed
qed

text \<open>
  \<^verbatim>\<open>thread_exit\<close> ends the running thread for good: called by a thread other than idle it fails
  no assertion, keeps the invariant, hands the processor to another thread, takes the thread out
  of both lists and gives its page back, unless it is the initial thread, whose page did not come
  from the page allocator. Every other thread keeps its page and its priority.
\<close>
theorem thread_exit_reclaims:
  assumes "sched_inv k" and "\<not> in_interrupt k" and "running k \<noteq> idle_thread k"
  shows "\<exists>k'. thread_exit k = Inr k' \<and> sched_inv k' \<and> running k' \<noteq> running k \<and>
           running k \<notin> set (ready_list k') \<union> set (all_list k') \<and>
           (pages k' (running k) = None \<longleftrightarrow> running k \<noteq> initial_thread k) \<and>
           (\<forall>u. u \<noteq> running k \<longrightarrow> (pages k' u = None \<longleftrightarrow> pages k u = None) \<and> prio k' u = prio k u)"
proof -
  let ?e = "exited k"
  let ?k = "switched_to (chosen ?e) ?e"
  have h: "handover_inv ?e" using assms(1,3) by (rule exited_handover)
  have inv: "sched_inv ?k" using h by (rule switched_to_inv)
  obtain th where th: "pages k (running k) = Some th" using running_page [OF assms(1)] by blast
  have st: "status_of ?e u = (if u = running k then Some THREAD_DYING else status_of k u)" for u
    using th by (auto simp: exited_def)
  have pg: "pages ?e u = (if u = running k then Some (th\<lparr>status := THREAD_DYING\<rparr>) else pages k u)" for u
    using th by (simp add: exited_def upd_defs)
  have run: "running ?e = running k" "initial_thread ?e = initial_thread k"
    by (simp_all add: exited_def)
  have c: "chosen ?e \<noteq> running k"
    using h chosen_facts(2) [of ?e] st [of "running k"] unfolding handover_inv_def by metis
  have nf: "freed_by_switch ?e u \<longleftrightarrow> u = running k \<and> running k \<noteq> initial_thread k" for u
    by (simp add: freed_by_switch_def st run)
  have gone: "status_of ?k (running k) \<noteq> Some s" if "s \<noteq> THREAD_DYING" for s
    using c that by (simp add: status_of_switched_to st)
  have "running k \<notin> set (ready_list ?k) \<union> set (all_list ?k)"
    using sched_inv_sets(3,4) [OF inv, of "running k"] gone by auto
  moreover have "pages ?k (running k) = None \<longleftrightarrow> running k \<noteq> initial_thread k"
    using c by (simp add: pages_switched_to nf pg)
  moreover have "(pages ?k u = None \<longleftrightarrow> pages k u = None) \<and> prio ?k u = prio k u"
    if "u \<noteq> running k" for u
  proof -
    have "prio ?e u = prio k u" by (simp add: exited_def)
    with that show ?thesis by (simp add: pages_switched_to prio_switched_to nf pg)
  qed
  ultimately show ?thesis using thread_exit_eq [OF assms] inv c by auto
qed

subsection \<open>Time slices\<close>

fun tick_times :: "nat \<Rightarrow> kernel \<Rightarrow> kernel result" where
  "tick_times 0 k = Inr k"
| "tick_times (Suc n) k = bnd (tick_times n k) thread_tick"

lemma sched_inv_fields [simp]:
  "sched_inv (k\<lparr>idle_ticks := a\<rparr>) = sched_inv k" "sched_inv (k\<lparr>kernel_ticks := a\<rparr>) = sched_inv k"
  "sched_inv (k\<lparr>thread_ticks := b\<rparr>) = sched_inv k" "sched_inv (k\<lparr>yield_on_return := c\<rparr>) = sched_inv k"
  "sched_inv (k\<lparr>in_interrupt := c\<rparr>) = sched_inv k" "sched_inv (k\<lparr>load_avg := a\<rparr>) = sched_inv k"
  by (cases k; simp only: sched_inv_def inv_defs status_of_def kernel.update_convs kernel.select_convs)+

lemma thread_tick_inv:
  assumes "sched_inv k"
  shows "\<exists>k'. thread_tick k = Inr k' \<and> sched_inv k' \<and> running k' = running k \<and>
    idle_thread k' = idle_thread k \<and> thread_ticks k' = thread_ticks k + 1 \<and>
    (yield_on_return k' \<longleftrightarrow> yield_on_return k \<or> thread_ticks k + 1 \<ge> TIME_SLICE) \<and>
    i64 (idle_ticks k' + kernel_ticks k') = i64 (idle_ticks k + kernel_ticks k + 1)"
proof -
  have 1: "i64 (i64 (x + 1) + y) = i64 (x + y + 1)" for x y
    using i64_add_left [of "x + 1" y] by (simp add: algebra_simps)
  have 2: "i64 (y + i64 (x + 1)) = i64 (y + x + 1)" for x y
    using 1 [of x y] by (simp add: algebra_simps)
  show ?thesis
    using assms thread_current_eq [OF assms] by (simp add: thread_tick_def Let_def 1 2)
qed

text \<open>
  A thread keeps the processor for a whole time slice and not longer: if nothing but timer
  ticks happens after a switch, the handler asks for a yield exactly from the fourth tick on,
  and every tick is counted once, as idle or as kernel time.
\<close>
theorem time_slice_of_four_ticks:
  assumes "sched_inv k" and "thread_ticks k = 0" and "\<not> yield_on_return k" and "n < 2 ^ 32"
  shows "\<exists>k'. tick_times n k = Inr k' \<and> sched_inv k' \<and> running k' = running k \<and>
           (yield_on_return k' \<longleftrightarrow> 4 \<le> n) \<and>
           i64 (idle_ticks k' + kernel_ticks k') = i64 (idle_ticks k + kernel_ticks k + int n)"
proof -
  have "\<exists>k'. tick_times n k = Inr k' \<and> sched_inv k' \<and> running k' = running k \<and>
      thread_ticks k' = of_nat n \<and> (yield_on_return k' \<longleftrightarrow> 4 \<le> n) \<and>
      i64 (idle_ticks k' + kernel_ticks k') = i64 (idle_ticks k + kernel_ticks k + int n)"
    using assms(4)
  proof (induction n)
    case 0
    then show ?case using assms(1-3) by simp
  next
    case (Suc n)
    then obtain k1 where k1: "tick_times n k = Inr k1" "sched_inv k1" "running k1 = running k"
      "thread_ticks k1 = of_nat n" "yield_on_return k1 \<longleftrightarrow> 4 \<le> n"
      "i64 (idle_ticks k1 + kernel_ticks k1) = i64 (idle_ticks k + kernel_ticks k + int n)" by auto
    have u: "unat (of_nat n + 1 :: 32 word) = Suc n"
      using Suc.prems by (simp add: unat_word_ariths unat_of_nat take_bit_eq_mod)
    have "of_nat n + 1 \<ge> TIME_SLICE \<longleftrightarrow> 4 \<le> Suc n"
      using u by (simp add: TIME_SLICE_def word_le_nat_alt)
    moreover have "i64 (idle_ticks k1 + kernel_ticks k1 + 1)
        = i64 (idle_ticks k + kernel_ticks k + int (Suc n))"
      using k1(6) i64_add_left [of "idle_ticks k1 + kernel_ticks k1" 1]
        i64_add_left [of "idle_ticks k + kernel_ticks k + int n" 1] by (simp add: ac_simps)
    moreover obtain k2 where "thread_tick k1 = Inr k2" "sched_inv k2" "running k2 = running k1"
      "thread_ticks k2 = thread_ticks k1 + 1"
      "yield_on_return k2 \<longleftrightarrow> yield_on_return k1 \<or> thread_ticks k1 + 1 \<ge> TIME_SLICE"
      "i64 (idle_ticks k2 + kernel_ticks k2) = i64 (idle_ticks k1 + kernel_ticks k1 + 1)"
      using thread_tick_inv [OF k1(2)] by blast
    ultimately show ?case
      using k1 by (intro exI [of _ k2]) (auto simp: add.commute)
  qed
  then show ?thesis by blast
qed

subsection \<open>A concrete state\<close>

text \<open>
  Four threads: main runs, the idle thread is blocked, one worker is ready and one sleeps. Used
  to show that the hypotheses of the theorems can hold together.
\<close>

definition sample_thread :: "int \<Rightarrow> thread_status \<Rightarrow> int \<Rightarrow> thread" where
  "sample_thread n s p =
     \<lparr>tid = n, status = s, tname = ''t'', stack = 0x5000, priority = p, sleep_time = 0,
      base_priority = p, locks_holding = [], nice = 0, recent_cpu = 0, magic = THREAD_MAGIC,
      start_function = 1, start_aux = 0, resume_level = INTR_ON\<rparr>"

definition sample_kernel :: kernel where
  "sample_kernel =
     \<lparr>pages = [0x1000 \<mapsto> sample_thread 1 THREAD_RUNNING 31, 0x2000 \<mapsto> sample_thread 2 THREAD_BLOCKED 0,
               0x3000 \<mapsto> sample_thread 3 THREAD_READY 20, 0x4000 \<mapsto> sample_thread 4 THREAD_BLOCKED 40],
      ready_list = [0x3000], all_list = [0x1000, 0x2000, 0x3000, 0x4000],
      idle_thread = 0x2000, wake_up = 0, initial_thread = 0x1000, running = 0x1000,
      idle_ticks = 0, kernel_ticks = 0, thread_ticks = 3, thread_mlfqs = False, load_avg = 0,
      next_tid = 5, intr = INTR_ON, in_interrupt = False, yield_on_return = False\<rparr>"

lemma sample_kernel_fields [simp]:
  "ready_list sample_kernel = [0x3000]" "running sample_kernel = 0x1000"
  "idle_thread sample_kernel = 0x2000" "in_interrupt sample_kernel = False"
  "intr sample_kernel = INTR_ON" "thread_mlfqs sample_kernel = False"
  "thread_ticks sample_kernel = 3" "yield_on_return sample_kernel = False" "initial_thread sample_kernel = 0x1000"
  "all_list sample_kernel = [0x1000, 0x2000, 0x3000, 0x4000]" "next_tid sample_kernel = 5"
  by (simp_all add: sample_kernel_def)

lemma status_of_sample:
  "status_of sample_kernel t =
     (if t = 0x1000 then Some THREAD_RUNNING else if t = 0x2000 then Some THREAD_BLOCKED
      else if t = 0x3000 then Some THREAD_READY else if t = 0x4000 then Some THREAD_BLOCKED
      else None)"
  by (simp add: status_of_def sample_kernel_def sample_thread_def)

lemma prio_sample:
  "prio sample_kernel t =
     (if t = 0x1000 then 31 else if t = 0x3000 then 20 else if t = 0x4000 then 40 else 0)"
  by (simp add: prio_def sample_kernel_def sample_thread_def)

lemma sched_inv_sample: "sched_inv sample_kernel"
proof -
  have "threads_ok sample_kernel"
    by (auto simp: threads_ok_def sample_kernel_def sample_thread_def split: if_splits)
  moreover have "queue_ok sample_kernel" by (auto simp: queue_ok_def status_of_sample)
  moreover have "all_ok sample_kernel" by (auto simp: all_ok_def status_of_sample)
  moreover have "idle_ok sample_kernel" by (auto simp: idle_ok_def status_of_sample)
  moreover have "cpu_ok sample_kernel" by (auto simp: cpu_ok_def status_of_sample)
  ultimately show ?thesis by (simp add: sched_inv_def)
qed

lemma prio_sorted_sample: "prio_sorted sample_kernel"
  by (simp add: prio_sorted_def)

theorem thread_yield_dispatches_highest_witness:
  "\<exists>k'. thread_yield sample_pintos sample_kernel = Inr k' \<and> sched_inv k' \<and> prio_sorted k' \<and>
     highest_runs k' \<and> (running sample_kernel \<noteq> idle_thread sample_kernel \<longrightarrow>
       prio sample_kernel (running sample_kernel) \<le> prio k' (running k'))"
  by (rule thread_yield_dispatches_highest [OF pintos_ok_sample sched_inv_sample _ prio_sorted_sample])
    simp

lemma highest_runs_sample: "highest_runs sample_kernel"
  by (auto simp: highest_runs_def status_of_sample prio_sample split: if_splits)

theorem thread_set_priority_keeps_highest_witness:
  "\<exists>k'. thread_set_priority sample_pintos 10 sample_kernel = Inr k' \<and> sched_inv k' \<and>
     prio_sorted k' \<and> highest_runs k' \<and> base_prio k' 0x1000 = Some 10 \<and> prio k' 0x1000 = 10"
proof -
  have p: "priority_set sample_kernel 10 = 10"
    by (simp add: priority_set_def) (simp add: sample_kernel_def sample_thread_def)
  show ?thesis
    using thread_set_priority_keeps_highest [OF pintos_ok_sample sched_inv_sample _ _
        prio_sorted_sample highest_runs_sample, of 10] unfolding p by simp
qed

theorem thread_create_preempts_witness:
  "\<exists>k'. thread_create sample_pintos 0x6000 (Some ''new'') 50 1 0 sample_kernel = Inr (5, k') \<and>
     sched_inv k' \<and> prio_sorted k' \<and> highest_runs k' \<and> 50 \<le> prio k' (running k') \<and>
     status_of k' 0x6000 \<noteq> None"
  using thread_create_preempts [OF pintos_ok_sample sched_inv_sample _ prio_sorted_sample
      highest_runs_sample, where t = "0x6000" and p = "50" and f = "1" and n = "''new''" and a = "0"]
  by (simp add: pri_defs status_of_sample status_of_None [symmetric])

theorem thread_exit_reclaims_witness:
  "\<exists>k'. thread_exit sample_kernel = Inr k' \<and> sched_inv k' \<and> running k' \<noteq> running sample_kernel"
  using thread_exit_reclaims [OF sched_inv_sample] by auto

theorem time_slice_of_four_ticks_witness:
  "\<exists>k'. tick_times 4 (sample_kernel\<lparr>thread_ticks := 0\<rparr>) = Inr k' \<and> yield_on_return k'"
  using time_slice_of_four_ticks [of "sample_kernel\<lparr>thread_ticks := 0\<rparr>" 4] sched_inv_sample
  by auto

end
