(* ===== verification/Mlfqs.thy ===== *)
theory Mlfqs
  imports Scheduler
begin

section \<open>The multi-level feedback queue scheduler (Assignment 4)\<close>

text \<open>
  The operations of \<^verbatim>\<open>Assignment_4/.../thread.c\<close> that recompute load average, \<^verbatim>\<open>recent_cpu\<close> and
  priorities, and the part of the timer interrupt handler (\<^verbatim>\<open>timer.c\<close>) that calls them. \<^verbatim>\<open>TIMER_FREQ\<close>
  is a constant of a Pintos header and an argument here.

  The subject of the proofs is overflow: everything is 32-bit fixed point, and a second of work adds
  up to \<^verbatim>\<open>TIMER_FREQ\<close> to \<^verbatim>\<open>recent_cpu\<close> before it decays.
\<close>

subsection \<open>The operations\<close>

definition thread_at :: "kernel \<Rightarrow> tptr \<Rightarrow> thread result" where
  "thread_at k t =
     (case (if t = 0 then None else pages k t) of None \<Rightarrow> Inl Bad_pointer | Some th \<Rightarrow> Inr th)"

definition mlfqs_update_priority :: "tptr \<Rightarrow> kernel \<Rightarrow> kernel result" where
  "mlfqs_update_priority t k =
     bnd (assert (thread_mlfqs k)) (\<lambda>_.
     if t = idle_thread k then Inr k
     else
       bnd (thread_at k t) (\<lambda>th.
       Inr (upd_thread t (\<lambda>th. th\<lparr>priority := mlfqs_priority (recent_cpu th) (nice th)\<rparr>) k)))"

definition mlfqs_inc_recent_cpu :: "kernel \<Rightarrow> kernel result" where
  "mlfqs_inc_recent_cpu k =
     bnd (assert (thread_mlfqs k)) (\<lambda>_.
     bnd (assert (in_interrupt k)) (\<lambda>_.
     bnd (thread_current k) (\<lambda>cur.
     if cur = idle_thread k then Inr k
     else Inr (upd_thread cur (\<lambda>th. th\<lparr>recent_cpu := FP_ADD_MIX (recent_cpu th) 1\<rparr>) k))))"

fun update_all :: "tptr list \<Rightarrow> kernel \<Rightarrow> kernel result" where
  "update_all [] k = Inr k"
| "update_all (t # ts) k =
     bnd (if t \<noteq> idle_thread k then
            bnd (thread_at k t) (\<lambda>th.
            bnd (next_recent_cpu (load_avg k) (recent_cpu th) (nice th)) (\<lambda>rc.
            mlfqs_update_priority t (upd_thread t (\<lambda>th. th\<lparr>recent_cpu := rc\<rparr>) k)))
          else Inr k)
       (update_all ts)"

definition mlfqs_update_load_avg_and_recent_cpu :: "kernel \<Rightarrow> kernel result" where
  "mlfqs_update_load_avg_and_recent_cpu k =
     bnd (assert (thread_mlfqs k)) (\<lambda>_.
     bnd (assert (in_interrupt k)) (\<lambda>_.
     bnd (thread_current k) (\<lambda>cur.
     let ready_cnt = (word_of_nat (length (ready_list k)) :: 32 word)
           + (if cur \<noteq> idle_thread k then 1 else 0);
         k1 = k\<lparr>load_avg := next_load_avg (load_avg k) (uint ready_cnt)\<rparr> in
     update_all (all_list k1) k1)))"

definition thread_set_nice :: "pintos \<Rightarrow> int \<Rightarrow> kernel \<Rightarrow> kernel result" where
  "thread_set_nice lib n k =
     bnd (thread_current k) (\<lambda>cur.
     bnd (mlfqs_update_priority cur (upd_thread cur (\<lambda>th. th\<lparr>nice := n\<rparr>) k)) (\<lambda>k1.
     thread_yield lib k1))"

definition thread_get_nice :: "kernel \<Rightarrow> int result" where
  "thread_get_nice k = bnd (thread_current k) (\<lambda>cur. bnd (thread_at k cur) (\<lambda>th. Inr (nice th)))"

definition thread_get_load_avg :: "kernel \<Rightarrow> int" where
  "thread_get_load_avg k = FP_ROUND (FP_MULT_MIX (load_avg k) 100)"

definition thread_get_recent_cpu :: "kernel \<Rightarrow> int result" where
  "thread_get_recent_cpu k =
     bnd (thread_current k) (\<lambda>cur. bnd (thread_at k cur) (\<lambda>th.
     Inr (FP_ROUND (FP_MULT_MIX (recent_cpu th) 100))))"

text \<open>The end of \<^verbatim>\<open>timer_interrupt\<close>, at a tick count that has just been increased.\<close>

definition mlfqs_tick :: "int \<Rightarrow> int \<Rightarrow> kernel \<Rightarrow> kernel result" where
  "mlfqs_tick freq ticks k =
     (if thread_mlfqs k then
        bnd (mlfqs_inc_recent_cpu k) (\<lambda>k1.
        if ticks smod freq = 0 then mlfqs_update_load_avg_and_recent_cpu k1
        else if ticks smod 4 = 0 then bnd (thread_current k1) (\<lambda>cur. mlfqs_update_priority cur k1)
        else Inr k1)
      else Inr k)"

subsection \<open>The invariant\<close>

text \<open>
  With at most 130 threads ready and niceness in its documented range, no value of \<^verbatim>\<open>recent_cpu\<close>
  exceeds 31220 after a second's decay; between two decays it grows by one a tick.
\<close>

definition cpu_bound :: int where "cpu_bound = 31220"

definition mlfqs_thread_ok :: "int \<Rightarrow> thread \<Rightarrow> bool" where
  "mlfqs_thread_ok d th \<longleftrightarrow> - 20 \<le> nice th \<and> nice th \<le> 20 \<and>
     - 65536 * 6000 \<le> recent_cpu th \<and> recent_cpu th \<le> 65536 * (cpu_bound + d) \<and>
     PRI_MIN \<le> priority th \<and> priority th \<le> PRI_MAX"

definition mlfqs_inv :: "int \<Rightarrow> kernel \<Rightarrow> bool" where
  "mlfqs_inv d k \<longleftrightarrow> sched_inv k \<and> thread_mlfqs k \<and> length (ready_list k) < 130 \<and>
     0 \<le> load_avg k \<and> load_avg k \<le> 65536 * 130 \<and>
     (\<forall>t \<in> set (all_list k). \<forall>th. t \<noteq> idle_thread k \<longrightarrow> pages k t = Some th \<longrightarrow> mlfqs_thread_ok d th)"

text \<open>What the documentation asks for: the new value of \<^verbatim>\<open>recent_cpu\<close> and the priority it gives.\<close>

definition decayed :: "int \<Rightarrow> thread \<Rightarrow> int" where
  "decayed la th = ((la * 2 * 65536) div (la * 2 + 65536) * recent_cpu th) div 65536 + nice th * 65536"

definition refreshed :: "int \<Rightarrow> thread \<Rightarrow> thread" where
  "refreshed la th = th\<lparr>recent_cpu := decayed la th,
     priority := clamp_priority ((4128768 - decayed la th sdiv 4 - 131072 * nice th) div 65536)\<rparr>"

lemma coeff_bound:
  fixes la :: int
  assumes "0 \<le> la" "la \<le> 65536 * 130"
  shows "261 * ((la * 2 * 65536) div (la * 2 + 65536)) \<le> 65536 * 260"
proof -
  define d c where "d = la * 2 + 65536" and "c = (la * 2 * 65536) div (la * 2 + 65536)"
  have "0 < d" using assms(1) by (simp add: d_def)
  have "c * d \<le> la * 2 * 65536"
    using pos_mod_sign [OF \<open>0 < d\<close>, of "la * 2 * 65536"] by (simp add: c_def d_def minus_mod_eq_div_mult [symmetric])
  then have "(261 * c) * d \<le> (65536 * 260) * d" using assms(2) by (simp add: d_def algebra_simps)
  then show ?thesis using \<open>0 < d\<close> by (simp add: c_def)
qed

lemma scaled_bounds:
  fixes c r :: int
  assumes "0 \<le> c" "261 * c \<le> 65536 * 260" "- 65536 * 6000 \<le> r" "r \<le> 65536 * 31320"
  shows "65536 * - 5978 \<le> (c * r) div 65536" "(c * r) div 65536 \<le> 65536 * 31200"
proof -
  have "(261 * c) * r \<le> (65536 * 260) * (65536 * 31320)"
  proof (cases "0 \<le> r")
    case True
    show ?thesis by (rule mult_mono) (use assms True in auto)
  next
    case False
    then have "(261 * c) * r \<le> 0" using assms(1) by (intro mult_nonneg_nonpos) auto
    then show ?thesis by linarith
  qed
  moreover have "(65536 * 260) * (- 65536 * 6000) \<le> (261 * c) * r"
  proof (cases "0 \<le> r")
    case True
    then have "0 \<le> (261 * c) * r" using assms(1) by simp
    then show ?thesis by linarith
  next
    case False
    then have "(65536 * 260) * r \<le> (261 * c) * r" using assms(2) by (intro mult_right_mono_neg) auto
    then show ?thesis using assms(3) by linarith
  qed
  ultimately have "65536 * (65536 * - 5978) \<le> c * r" "c * r \<le> 65536 * (65536 * 31200)" by simp_all
  then show "65536 * - 5978 \<le> (c * r) div 65536" "(c * r) div 65536 \<le> 65536 * 31200" by linarith+
qed

lemma decayed_bounds:
  assumes "0 \<le> la" "la \<le> 65536 * 130" "mlfqs_thread_ok d th" "d \<le> 100"
  shows "- 65536 * 6000 \<le> decayed la th" "decayed la th \<le> 65536 * cpu_bound"
proof -
  have "0 \<le> (la * 2 * 65536) div (la * 2 + 65536)" using assms(1) by (simp add: pos_imp_zdiv_nonneg_iff)
  note b = scaled_bounds [OF this coeff_bound [OF assms(1,2)], of "recent_cpu th"]
  show "- 65536 * 6000 \<le> decayed la th" "decayed la th \<le> 65536 * cpu_bound"
    using assms(3,4) b by (simp_all add: decayed_def cpu_bound_def mlfqs_thread_ok_def)
qed

lemma update_one:
  assumes "0 \<le> load_avg k" "load_avg k \<le> 65536 * 130" "pages k t = Some th" "mlfqs_thread_ok d th" "d \<le> 100"
    "t \<noteq> 0" "thread_mlfqs k" "t \<noteq> idle_thread k"
  shows "bnd (next_recent_cpu (load_avg k) (recent_cpu th) (nice th)) (\<lambda>rc.
      mlfqs_update_priority t (upd_thread t (\<lambda>th. th\<lparr>recent_cpu := rc\<rparr>) k)) =
    Inr (k\<lparr>pages := (pages k)(t := Some (refreshed (load_avg k) th))\<rparr>)"
    and "mlfqs_thread_ok 0 (refreshed (load_avg k) th)"
proof -
  note b = decayed_bounds [OF assms(1,2,4,5)]
  have n: "- 20 \<le> nice th" "nice th \<le> 20" and r: "- 2100000000 \<le> recent_cpu th" "recent_cpu th \<le> 2100000000"
    using assms(4,5) by (simp_all add: mlfqs_thread_ok_def cpu_bound_def)
  show "mlfqs_thread_ok 0 (refreshed (load_avg k) th)"
    using b n by (simp add: mlfqs_thread_ok_def refreshed_def)
  have "in32 (decayed (load_avg k) th)" using b by (simp add: in32_def cpu_bound_def)
  note p = mlfqs_priority_eq [OF this n]
  show "bnd (next_recent_cpu (load_avg k) (recent_cpu th) (nice th)) (\<lambda>rc.
      mlfqs_update_priority t (upd_thread t (\<lambda>th. th\<lparr>recent_cpu := rc\<rparr>) k)) =
    Inr (k\<lparr>pages := (pages k)(t := Some (refreshed (load_avg k) th))\<rparr>)"
    using next_recent_cpu_eq(1) [of "load_avg k", OF assms(1) _ r n] assms(2,3,6-8) p
    by (simp add: mlfqs_update_priority_def thread_at_def upd_thread_def refreshed_def decayed_def)
qed

definition refresh_all :: "tptr list \<Rightarrow> kernel \<Rightarrow> kernel" where
  "refresh_all ts k = k\<lparr>pages := (\<lambda>t. if t \<in> set ts \<and> t \<noteq> idle_thread k
     then map_option (refreshed (load_avg k)) (pages k t) else pages k t)\<rparr>"

lemma refresh_all_fields [simp]:
  "ready_list (refresh_all ts k) = ready_list k" "load_avg (refresh_all ts k) = load_avg k"
  "thread_mlfqs (refresh_all ts k) = thread_mlfqs k" "all_list (refresh_all ts k) = all_list k"
  "idle_thread (refresh_all ts k) = idle_thread k" "running (refresh_all ts k) = running k"
  "initial_thread (refresh_all ts k) = initial_thread k" "in_interrupt (refresh_all ts k) = in_interrupt k"
  by (simp_all add: refresh_all_def)

lemma update_all_eq:
  assumes "0 \<le> load_avg k" "load_avg k \<le> 65536 * 130" "thread_mlfqs k" "d \<le> 100" "distinct ts"
    "\<forall>t \<in> set ts. t \<noteq> idle_thread k \<longrightarrow> t \<noteq> 0 \<and> (\<exists>th. pages k t = Some th \<and> mlfqs_thread_ok d th)"
  shows "update_all ts k = Inr (refresh_all ts k)"
  using assms
proof (induction ts arbitrary: k)
  case Nil
  then show ?case by (simp add: refresh_all_def)
next
  case (Cons t ts)
  show ?case
  proof (cases "t = idle_thread k")
    case True
    have "update_all ts k = Inr (refresh_all ts k)" by (rule Cons.IH) (use Cons.prems in auto)
    moreover have "refresh_all ts k = refresh_all (t # ts) k"
      using True by (auto simp: refresh_all_def fun_eq_iff intro!: arg_cong [of _ _ "\<lambda>p. k\<lparr>pages := p\<rparr>"])
    ultimately show ?thesis using True by simp
  next
    case False
    then obtain th where th: "t \<noteq> 0" "pages k t = Some th" "mlfqs_thread_ok d th" using Cons.prems(6) by auto
    let ?k = "k\<lparr>pages := (pages k)(t := Some (refreshed (load_avg k) th))\<rparr>"
    have "update_all (t # ts) k = update_all ts ?k"
      using update_one(1) [OF Cons.prems(1,2) th(2,3) Cons.prems(4) th(1) Cons.prems(3) False] False th
      by (simp add: thread_at_def)
    also have "\<dots> = Inr (refresh_all ts ?k)"
    proof (rule Cons.IH)
      show "\<forall>u \<in> set ts. u \<noteq> idle_thread ?k \<longrightarrow> u \<noteq> 0 \<and> (\<exists>th. pages ?k u = Some th \<and> mlfqs_thread_ok d th)"
        using Cons.prems(5,6) by auto
    qed (use Cons.prems in simp_all)
    also have "refresh_all ts ?k = refresh_all (t # ts) k"
      using False th(2) Cons.prems(5)
      by (auto simp: refresh_all_def fun_eq_iff intro!: arg_cong [of _ _ "\<lambda>p. k\<lparr>pages := p\<rparr>"])
    finally show ?thesis .
  qed
qed

lemma status_of_refresh_all [simp]: "status_of (refresh_all ts k) t = status_of k t"
  by (simp add: status_of_def refresh_all_def refreshed_def option.map_comp comp_def)

lemma sched_inv_refresh_all: "sched_inv k \<Longrightarrow> sched_inv (refresh_all ts k)"
  unfolding sched_inv_def queue_ok_def all_ok_def idle_ok_def cpu_ok_def
  by (auto simp: threads_ok_def refresh_all_def [of ts k, THEN arg_cong, of pages] refreshed_def split: if_splits)

lemma next_load_avg_range:
  assumes "0 \<le> la" "la \<le> 65536 * 130" "0 \<le> r" "r \<le> 130"
  shows "0 \<le> next_load_avg la r" "next_load_avg la r \<le> 65536 * 130"
proof -
  have "next_load_avg la r = (la * 59) div 60 + (r * 65536) div 60"
    using assms by (intro next_load_avg_eq) linarith+
  then show "0 \<le> next_load_avg la r" "next_load_avg la r \<le> 65536 * 130" using assms by simp_all
qed

text \<open>The running thread is charged with one tick.\<close>

definition charged :: "kernel \<Rightarrow> kernel" where
  "charged k = (if running k = idle_thread k then k
     else upd_thread (running k) (\<lambda>th. th\<lparr>recent_cpu := recent_cpu th + 65536\<rparr>) k)"

lemma charged_fields [simp]:
  "ready_list (charged k) = ready_list k" "load_avg (charged k) = load_avg k"
  "thread_mlfqs (charged k) = thread_mlfqs k" "all_list (charged k) = all_list k"
  "idle_thread (charged k) = idle_thread k" "running (charged k) = running k"
  "in_interrupt (charged k) = in_interrupt k"
  by (simp_all add: charged_def upd_thread_def)

lemma sched_inv_charged: "sched_inv k \<Longrightarrow> sched_inv (charged k)"
  by (simp add: charged_def sched_inv_upd_thread)

lemma running_listed: "sched_inv k \<Longrightarrow> running k \<in> set (all_list k)"
  using sched_inv_sets(4) [of k "running k"] sched_invD(6) [of k] by simp

lemma mlfqs_inc_recent_cpu_eq:
  assumes "mlfqs_inv d k" "in_interrupt k" "0 \<le> d" "d < 100"
  shows "mlfqs_inc_recent_cpu k = Inr (charged k)" "mlfqs_inv (d + 1) (charged k)"
proof -
  have inv: "sched_inv k" "thread_mlfqs k" using assms(1) by (simp_all add: mlfqs_inv_def)
  obtain th where th: "pages k (running k) = Some th" using running_page [OF inv(1)] by blast
  have tok: "mlfqs_thread_ok d th" if "running k \<noteq> idle_thread k"
    using that th assms(1) running_listed [OF inv(1)] by (simp add: mlfqs_inv_def)
  have "FP_ADD_MIX (recent_cpu th) 1 = recent_cpu th + 65536" if "running k \<noteq> idle_thread k"
    using tok [OF that] assms(3,4) by (simp add: FP_ADD_MIX_def i32_id mlfqs_thread_ok_def cpu_bound_def)
  then show "mlfqs_inc_recent_cpu k = Inr (charged k)"
    using thread_current_eq [OF inv(1)] inv(2) assms(2) th
    by (simp add: mlfqs_inc_recent_cpu_def charged_def upd_thread_def)
  have mono: "mlfqs_thread_ok (d + 1) u" if "mlfqs_thread_ok d u" for u
    using that by (simp add: mlfqs_thread_ok_def)
  have "mlfqs_thread_ok (d + 1) (th\<lparr>recent_cpu := recent_cpu th + 65536\<rparr>)" if "running k \<noteq> idle_thread k"
    using tok [OF that] by (simp add: mlfqs_thread_ok_def cpu_bound_def)
  then show "mlfqs_inv (d + 1) (charged k)"
    using assms(1) th mono sched_inv_charged [OF inv(1)]
    by (simp add: mlfqs_inv_def) (auto simp: charged_def upd_thread_def)
qed

lemma mlfqs_update_all_eq:
  assumes "mlfqs_inv d k" "in_interrupt k" "0 \<le> d" "d \<le> 100"
  defines "r \<equiv> int (length (ready_list k)) + (if running k = idle_thread k then 0 else 1)"
  defines "la \<equiv> next_load_avg (load_avg k) r"
  shows "mlfqs_update_load_avg_and_recent_cpu k = Inr (refresh_all (all_list k) (k\<lparr>load_avg := la\<rparr>))"
    and "mlfqs_inv 0 (refresh_all (all_list k) (k\<lparr>load_avg := la\<rparr>))"
proof -
  have inv: "sched_inv k" "thread_mlfqs k" "length (ready_list k) < 130" "0 \<le> load_avg k" "load_avg k \<le> 65536 * 130"
    and tok: "\<forall>t \<in> set (all_list k). \<forall>th. t \<noteq> idle_thread k \<longrightarrow> pages k t = Some th \<longrightarrow> mlfqs_thread_ok d th"
    using assms(1) by (simp_all add: mlfqs_inv_def)
  let ?k = "k\<lparr>load_avg := la\<rparr>"
  have r: "0 \<le> r" "r \<le> 130" using inv(3) by (simp_all add: r_def)
  have la: "0 \<le> la" "la \<le> 65536 * 130" unfolding la_def by (rule next_load_avg_range [OF inv(4,5) r])+
  define m where "m = length (ready_list k) + (if running k = idle_thread k then 0 else 1)"
  have "m < 2 ^ 32" "int m = r" using inv(3) by (simp_all add: m_def r_def)
  then have "uint (word_of_nat m :: 32 word) = r" by (simp add: unsigned_of_nat take_bit_nat_eq_self)
  moreover have "(word_of_nat (length (ready_list k)) :: 32 word) + (if running k \<noteq> idle_thread k then 1 else 0) = word_of_nat m"
    by (simp add: m_def)
  ultimately have "uint ((word_of_nat (length (ready_list k)) :: 32 word) + (if running k \<noteq> idle_thread k then 1 else 0)) = r"
    by (simp only:)
  then have eq: "mlfqs_update_load_avg_and_recent_cpu k = update_all (all_list k) ?k"
    using thread_current_eq [OF inv(1)] inv(2) assms(2)
    by (simp add: mlfqs_update_load_avg_and_recent_cpu_def la_def Let_def)
  have pg: "\<exists>th. pages k t = Some th" if "t \<in> set (all_list k)" for t
    using that sched_inv_sets(4) [OF inv(1), of t] by (auto simp: status_of_def)
  have "update_all (all_list ?k) ?k = Inr (refresh_all (all_list ?k) ?k)"
  proof (rule update_all_eq)
    show "\<forall>t \<in> set (all_list ?k). t \<noteq> idle_thread ?k \<longrightarrow> t \<noteq> 0 \<and> (\<exists>th. pages ?k t = Some th \<and> mlfqs_thread_ok d th)"
      using tok pg sched_invD(1) [OF inv(1)] by (simp add: threads_ok_def) blast
    show "distinct (all_list ?k)" using sched_inv_sets(2) [OF inv(1)] by simp
  qed (use la inv(2) assms(4) in simp_all)
  then show "mlfqs_update_load_avg_and_recent_cpu k = Inr (refresh_all (all_list k) ?k)" using eq by simp
  have "mlfqs_thread_ok 0 (refreshed la th)" if "t \<in> set (all_list k)" "t \<noteq> idle_thread k" "pages k t = Some th" for t th
  proof -
    have "t \<noteq> 0" using that(3) sched_invD(1) [OF inv(1)] by (simp add: threads_ok_def)
    then show ?thesis
      using update_one(2) [of ?k t th d] that tok la inv(2) assms(4) by simp
  qed
  then show "mlfqs_inv 0 (refresh_all (all_list k) ?k)"
    using inv la sched_inv_refresh_all [of ?k "all_list k"]
    by (simp add: mlfqs_inv_def) (auto simp: refresh_all_def)
qed

lemma mlfqs_update_running_eq:
  assumes "mlfqs_inv d k" "0 \<le> d" "d \<le> 100"
  shows "\<exists>k'. bnd (thread_current k) (\<lambda>cur. mlfqs_update_priority cur k) = Inr k' \<and> mlfqs_inv d k' \<and>
    ready_list k' = ready_list k"
proof (cases "running k = idle_thread k")
  case True
  then show ?thesis
    using assms(1) thread_current_eq [of k] by (simp add: mlfqs_update_priority_def mlfqs_inv_def)
next
  case False
  have inv: "sched_inv k" "thread_mlfqs k" using assms(1) by (simp_all add: mlfqs_inv_def)
  obtain th where th: "pages k (running k) = Some th" "running k \<noteq> 0"
    using running_page [OF inv(1)] sched_invD(1) [OF inv(1)] by (auto simp: threads_ok_def)
  let ?f = "\<lambda>th. th\<lparr>priority := mlfqs_priority (recent_cpu th) (nice th)\<rparr>"
  have tok: "mlfqs_thread_ok d (?f u)" if "mlfqs_thread_ok d u" for u
    using that by (simp add: mlfqs_thread_ok_def mlfqs_priority_def)
  have "mlfqs_inv d (upd_thread (running k) ?f k)"
    using assms(1) inv(1) tok sched_inv_upd_thread [OF inv(1), of ?f "running k"]
    by (simp add: mlfqs_inv_def) (auto simp: upd_thread_def)
  moreover have "bnd (thread_current k) (\<lambda>cur. mlfqs_update_priority cur k) = Inr (upd_thread (running k) ?f k)"
    using False th inv(2) thread_current_eq [OF inv(1)] by (simp add: mlfqs_update_priority_def thread_at_def)
  ultimately show ?thesis by simp
qed

lemma mod_step:
  fixes n f :: int
  assumes "0 < f"
  shows "n mod f = 0 \<Longrightarrow> (n - 1) mod f + 1 = f" "n mod f \<noteq> 0 \<Longrightarrow> (n - 1) mod f + 1 = n mod f"
  using assms by (smt (verit) mod_diff_eq mod_pos_pos_trivial pos_mod_bound pos_mod_sign zmod_minus1)+

text \<open>
  C12: The feedback queue never overflows. With at most 130 threads ready, niceness within -20 and 20 and
  at most 100 ticks a second, every timer tick keeps \<open>mlfqs_inv\<close>: no assertion fails, nothing is
  divided by zero, \<open>recent_cpu\<close> stays below 31220 plus the ticks since the last decay (times \<open>2^16\<close>
  this fits an \<^verbatim>\<open>int\<close>, so no operation wraps), the load average and all priorities stay legal. Once a
  second the load average is updated and every thread but the idle thread gets exactly the
  documented new \<open>recent_cpu\<close> and priority, the running thread after being charged with the tick.
  The ready list is left as it is.
\<close>
theorem mlfqs_tick_never_overflows:
  assumes "19 \<le> freq" "freq \<le> 100" "0 < ticks" "mlfqs_inv ((ticks - 1) mod freq) k" "in_interrupt k"
  shows "\<exists>k'. mlfqs_tick freq ticks k = Inr k' \<and> mlfqs_inv (ticks mod freq) k' \<and> ready_list k' = ready_list k \<and>
    (ticks mod freq = 0 \<longrightarrow>
      load_avg k' = next_load_avg (load_avg k)
        (int (length (ready_list k)) + (if running k = idle_thread k then 0 else 1)) \<and>
      (\<forall>t \<in> set (all_list k). t \<noteq> idle_thread k \<longrightarrow>
        pages k' t = map_option (refreshed (load_avg k')) (pages (charged k) t)))"
proof -
  let ?d = "(ticks - 1) mod freq"
  have "0 \<le> ?d" "?d < freq" using assms(1) by simp_all
  then have d: "0 \<le> ?d" "?d < 100" using assms(2) by linarith+
  note inc = mlfqs_inc_recent_cpu_eq [OF assms(4,5) d]
  have m: "thread_mlfqs k" using assms(4) by (simp add: mlfqs_inv_def)
  have s: "ticks smod n = ticks mod n" if "0 < n" for n
    using that assms(3) by (simp add: signed_modulo_int_def)
  show ?thesis
  proof (cases "ticks mod freq = 0")
    case True
    have "in_interrupt (charged k)" "0 \<le> ?d + 1" "?d + 1 \<le> 100" using assms(5) d by simp_all
    note u = mlfqs_update_all_eq [OF inc(2) this]
    have "mlfqs_tick freq ticks k = mlfqs_update_load_avg_and_recent_cpu (charged k)"
      using m inc(1) s [of freq] True assms(1) by (simp add: mlfqs_tick_def)
    then show ?thesis using u True by (simp add: refresh_all_def)
  next
    case False
    then have d': "?d + 1 = ticks mod freq" using mod_step(2) [of freq ticks] assms(1) by simp
    have "mlfqs_tick freq ticks k = (if ticks smod 4 = 0
        then bnd (thread_current (charged k)) (\<lambda>cur. mlfqs_update_priority cur (charged k)) else Inr (charged k))"
      using m inc(1) s [of freq] False assms(1) by (simp add: mlfqs_tick_def)
    then show ?thesis
      using mlfqs_update_running_eq [OF inc(2)] inc(2) d False unfolding d' [symmetric] by auto
  qed
qed

subsection \<open>A concrete state\<close>

text \<open>
  The sample kernel inside a timer interrupt under the feedback queue scheduler. Of its two ready
  threads the one that is first has just used the processor for some seconds.
\<close>

definition mlfqs_kernel :: kernel where
  "mlfqs_kernel = sample_kernel\<lparr>
     pages := (pages sample_kernel)
       (0x3000 \<mapsto> (sample_thread 3 THREAD_READY 30)\<lparr>recent_cpu := 65536 * 200\<rparr>,
        0x4000 \<mapsto> sample_thread 4 THREAD_READY 20),
     ready_list := [0x3000, 0x4000], thread_mlfqs := True, in_interrupt := True, load_avg := 65536\<rparr>"

lemma mlfqs_kernel_fields [simp]:
  "ready_list mlfqs_kernel = [0x3000, 0x4000]" "running mlfqs_kernel = 0x1000"
  "idle_thread mlfqs_kernel = 0x2000" "in_interrupt mlfqs_kernel" "thread_mlfqs mlfqs_kernel"
  "load_avg mlfqs_kernel = 65536" "all_list mlfqs_kernel = [0x1000, 0x2000, 0x3000, 0x4000]"
  "initial_thread mlfqs_kernel = 0x1000"
  by (simp_all add: mlfqs_kernel_def)

lemma pages_mlfqs_kernel:
  "pages mlfqs_kernel t =
     (if t = 0x1000 then Some (sample_thread 1 THREAD_RUNNING 31)
      else if t = 0x2000 then Some (sample_thread 2 THREAD_BLOCKED 0)
      else if t = 0x3000 then Some ((sample_thread 3 THREAD_READY 30)\<lparr>recent_cpu := 65536 * 200\<rparr>)
      else if t = 0x4000 then Some (sample_thread 4 THREAD_READY 20) else None)"
  by (simp add: mlfqs_kernel_def sample_kernel_def)

lemma status_of_mlfqs_kernel:
  "status_of mlfqs_kernel t =
     (if t = 0x1000 then Some THREAD_RUNNING else if t = 0x2000 then Some THREAD_BLOCKED
      else if t = 0x3000 \<or> t = 0x4000 then Some THREAD_READY else None)"
  by (simp add: status_of_def pages_mlfqs_kernel sample_thread_def)

lemma mlfqs_inv_sample: "mlfqs_inv 99 mlfqs_kernel"
proof -
  have "threads_ok mlfqs_kernel"
    by (auto simp: threads_ok_def pages_mlfqs_kernel sample_thread_def split: if_splits)
  moreover have "queue_ok mlfqs_kernel" by (auto simp: queue_ok_def status_of_mlfqs_kernel)
  moreover have "all_ok mlfqs_kernel" by (auto simp: all_ok_def status_of_mlfqs_kernel)
  moreover have "idle_ok mlfqs_kernel" by (auto simp: idle_ok_def status_of_mlfqs_kernel)
  moreover have "cpu_ok mlfqs_kernel" by (auto simp: cpu_ok_def status_of_mlfqs_kernel)
  ultimately have "sched_inv mlfqs_kernel" by (simp add: sched_inv_def)
  then show ?thesis
    by (simp add: mlfqs_inv_def pages_mlfqs_kernel mlfqs_thread_ok_def sample_thread_def cpu_bound_def pri_defs)
qed

theorem mlfqs_tick_never_overflows_witness:
  "\<exists>k'. mlfqs_tick 100 100 mlfqs_kernel = Inr k' \<and> mlfqs_inv 0 k' \<and> ready_list k' = [0x3000, 0x4000] \<and>
     load_avg k' = next_load_avg 65536 3"
  using mlfqs_tick_never_overflows [of 100 100 mlfqs_kernel] mlfqs_inv_sample by auto

text \<open>
  A second's update can break the order of the ready list. It recomputes the priorities of ready
  threads and leaves them where they are: there is a kernel with a sorted ready list whose running
  thread is not outranked, and after the tick the thread at the head of the list has a lower priority
  than the one behind it, so the scheduler will run the wrong one next.
\<close>
theorem mlfqs_tick_unsorts_ready_list:
  "prio_sorted mlfqs_kernel \<and> highest_runs mlfqs_kernel \<and>
   (\<exists>k'. mlfqs_tick 100 100 mlfqs_kernel = Inr k' \<and> ready_list k' = [0x3000, 0x4000] \<and>
      \<not> prio_sorted k' \<and> prio k' 0x3000 < prio k' 0x4000)"
proof -
  have p: "prio mlfqs_kernel t = (if t = 0x1000 then 31 else if t = 0x3000 then 30 else if t = 0x4000 then 20 else 0)" for t
    by (simp add: prio_def pages_mlfqs_kernel sample_thread_def)
  have "prio_sorted mlfqs_kernel" "highest_runs mlfqs_kernel"
    using p by (auto simp: prio_sorted_def highest_runs_def status_of_mlfqs_kernel split: if_splits)
  moreover have inc: "mlfqs_inc_recent_cpu mlfqs_kernel = Inr (charged mlfqs_kernel)" "mlfqs_inv 100 (charged mlfqs_kernel)"
    using mlfqs_inc_recent_cpu_eq [OF mlfqs_inv_sample] by simp_all
  have la: "next_load_avg 65536 3 = 67719" by (simp add: next_load_avg_eq)
  let ?k = "refresh_all [0x1000, 0x2000, 0x3000, 0x4000] ((charged mlfqs_kernel)\<lparr>load_avg := 67719\<rparr>)"
  have "mlfqs_update_load_avg_and_recent_cpu (charged mlfqs_kernel) = Inr ?k"
    using mlfqs_update_all_eq(1) [OF inc(2)] la by simp
  then have "mlfqs_tick 100 100 mlfqs_kernel = Inr ?k"
    using inc(1) by (simp add: mlfqs_tick_def signed_modulo_int_def)
  moreover have "prio ?k 0x3000 < prio ?k 0x4000"
    by (simp add: prio_def refresh_all_def charged_def upd_thread_def pages_mlfqs_kernel refreshed_def decayed_def
        sample_thread_def clamp_priority_def pri_defs signed_divide_int_def)
  ultimately show ?thesis by (intro conjI exI [of _ ?k]) (simp_all add: prio_sorted_def)
qed

end
