(* ===== verification/Priority_Timer.thy ===== *)
theory Priority_Timer
  imports Mlfqs
begin

section \<open>The timer of the priority scheduler (Assignment 4)\<close>

text \<open>
  \<^verbatim>\<open>Assignment_4/.../timer.c\<close> and the functions of \<^verbatim>\<open>thread.c\<close> it works with. Sleeping threads are to be
  woken by a thread of their own, \<^verbatim>\<open>wake_up\<close>, which the interrupt handler unblocks.

  \<open>sleeping_threads\<close> is \<open>None\<close> as long as the list has not been initialised, as \<^verbatim>\<open>list_init\<close> would do;
  using it then is an error. \<open>tail_reads\<close> is what the handler reads as a wake-up time when the list is
  empty (it takes the end of the list for a thread), and \<open>removed_keeps_links\<close> tells whether an
  element that has been removed from a list can still be stepped from.
\<close>

unbundle bit_operations_syntax

record timer =
  kern :: kernel
  ticks :: int
  next_wakeup :: int
  sleeping_threads :: "tptr list option"
  loops_per_tick :: "32 word"

record timer_env =
  lib :: pintos
  TIMER_FREQ :: int
  tail_reads :: "64 word"
  removed_keeps_links :: bool
  too_many_loops :: "32 word \<Rightarrow> bool"

definition timer_init :: "timer \<Rightarrow> timer" where
  "timer_init c = c"

definition timer_ticks :: "timer \<Rightarrow> int \<times> timer" where
  "timer_ticks c =
     (let old_level = intr (kern c);
          c1 = c\<lparr>kern := intr_disable (kern c)\<rparr>;
          t = ticks c1 in
      (t, c1\<lparr>kern := intr_set_level old_level (kern c1)\<rparr>))"

definition timer_elapsed :: "int \<Rightarrow> timer \<Rightarrow> int \<times> timer" where
  "timer_elapsed thn c = (let (t, c1) = timer_ticks c in (i64 (t - thn), c1))"

definition wake_time :: "kernel \<Rightarrow> tptr \<Rightarrow> 64 word" where
  "wake_time k t = (case pages k t of Some th \<Rightarrow> sleep_time th | None \<Rightarrow> 0)"

definition lesser_sleep :: "kernel \<Rightarrow> tptr \<Rightarrow> tptr \<Rightarrow> bool" where
  "lesser_sleep k t u \<longleftrightarrow> wake_time k t < wake_time k u"

text \<open>\<open>timer_sleep\<close> goes up to the switch to another thread, \<open>timer_sleep_return\<close> is the rest.\<close>

definition timer_sleep :: "timer_env \<Rightarrow> int \<Rightarrow> timer \<Rightarrow> timer result" where
  "timer_sleep e n c =
     (if n \<le> 0 then Inr c
      else
        let (start, c1) = timer_ticks c in
        bnd (assert (intr (kern c1) = INTR_ON)) (\<lambda>_.
        let c2 = c1\<lparr>kern := intr_disable (kern c1)\<rparr> in
        bnd (thread_current (kern c2)) (\<lambda>cur.
        let c3 = c2\<lparr>kern := upd_thread cur (\<lambda>th. th\<lparr>sleep_time := word_of_int (i64 (start + n))\<rparr>) (kern c2)\<rparr> in
        (case sleeping_threads c3 of
           None \<Rightarrow> Inl Uninitialized
         | Some ts \<Rightarrow>
             let c4 = c3\<lparr>sleeping_threads :=
                        Some (list_insert_ordered (lib e) (lesser_sleep (kern c3)) cur ts)\<rparr> in
             bnd (thread_block (kern c4)) (\<lambda>k. Inr (c4\<lparr>kern := k\<rparr>))))))"

definition timer_sleep_return :: "timer \<Rightarrow> timer" where
  "timer_sleep_return c = c\<lparr>kern := intr_set_level INTR_ON (kern c)\<rparr>"

fun unblock_loop :: "timer_env \<Rightarrow> tptr list \<Rightarrow> timer \<Rightarrow> timer result" where
  "unblock_loop e [] c = Inr c"
| "unblock_loop e (t # ts) c =
     bnd (thread_at (kern c) t) (\<lambda>th.
     if sleep_time th > word_of_int (ticks c) then Inr c
     else
       let k1 = upd_thread t (\<lambda>th. th\<lparr>sleep_time := 0\<rparr>) (kern c) in
       bnd (thread_unblock (lib e) t k1) (\<lambda>k2.
       let c2 = c\<lparr>kern := k2, sleeping_threads := map_option (remove1 t) (sleeping_threads c)\<rparr> in
       if \<not> removed_keeps_links e then Inl Bad_pointer
       else unblock_loop e ts c2))"

definition unblock_threads_in_timer :: "timer_env \<Rightarrow> timer \<Rightarrow> timer result" where
  "unblock_threads_in_timer e c =
     (case sleeping_threads c of None \<Rightarrow> Inl Uninitialized | Some ts \<Rightarrow> unblock_loop e ts c)"

definition unblock_wake_up :: "timer_env \<Rightarrow> kernel \<Rightarrow> kernel result" where
  "unblock_wake_up e k = thread_unblock (lib e) (wake_up k) k"

text \<open>One round of the endless loop of \<^verbatim>\<open>thread_wake_up\<close>, up to the switch.\<close>

definition thread_wake_up_round :: "timer_env \<Rightarrow> timer \<Rightarrow> timer result" where
  "thread_wake_up_round e c =
     bnd (unblock_threads_in_timer e c) (\<lambda>c1.
     bnd (thread_block (kern c1)) (\<lambda>k. Inr (c1\<lparr>kern := k\<rparr>)))"

definition timer_interrupt :: "timer_env \<Rightarrow> timer \<Rightarrow> timer result" where
  "timer_interrupt e c =
     (let c1 = c\<lparr>ticks := i64 (ticks c + 1)\<rparr> in
      bnd (thread_tick (kern c1)) (\<lambda>k1.
      (case sleeping_threads c1 of
         None \<Rightarrow> Inl Uninitialized
       | Some ts \<Rightarrow>
           bnd (case ts of [] \<Rightarrow> Inr (tail_reads e)
                | t # _ \<Rightarrow> bnd (thread_at k1 t) (\<lambda>th. Inr (sleep_time th))) (\<lambda>w.
           let c2 = c1\<lparr>kern := k1, next_wakeup := sint w\<rparr> in
           bnd (if next_wakeup c2 \<le> ticks c2 then unblock_wake_up e (kern c2) else Inr (kern c2)) (\<lambda>k2.
           bnd (mlfqs_tick (TIMER_FREQ e) (ticks c2) k2) (\<lambda>k3.
           Inr (c2\<lparr>kern := k3\<rparr>)))))))"

subsection \<open>The life of the kernel\<close>

text \<open>
  \<open>thread_start\<close> goes up to the second \<^verbatim>\<open>thread_create\<close>, during which the new thread takes the
  processor; \<open>thread_start_rest\<close> follows when the initial thread runs again, up to the two semaphores
  it waits for. \<open>p\<close> and \<open>q\<close> are the pages of the two threads, \<open>idle_fn\<close> and \<open>wake_fn\<close> the addresses of their
  functions. \<open>idle_start\<close> is \<^verbatim>\<open>idle\<close> before its loop without the \<^verbatim>\<open>sema_up\<close>, \<open>idle_round\<close> one round of the loop.
\<close>

definition thread_start ::
  "pintos \<Rightarrow> tptr \<Rightarrow> tptr \<Rightarrow> 32 word \<Rightarrow> 32 word \<Rightarrow> 32 word \<Rightarrow> 32 word \<Rightarrow> kernel \<Rightarrow> kernel result" where
  "thread_start l p q idle_fn idle_started wake_fn wake_up_started k =
     bnd (thread_create l p (Some ''idle'') PRI_MIN idle_fn idle_started k) (\<lambda>(_, k1).
     bnd (thread_create l q (Some ''wake_up'') PRI_MAX wake_fn wake_up_started k1) (\<lambda>(_, k2).
     Inr k2))"

definition thread_start_rest :: "kernel \<Rightarrow> kernel" where
  "thread_start_rest k = intr_set_level INTR_ON (k\<lparr>load_avg := FP_CONST 0\<rparr>)"

definition idle_start :: "kernel \<Rightarrow> kernel result" where
  "idle_start k = bnd (thread_current k) (\<lambda>cur. Inr (k\<lparr>idle_thread := cur\<rparr>))"

definition idle_round :: "kernel \<Rightarrow> kernel result" where
  "idle_round k = thread_block (intr_disable k)"

definition kernel_thread_begin :: "32 word \<Rightarrow> kernel \<Rightarrow> kernel result" where
  "kernel_thread_begin function k =
     bnd (assert (function \<noteq> 0)) (\<lambda>_. Inr (intr_set_level INTR_ON k))"

definition kernel_thread_return :: "kernel \<Rightarrow> kernel result" where
  "kernel_thread_return k = thread_exit k"

subsection \<open>Real time\<close>

text \<open>\<open>busy_wait\<close> gives the number of rounds the loop makes. The text of these functions is that of Assignment 3.\<close>

function busy_wait :: "int \<Rightarrow> nat" where
  "busy_wait loops = (if loops > 0 then Suc (busy_wait (i64 (loops - 1))) else 0)"
  by pat_completeness auto
termination
proof (relation "measure nat")
  fix loops :: int
  assume "loops > 0"
  then show "(i64 (loops - 1), loops) \<in> measure nat" using i64_le [of "loops - 1"] by simp
qed simp

declare busy_wait.simps [simp del]

definition real_time_delay :: "timer_env \<Rightarrow> int \<Rightarrow> int \<Rightarrow> timer \<Rightarrow> nat result" where
  "real_time_delay e num denom c =
     bnd (assert (denom smod 1000 = 0)) (\<lambda>_.
     if denom sdiv 1000 = 0 then Inl Divide_error
     else Inr (busy_wait
       (i64 (i64 (uint (loops_per_tick c) * num) sdiv 1000 * TIMER_FREQ e) sdiv (denom sdiv 1000))))"

definition real_time_sleep :: "timer_env \<Rightarrow> int \<Rightarrow> int \<Rightarrow> timer \<Rightarrow> timer result" where
  "real_time_sleep e num denom c =
     (if denom = 0 then Inl Divide_error
      else
        let n = i64 (num * TIMER_FREQ e) sdiv denom in
        bnd (assert (intr (kern c) = INTR_ON)) (\<lambda>_.
        if n > 0 then timer_sleep e n c
        else bnd (real_time_delay e num denom c) (\<lambda>_. Inr c)))"

definition timer_msleep :: "timer_env \<Rightarrow> int \<Rightarrow> timer \<Rightarrow> timer result" where
  "timer_msleep e ms c = real_time_sleep e ms 1000 c"

definition timer_usleep :: "timer_env \<Rightarrow> int \<Rightarrow> timer \<Rightarrow> timer result" where
  "timer_usleep e us c = real_time_sleep e us (1000 * 1000) c"

definition timer_nsleep :: "timer_env \<Rightarrow> int \<Rightarrow> timer \<Rightarrow> timer result" where
  "timer_nsleep e ns c = real_time_sleep e ns (1000 * 1000 * 1000) c"

definition timer_mdelay :: "timer_env \<Rightarrow> int \<Rightarrow> timer \<Rightarrow> nat result" where
  "timer_mdelay e ms c = real_time_delay e ms 1000 c"

definition timer_udelay :: "timer_env \<Rightarrow> int \<Rightarrow> timer \<Rightarrow> nat result" where
  "timer_udelay e us c = real_time_delay e us (1000 * 1000) c"

definition timer_ndelay :: "timer_env \<Rightarrow> int \<Rightarrow> timer \<Rightarrow> nat result" where
  "timer_ndelay e ns c = real_time_delay e ns (1000 * 1000 * 1000) c"

subsection \<open>Calibration\<close>

text \<open>
  \<open>now i\<close> is the value of \<^verbatim>\<open>ticks\<close> after \<open>i\<close> rounds of a loop, which the timer interrupt advances meanwhile. The
  measurement starts at \<open>i\<close>; it is \<open>None\<close> if no tick ever comes.
\<close>

partial_function (option) await_tick :: "(nat \<Rightarrow> int) \<Rightarrow> int \<Rightarrow> nat \<Rightarrow> nat option" where
  "await_tick now start i = (if now i = start then await_tick now start (Suc i) else Some i)"

definition measure_loops :: "(nat \<Rightarrow> int) \<Rightarrow> nat \<Rightarrow> 32 word \<Rightarrow> bool option" where
  "measure_loops now i loops =
     (case await_tick now (now i) i of
        None \<Rightarrow> None
      | Some j \<Rightarrow> let start = now j; k = j + busy_wait (uint loops) in Some (start \<noteq> now k))"

text \<open>
  What the measurement finds is the field \<open>too_many_loops\<close> of the environment. The loops that use it have fuel, one
  unit for each round; \<open>None\<close> is a loop that has not ended.
\<close>

fun calibrate_grow :: "(32 word \<Rightarrow> bool) \<Rightarrow> nat \<Rightarrow> 32 word \<Rightarrow> 32 word result option" where
  "calibrate_grow too_many 0 l = None"
| "calibrate_grow too_many (Suc n) l =
     (if \<not> too_many (push_bit 1 l) then
        let l1 = push_bit 1 l in
        if l1 = 0 then Some (Inl Assertion_failed) else calibrate_grow too_many n l1
      else Some (Inr l))"

fun calibrate_refine ::
  "(32 word \<Rightarrow> bool) \<Rightarrow> 32 word \<Rightarrow> nat \<Rightarrow> 32 word \<Rightarrow> 32 word \<Rightarrow> 32 word option" where
  "calibrate_refine too_many high_bit 0 test_bit l = None"
| "calibrate_refine too_many high_bit (Suc n) test_bit l =
     (if test_bit = drop_bit 10 high_bit then Some l
      else calibrate_refine too_many high_bit n (drop_bit 1 test_bit)
        (if \<not> too_many (l OR test_bit) then l OR test_bit else l))"

definition timer_calibrate :: "timer_env \<Rightarrow> nat \<Rightarrow> timer \<Rightarrow> timer result option" where
  "timer_calibrate e fuel c =
     (if intr (kern c) \<noteq> INTR_ON then Some (Inl Assertion_failed)
      else
        case calibrate_grow (too_many_loops e) fuel (push_bit 10 1) of
          None \<Rightarrow> None
        | Some (Inl f) \<Rightarrow> Some (Inl f)
        | Some (Inr high_bit) \<Rightarrow>
            (case calibrate_refine (too_many_loops e) high_bit fuel (drop_bit 1 high_bit) high_bit of
               None \<Rightarrow> None
             | Some l \<Rightarrow> Some (Inr (c\<lparr>loops_per_tick := l\<rparr>))))"

end
