(* ===== verification/Priority_Alarm.thy ===== *)
theory Priority_Alarm
  imports Priority_Timer
begin

section \<open>Why nobody wakes up in Assignment 4\<close>

text \<open>
  The list of sleeping threads is never initialised, the pointer \<^verbatim>\<open>wake_up\<close> is never assigned, and the
  thread that should wake the others blocks with interrupts on. Each of the three is enough to stop
  the kernel.
\<close>

lemma thread_unblock_intr: "thread_unblock l t k = Inr k' \<Longrightarrow> intr k' = intr k"
  by (auto simp: thread_unblock_def Let_def split: if_splits)

lemma unblock_loop_intr: "unblock_loop e ts c = Inr c' \<Longrightarrow> intr (kern c') = intr (kern c)"
proof (induction ts arbitrary: c)
  case (Cons t ts)
  from Cons.prems obtain th where th: "thread_at (kern c) t = Inr th"
    by (auto simp: bnd_def split: sum.splits)
  show ?case
  proof (cases "sleep_time th > word_of_int (ticks c)")
    case True
    then show ?thesis using Cons.prems th by simp
  next
    case False
    then obtain k2 where k2: "thread_unblock (lib e) t (upd_thread t (\<lambda>th. th\<lparr>sleep_time := 0\<rparr>) (kern c)) = Inr k2"
      and rest: "unblock_loop e ts (c\<lparr>kern := k2, sleeping_threads := map_option (remove1 t) (sleeping_threads c)\<rparr>) = Inr c'"
      using Cons.prems th by (auto simp: bnd_def Let_def split: sum.splits if_splits)
    then show ?thesis using Cons.IH [OF rest] thread_unblock_intr [OF k2] by simp
  qed
qed simp

lemma thread_wake_up_round_fails:
  assumes "intr (kern c) = INTR_ON"
  shows "\<not> ok (thread_wake_up_round e c)"
proof -
  have "\<not> ok (bnd (thread_block (kern c1)) g)" if "unblock_threads_in_timer e c = Inr c1" for c1 and g :: "kernel \<Rightarrow> timer result"
  proof -
    have "intr (kern c1) = INTR_ON"
      using that unblock_loop_intr [of e _ c c1] assms by (auto simp: unblock_threads_in_timer_def split: option.splits)
    then show ?thesis by (simp add: thread_block_def)
  qed
  then show ?thesis
    by (cases "unblock_threads_in_timer e c") (simp_all add: thread_wake_up_round_def)
qed

text \<open>
  C39: The alarm clock of Assignment 4 stops the kernel. In the state the code builds (\<^verbatim>\<open>wake_up\<close> is
  null and the list of sleeping threads was never initialised) every timer interrupt and every
  \<^verbatim>\<open>timer_sleep\<close> of a positive time uses the uninitialised list. Were the list initialised, the
  interrupt at which the first sleeper is due would fail the assertion of \<^verbatim>\<open>thread_unblock\<close> on the
  null pointer. And whatever the list holds, the wake-up thread itself fails in its first round:
  \<^verbatim>\<open>kernel_thread\<close> has turned interrupts on and \<^verbatim>\<open>thread_block\<close> demands them off.
\<close>
theorem alarm_stops_kernel:
  assumes "sched_inv (kern c)" "wake_up (kern c) = 0" "- 1 \<le> ticks c" "ticks c + 1 < 2 ^ 63"
  shows "(sleeping_threads c = None \<longrightarrow> timer_interrupt e c = Inl Uninitialized) \<and>
    (sleeping_threads c = None \<and> 0 < n \<and> intr (kern c) = INTR_ON \<longrightarrow> timer_sleep e n c = Inl Uninitialized) \<and>
    (sleeping_threads c = Some (t # ts) \<and> pages (kern c) t = Some th \<and> sint (sleep_time th) \<le> ticks c + 1 \<longrightarrow>
      timer_interrupt e c = Inl Assertion_failed) \<and>
    (kernel_thread_begin f (kern c) = Inr k \<longrightarrow> \<not> ok (thread_wake_up_round e (c\<lparr>kern := k\<rparr>)))"
proof (intro conjI impI)
  obtain k1 where k1: "thread_tick (kern c) = Inr k1" "sched_inv k1"
    using thread_tick_inv [OF assms(1)] by blast
  have same: "pages k1 = pages (kern c)" "wake_up k1 = wake_up (kern c)"
    using k1(1) thread_current_eq [OF assms(1)] by (auto simp: thread_tick_def Let_def)
  have tk: "i64 (ticks c + 1) = ticks c + 1" using assms(3,4) by (intro i64_id) auto
  show "timer_interrupt e c = Inl Uninitialized" if "sleeping_threads c = None"
    using that k1(1) by (simp add: timer_interrupt_def Let_def)
  show "timer_sleep e n c = Inl Uninitialized" if "sleeping_threads c = None \<and> 0 < n \<and> intr (kern c) = INTR_ON"
    using that thread_current_eq [of "intr_disable (kern c)"] assms(1)
    by (simp add: timer_sleep_def timer_ticks_def Let_def intr_disable_eq) (simp add: upd_defs)
  show "timer_interrupt e c = Inl Assertion_failed"
    if d: "sleeping_threads c = Some (t # ts) \<and> pages (kern c) t = Some th \<and> sint (sleep_time th) \<le> ticks c + 1"
  proof -
    have "t \<noteq> 0" using d sched_invD(1) [OF assms(1)] by (auto simp: threads_ok_def)
    then have "thread_at k1 t = Inr th" using d same(1) by (simp add: thread_at_def)
    moreover have "unblock_wake_up e k1 = Inl Assertion_failed"
      using same(2) assms(2) by (simp add: unblock_wake_up_def thread_unblock_def is_thread_def)
    ultimately show ?thesis using k1(1) d tk by (simp add: timer_interrupt_def Let_def)
  qed
  show "\<not> ok (thread_wake_up_round e (c\<lparr>kern := k\<rparr>))" if "kernel_thread_begin f (kern c) = Inr k"
    using that by (intro thread_wake_up_round_fails) (auto simp: kernel_thread_begin_def intr_set_level_def split: if_splits)
qed

definition sample_timer :: "tptr list option \<Rightarrow> timer" where
  "sample_timer ts = \<lparr>kern = sample_kernel, ticks = 7, next_wakeup = 0, sleeping_threads = ts, loops_per_tick = 0\<rparr>"

definition sample_env :: timer_env where
  "sample_env = \<lparr>lib = sample_pintos, TIMER_FREQ = 100, tail_reads = 0, removed_keeps_links = True,
     too_many_loops = (\<lambda>l. l > 5000)\<rparr>"

theorem alarm_stops_kernel_witness:
  "timer_interrupt sample_env (sample_timer None) = Inl Uninitialized \<and>
   timer_sleep sample_env 3 (sample_timer None) = Inl Uninitialized \<and>
   timer_interrupt sample_env (sample_timer (Some [0x4000])) = Inl Assertion_failed"
proof -
  have s: "sched_inv (kern (sample_timer ts))" "wake_up (kern (sample_timer ts)) = 0"
    "- 1 \<le> ticks (sample_timer ts)" "ticks (sample_timer ts) + 1 < 2 ^ 63" for ts
    using sched_inv_sample by (simp_all add: sample_timer_def) (simp add: sample_kernel_def)
  have "pages sample_kernel 0x4000 = Some (sample_thread 4 THREAD_BLOCKED 40)" by (simp add: sample_kernel_def)
  then show ?thesis
    using alarm_stops_kernel [OF s, of None sample_env 3] alarm_stops_kernel [OF s, of "Some [0x4000]" sample_env 3 "0x4000" "[]" "sample_thread 4 THREAD_BLOCKED 40"]
    by (simp add: sample_timer_def sample_thread_def)
qed

end
