(* ===== verification/Calibration.thy ===== *)
theory Calibration
  imports Timer Priority_Alarm
begin

section \<open>Calibrating the delay loop\<close>

text \<open>
  Both timers measure how many rounds of an empty loop fit into a tick: double the estimate while it
  fits, then refine the next bits. Assignment 4 tests each bit on top of the bits accepted so far,
  Assignment 3 tests each bit on top of the highest one only. \<open>fits N\<close> is a machine on which exactly \<open>N\<close>
  rounds fit.
\<close>

definition fits :: "nat \<Rightarrow> 32 word \<Rightarrow> bool" where
  "fits N l \<longleftrightarrow> N < unat l"

lemma unat_small: "a < 2 ^ 32 \<Longrightarrow> unat (word_of_nat a :: 32 word) = a"
  by (simp add: unsigned_of_nat take_bit_nat_eq_self)

lemma fits_of_nat: "a < 2 ^ 32 \<Longrightarrow> fits N (word_of_nat a) \<longleftrightarrow> N < a"
  by (simp add: fits_def unat_small)

lemma or_power_add:
  fixes a :: nat
  assumes "2 ^ Suc j dvd a"
  shows "a OR 2 ^ j = a + 2 ^ j"
proof -
  obtain x where a: "a = 2 ^ Suc j * x" using assms by blast
  have "\<not> bit a n \<or> \<not> bit (2 ^ j :: nat) n" for n
    unfolding a mult.commute [of "2 ^ Suc j"] push_bit_eq_mult [symmetric]
    by (auto simp: bit_push_bit_iff bit_exp_iff bit_0)
  then show ?thesis by (simp add: disjunctive_add)
qed

lemma drop_of_power:
  assumes "j \<le> m" "m < 32"
  shows "drop_bit j (word_of_nat (2 ^ m) :: 32 word) = word_of_nat (2 ^ (m - j))"
proof -
  have u: "unat (word_of_nat (2 ^ n) :: 32 word) = 2 ^ n" if "n < 32" for n
    using that by (intro unat_small power_strict_increasing) simp_all
  have "m - j < 32" using assms by simp
  have "unat (drop_bit j (word_of_nat (2 ^ m) :: 32 word)) = drop_bit j (2 ^ m)"
    unfolding unat_drop_bit_eq u [OF assms(2)] by (rule refl)
  also have "\<dots> = 2 ^ (m - j)" using assms(1) by (simp add: drop_bit_eq_div power_diff)
  also have "\<dots> = unat (word_of_nat (2 ^ (m - j)) :: 32 word)" by (rule u [OF \<open>m - j < 32\<close>, symmetric])
  finally show ?thesis by (rule word_unat_eq_iff [THEN iffD2])
qed

lemma push_of_nat: "push_bit 1 (word_of_nat a :: 32 word) = word_of_nat (2 * a)"
  by (simp add: push_bit_eq_mult mult.commute)

lemma of_power_inj:
  assumes "m < 32" "n < 32"
  shows "(word_of_nat (2 ^ m) :: 32 word) = word_of_nat (2 ^ n) \<longleftrightarrow> m = n"
proof
  assume "(word_of_nat (2 ^ m) :: 32 word) = word_of_nat (2 ^ n)"
  moreover have "unat (word_of_nat (2 ^ j) :: 32 word) = 2 ^ j" if "j < 32" for j
    using that by (intro unat_small power_strict_increasing) simp_all
  ultimately have "(2 :: nat) ^ m = 2 ^ n" using assms by metis
  then show "m = n" by simp
qed simp

lemma grow_finds_power:
  assumes "2 ^ m \<le> N" "N < 2 ^ 31" "31 - m < n"
  shows "\<exists>p. calibrate_grow (fits N) n (word_of_nat (2 ^ m)) = Some (Inr (word_of_nat (2 ^ p))) \<and> m \<le> p \<and>
    2 ^ p \<le> N \<and> N < 2 ^ Suc p"
  using assms
proof (induction n arbitrary: m)
  case (Suc n)
  have m: "m < 31" using Suc.prems(1,2) by (metis leI le_less_trans not_le power_increasing one_le_numeral)
  then have "(2 :: nat) ^ Suc m < 2 ^ 32" by (intro power_strict_increasing) simp_all
  note f = fits_of_nat [OF this, of N] and u = unat_small [OF this]
  have pb: "push_bit 1 (word_of_nat (2 ^ m) :: 32 word) = word_of_nat (2 ^ Suc m)"
    unfolding push_of_nat by simp
  show ?case
  proof (cases "N < 2 ^ Suc m")
    case True
    then have "calibrate_grow (fits N) (Suc n) (word_of_nat (2 ^ m)) = Some (Inr (word_of_nat (2 ^ m)))"
      unfolding calibrate_grow.simps pb f by (simp only: not_True_eq_False if_False)
    then show ?thesis using Suc.prems(1) True by blast
  next
    case False
    have "(word_of_nat (2 ^ Suc m) :: 32 word) \<noteq> 0"
    proof
      assume "(word_of_nat (2 ^ Suc m) :: 32 word) = 0"
      then have "(2 :: nat) ^ Suc m = 0" using u by (simp only: unat_0)
      then show False by simp
    qed
    then have "calibrate_grow (fits N) (Suc n) (word_of_nat (2 ^ m)) = calibrate_grow (fits N) n (word_of_nat (2 ^ Suc m))"
      unfolding calibrate_grow.simps pb f Let_def using False by (simp only: not_False_eq_True if_True if_False)
    moreover have "2 ^ Suc m \<le> N" "31 - Suc m < n" using False Suc.prems(3) m by simp_all
    ultimately show ?thesis using Suc.IH [OF _ Suc.prems(2), of "Suc m"] by (metis Suc_leD)
  qed
qed simp

lemma refine_approaches:
  assumes "10 \<le> m" "m < 31" "m - 10 \<le> j" "j < m" "2 ^ Suc j dvd a" "a \<le> N" "N < a + 2 ^ Suc j" "N < 2 ^ 31"
    "j - (m - 10) < n"
  shows "\<exists>b. calibrate_refine (fits N) (word_of_nat (2 ^ m)) n (word_of_nat (2 ^ j)) (word_of_nat a) =
      Some (word_of_nat b) \<and> a \<le> b \<and> b \<le> N \<and> N < b + 2 ^ (m - 9)"
  using assms
proof (induction n arbitrary: j a)
  case (Suc n)
  have stop: "drop_bit 10 (word_of_nat (2 ^ m) :: 32 word) = word_of_nat (2 ^ (m - 10))"
    using Suc.prems(1,2) by (intro drop_of_power) simp_all
  have eq: "(word_of_nat (2 ^ j) :: 32 word) = word_of_nat (2 ^ (m - 10)) \<longleftrightarrow> j = m - 10"
    using Suc.prems(2,4) by (intro of_power_inj) simp_all
  show ?case
  proof (cases "j = m - 10")
    case True
    then have "calibrate_refine (fits N) (word_of_nat (2 ^ m)) (Suc n) (word_of_nat (2 ^ j)) (word_of_nat a) =
        Some (word_of_nat a)"
      unfolding calibrate_refine.simps stop eq by (simp only: refl if_True)
    moreover have "Suc j = m - 9" using True Suc.prems(1) by simp
    ultimately show ?thesis using Suc.prems(6,7) by (intro exI [of _ a]) simp
  next
    case False
    then have j: "m - 10 < j" "0 < j" "Suc (j - 1) = j" using Suc.prems(3) by simp_all
    define b where "b = (if a + 2 ^ j \<le> N then a + 2 ^ j else a)"
    have "(2 :: nat) ^ j \<le> 2 ^ 30" using Suc.prems(2,4) by (intro power_increasing) simp_all
    then have "a + 2 ^ j < 2 ^ 32" using Suc.prems(6,8) by simp
    note f = fits_of_nat [OF this, of N]
    have half: "drop_bit 1 (word_of_nat (2 ^ j) :: 32 word) = word_of_nat (2 ^ (j - 1))"
      using j(2) Suc.prems(2,4) by (intro drop_of_power) simp_all
    have "(word_of_nat a :: 32 word) OR word_of_nat (2 ^ j) = word_of_nat (a + 2 ^ j)"
      using or_power_add [OF Suc.prems(5)] by (metis of_nat_or_eq)
    then have "calibrate_refine (fits N) (word_of_nat (2 ^ m)) (Suc n) (word_of_nat (2 ^ j)) (word_of_nat a) =
        calibrate_refine (fits N) (word_of_nat (2 ^ m)) n (word_of_nat (2 ^ (j - 1))) (word_of_nat b)"
      unfolding calibrate_refine.simps stop eq half b_def using False f by (simp add: not_less)
    moreover have "\<exists>c. calibrate_refine (fits N) (word_of_nat (2 ^ m)) n (word_of_nat (2 ^ (j - 1))) (word_of_nat b) =
        Some (word_of_nat c) \<and> b \<le> c \<and> c \<le> N \<and> N < c + 2 ^ (m - 9)"
    proof (rule Suc.IH [OF Suc.prems(1,2) _ _ _ _ _ Suc.prems(8)])
      show "m - 10 \<le> j - 1" "j - 1 < m" "j - 1 - (m - 10) < n" using j Suc.prems(4,9) by simp_all
      have "2 ^ j dvd a" using Suc.prems(5) by (metis power_Suc dvd_mult_right)
      then show "2 ^ Suc (j - 1) dvd b" unfolding j(3) b_def by simp
      show "b \<le> N" "N < b + 2 ^ Suc (j - 1)" unfolding j(3) b_def using Suc.prems(6,7) by auto
    qed
    moreover have "a \<le> b" by (simp add: b_def)
    ultimately show ?thesis by (metis le_trans)
  qed
qed simp

lemma calibrate_within:
  assumes "too_many_loops e = fits N" "1024 \<le> N" "N < 2 ^ 31" "intr (kern c) = INTR_ON" "22 \<le> fuel"
  shows "\<exists>b. timer_calibrate e fuel c = Some (Inr (c\<lparr>loops_per_tick := word_of_nat b\<rparr>)) \<and>
    b \<le> N \<and> 512 * (N - b) < b"
proof -
  have "(2 :: nat) ^ 10 \<le> N" "31 - 10 < fuel" using assms(2,5) by simp_all
  from grow_finds_power [OF this(1) assms(3) this(2)] obtain p where
    p: "calibrate_grow (fits N) fuel (word_of_nat (2 ^ 10)) = Some (Inr (word_of_nat (2 ^ p)))"
      "10 \<le> p" "2 ^ p \<le> N" "N < 2 ^ Suc p" by blast
  have "(2 :: nat) ^ p < 2 ^ 31" using p(3) assms(3) by linarith
  then have p31: "p < 31" by (metis power_less_imp_less_exp one_less_numeral_iff semiring_norm(76))
  have init: "push_bit 10 1 = (word_of_nat (2 ^ 10) :: 32 word)" by simp
  have half: "drop_bit 1 (word_of_nat (2 ^ p) :: 32 word) = word_of_nat (2 ^ (p - 1))"
    using p(2) p31 by (intro drop_of_power) simp_all
  have s: "Suc (p - 1) = p" using p(2) by simp
  have "p - 10 \<le> p - 1" "p - 1 < p" "2 ^ Suc (p - 1) dvd (2 ^ p :: nat)" "N < 2 ^ p + 2 ^ Suc (p - 1)"
    "p - 1 - (p - 10) < fuel" unfolding s using p(2,4) assms(5) by simp_all
  from refine_approaches [OF p(2) p31 this(1-3) p(3) this(4) assms(3) this(5)] obtain b where
    b: "calibrate_refine (fits N) (word_of_nat (2 ^ p)) fuel (word_of_nat (2 ^ (p - 1))) (word_of_nat (2 ^ p)) =
      Some (word_of_nat b)" "2 ^ p \<le> b" "b \<le> N" "N < b + 2 ^ (p - 9)" by blast
  have "timer_calibrate e fuel c = Some (Inr (c\<lparr>loops_per_tick := word_of_nat b\<rparr>))"
    unfolding timer_calibrate_def assms(1) init p(1) using assms(4) b(1) half by simp
  moreover have "512 * 2 ^ (p - 9) = (2 :: nat) ^ p"
    using p(2) power_add [of "2 :: nat" 9 "p - 9"] by simp
  then have "512 * (N - b) < b" using b(2-4) by linarith
  ultimately show ?thesis using b(3) by blast
qed

subsection \<open>Measuring the clock\<close>

lemma busy_wait_rounds:
  assumes "loops < 2 ^ 63"
  shows "Priority_Timer.busy_wait loops = nat loops"
  using assms
proof (induction loops rule: Priority_Timer.busy_wait.induct)
  case (1 loops)
  have "i64 (loops - 1) = loops - 1" if "0 < loops" using that "1.prems" by (intro i64_id) simp_all
  then show ?case using 1 Priority_Timer.busy_wait.simps [of loops] by (auto simp: Suc_nat_eq_nat_zadd1)
qed

text \<open>A clock that ticks every \<open>P\<close> rounds.\<close>

definition regular :: "nat \<Rightarrow> (nat \<Rightarrow> int) \<Rightarrow> bool" where
  "regular P now \<longleftrightarrow> 0 < P \<and> (\<exists>t0 phase. \<forall>i. now i = t0 + int ((i + phase) div P))"

lemma await_tick_ends:
  assumes "\<forall>i. now i = t0 + int ((i + phase) div P)" "0 < P" "start = now i"
  shows "\<exists>j. Priority_Timer.await_tick now start i = Some j \<and> (j + phase) mod P = 0"
  using assms(3)
proof (induction "P - (i + phase) mod P" arbitrary: i rule: less_induct)
  case less
  have wait: "Priority_Timer.await_tick now start i = Priority_Timer.await_tick now start (Suc i)"
    using less.prems by (subst Priority_Timer.await_tick.simps) simp
  show ?case
  proof (cases "P dvd Suc (i + phase)")
    case True
    then have "now (Suc i) \<noteq> start" using assms(1) less.prems by (simp add: div_Suc)
    then have "Priority_Timer.await_tick now start (Suc i) = Some (Suc i)"
      by (subst Priority_Timer.await_tick.simps) simp
    then show ?thesis using wait True by (intro exI [of _ "Suc i"]) simp
  next
    case False
    then have nz: "Suc (i + phase) mod P \<noteq> 0" by (simp only: dvd_eq_mod_eq_0 not_False_eq_True)
    then have "start = now (Suc i)" using assms(1) less.prems by (simp add: div_Suc)
    moreover have "(Suc i + phase) mod P = Suc ((i + phase) mod P)"
      using nz mod_Suc [of "i + phase" P] by (simp split: if_splits)
    moreover have "(i + phase) mod P < P" using assms(2) by simp
    ultimately show ?thesis using less.hyps [of "Suc i"] wait by simp
  qed
qed

lemma measure_loops_regular:
  assumes "regular P now"
  shows "Priority_Timer.measure_loops now i l = Some (fits (P - 1) l)"
proof -
  obtain t0 phase where c: "\<forall>i. now i = t0 + int ((i + phase) div P)" and P: "0 < P"
    using assms unfolding regular_def by blast
  have "\<exists>j. Priority_Timer.await_tick now (now i) i = Some j \<and> (j + phase) mod P = 0"
    by (rule await_tick_ends [OF c P refl])
  then obtain j where j: "Priority_Timer.await_tick now (now i) i = Some j" "(j + phase) mod P = 0"
    by (elim exE conjE)
  have "uint l < 2 ^ 63" using uint_lt2p [of l] by simp
  then have b: "Priority_Timer.busy_wait (uint l) = unat l" by (simp add: busy_wait_rounds)
  obtain q where q: "j + phase = P * q" using j(2) by auto
  have "j + unat l + phase = P * q + unat l" using q by simp
  then have "(j + unat l + phase) div P = q + unat l div P" unfolding \<open>j + unat l + phase = P * q + unat l\<close> using P by simp
  moreover have "(j + phase) div P = q" using q P by simp
  ultimately have "now j \<noteq> now (j + unat l) \<longleftrightarrow> unat l div P \<noteq> 0" using c by simp
  moreover have "unat l div P \<noteq> 0 \<longleftrightarrow> fits (P - 1) l" using P by (auto simp: fits_def div_eq_0_iff)
  ultimately show ?thesis by (simp add: Priority_Timer.measure_loops_def j(1) b)
qed

text \<open>
  C34: The calibration of Assignment 4 ends and is accurate. On a clock that ticks every \<open>P\<close> rounds of the delay loop (\<open>P\<close>
  above \<open>2 ^ 10\<close> and at most \<open>2 ^ 31\<close>), each \<^verbatim>\<open>too_many_loops\<close>, whenever it is called, ends, and 22 rounds of the
  loops of \<^verbatim>\<open>timer_calibrate\<close> suffice: it returns an estimate of less than a tick that is less than one part in
  512 below the largest such.
\<close>
theorem timer_calibrate_accurate:
  assumes "regular P now" "\<forall>l. \<exists>i. Priority_Timer.measure_loops now i l = Some (too_many_loops e l)"
    and "1024 < P" "P \<le> 2 ^ 31" "intr (kern c) = INTR_ON" "22 \<le> fuel"
  shows "\<exists>b. timer_calibrate e fuel c = Some (Inr (c\<lparr>loops_per_tick := word_of_nat b\<rparr>)) \<and>
    b < P \<and> 512 * (P - 1 - b) < b"
proof -
  have "too_many_loops e = fits (P - 1)"
    using assms(2) measure_loops_regular [OF assms(1)] by (intro ext) (metis option.inject)
  moreover have "1024 \<le> P - 1" "P - 1 < 2 ^ 31" using assms(3,4) by simp_all
  ultimately obtain b where "timer_calibrate e fuel c = Some (Inr (c\<lparr>loops_per_tick := word_of_nat b\<rparr>))"
    "b \<le> P - 1" "512 * (P - 1 - b) < b"
    using calibrate_within assms(5,6) by blast
  then show ?thesis using assms(3) by (intro exI [of _ b]) simp
qed

lemma regular_sample: "regular 1601 (\<lambda>i. int (i div 1601))"
  unfolding regular_def by (intro conjI exI [of _ 0]) simp_all

theorem timer_calibrate_accurate_witness:
  "\<exists>b. timer_calibrate (sample_env\<lparr>too_many_loops := fits 1600\<rparr>) 22 (sample_timer None) =
     Some (Inr ((sample_timer None)\<lparr>loops_per_tick := word_of_nat b\<rparr>)) \<and> b < 1601 \<and> 512 * (1601 - 1 - b) < b"
  by (rule timer_calibrate_accurate [OF regular_sample])
    (simp_all add: measure_loops_regular [OF regular_sample] sample_timer_def)

text \<open>The measurement of Assignment 3 is the same.\<close>

lemma await_tick_from:
  "Timer.await_tick now start i = Some j \<Longrightarrow> Priority_Timer.await_tick now start i = Some j"
proof (rule Timer.await_tick.raw_induct [of "\<lambda>now start i j. Priority_Timer.await_tick now start i = Some j"])
  fix wait now start i j
  assume "\<And>now start i j. wait now start i = Some j \<Longrightarrow> Priority_Timer.await_tick now start i = Some j"
    and "(if now i = start then wait now start (Suc i) else Some i) = Some j"
  then show "Priority_Timer.await_tick now start i = Some j"
    by (subst Priority_Timer.await_tick.simps) (auto split: if_splits)
qed

lemma await_tick_to:
  "Priority_Timer.await_tick now start i = Some j \<Longrightarrow> Timer.await_tick now start i = Some j"
proof (rule Priority_Timer.await_tick.raw_induct [of "\<lambda>now start i j. Timer.await_tick now start i = Some j"])
  fix wait now start i j
  assume "\<And>now start i j. wait now start i = Some j \<Longrightarrow> Timer.await_tick now start i = Some j"
    and "(if now i = start then wait now start (Suc i) else Some i) = Some j"
  then show "Timer.await_tick now start i = Some j"
    by (subst Timer.await_tick.simps) (auto split: if_splits)
qed

lemma busy_wait_same: "Timer.busy_wait n = Priority_Timer.busy_wait n"
  by (induction n rule: Timer.busy_wait.induct)
    (subst Timer.busy_wait.simps, subst Priority_Timer.busy_wait.simps, simp)

lemma measure_loops_same: "Timer.measure_loops = Priority_Timer.measure_loops"
proof -
  have a: "Timer.await_tick now start i = Priority_Timer.await_tick now start i" for now start i
    using await_tick_from await_tick_to by (metis option.exhaust)
  note b = busy_wait_same
  show ?thesis
    by (intro ext) (unfold Timer.measure_loops_def Priority_Timer.measure_loops_def a b, rule refl)
qed

text \<open>
  The calibration of Assignment 3 on the same machine accepts every bit that fits alone on top of the
  highest one, and returns an estimate that waits for more than a tick.
\<close>

theorem calibration_overshoots:
  "Timer.calibrate_grow (fits 1600) 10 1024 = Some (Inr 1024) \<and>
   Timer.calibrate_refine (fits 1600) 1024 10 512 1024 = Some 2046 \<and> fits 1600 2046"
  by code_simp

end
