(* ===== verification/Real_Time.thy ===== *)
theory Real_Time
  imports Calibration Alarm_Round_Robin
begin

section \<open>Sleeping for a time in seconds\<close>

text \<open>
  The functions of both timers that convert a time into ticks, or into rounds of the calibrated loop
  when it is shorter than a tick. The two are the same text on different kernels; the timer of
  Assignment 3 is taken on the round-robin scheduler, as in \<open>Alarm_Round_Robin\<close>. The interfaces give times in milli-, micro- and nanoseconds, so the
  denominator is a power of a thousand; what is proved holds for every denominator that is a
  multiple of a thousand and every time whose product with the frequency fits 64 bits.
\<close>

lemma sdiv_div: "0 \<le> a \<Longrightarrow> 0 < b \<Longrightarrow> a sdiv b = a div b" for a b :: int
  by (simp add: signed_divide_int_def sgn_if)

lemma scaled_down:
  fixes a l f d m :: int
  assumes "0 \<le> a" "0 \<le> l" "0 \<le> f" "0 < d" "0 < m" "m dvd d" "a * f < d"
  shows "l * a div m * f div (d div m) \<le> l"
proof -
  obtain k where k: "d = m * k" using assms(6) by blast
  have k0: "0 < k" using assms(4,5) k zero_less_mult_pos by blast
  have "m * (l * a div m) \<le> l * a"
    using minus_mod_eq_mult_div [of "l * a" m] pos_mod_sign [OF assms(5), of "l * a"] by linarith
  then have "m * (l * a div m) * f \<le> l * a * f" using assms(3) by (rule mult_right_mono)
  moreover have "l * (a * f) \<le> l * d" using assms(2,7) by (intro mult_left_mono) simp_all
  ultimately have "m * (l * a div m * f) \<le> m * (l * k)" using k by (simp add: ac_simps)
  then have "l * a div m * f \<le> l * k" using assms(5) by simp
  then have "l * a div m * f div k \<le> l * k div k" using k0 by (rule zdiv_mono1)
  then show ?thesis using k k0 assms(5) by simp
qed

text \<open>
  The arithmetic of both: \<open>whole\<close> is the number of ticks, and for a time shorter than a tick no product
  overflows and the loop has the rounds \<open>l * num * F / denom\<close> asked for, but for the rounding.
\<close>

definition whole :: "int \<Rightarrow> int \<Rightarrow> int \<Rightarrow> int" where
  "whole num F denom = i64 (num * F) sdiv denom"

definition delay_loops :: "int \<Rightarrow> int \<Rightarrow> int \<Rightarrow> int \<Rightarrow> int" where
  "delay_loops l num F denom = i64 (i64 (l * num) sdiv 1000 * F) sdiv (denom sdiv 1000)"

lemma whole_ticks:
  assumes "0 \<le> num" "0 < F" "num * F < 2 ^ 63" "0 < denom"
  shows "whole num F denom = num * F div denom" and "0 \<le> whole num F denom"
    and "whole num F denom * denom \<le> num * F" and "num * F < (whole num F denom + 1) * denom"
proof -
  have p0: "0 \<le> num * F" using assms(1,2) by simp
  show w: "whole num F denom = num * F div denom"
    using i64_id [of "num * F"] p0 assms(3,4) by (simp add: whole_def sdiv_div)
  show "0 \<le> whole num F denom" unfolding w using p0 assms(4) by (simp add: pos_imp_zdiv_nonneg_iff)
  show "whole num F denom * denom \<le> num * F" unfolding w
    using div_mult_mod_eq [of "num * F" denom] pos_mod_sign [OF assms(4), of "num * F"] by linarith
  show "num * F < (whole num F denom + 1) * denom" unfolding w distrib_right
    using div_mult_mod_eq [of "num * F" denom] pos_mod_bound [OF assms(4), of "num * F"] by linarith
qed

lemma delay_rounding:
  fixes l num F k :: int
  assumes "0 \<le> l" "0 \<le> num" "0 < F" "0 < k"
  defines "r \<equiv> l * num div 1000 * F div k"
  shows "r * (1000 * k) \<le> l * num * F" and "l * num * F < (r + 1) * (1000 * k) + 1000 * F"
proof -
  let ?q = "l * num div 1000"
  have q: "1000 * ?q \<le> l * num" "l * num < 1000 * ?q + 1000"
    using mult_div_mod_eq [of 1000 "l * num"] pos_mod_bound [of 1000 "l * num"] pos_mod_sign [of 1000 "l * num"]
    by linarith+
  have r: "r * k \<le> ?q * F" "?q * F < r * k + k"
    using div_mult_mod_eq [of "?q * F" k] pos_mod_bound [OF assms(4), of "?q * F"] pos_mod_sign [OF assms(4), of "?q * F"]
    unfolding r_def by linarith+
  have a: "1000 * (?q * F) \<le> l * num * F" and b: "l * num * F < 1000 * (?q * F) + 1000 * F"
    using mult_right_mono [OF q(1), of F] mult_strict_right_mono [OF q(2) assms(3)] assms(3)
    by (simp_all add: ac_simps distrib_left)
  show "r * (1000 * k) \<le> l * num * F" using r(1) a by (simp add: ac_simps)
  have "l * num * F < 1000 * (r * k + k) + 1000 * F" using r(2) b by simp
  then show "l * num * F < (r + 1) * (1000 * k) + 1000 * F" by (simp add: ac_simps distrib_left distrib_right)
qed

lemma delay_loops_bounds:
  assumes "0 \<le> num" "0 < F" and lt: "num * F < denom" and "0 < denom" "denom < 2 ^ 31" "1000 dvd denom"
    and l: "0 \<le> l" "l < 2 ^ 32"
  shows "denom smod 1000 = 0" and "denom sdiv 1000 \<noteq> 0" and "0 \<le> delay_loops l num F denom"
    and "delay_loops l num F denom \<le> l"
    and "delay_loops l num F denom * denom \<le> l * num * F"
    and "l * num * F < (delay_loops l num F denom + 1) * denom + 1000 * F"
proof -
  have l2: "l < 4294967296" using l(2) by simp
  have "num * 1 \<le> num * F" using assms(1,2) by (intro mult_left_mono) simp_all
  then have num: "num < 2147483648" using lt assms(5) by simp
  moreover have "0 \<le> l * num" using l(1) assms(1) by simp
  moreover have "l * num < 9223372036854775808"
    using mult_strict_mono [OF l2 num] l(1) assms(1) by simp
  ultimately have a: "i64 (l * num) = l * num" "0 \<le> l * num" by (simp_all add: i64_id)
  obtain k where k: "denom = 1000 * k" using assms(6) by blast
  have k0: "0 < k" using assms(4) k by simp
  have m: "1000 * (l * num div 1000) \<le> l * num"
    using minus_mod_eq_mult_div [of "l * num" 1000] pos_mod_sign [of 1000 "l * num"] by linarith
  have "1000 * (l * num div 1000) * F \<le> l * num * F" using m assms(2) by (intro mult_right_mono) simp_all
  also have "\<dots> \<le> l * denom" unfolding mult.assoc using lt l(1) by (intro mult_left_mono) simp_all
  also have "\<dots> \<le> 4294967296 * 2147483648" using l assms(4,5) by (intro mult_mono) simp_all
  finally have "1000 * (l * num div 1000 * F) \<le> 9223372036854775808" unfolding mult.assoc by simp
  then have b0: "l * num div 1000 * F < 9223372036854775808" by linarith
  have b1: "0 \<le> l * num div 1000 * F" using a(2) assms(2) by (simp add: pos_imp_zdiv_nonneg_iff)
  have b: "i64 (l * num div 1000 * F) = l * num div 1000 * F" using b0 b1 by (intro i64_id) simp_all
  have d: "denom smod 1000 = 0" "denom sdiv 1000 = k"
    using k k0 by (simp_all add: signed_modulo_int_def sdiv_div)
  have e: "delay_loops l num F denom = l * num div 1000 * F div k"
    unfolding delay_loops_def a(1) d(2) using a(2) b b1 k0 by (simp add: sdiv_div)
  show "denom smod 1000 = 0" by (rule d(1))
  show "denom sdiv 1000 \<noteq> 0" using d(2) k0 by simp
  show "0 \<le> delay_loops l num F denom" unfolding e using b1 k0 by (simp add: pos_imp_zdiv_nonneg_iff)
  have "l * num div 1000 * F div (denom div 1000) \<le> l" using lt assms l(1) by (intro scaled_down) simp_all
  then show "delay_loops l num F denom \<le> l" unfolding e using k by simp
  show "delay_loops l num F denom * denom \<le> l * num * F"
    and "l * num * F < (delay_loops l num F denom + 1) * denom + 1000 * F"
    using delay_rounding [OF l(1) assms(1,2) k0] unfolding k [symmetric] e by simp_all
qed

lemma regular_waits_a_tick:
  assumes "regular P now" "rounds < P"
  shows "now (i + rounds) - now i \<le> 1"
proof -
  obtain t0 phase where c: "\<forall>i. now i = t0 + int ((i + phase) div P)" and P: "0 < P"
    using assms(1) unfolding regular_def by blast
  have "(i + rounds + phase) div P \<le> (i + phase + P) div P" using assms(2) by (intro div_le_mono) simp
  also have "\<dots> = (i + phase) div P + 1" by (rule div_add_self2) (use P in simp)
  finally show ?thesis unfolding c [rule_format] by linarith
qed

lemma real_time_eqs:
  "Timer.real_time_sleep (e :: 'k env) num denom t =
     (if denom = 0 then Inl Divide_error
      else bnd (assert (op_intr_on e (Timer.kern t))) (\<lambda>_.
        if whole num (Timer.TIMER_FREQ e) denom > 0 then Timer.timer_sleep e (whole num (Timer.TIMER_FREQ e) denom) t
        else bnd (Timer.real_time_delay t e num denom) (\<lambda>_. Inr t)))"
  "Timer.real_time_delay t e num denom =
     bnd (assert (denom smod 1000 = 0)) (\<lambda>_. if denom sdiv 1000 = 0 then Inl Divide_error
       else Inr (Timer.busy_wait (delay_loops (uint (Timer.loops_per_tick t)) num (Timer.TIMER_FREQ e) denom)))"
  "Priority_Timer.real_time_sleep pe num denom c =
     (if denom = 0 then Inl Divide_error
      else bnd (assert (Priority_Threads.intr (Priority_Timer.kern c) = Priority_Threads.INTR_ON)) (\<lambda>_.
        if whole num (Priority_Timer.TIMER_FREQ pe) denom > 0
        then Priority_Timer.timer_sleep pe (whole num (Priority_Timer.TIMER_FREQ pe) denom) c
        else bnd (Priority_Timer.real_time_delay pe num denom c) (\<lambda>_. Inr c)))"
  "Priority_Timer.real_time_delay pe num denom c =
     bnd (assert (denom smod 1000 = 0)) (\<lambda>_. if denom sdiv 1000 = 0 then Inl Divide_error
       else Inr (Priority_Timer.busy_wait
         (delay_loops (uint (Priority_Timer.loops_per_tick c)) num (Priority_Timer.TIMER_FREQ pe) denom)))"
  unfolding Timer.real_time_sleep_def Timer.real_time_delay_def Priority_Timer.real_time_sleep_def
    Priority_Timer.real_time_delay_def whole_def delay_loops_def Let_def by (rule refl)+

text \<open>A time shorter than a tick: at most the rounds of a tick, and not a tick on a calibrated machine.\<close>

definition short_delay :: "nat \<Rightarrow> int \<Rightarrow> int \<Rightarrow> int \<Rightarrow> nat \<Rightarrow> bool" where
  "short_delay l num F denom rounds \<longleftrightarrow> rounds \<le> l \<and>
     int rounds * denom \<le> int l * num * F \<and> int l * num * F < (int rounds + 1) * denom + 1000 * F"

lemma short_delay_loops:
  assumes "0 \<le> num" "0 < F" "num * F < denom" "0 < denom" "denom < 2 ^ 31" "1000 dvd denom"
  shows "\<exists>rounds. Timer.busy_wait (delay_loops (uint (l :: 32 word)) num F denom) = rounds \<and>
    Priority_Timer.busy_wait (delay_loops (uint l) num F denom) = rounds \<and> short_delay (unat l) num F denom rounds"
proof -
  have l: "0 \<le> uint l" "uint l < 2 ^ 32" using uint_lt2p [of l] by simp_all
  note d = delay_loops_bounds [OF assms l]
  let ?d = "delay_loops (uint l) num F denom"
  have "?d < 2 ^ 63" using d(4) l(2) by simp
  then have b: "Priority_Timer.busy_wait ?d = nat ?d" by (rule busy_wait_rounds)
  moreover have "Timer.busy_wait ?d = Priority_Timer.busy_wait ?d" by (rule busy_wait_same)
  moreover have "short_delay (unat l) num F denom (nat ?d)"
    unfolding short_delay_def using d(3-6) by (simp add: nat_le_iff)
  ultimately show ?thesis by simp
qed

text \<open>The timer of Assignment 4 computes the same; what its \<^verbatim>\<open>timer_sleep\<close> then does is in \<open>Priority_Alarm\<close>.\<close>

theorem priority_real_time_sleep:
  assumes "Priority_Threads.intr (Priority_Timer.kern c) = Priority_Threads.INTR_ON" "0 \<le> num" "0 < Priority_Timer.TIMER_FREQ e"
    "num * Priority_Timer.TIMER_FREQ e < 2 ^ 63" "0 < denom" "denom < 2 ^ 31" "1000 dvd denom"
  defines "n \<equiv> num * Priority_Timer.TIMER_FREQ e div denom"
  shows "Priority_Timer.real_time_sleep e num denom c = (if 0 < n then Priority_Timer.timer_sleep e n c else Inr c)"
    and "n = 0 \<Longrightarrow> \<exists>rounds. Priority_Timer.real_time_delay e num denom c = Inr rounds \<and>
      short_delay (unat (Priority_Timer.loops_per_tick c)) num (Priority_Timer.TIMER_FREQ e) denom rounds"
proof -
  note w = whole_ticks [OF assms(2-5)]
  have d: "\<exists>rounds. Priority_Timer.real_time_delay e num denom c = Inr rounds \<and>
      short_delay (unat (Priority_Timer.loops_per_tick c)) num (Priority_Timer.TIMER_FREQ e) denom rounds" if "n = 0"
  proof -
    have z: "num * Priority_Timer.TIMER_FREQ e < denom" using w(1,4) that by (simp add: n_def)
    show ?thesis
      using short_delay_loops [OF assms(2,3) z assms(5-7), of "Priority_Timer.loops_per_tick c"]
        delay_loops_bounds(1,2) [OF assms(2,3) z assms(5-7), of 0]
      by (simp add: real_time_eqs(4))
  qed
  show "n = 0 \<Longrightarrow> \<exists>rounds. Priority_Timer.real_time_delay e num denom c = Inr rounds \<and>
      short_delay (unat (Priority_Timer.loops_per_tick c)) num (Priority_Timer.TIMER_FREQ e) denom rounds" by (rule d)
  show "Priority_Timer.real_time_sleep e num denom c = (if 0 < n then Priority_Timer.timer_sleep e n c else Inr c)"
    using assms(1,5) w(1,2) d by (auto simp: real_time_eqs(3) n_def)
qed

text \<open>
  C35: A real-time sleep lasts the requested time, rounded down to a whole number of ticks. A thread
  of Assignment 3 (not the idle thread, interrupts on) asks for \<open>num / denom\<close> seconds at \<open>freq\<close> ticks a
  second; \<open>n\<close> is the number of whole ticks in it. If that is at least one, the thread is blocked and
  stays so, whatever the rest of the system does, until the interrupt that counts tick \<open>ticks c + n\<close>;
  that interrupt makes it ready if a removed list element keeps its links, and otherwise follows a
  dangling pointer, as in C8. If it is less than a tick, the thread keeps the processor and nothing
  changes but the time: no product overflows, and the delay loop runs its calibrated share of the
  rounds of a tick, \<open>loops_per_tick * num * freq / denom\<close> but for the two roundings; if a tick really
  takes more rounds than \<open>loops_per_tick\<close>, at most one tick comes meanwhile.
\<close>
theorem real_time_sleep_accurate:
  assumes "alarm_inv (rr_inv ins) u_asleep c" "\<not> in_interrupt (Timer.kern c)"
    "running (Timer.kern c) \<noteq> idle_thread (Timer.kern c)" "intr (Timer.kern c) = INTR_ON"
    "0 \<le> num" "0 < freq" "num * freq < 2 ^ 63" "0 < denom" "denom < 2 ^ 31" "1000 dvd denom"
    "Timer.ticks c + num * freq div denom < 2 ^ 63"
  shows "\<exists>n. n * denom \<le> num * freq \<and> num * freq < (n + 1) * denom \<and>
    (0 < n \<longrightarrow> (\<exists>c1. Timer.real_time_sleep (round_robin ins freq tm links) num denom c = Inr c1 \<and>
      Timer.ticks c1 = Timer.ticks c \<and>
      (\<forall>c2. (rr_step ins freq tm links)\<^sup>*\<^sup>* c1 c2 \<longrightarrow>
        (Timer.ticks c2 < Timer.ticks c + n \<longrightarrow>
          status_of (Timer.kern c2) (running (Timer.kern c)) = Some THREAD_BLOCKED) \<and>
        (Timer.ticks c2 + 1 = Timer.ticks c + n \<longrightarrow>
          (links \<longrightarrow> (\<exists>c3. Timer.timer_interrupt (round_robin ins freq tm links) c2 = Inr c3 \<and>
            running (Timer.kern c) \<in> set (ready_list (Timer.kern c3)))) \<and>
          (\<not> links \<longrightarrow> Timer.timer_interrupt (round_robin ins freq tm links) c2 = Inl Bad_pointer))))) \<and>
    (n = 0 \<longrightarrow> Timer.real_time_sleep (round_robin ins freq tm links) num denom c = Inr c \<and>
      (\<exists>rounds. Timer.real_time_delay c (round_robin ins freq tm links) num denom = Inr rounds \<and>
        short_delay (unat (Timer.loops_per_tick c)) num freq denom rounds \<and>
        (\<forall>P now i. regular P now \<and> unat (Timer.loops_per_tick c) < P \<longrightarrow> now (i + rounds) - now i \<le> 1)))"
proof -
  let ?e = "round_robin ins freq tm links" and ?n = "whole num freq denom"
  note w = whole_ticks [OF assms(5-8)]
  have on: "op_intr_on ?e (Timer.kern c)" using assms(4) by simp
  have long: "Timer.real_time_sleep ?e num denom c = Timer.timer_sleep ?e ?n c" if "0 < ?n"
    using that on assms(8) by (simp add: real_time_eqs(1))
  have long': "\<exists>c1. Timer.real_time_sleep ?e num denom c = Inr c1 \<and> Timer.ticks c1 = Timer.ticks c \<and>
      (\<forall>c2. (rr_step ins freq tm links)\<^sup>*\<^sup>* c1 c2 \<longrightarrow>
        (Timer.ticks c2 < Timer.ticks c + ?n \<longrightarrow>
          status_of (Timer.kern c2) (running (Timer.kern c)) = Some THREAD_BLOCKED) \<and>
        (Timer.ticks c2 + 1 = Timer.ticks c + ?n \<longrightarrow>
          (links \<longrightarrow> (\<exists>c3. Timer.timer_interrupt ?e c2 = Inr c3 \<and>
            running (Timer.kern c) \<in> set (ready_list (Timer.kern c3)))) \<and>
          (\<not> links \<longrightarrow> Timer.timer_interrupt ?e c2 = Inl Bad_pointer)))" if n: "0 < ?n"
  proof -
    have t: "Timer.ticks c + ?n < 2 ^ 63" using assms(11) w(1) by simp
    show ?thesis unfolding long [OF n] using rr_sleeper_wakes [OF assms(1-4) n t, of freq tm links] by blast
  qed
  have short: "Timer.real_time_sleep ?e num denom c = Inr c \<and>
      (\<exists>rounds. Timer.real_time_delay c ?e num denom = Inr rounds \<and>
        short_delay (unat (Timer.loops_per_tick c)) num freq denom rounds \<and>
        (\<forall>P now i. regular P now \<and> unat (Timer.loops_per_tick c) < P \<longrightarrow> now (i + rounds) - now i \<le> 1))"
    if n: "?n = 0"
  proof -
    have z: "num * freq < denom" using w(4) n by simp
    obtain rounds where r: "Timer.busy_wait (delay_loops (uint (Timer.loops_per_tick c)) num freq denom) = rounds"
      "short_delay (unat (Timer.loops_per_tick c)) num freq denom rounds"
      using short_delay_loops [OF assms(5,6) z assms(8-10), of "Timer.loops_per_tick c"] by blast
    have d: "Timer.real_time_delay c ?e num denom = Inr rounds"
      using r(1) delay_loops_bounds(1,2) [OF assms(5,6) z assms(8-10), of 0] by (simp add: real_time_eqs(2))
    moreover have "Timer.real_time_sleep ?e num denom c = Inr c"
      using d on n assms(8) by (simp add: real_time_eqs(1))
    moreover have "now (i + rounds) - now i \<le> 1" if "regular P now" "unat (Timer.loops_per_tick c) < P" for P now i
      using regular_waits_a_tick [OF that(1)] that(2) r(2) by (simp add: short_delay_def)
    ultimately show ?thesis using r(2) by blast
  qed
  show ?thesis by (intro exI [of _ ?n] conjI impI w(3,4) long' short) simp_all
qed

theorem real_time_sleep_accurate_witness:
  "(\<exists>c1 c3. Timer.timer_msleep (round_robin insert_before_greater 100 (\<lambda>_. False) True) 15 sample_clock = Inr c1 \<and>
     status_of (Timer.kern c1) 0x4000 = Some THREAD_BLOCKED \<and>
     Timer.timer_interrupt (round_robin insert_before_greater 100 (\<lambda>_. False) True) c1 = Inr c3 \<and>
     0x4000 \<in> set (ready_list (Timer.kern c3))) \<and>
   (\<exists>rounds. Timer.timer_mdelay (round_robin insert_before_greater 100 (\<lambda>_. False) True) 5
       (sample_clock\<lparr>Timer.loops_per_tick := 1600\<rparr>) = Inr rounds \<and> rounds \<le> 800 \<and> 699 \<le> rounds)"
proof -
  let ?e = "round_robin insert_before_greater 100 (\<lambda>_. False) True"
    and ?c = "sample_clock\<lparr>Timer.loops_per_tick := 1600\<rparr>"
  have f: "\<not> in_interrupt (Timer.kern sample_clock)"
    "running (Timer.kern sample_clock) \<noteq> idle_thread (Timer.kern sample_clock)"
    "intr (Timer.kern sample_clock) = INTR_ON" "Timer.ticks sample_clock = 7"
    "running (Timer.kern sample_clock) = 0x4000"
    by (simp_all add: sample_clock_def)
  have i: "alarm_inv (rr_inv insert_before_greater) u_asleep ?c"
    using alarm_inv_sample_clock by (simp add: alarm_inv_def)
  have p: "(0 :: int) \<le> 15" "(0 :: int) < 100" "(15 :: int) * 100 < 2 ^ 63" "(0 :: int) < 1000"
    "(1000 :: int) < 2 ^ 31" "(1000 :: int) dvd 1000" "(7 :: int) + 15 * 100 div 1000 < 2 ^ 63"
    and q: "(0 :: int) \<le> 5" "(5 :: int) * 100 < 2 ^ 63" "(7 :: int) + 5 * 100 div 1000 < 2 ^ 63"
    by simp_all
  have "\<exists>c1 c3. Timer.real_time_sleep ?e 15 1000 sample_clock = Inr c1 \<and>
     status_of (Timer.kern c1) 0x4000 = Some THREAD_BLOCKED \<and> Timer.timer_interrupt ?e c1 = Inr c3 \<and>
     0x4000 \<in> set (ready_list (Timer.kern c3))"
    using real_time_sleep_accurate [OF alarm_inv_sample_clock f(1-3) p(1-6) p(7) [folded f(4)],
        of "\<lambda>_. False" True, unfolded f(4,5)]
  proof (elim exE conjE, goal_cases)
    case (1 n)
    have "n = 1" using 1(1,2) by simp
    then obtain c1 where "Timer.real_time_sleep ?e 15 1000 sample_clock = Inr c1" "Timer.ticks c1 = 7"
      "status_of (Timer.kern c1) 0x4000 = Some THREAD_BLOCKED"
      "\<exists>c3. Timer.timer_interrupt ?e c1 = Inr c3 \<and> 0x4000 \<in> set (ready_list (Timer.kern c3))"
      using 1(3) by auto
    then show ?case by blast
  qed
  moreover have "\<exists>rounds. Timer.real_time_delay ?c ?e 5 1000 = Inr rounds \<and> short_delay 1600 5 100 1000 rounds"
  proof -
    have g: "Timer.kern ?c = Timer.kern sample_clock" "Timer.ticks ?c = 7" "Timer.loops_per_tick ?c = 1600"
      using f(4) by simp_all
    show ?thesis
      using real_time_sleep_accurate [OF i f(1-3) [folded g(1)] q(1) p(2) q(2) p(4-6) q(3) [folded g(2)],
          of "\<lambda>_. False" True]
    proof (elim exE conjE, goal_cases)
      case (1 n)
      have "n = 0" using 1(1,2) by simp
      then show ?case using 1(4) by (simp add: g(3)) blast
    qed
  qed
  ultimately show ?thesis
    by (auto simp: Timer.timer_msleep_def Timer.timer_mdelay_def short_delay_def)
qed

end
