(* ===== verification/Job_Queue.thy ===== *)
theory Job_Queue
  imports Prelude
begin

section \<open>Jobs, producers and consumers (Assignment 5)\<close>

text \<open>
  \<^verbatim>\<open>Assignment_5/.../Ass5_11_18CS10063_18CS10011_process.cpp\<close>: a priority queue of jobs in shared memory,
  filled by producers and emptied by consumers; the parent is in \<open>Job_Main\<close>. Everything that happens while
  the mutex is held is one step; what a process keeps between two critical sections is its program
  counter. The length of a sleep, printing, the attachment of the memory segment and the mutex itself
  are left out, and the random numbers of \<open>create_job\<close> are arguments.

  The array has the indices 0 to \<open>PQ_SIZE - 1\<close>; an access outside is \<open>Bad_pointer\<close>.
\<close>

definition PQ_SIZE :: int where "PQ_SIZE = 8"

record job =
  proc_id :: int
  prod_num :: int
  priority :: int
  comp_time :: int
  job_id :: int

record shared_memory =
  priority_q :: "job list"
  job_created :: int
  job_completed :: int
  curr_size :: int

definition create_mem :: "shared_memory \<Rightarrow> shared_memory" where
  "create_mem sm = sm\<lparr>job_created := 0, job_completed := 0, curr_size := 0\<rparr>"

definition create_job :: "int \<Rightarrow> int \<Rightarrow> int \<Rightarrow> int \<Rightarrow> int \<Rightarrow> job" where
  "create_job pid num distrib1 distrib2 distrib3 =
     \<lparr>proc_id = pid, prod_num = num, priority = distrib2, comp_time = distrib3, job_id = distrib1\<rparr>"

definition get :: "int \<Rightarrow> job list \<Rightarrow> job result" where
  "get i q = (if 0 \<le> i \<and> i < PQ_SIZE then Inr (q ! nat i) else Inl Bad_pointer)"

definition put :: "int \<Rightarrow> job \<Rightarrow> job list \<Rightarrow> job list result" where
  "put i x q = (if 0 \<le> i \<and> i < PQ_SIZE then Inr (q[nat i := x]) else Inl Bad_pointer)"

definition exchange :: "int \<Rightarrow> int \<Rightarrow> job list \<Rightarrow> job list result" where
  "exchange i j q =
     bnd (get i q) (\<lambda>swap. bnd (get j q) (\<lambda>x. bnd (put i x q) (\<lambda>q1. put j swap q1)))"

subsection \<open>The heap\<close>

function sift_up :: "int \<Rightarrow> job list \<Rightarrow> job list result" where
  "sift_up index q =
     (if index > 1 then
        bnd (get (index div 2) q) (\<lambda>p. bnd (get index q) (\<lambda>x.
        if priority p < priority x
        then bnd (exchange index (index div 2) q) (\<lambda>q1. sift_up (index div 2) q1)
        else Inr q))
      else Inr q)"
  by pat_completeness auto
termination by (relation "measure (\<lambda>(index, q). nat index)") auto

definition insert_job :: "job \<Rightarrow> shared_memory \<Rightarrow> shared_memory result" where
  "insert_job new_job sm =
     (let sm1 = sm\<lparr>curr_size := curr_size sm + 1\<rparr>;
          sz = curr_size sm1 in
      bnd (put sz new_job (priority_q sm1)) (\<lambda>q.
      if curr_size sm = 0 then Inr (sm1\<lparr>priority_q := q\<rparr>)
      else bnd (sift_up sz q) (\<lambda>q1. Inr (sm1\<lparr>priority_q := q1\<rparr>))))"

text \<open>The larger of the element at \<open>index\<close> and its children, the index itself if there is no larger child.\<close>

definition larger_child :: "int \<Rightarrow> int \<Rightarrow> job list \<Rightarrow> int result" where
  "larger_child sz index q =
     bnd (if 2 * index \<le> sz then
            bnd (get index q) (\<lambda>a. bnd (get (2 * index) q) (\<lambda>b.
            Inr (if priority a < priority b then 2 * index else index)))
          else Inr index) (\<lambda>target.
     if 2 * index + 1 \<le> sz then
       bnd (get target q) (\<lambda>a. bnd (get (2 * index + 1) q) (\<lambda>b.
       Inr (if priority a < priority b then 2 * index + 1 else target)))
     else Inr target)"

lemma larger_child_ge: "larger_child sz index q = Inr t \<Longrightarrow> index \<le> t"
  by (auto simp: larger_child_def bnd_eq_Inr get_def split: if_splits)

function sift_down :: "int \<Rightarrow> int \<Rightarrow> int \<Rightarrow> job list \<Rightarrow> job list result" where
  "sift_down bound sz index q =
     (if index < bound then
        bnd (larger_child sz index q) (\<lambda>target.
        if target = index then Inr q
        else bnd (exchange target index q) (\<lambda>q1. sift_down bound sz target q1))
      else Inr q)"
  by pat_completeness auto
termination
proof (relation "measure (\<lambda>(bound, sz, index, q). nat (bound - index))")
  fix bound sz index target :: int and q q1 :: "job list"
  assume "index < bound" "larger_child sz index q = Inr target" "target \<noteq> index"
  then show "((bound, sz, target, q1), bound, sz, index, q) \<in> measure (\<lambda>(bound, sz, index, q). nat (bound - index))"
    using larger_child_ge [of sz index q target] by simp
qed simp

declare sift_up.simps [simp del] sift_down.simps [simp del]

definition remove_job :: "shared_memory \<Rightarrow> (job \<times> shared_memory) result" where
  "remove_job sm =
     (if curr_size sm = 1 then
        bnd (get 1 (priority_q sm)) (\<lambda>rem. Inr (rem, sm\<lparr>curr_size := 0\<rparr>))
      else
        let sz = curr_size sm in
        bnd (get 1 (priority_q sm)) (\<lambda>rem.
        bnd (get sz (priority_q sm)) (\<lambda>last.
        let sm1 = sm\<lparr>curr_size := sz - 1\<rparr> in
        bnd (put 1 last (priority_q sm1)) (\<lambda>q.
        bnd (sift_down sz (curr_size sm1) 1 q) (\<lambda>q1.
        Inr (rem, sm1\<lparr>priority_q := q1\<rparr>))))))"

subsection \<open>Producers and consumers\<close>

text \<open>
  A producer is at the head of its loop, holds a job it has created and not yet inserted, or has
  finished; a consumer is at the head of its loop, computes (sleeps for the time its job takes, which
  it has counted as completed already) or has finished. One call of a step function is one
  critical section. The queue's operations are the arguments \<open>ins\<close> and \<open>rem\<close>: the code calls \<open>insert_job\<close> and
  \<open>remove_job\<close>. The parent watches the counters and ends everybody when \<open>parent_check\<close> holds.
\<close>

datatype producer = Creating | Inserting job | Producer_done
datatype consumer = Consuming | Computing int | Consumer_done

definition producer_generate_job ::
  "(job \<Rightarrow> shared_memory \<Rightarrow> shared_memory result) \<Rightarrow> int \<Rightarrow> job \<Rightarrow> producer \<Rightarrow> shared_memory \<Rightarrow> (producer \<times> shared_memory) result" where
  "producer_generate_job ins jobs new_job pc sm =
     (case pc of
        Creating \<Rightarrow>
          if job_created sm \<ge> jobs then Inr (Producer_done, sm)
          else if curr_size sm < PQ_SIZE - 1
          then Inr (Inserting new_job, sm\<lparr>job_created := job_created sm + 1\<rparr>)
          else Inr (Creating, sm)
      | Inserting j \<Rightarrow>
          if curr_size sm < PQ_SIZE - 1
          then bnd (ins j sm) (\<lambda>sm1. Inr (Creating, sm1))
          else Inr (Inserting j, sm)
      | Producer_done \<Rightarrow> Inr (Producer_done, sm))"

definition consumer_finish_job ::
  "(shared_memory \<Rightarrow> (job \<times> shared_memory) result) \<Rightarrow> int \<Rightarrow> consumer \<Rightarrow> shared_memory \<Rightarrow> (job option \<times> consumer \<times> shared_memory) result" where
  "consumer_finish_job rem jobs pc sm =
     (case pc of
        Consuming \<Rightarrow>
          if job_completed sm \<ge> jobs then Inr (None, Consumer_done, sm)
          else if curr_size sm > 0
          then bnd (rem sm) (\<lambda>(rem_job, sm1).
            Inr (Some rem_job, Computing (comp_time rem_job), sm1\<lparr>job_completed := job_completed sm1 + 1\<rparr>))
          else Inr (None, Consuming, sm)
      | Computing t \<Rightarrow> Inr (None, Consuming, sm)
      | Consumer_done \<Rightarrow> Inr (None, Consumer_done, sm))"

definition parent_check :: "int \<Rightarrow> shared_memory \<Rightarrow> bool" where
  "parent_check jobs sm \<longleftrightarrow> job_created sm = jobs \<and> job_completed sm = jobs"

end
