(* ===== verification/Job_Heap.thy ===== *)
theory Job_Heap
  imports Job_Queue
begin

section \<open>The priority queue is one\<close>

text \<open>
  The array refines a multiset of jobs: insertion adds a job, removal takes one of highest priority,
  and neither leaves the array. The heap order is stated for the priorities as a function of the
  index, for all elements or with an exception for the one that is moving up or down.
\<close>

subsection \<open>Heap order\<close>

definition heap_order :: "(int \<Rightarrow> int) \<Rightarrow> int \<Rightarrow> bool" where
  "heap_order P n \<longleftrightarrow> (\<forall>j. 2 \<le> j \<and> j \<le> n \<longrightarrow> P j \<le> P (j div 2))"

definition heap_up :: "(int \<Rightarrow> int) \<Rightarrow> int \<Rightarrow> int \<Rightarrow> bool" where
  "heap_up P n i \<longleftrightarrow> (\<forall>j. 2 \<le> j \<and> j \<le> n \<longrightarrow>
     (j \<noteq> i \<longrightarrow> P j \<le> P (j div 2)) \<and> (j div 2 = i \<and> 2 \<le> i \<longrightarrow> P j \<le> P (i div 2)))"

definition heap_down :: "(int \<Rightarrow> int) \<Rightarrow> int \<Rightarrow> int \<Rightarrow> bool" where
  "heap_down P n i \<longleftrightarrow> (\<forall>j. 2 \<le> j \<and> j \<le> n \<longrightarrow>
     (j div 2 \<noteq> i \<longrightarrow> P j \<le> P (j div 2)) \<and> (j div 2 = i \<and> 2 \<le> i \<longrightarrow> P j \<le> P (i div 2)))"

definition swapped :: "int \<Rightarrow> int \<Rightarrow> (int \<Rightarrow> int) \<Rightarrow> int \<Rightarrow> int" where
  "swapped i j P k = (if k = j then P i else if k = i then P j else P k)"

lemma heap_up_done:
  assumes "heap_up P n i" "i \<le> 1 \<or> P i \<le> P (i div 2)"
  shows "heap_order P n"
  unfolding heap_order_def
proof (intro allI impI)
  fix j assume "2 \<le> j \<and> j \<le> n"
  then show "P j \<le> P (j div 2)" using assms by (cases "j = i") (auto simp: heap_up_def)
qed

lemma heap_up_step:
  assumes "heap_up P n i" "2 \<le> i" "i \<le> n" "P (i div 2) < P i"
  shows "heap_up (swapped i (i div 2) P) n (i div 2)"
  unfolding heap_up_def
proof (intro allI impI conjI)
  have up: "2 \<le> k \<Longrightarrow> k \<le> n \<Longrightarrow> k \<noteq> i \<Longrightarrow> P k \<le> P (k div 2)"
    "2 \<le> k \<Longrightarrow> k \<le> n \<Longrightarrow> k div 2 = i \<Longrightarrow> P k \<le> P (i div 2)" for k
    using assms(1,2) by (auto simp: heap_up_def)
  fix j assume j: "2 \<le> j \<and> j \<le> n"
  show "swapped i (i div 2) P j \<le> swapped i (i div 2) P (j div 2)" if "j \<noteq> i div 2"
  proof -
    consider "j = i" | "j \<noteq> i" "j div 2 = i" | "j \<noteq> i" "j div 2 = i div 2" | "j \<noteq> i" "j div 2 \<noteq> i" "j div 2 \<noteq> i div 2"
      by blast
    then show ?thesis
      using that j assms(2,4) up(1) [of j] up(2) [of j] by cases (auto simp: swapped_def)
  qed
  assume h: "j div 2 = i div 2 \<and> 2 \<le> i div 2"
  then have "P (i div 2) \<le> P (i div 2 div 2)" using up(1) [of "i div 2"] assms(3) by linarith
  moreover have "i div 2 div 2 \<noteq> i" "i div 2 div 2 \<noteq> i div 2" "j \<noteq> i div 2" using h by linarith+
  moreover have "j \<noteq> i \<Longrightarrow> P j \<le> P (i div 2)" using up(1) [of j] j h by simp
  ultimately show "swapped i (i div 2) P j \<le> swapped i (i div 2) P (i div 2 div 2)"
    by (auto simp: swapped_def)
qed

lemma heap_down_step:
  assumes "heap_down P n i" "1 \<le> i" "t = 2 * i \<or> t = 2 * i + 1" "t \<le> n"
    "\<forall>j. j div 2 = i \<and> 2 \<le> j \<and> j \<le> n \<longrightarrow> P j \<le> P t" "P i < P t"
  shows "heap_down (swapped t i P) n t"
  unfolding heap_down_def
proof (intro allI impI conjI)
  have down: "2 \<le> k \<Longrightarrow> k \<le> n \<Longrightarrow> k div 2 \<noteq> i \<Longrightarrow> P k \<le> P (k div 2)"
    "2 \<le> k \<Longrightarrow> k \<le> n \<Longrightarrow> k div 2 = i \<Longrightarrow> 2 \<le> i \<Longrightarrow> P k \<le> P (i div 2)" for k
    using assms(1) by (auto simp: heap_down_def)
  have t: "t div 2 = i" "i < t" "2 \<le> t" using assms(2,3) by auto
  fix j assume j: "2 \<le> j \<and> j \<le> n"
  show "swapped t i P j \<le> swapped t i P (j div 2)" if nt: "j div 2 \<noteq> t"
  proof -
    have "j = i \<Longrightarrow> j div 2 \<noteq> i" using j by linarith
    then consider "j = i" "j div 2 \<noteq> i" "j div 2 \<noteq> t" | "j = t" | "j \<noteq> t" "j \<noteq> i" "j div 2 = i"
      | "j \<noteq> t" "j \<noteq> i" "j div 2 \<noteq> i" "j div 2 \<noteq> t"
      using nt by blast
    then show ?thesis
    proof cases
      case 1
      then show ?thesis using down(2) [of t] t assms(4) j by (simp add: swapped_def)
    qed (use j t assms(5,6) down(1) [of j] in \<open>auto simp: swapped_def\<close>)
  qed
  assume "j div 2 = t \<and> 2 \<le> t"
  moreover from this have "j \<noteq> t" "j \<noteq> i" "P j \<le> P t" using j t down(1) [of j] by auto
  ultimately show "swapped t i P j \<le> swapped t i P (t div 2)" using t by (simp add: swapped_def)
qed

lemma heap_down_done:
  assumes "heap_down P n i" "\<forall>j. j div 2 = i \<and> 2 \<le> j \<and> j \<le> n \<longrightarrow> P j \<le> P i"
  shows "heap_order P n"
  using assms unfolding heap_down_def heap_order_def by metis

lemma heap_order_max:
  assumes "heap_order P n" "1 \<le> j" "j \<le> n"
  shows "P j \<le> P 1"
  using assms(2,3)
proof (induction "nat j" arbitrary: j rule: less_induct)
  case less
  show ?case
  proof (cases "j = 1")
    case False
    then have "P j \<le> P (j div 2)" using assms(1) less.prems by (simp add: heap_order_def)
    moreover have "P (j div 2) \<le> P 1"
      using less.prems False by (intro less.hyps) linarith+
    ultimately show ?thesis by simp
  qed simp
qed

subsection \<open>The array\<close>

definition prio_at :: "job list \<Rightarrow> int \<Rightarrow> int" where
  "prio_at q i = priority (q ! nat i)"

text \<open>The jobs at the indices 1 to \<open>n\<close>.\<close>

definition jobs_upto :: "job list \<Rightarrow> int \<Rightarrow> job multiset" where
  "jobs_upto q n = mset (take (nat n) (tl q))"

definition heap_ok :: "shared_memory \<Rightarrow> bool" where
  "heap_ok sm \<longleftrightarrow> length (priority_q sm) = nat PQ_SIZE \<and> 0 \<le> curr_size sm \<and> curr_size sm < PQ_SIZE \<and>
     heap_order (prio_at (priority_q sm)) (curr_size sm)"

definition queued :: "shared_memory \<Rightarrow> job multiset" where
  "queued sm = jobs_upto (priority_q sm) (curr_size sm)"

definition exchanged :: "int \<Rightarrow> int \<Rightarrow> job list \<Rightarrow> job list" where
  "exchanged i j q = q[nat i := q ! nat j, nat j := q ! nat i]"

definition inside :: "int \<Rightarrow> bool" where
  "inside i \<longleftrightarrow> 1 \<le> i \<and> i < PQ_SIZE"

lemma get_inside: "inside i \<Longrightarrow> get i q = Inr (q ! nat i)"
  by (simp add: get_def inside_def)

lemma put_inside: "inside i \<Longrightarrow> put i x q = Inr (q[nat i := x])"
  by (simp add: put_def inside_def)

lemma exchange_inside: "inside i \<Longrightarrow> inside j \<Longrightarrow> exchange i j q = Inr (exchanged i j q)"
  by (simp add: exchange_def get_inside put_inside exchanged_def)

lemma length_exchanged [simp]: "length (exchanged i j q) = length q"
  by (simp add: exchanged_def)

lemma prio_at_update:
  assumes "inside i" "1 \<le> k" "length q = nat PQ_SIZE"
  shows "prio_at (q[nat i := x]) k = (if k = i then priority x else prio_at q k)"
proof -
  have "nat i < length q" "nat k = nat i \<longleftrightarrow> k = i" using assms by (auto simp: inside_def PQ_SIZE_def)
  then show ?thesis unfolding prio_at_def by (simp only: nth_list_update) auto
qed

lemma prio_at_exchanged:
  assumes "inside i" "inside j" "1 \<le> k" "length q = nat PQ_SIZE"
  shows "prio_at (exchanged i j q) k = swapped i j (prio_at q) k"
  unfolding exchanged_def using prio_at_update [OF assms(2,3), of "q[nat i := q ! nat j]"]
    prio_at_update [OF assms(1,3,4)] assms(4) by (simp add: swapped_def) (simp add: prio_at_def)

lemma heap_cong:
  assumes "\<And>k. 1 \<le> k \<Longrightarrow> P k = Q k"
  shows "heap_order P n = heap_order Q n" "heap_up P n i = heap_up Q n i" "heap_down P n i = heap_down Q n i"
proof -
  have e: "2 \<le> j \<Longrightarrow> P j = Q j" "2 \<le> j \<Longrightarrow> P (j div 2) = Q (j div 2)" "2 \<le> i \<Longrightarrow> P (i div 2) = Q (i div 2)" for j
    by (rule assms; linarith)+
  show "heap_order P n = heap_order Q n" using e unfolding heap_order_def by auto
  show "heap_up P n i = heap_up Q n i" using e unfolding heap_up_def by auto
  show "heap_down P n i = heap_down Q n i" using e unfolding heap_down_def by auto
qed

lemma heap_exchanged:
  assumes "inside i" "inside j" "length q = nat PQ_SIZE"
  shows "heap_up (prio_at (exchanged i j q)) n k = heap_up (swapped i j (prio_at q)) n k"
    and "heap_down (prio_at (exchanged i j q)) n k = heap_down (swapped i j (prio_at q)) n k"
  by (rule heap_cong, rule prio_at_exchanged [OF assms(1,2) _ assms(3)], assumption)+

lemma jobs_exchanged:
  assumes "1 \<le> i" "i \<le> n" "1 \<le> j" "j \<le> n" "n < PQ_SIZE" "length q = nat PQ_SIZE"
  shows "jobs_upto (exchanged i j q) n = jobs_upto q n"
proof (cases q)
  case (Cons z r)
  define a b where "a = nat (i - 1)" and "b = nat (j - 1)"
  have i: "nat i = Suc a" and j: "nat j = Suc b" using assms(1,3) by (simp_all add: a_def b_def)
  have ab: "a < nat n" "b < nat n" using i j assms(2,4) by linarith+
  have "nat n \<le> length r" using assms(5,6) Cons by (simp add: PQ_SIZE_def)
  have "take (nat n) (tl (exchanged i j q)) =
      (take (nat n) r)[a := take (nat n) r ! b, b := take (nat n) r ! a]"
    using ab by (simp add: exchanged_def Cons i j take_update_swap)
  moreover have "a < length (take (nat n) r)" "b < length (take (nat n) r)"
    using ab \<open>nat n \<le> length r\<close> by simp_all
  ultimately show ?thesis by (simp only: jobs_upto_def Cons list.sel mset_swap)
qed (use assms in \<open>simp add: PQ_SIZE_def\<close>)

lemma sift_up_heap:
  assumes "1 \<le> i" "i \<le> n" "n < PQ_SIZE" "length q = nat PQ_SIZE" "heap_up (prio_at q) n i"
  shows "\<exists>q'. sift_up i q = Inr q' \<and> length q' = nat PQ_SIZE \<and> heap_order (prio_at q') n \<and>
    jobs_upto q' n = jobs_upto q n"
  using assms
proof (induction "nat i" arbitrary: i q rule: less_induct)
  case less
  show ?case
  proof (cases "i > 1 \<and> prio_at q (i div 2) < prio_at q i")
    case True
    then have i: "2 \<le> i" "1 \<le> i div 2" "i div 2 \<le> n" "inside i" "inside (i div 2)"
      using less.prems(2,3) by (auto simp: inside_def)
    have "heap_up (swapped i (i div 2) (prio_at q)) n (i div 2)"
      using heap_up_step [OF less.prems(5) i(1) less.prems(2)] True by blast
    then have "heap_up (prio_at (exchanged i (i div 2) q)) n (i div 2)"
      unfolding heap_exchanged(1) [OF i(4,5) less.prems(4)] .
    moreover have "nat (i div 2) < nat i" using i by linarith
    ultimately obtain q' where q': "sift_up (i div 2) (exchanged i (i div 2) q) = Inr q'" "length q' = nat PQ_SIZE"
      "heap_order (prio_at q') n" "jobs_upto q' n = jobs_upto (exchanged i (i div 2) q) n"
      using less.hyps [of "i div 2" "exchanged i (i div 2) q"] i less.prems(3,4) by auto
    have "sift_up i q = Inr q'"
      unfolding sift_up.simps [of i q] using True i(4,5) q'(1)
      by (simp add: get_inside exchange_inside prio_at_def)
    then show ?thesis
      using q' jobs_exchanged [of i n "i div 2" q] less.prems i by simp
  next
    case False
    have "sift_up i q = Inr q"
    proof (cases "i > 1")
      case True
      then have "inside i" "inside (i div 2)" using less.prems(2,3) by (auto simp: inside_def)
      then show ?thesis using False True unfolding sift_up.simps [of i q] by (simp add: get_inside prio_at_def)
    qed (simp add: sift_up.simps [of i q])
    moreover have "heap_order (prio_at q) n" using heap_up_done [OF less.prems(5)] False by force
    ultimately show ?thesis using less.prems(4) by simp
  qed
qed

lemma larger_child_spec:
  assumes "1 \<le> i" "i \<le> n" "n < PQ_SIZE"
  shows "\<exists>t. larger_child n i q = Inr t \<and> (t = i \<or> (t = 2 * i \<or> t = 2 * i + 1) \<and> t \<le> n \<and> prio_at q i < prio_at q t) \<and>
    (\<forall>j. j div 2 = i \<and> 2 \<le> j \<and> j \<le> n \<longrightarrow> prio_at q j \<le> prio_at q t)"
proof -
  have ch: "j div 2 = i \<longleftrightarrow> j = 2 * i \<or> j = 2 * i + 1" for j by auto
  have ins: "inside i" "2 * i \<le> n \<Longrightarrow> inside (2 * i)" "2 * i + 1 \<le> n \<Longrightarrow> inside (2 * i + 1)"
    using assms by (auto simp: inside_def)
  consider "n < 2 * i" | "n = 2 * i" | "2 * i + 1 \<le> n" by linarith
  then show ?thesis
    unfolding larger_child_def ch
    by cases (use ins in \<open>auto simp: get_inside prio_at_def\<close>)
qed

lemma sift_down_heap:
  assumes "1 \<le> i" "i \<le> n" "n < PQ_SIZE" "length q = nat PQ_SIZE" "heap_down (prio_at q) n i"
  shows "\<exists>q'. sift_down (n + 1) n i q = Inr q' \<and> length q' = nat PQ_SIZE \<and> heap_order (prio_at q') n \<and>
    jobs_upto q' n = jobs_upto q n"
  using assms
proof (induction "nat (n - i)" arbitrary: i q rule: less_induct)
  case less
  obtain t where t: "larger_child n i q = Inr t"
    "t = i \<or> (t = 2 * i \<or> t = 2 * i + 1) \<and> t \<le> n \<and> prio_at q i < prio_at q t"
    "\<forall>j. j div 2 = i \<and> 2 \<le> j \<and> j \<le> n \<longrightarrow> prio_at q j \<le> prio_at q t"
    using larger_child_spec [OF less.prems(1-3)] by blast
  have step: "sift_down (n + 1) n i q = (if t = i then Inr q
      else bnd (exchange t i q) (\<lambda>q1. sift_down (n + 1) n t q1))"
    unfolding sift_down.simps [of "n + 1" n i q] using less.prems(2) t(1) by simp
  show ?case
  proof (cases "t = i")
    case True
    then show ?thesis using step t(3) heap_down_done [OF less.prems(5)] less.prems(4) by simp
  next
    case False
    then have i: "t = 2 * i \<or> t = 2 * i + 1" "t \<le> n" "prio_at q i < prio_at q t" using t(2) by blast+
    then have ins: "inside i" "inside t" "1 \<le> t" "nat (n - t) < nat (n - i)"
      using less.prems(1-3) by (auto simp: inside_def)
    have "heap_down (swapped t i (prio_at q)) n t"
      by (rule heap_down_step [OF less.prems(5,1) i(1,2) t(3) i(3)])
    then have "heap_down (prio_at (exchanged t i q)) n t"
      unfolding heap_exchanged(2) [OF ins(2,1) less.prems(4)] .
    then obtain q' where q': "sift_down (n + 1) n t (exchanged t i q) = Inr q'" "length q' = nat PQ_SIZE"
      "heap_order (prio_at q') n" "jobs_upto q' n = jobs_upto (exchanged t i q) n"
      using less.hyps [OF ins(4) ins(3) i(2) less.prems(3), of "exchanged t i q"] less.prems(4)
      unfolding length_exchanged by blast
    moreover have "sift_down (n + 1) n i q = Inr q'"
      using step False q'(1) ins(1,2) by (simp add: exchange_inside)
    ultimately show ?thesis
      using jobs_exchanged [of t n i q] less.prems ins(3) i(2) by simp
  qed
qed

subsection \<open>Insertion and removal\<close>

lemma jobs_upto_put:
  assumes "0 \<le> n" "n + 1 < PQ_SIZE" "length q = nat PQ_SIZE"
  shows "jobs_upto (q[nat (n + 1) := x]) (n + 1) = add_mset x (jobs_upto q n)"
proof (cases q)
  case (Cons z r)
  have n: "nat (n + 1) = Suc (nat n)" "nat n < length r" using assms Cons by (simp_all add: PQ_SIZE_def)
  then show ?thesis by (simp add: jobs_upto_def Cons take_Suc_conv_app_nth)
qed (use assms in \<open>simp add: PQ_SIZE_def\<close>)

lemma jobs_upto_last:
  assumes "2 \<le> n" "n < PQ_SIZE" "length q = nat PQ_SIZE"
  shows "jobs_upto q n = add_mset (q ! 1) (jobs_upto (q[1 := q ! nat n]) (n - 1))"
proof -
  obtain z a r where q: "q = z # a # r" using assms(3) by (cases q; cases "tl q") (auto simp: PQ_SIZE_def)
  define m where "m = nat (n - 2)"
  have m: "nat n = Suc (Suc m)" "nat (n - 1) = Suc m" "m < length r"
    using assms q by (simp_all add: m_def PQ_SIZE_def)
  then show ?thesis by (simp add: jobs_upto_def q take_Suc_conv_app_nth)
qed

lemma queued_size: "heap_ok sm \<Longrightarrow> int (size (queued sm)) = curr_size sm"
  by (auto simp: heap_ok_def queued_def jobs_upto_def PQ_SIZE_def min_def)

lemma insert_job_heap:
  assumes "heap_ok sm" "curr_size sm < PQ_SIZE - 1"
  shows "\<exists>sm'. insert_job j sm = Inr sm' \<and> heap_ok sm' \<and> queued sm' = add_mset j (queued sm) \<and>
    job_created sm' = job_created sm \<and> job_completed sm' = job_completed sm"
proof -
  let ?n = "curr_size sm" and ?q = "(priority_q sm)[nat (curr_size sm + 1) := j]"
  have ok: "0 \<le> ?n" "?n + 1 < PQ_SIZE" "length (priority_q sm) = nat PQ_SIZE" "heap_order (prio_at (priority_q sm)) ?n"
    using assms by (simp_all add: heap_ok_def)
  have ins: "inside (?n + 1)" using ok(1,2) by (simp add: inside_def)
  have jobs: "jobs_upto ?q (?n + 1) = add_mset j (queued sm)"
    unfolding queued_def by (rule jobs_upto_put [OF ok(1-3)])
  have P: "prio_at ?q k = prio_at (priority_q sm) k" if "1 \<le> k" "k \<noteq> ?n + 1" for k
    using prio_at_update [OF ins that(1) ok(3)] that(2) by simp
  have "heap_up (prio_at ?q) (?n + 1) (?n + 1)"
    unfolding heap_up_def
  proof (intro allI impI conjI)
    fix i assume i: "2 \<le> i \<and> i \<le> ?n + 1"
    show "prio_at ?q i \<le> prio_at ?q (i div 2)" if "i \<noteq> ?n + 1"
    proof -
      have "1 \<le> i div 2" "i div 2 \<noteq> ?n + 1" "1 \<le> i" using i by linarith+
      then have "prio_at ?q (i div 2) = prio_at (priority_q sm) (i div 2)" "prio_at ?q i = prio_at (priority_q sm) i"
        using P that by blast+
      then show ?thesis using ok(4) i that by (simp add: heap_order_def)
    qed
    assume "i div 2 = ?n + 1 \<and> 2 \<le> ?n + 1"
    then show "prio_at ?q i \<le> prio_at ?q ((?n + 1) div 2)" using i by linarith
  qed
  then obtain q' where q': "sift_up (?n + 1) ?q = Inr q'" "length q' = nat PQ_SIZE" "heap_order (prio_at q') (?n + 1)"
    "jobs_upto q' (?n + 1) = jobs_upto ?q (?n + 1)"
    using sift_up_heap [of "?n + 1" "?n + 1" ?q] ok by auto
  show ?thesis
  proof (cases "?n = 0")
    case True
    then have "insert_job j sm = Inr (sm\<lparr>curr_size := ?n + 1, priority_q := ?q\<rparr>)"
      using put_inside [OF ins] by (simp add: insert_job_def Let_def)
    moreover have "heap_order (prio_at ?q) (?n + 1)" using True by (simp add: heap_order_def)
    ultimately show ?thesis using ok jobs by (simp add: heap_ok_def queued_def)
  next
    case False
    then have "insert_job j sm = Inr (sm\<lparr>curr_size := ?n + 1, priority_q := q'\<rparr>)"
      using put_inside [OF ins] q'(1) by (simp add: insert_job_def Let_def)
    then show ?thesis using ok jobs q' by (simp add: heap_ok_def queued_def)
  qed
qed

lemma heap_root_max:
  assumes "heap_ok sm" "x \<in># queued sm"
  shows "priority x \<le> priority (priority_q sm ! 1)"
proof -
  obtain i where i: "i < nat (curr_size sm)" "i < length (tl (priority_q sm))" "x = tl (priority_q sm) ! i"
    using assms(2) by (auto simp: queued_def jobs_upto_def in_set_conv_nth)
  then have "priority x = prio_at (priority_q sm) (int i + 1)"
    by (simp add: prio_at_def nth_tl nat_add_distrib)
  also have "\<dots> \<le> prio_at (priority_q sm) 1"
    using assms(1) i(1) by (intro heap_order_max [of _ "curr_size sm"]) (auto simp: heap_ok_def)
  finally show ?thesis by (simp add: prio_at_def)
qed

lemma remove_job_heap:
  assumes "heap_ok sm" "0 < curr_size sm"
  shows "\<exists>j sm'. remove_job sm = Inr (j, sm') \<and> heap_ok sm' \<and> queued sm = add_mset j (queued sm') \<and>
    (\<forall>x \<in># queued sm. priority x \<le> priority j) \<and>
    job_created sm' = job_created sm \<and> job_completed sm' = job_completed sm"
proof -
  let ?n = "curr_size sm" and ?q = "priority_q sm"
  have ok: "?n < PQ_SIZE" "length ?q = nat PQ_SIZE" "heap_order (prio_at ?q) ?n"
    using assms by (simp_all add: heap_ok_def)
  have ins: "inside 1" "inside ?n" using assms(2) ok(1) by (simp_all add: inside_def PQ_SIZE_def)
  have mx: "\<forall>x \<in># queued sm. priority x \<le> priority (?q ! 1)" using heap_root_max [OF assms(1)] by blast
  show ?thesis
  proof (cases "?n = 1")
    case True
    obtain z a r where q: "?q = z # a # r" using ok(2) by (cases ?q; cases "tl ?q") (auto simp: PQ_SIZE_def)
    have "queued sm = {# ?q ! 1 #}" using True by (simp add: queued_def jobs_upto_def q)
    moreover have "remove_job sm = Inr (?q ! 1, sm\<lparr>curr_size := 0\<rparr>)"
      using True ins(1) by (simp add: remove_job_def get_inside)
    moreover have "heap_ok (sm\<lparr>curr_size := 0\<rparr>)" "queued (sm\<lparr>curr_size := 0\<rparr>) = {#}"
      using ok(2) by (simp_all add: heap_ok_def heap_order_def PQ_SIZE_def queued_def jobs_upto_def)
    ultimately show ?thesis using mx by simp
  next
    case False
    let ?r = "?q[1 := ?q ! nat ?n]"
    have n: "2 \<le> ?n" using False assms(2) by simp
    have P: "prio_at ?r k = prio_at ?q k" if "2 \<le> k" for k
      using prio_at_update [OF ins(1) _ ok(2), of k] that by simp
    have "heap_down (prio_at ?r) (?n - 1) 1"
      unfolding heap_down_def
    proof (intro allI impI conjI)
      fix j assume j: "2 \<le> j \<and> j \<le> ?n - 1"
      show "prio_at ?r j \<le> prio_at ?r (j div 2)" if "j div 2 \<noteq> 1"
      proof -
        have "2 \<le> j div 2" using j that by linarith
        then show ?thesis using P j ok(3) by (simp add: heap_order_def)
      qed
    qed simp
    then obtain q' where q': "sift_down (?n - 1 + 1) (?n - 1) 1 ?r = Inr q'" "length q' = nat PQ_SIZE"
      "heap_order (prio_at q') (?n - 1)" "jobs_upto q' (?n - 1) = jobs_upto ?r (?n - 1)"
      using sift_down_heap [of 1 "?n - 1" ?r] n ok(1,2) by auto
    then have "remove_job sm = Inr (?q ! 1, sm\<lparr>curr_size := ?n - 1, priority_q := q'\<rparr>)"
      using False ins by (simp add: remove_job_def get_inside put_inside Let_def)
    moreover have "queued sm = add_mset (?q ! 1) (jobs_upto ?r (?n - 1))"
      unfolding queued_def by (rule jobs_upto_last [OF n ok(1,2)])
    ultimately show ?thesis using mx q'(2-4) n ok(1) by (simp add: heap_ok_def queued_def)
  qed
qed

end
