(* ===== verification/Job_System.thy ===== *)
theory Job_System
  imports Job_Heap
begin

section \<open>Producers and consumers at work\<close>

text \<open>
  The contract of the job queue is the locale \<open>job_store\<close>; what follows for any number of producers and
  consumers, in any interleaving of their critical sections, is proved from it, and the heap of
  \<open>Job_Queue\<close> is an instance.
\<close>

record system =
  shm :: shared_memory
  producers :: "producer list"
  consumers :: "consumer list"
  created :: "job list"
  consumed :: "job list"

text \<open>\<open>created\<close> and \<open>consumed\<close> are histories: the jobs in the order in which they were created and removed.\<close>

definition started :: "producer \<Rightarrow> producer \<Rightarrow> job list" where
  "started old new = (case (old, new) of (Creating, Inserting j) \<Rightarrow> [j] | _ \<Rightarrow> [])"

inductive sys_step ::
  "(job \<Rightarrow> shared_memory \<Rightarrow> shared_memory result) \<Rightarrow> (shared_memory \<Rightarrow> (job \<times> shared_memory) result) \<Rightarrow> int \<Rightarrow>
   system \<Rightarrow> system \<Rightarrow> bool"
  for ins rem jobs
where
  produce: "i < length (producers s) \<Longrightarrow>
    producer_generate_job ins jobs new_job (producers s ! i) (shm s) = Inr (pc, sm) \<Longrightarrow>
    sys_step ins rem jobs s (s\<lparr>shm := sm, producers := (producers s)[i := pc],
      created := created s @ started (producers s ! i) pc\<rparr>)"
| consume: "i < length (consumers s) \<Longrightarrow>
    consumer_finish_job rem jobs (consumers s ! i) (shm s) = Inr (r, pc, sm) \<Longrightarrow>
    sys_step ins rem jobs s (s\<lparr>shm := sm, consumers := (consumers s)[i := pc],
      consumed := consumed s @ (case r of None \<Rightarrow> [] | Some j \<Rightarrow> [j])\<rparr>)"

definition start :: "shared_memory \<Rightarrow> nat \<Rightarrow> nat \<Rightarrow> system" where
  "start sm p c = \<lparr>shm = create_mem sm, producers = replicate p Creating, consumers = replicate c Consuming,
     created = [], consumed = []\<rparr>"

text \<open>The jobs that producers have created and not yet inserted.\<close>

definition held_by :: "producer \<Rightarrow> job multiset" where
  "held_by pc = (case pc of Inserting j \<Rightarrow> {#j#} | _ \<Rightarrow> {#})"

definition held :: "producer list \<Rightarrow> job multiset" where
  "held ps = sum_list (map held_by ps)"

text \<open>The number of consumers that compute.\<close>

definition busy :: "consumer \<Rightarrow> int" where
  "busy pc = (case pc of Computing t \<Rightarrow> 1 | _ \<Rightarrow> 0)"

definition working :: "consumer list \<Rightarrow> int" where
  "working cs = sum_list (map busy cs)"

definition potential :: "int \<Rightarrow> system \<Rightarrow> int" where
  "potential jobs s = 4 * (jobs - job_created (shm s)) + 3 * int (size (held (producers s))) +
     2 * curr_size (shm s) + working (consumers s)"

definition sys_inv :: "(shared_memory \<Rightarrow> bool) \<Rightarrow> (shared_memory \<Rightarrow> job multiset) \<Rightarrow> int \<Rightarrow> system \<Rightarrow> bool" where
  "sys_inv good jobs_in jobs s \<longleftrightarrow> good (shm s) \<and>
     job_created (shm s) = int (length (created s)) \<and> job_completed (shm s) = int (length (consumed s)) \<and>
     job_created (shm s) \<le> jobs \<and> working (consumers s) \<le> job_completed (shm s) \<and>
     mset (created s) = mset (consumed s) + jobs_in (shm s) + held (producers s) \<and>
     (Producer_done \<in> set (producers s) \<longrightarrow> job_created (shm s) = jobs) \<and>
     (Consumer_done \<in> set (consumers s) \<longrightarrow> job_completed (shm s) = jobs)"

lemma held_update:
  assumes "i < length ps"
  shows "held (ps[i := pc]) + held_by (ps ! i) = held ps + held_by pc"
  using assms
proof (induction ps arbitrary: i)
  case (Cons p ps)
  then show ?case by (cases i) (auto simp: held_def ac_simps)
qed simp

lemma held_none:
  assumes "\<forall>p \<in> set ps. \<forall>j. p \<noteq> Inserting j"
  shows "held ps = {#}"
  using assms by (induction ps) (auto simp: held_def held_by_def split: producer.splits)

lemma held_replicate [simp]: "held (replicate p Creating) = {#}"
  by (rule held_none) simp

lemma working_update:
  assumes "i < length cs"
  shows "working (cs[i := pc]) + busy (cs ! i) = working cs + busy pc"
  using assms
proof (induction cs arbitrary: i)
  case (Cons c cs)
  then show ?case by (cases i) (auto simp: working_def)
qed simp

lemma working_ge: "0 \<le> working cs" "working cs \<le> int (length cs)"
  by (induction cs) (auto simp: working_def busy_def split: consumer.splits)

lemma working_replicate [simp]: "working (replicate c Consuming) = 0"
  by (induction c) (auto simp: working_def busy_def)

locale job_store =
  fixes ins :: "job \<Rightarrow> shared_memory \<Rightarrow> shared_memory result"
    and rem :: "shared_memory \<Rightarrow> (job \<times> shared_memory) result"
    and good :: "shared_memory \<Rightarrow> bool" and jobs_in :: "shared_memory \<Rightarrow> job multiset"
  assumes store_size: "good sm \<Longrightarrow> int (size (jobs_in sm)) = curr_size sm"
    and store_insert: "good sm \<Longrightarrow> curr_size sm < PQ_SIZE - 1 \<Longrightarrow>
      \<exists>sm'. ins j sm = Inr sm' \<and> good sm' \<and> jobs_in sm' = add_mset j (jobs_in sm) \<and>
        job_created sm' = job_created sm \<and> job_completed sm' = job_completed sm"
    and store_remove: "good sm \<Longrightarrow> 0 < curr_size sm \<Longrightarrow>
      \<exists>j sm'. rem sm = Inr (j, sm') \<and> good sm' \<and> jobs_in sm = add_mset j (jobs_in sm') \<and>
        (\<forall>x \<in># jobs_in sm. priority x \<le> priority j) \<and>
        job_created sm' = job_created sm \<and> job_completed sm' = job_completed sm"
    and store_counters: "good (sm\<lparr>job_created := a\<rparr>) = good sm" "good (sm\<lparr>job_completed := a\<rparr>) = good sm"
      "jobs_in (sm\<lparr>job_created := a\<rparr>) = jobs_in sm" "jobs_in (sm\<lparr>job_completed := a\<rparr>) = jobs_in sm"
begin

lemma produce_inv:
  assumes "sys_inv good jobs_in jobs s" "i < length (producers s)"
  shows "\<exists>pc sm. producer_generate_job ins jobs new_job (producers s ! i) (shm s) = Inr (pc, sm) \<and>
    (let s' = s\<lparr>shm := sm, producers := (producers s)[i := pc], created := created s @ started (producers s ! i) pc\<rparr> in
     sys_inv good jobs_in jobs s' \<and> potential jobs s' \<le> potential jobs s \<and>
     (producers s ! i = Creating \<longrightarrow> job_created (shm s) < jobs \<longrightarrow>
       curr_size (shm s) < PQ_SIZE - 1 \<longrightarrow> potential jobs s' < potential jobs s) \<and>
     (\<forall>j. producers s ! i = Inserting j \<longrightarrow>
       curr_size (shm s) < PQ_SIZE - 1 \<longrightarrow> potential jobs s' < potential jobs s))"
proof -
  note inv = assms(1) [unfolded sys_inv_def]
  let ?p = "producers s ! i" and ?sm = "shm s"
  have mem: "?p \<in> set (producers s)" using assms(2) by simp
  have upd: "held ((producers s)[i := pc]) + held_by ?p = held (producers s) + held_by pc" for pc
    by (rule held_update [OF assms(2)])
  have sz: "int (size (held ((producers s)[i := pc]))) + int (size (held_by ?p)) =
      int (size (held (producers s))) + int (size (held_by pc))" for pc
    using arg_cong [OF upd, of size] by (simp flip: of_nat_add)
  have keep: "?p = pc \<Longrightarrow> (producers s)[i := pc] = producers s" for pc by auto
  have done_: "Producer_done \<in> set ((producers s)[i := pc]) \<Longrightarrow> pc = Producer_done \<or> Producer_done \<in> set (producers s)" for pc
    using set_update_subset_insert by fast
  consider "?p = Producer_done" | "?p = Creating" "job_created ?sm \<ge> jobs" | "?p = Creating" "job_created ?sm < jobs" "curr_size ?sm < PQ_SIZE - 1"
    | "?p = Creating" "job_created ?sm < jobs" "\<not> curr_size ?sm < PQ_SIZE - 1" | j where "?p = Inserting j" "curr_size ?sm < PQ_SIZE - 1"
    | j where "?p = Inserting j" "\<not> curr_size ?sm < PQ_SIZE - 1" by (cases ?p) force+
  then show ?thesis
  proof cases
    case 1
    then show ?thesis using inv
      by (simp add: keep [OF 1] producer_generate_job_def started_def held_by_def sys_inv_def potential_def) auto
  next
    case 2
    then show ?thesis using inv upd [of Producer_done] sz [of Producer_done]
      by (simp add: producer_generate_job_def started_def held_by_def sys_inv_def potential_def) auto
  next
    case 3
    then show ?thesis using inv upd [of "Inserting new_job"] sz [of "Inserting new_job"] done_ [of "Inserting new_job"]
      by (simp add: producer_generate_job_def started_def held_by_def sys_inv_def potential_def store_counters) auto
  next
    case 4
    then show ?thesis using inv
      by (simp add: keep [OF 4(1)] producer_generate_job_def started_def sys_inv_def potential_def) auto
  next
    case (5 j)
    have "good ?sm" using inv by blast
    then obtain sm where sm: "ins j ?sm = Inr sm" "good sm" "jobs_in sm = add_mset j (jobs_in ?sm)"
      "job_created sm = job_created ?sm" "job_completed sm = job_completed ?sm"
      using store_insert [of ?sm j] 5(2) by blast
    have "curr_size sm = curr_size ?sm + 1"
      using store_size [OF sm(2)] store_size [OF \<open>good ?sm\<close>] sm(3) by simp
    then show ?thesis using inv upd [of Creating] sz [of Creating] done_ [of Creating] 5 sm
      by (simp add: producer_generate_job_def started_def held_by_def sys_inv_def potential_def) auto
  next
    case (6 j)
    then show ?thesis using inv
      by (simp add: keep [OF 6(1)] producer_generate_job_def started_def sys_inv_def potential_def) auto
  qed
qed

lemma counts:
  assumes "sys_inv good jobs_in jobs s"
  shows "job_created (shm s) = job_completed (shm s) + curr_size (shm s) + int (size (held (producers s)))"
    "0 \<le> job_completed (shm s)" "0 \<le> curr_size (shm s)"
proof -
  have g: "good (shm s)" "mset (created s) = mset (consumed s) + jobs_in (shm s) + held (producers s)"
    "job_created (shm s) = int (length (created s))" "job_completed (shm s) = int (length (consumed s))"
    using assms by (simp_all add: sys_inv_def)
  have "length (created s) = length (consumed s) + size (jobs_in (shm s)) + size (held (producers s))"
    using arg_cong [OF g(2), of size] by simp
  then show "job_created (shm s) = job_completed (shm s) + curr_size (shm s) + int (size (held (producers s)))"
    using g(3,4) store_size [OF g(1)] by simp
  show "0 \<le> job_completed (shm s)" "0 \<le> curr_size (shm s)" using g(4) store_size [OF g(1)] by simp_all
qed

lemma consume_inv:
  assumes "sys_inv good jobs_in jobs s" "i < length (consumers s)"
  shows "\<exists>r pc sm. consumer_finish_job rem jobs (consumers s ! i) (shm s) = Inr (r, pc, sm) \<and>
    (let s' = s\<lparr>shm := sm, consumers := (consumers s)[i := pc],
                consumed := consumed s @ (case r of None \<Rightarrow> [] | Some j \<Rightarrow> [j])\<rparr> in
     sys_inv good jobs_in jobs s' \<and> potential jobs s' \<le> potential jobs s \<and>
     (consumers s ! i = Consuming \<longrightarrow> job_completed (shm s) < jobs \<longrightarrow> 0 < curr_size (shm s) \<longrightarrow>
       potential jobs s' < potential jobs s) \<and>
     (\<forall>t. consumers s ! i = Computing t \<longrightarrow> potential jobs s' < potential jobs s))"
proof -
  note inv = assms(1) [unfolded sys_inv_def]
  let ?p = "consumers s ! i" and ?sm = "shm s"
  have upd: "working ((consumers s)[i := pc]) = working (consumers s) + busy pc - busy ?p" for pc
    using working_update [OF assms(2), of pc] by simp
  have mem: "?p \<in> set (consumers s)" using assms(2) by simp
  have keep: "?p = pc \<Longrightarrow> (consumers s)[i := pc] = consumers s" for pc by auto
  have done_: "Consumer_done \<in> set ((consumers s)[i := pc]) \<Longrightarrow> pc = Consumer_done \<or> Consumer_done \<in> set (consumers s)" for pc
    using set_update_subset_insert by fast
  have good: "good ?sm" using inv by blast
  have le: "job_completed ?sm \<le> jobs"
    using counts [OF assms(1)] inv by linarith
  consider "?p = Consumer_done" | "?p = Consuming" "job_completed ?sm \<ge> jobs"
    | "?p = Consuming" "job_completed ?sm < jobs" "0 < curr_size ?sm"
    | "?p = Consuming" "job_completed ?sm < jobs" "\<not> 0 < curr_size ?sm"
    | t where "?p = Computing t" by (cases ?p) force+
  then show ?thesis
  proof cases
    case 1
    then show ?thesis using inv
      by (simp add: keep [OF 1] consumer_finish_job_def sys_inv_def potential_def) auto
  next
    case 2
    then have "job_completed ?sm = jobs" using le by simp
    then show ?thesis using 2 inv
      by (simp add: upd consumer_finish_job_def sys_inv_def potential_def busy_def) auto
  next
    case 3
    then obtain j sm where sm: "rem ?sm = Inr (j, sm)" "good sm" "jobs_in ?sm = add_mset j (jobs_in sm)"
      "job_created sm = job_created ?sm" "job_completed sm = job_completed ?sm"
      using store_remove [OF good] by blast
    have sz: "curr_size ?sm = curr_size sm + 1"
      using store_size [OF sm(2)] store_size [OF good] sm(3) by simp
    have "Consumer_done \<notin> set ((consumers s)[i := Computing (comp_time j)])"
      using done_ [of "Computing (comp_time j)"] inv 3(2) by auto
    moreover have "curr_size (sm\<lparr>job_completed := a\<rparr>) = curr_size sm" for a by simp
    ultimately show ?thesis using inv 3 sm sz
      by (simp add: upd busy_def consumer_finish_job_def sys_inv_def potential_def store_counters) auto
  next
    case 4
    then show ?thesis using inv
      by (simp add: keep [OF 4(1)] consumer_finish_job_def sys_inv_def potential_def) auto
  next
    case (5 t)
    have "Consumer_done \<in> set ((consumers s)[i := Consuming]) \<longrightarrow> Consumer_done \<in> set (consumers s)"
      using done_ [of Consuming] by auto
    then show ?thesis using 5 inv
      by (simp add: upd busy_def consumer_finish_job_def sys_inv_def potential_def) auto
  qed
qed

lemma step_inv:
  assumes "sys_step ins rem jobs s s'" "sys_inv good jobs_in jobs s"
  shows "sys_inv good jobs_in jobs s' \<and> potential jobs s' \<le> potential jobs s \<and>
    length (producers s') = length (producers s) \<and> length (consumers s') = length (consumers s)"
  using assms(1)
proof cases
  case (produce i new_job pc sm)
  then show ?thesis using produce_inv [OF assms(2) produce(2), of new_job] by (simp add: Let_def)
next
  case (consume i r pc sm)
  then show ?thesis using consume_inv [OF assms(2) consume(2)] by (simp add: Let_def)
qed

lemma start_inv:
  assumes "good (create_mem sm)" "0 \<le> jobs"
  shows "sys_inv good jobs_in jobs (start sm p c)"
proof -
  have "jobs_in (create_mem sm) = {#}" using store_size [OF assms(1)] by (simp add: create_mem_def)
  then show ?thesis
    using assms by (simp add: sys_inv_def start_def) (simp add: create_mem_def)
qed

lemma reachable_inv:
  assumes "(sys_step ins rem jobs)\<^sup>*\<^sup>* (start sm p c) s" "good (create_mem sm)" "0 \<le> jobs"
  shows "sys_inv good jobs_in jobs s \<and> length (producers s) = p \<and> length (consumers s) = c"
  using assms(1)
proof induction
  case base
  then show ?case using start_inv [OF assms(2,3)] by (simp add: start_def)
next
  case (step s s')
  then show ?case using step_inv by fastforce
qed

lemma progress:
  assumes "sys_inv good jobs_in jobs s" "producers s \<noteq> []" "consumers s \<noteq> []" "\<not> parent_check jobs (shm s)"
  shows "\<exists>s'. sys_step ins rem jobs s s' \<and> potential jobs s' < potential jobs s"
proof -
  note inv = assms(1) [unfolded sys_inv_def]
  have unfinished: "job_completed (shm s) < jobs"
    using counts [OF assms(1)] inv assms(4) by (auto simp: parent_check_def)
  have eat: "\<exists>s'. sys_step ins rem jobs s s' \<and> potential jobs s' < potential jobs s" if "0 < curr_size (shm s)"
  proof -
    have i: "0 < length (consumers s)" using assms(3) by simp
    have "consumers s ! 0 \<noteq> Consumer_done" using inv unfinished i nth_mem by fastforce
    then consider "consumers s ! 0 = Consuming" | t where "consumers s ! 0 = Computing t"
      by (cases "consumers s ! 0") auto
    then show ?thesis
      using consume_inv [OF assms(1) i] unfinished that sys_step.consume [OF i] by cases (fastforce simp: Let_def)+
  qed
  show ?thesis
  proof (cases "0 < curr_size (shm s)")
    case True
    then show ?thesis by (rule eat)
  next
    case False
    then have free: "curr_size (shm s) < PQ_SIZE - 1" by (simp add: PQ_SIZE_def)
    show ?thesis
    proof (cases "\<exists>i j. i < length (producers s) \<and> producers s ! i = Inserting j")
      case True
      then obtain i j where i: "i < length (producers s)" "producers s ! i = Inserting j" by blast
      then show ?thesis
        using produce_inv [OF assms(1) i(1)] free sys_step.produce [OF i(1)] by (fastforce simp: Let_def)
    next
      case False
      then have "held (producers s) = {#}" by (intro held_none) (metis in_set_conv_nth)
      then have lt: "job_created (shm s) < jobs"
        using counts [OF assms(1)] \<open>\<not> 0 < curr_size (shm s)\<close> unfinished by simp
      have i: "0 < length (producers s)" using assms(2) by simp
      have "producers s ! 0 \<noteq> Producer_done" using inv lt i nth_mem by fastforce
      then have "producers s ! 0 = Creating" using False i by (cases "producers s ! 0") auto
      then show ?thesis
        using produce_inv [OF assms(1) i] lt free sys_step.produce [OF i] by (fastforce simp: Let_def)
    qed
  qed
qed

lemma finished:
  assumes "sys_inv good jobs_in jobs s" "parent_check jobs (shm s)"
  shows "curr_size (shm s) = 0" "held (producers s) = {#}" "mset (consumed s) = mset (created s)"
    "int (length (consumed s)) = jobs"
proof -
  have "curr_size (shm s) = 0 \<and> int (size (held (producers s))) = 0"
    using counts [OF assms(1)] assms(2) unfolding parent_check_def by linarith
  then show e: "curr_size (shm s) = 0" "held (producers s) = {#}" by simp_all
  have "jobs_in (shm s) = {#}" using store_size [of "shm s"] e(1) assms(1) by (simp add: sys_inv_def)
  then show "mset (consumed s) = mset (created s)" using assms(1) e(2) by (simp add: sys_inv_def)
  show "int (length (consumed s)) = jobs" using assms by (simp add: sys_inv_def parent_check_def)
qed

end

subsection \<open>The heap as job store\<close>

interpretation heap: job_store insert_job remove_job heap_ok queued
proof unfold_locales
  fix sm :: shared_memory and j :: job and a
  show "heap_ok sm \<Longrightarrow> int (size (queued sm)) = curr_size sm" by (rule queued_size)
  show "heap_ok sm \<Longrightarrow> curr_size sm < PQ_SIZE - 1 \<Longrightarrow>
      \<exists>sm'. insert_job j sm = Inr sm' \<and> heap_ok sm' \<and> queued sm' = add_mset j (queued sm) \<and>
        job_created sm' = job_created sm \<and> job_completed sm' = job_completed sm"
    by (rule insert_job_heap)
  show "heap_ok sm \<Longrightarrow> 0 < curr_size sm \<Longrightarrow>
      \<exists>j sm'. remove_job sm = Inr (j, sm') \<and> heap_ok sm' \<and> queued sm = add_mset j (queued sm') \<and>
        (\<forall>x \<in># queued sm. priority x \<le> priority j) \<and>
        job_created sm' = job_created sm \<and> job_completed sm' = job_completed sm"
    by (rule remove_job_heap)
qed (simp_all add: heap_ok_def queued_def)

lemma heap_ok_create: "length (priority_q sm) = nat PQ_SIZE \<Longrightarrow> heap_ok (create_mem sm)"
  by (simp add: heap_ok_def create_mem_def heap_order_def PQ_SIZE_def)

lemma work_left:
  fixes h q d c w n :: int
  assumes "c = d + q + h" "c \<le> n" "0 \<le> d" "0 \<le> q" "0 \<le> h" "0 \<le> w" "w \<le> d"
  shows "0 \<le> 4 * (n - c) + 3 * h + 2 * q + w" "4 * (n - c) + 3 * h + 2 * q + w \<le> 4 * n"
proof -
  have "0 \<le> 4 * (n - c)" using assms(2) by simp
  then show "0 \<le> 4 * (n - c) + 3 * h + 2 * q + w" using assms(4-6) by linarith
  show "4 * (n - c) + 3 * h + 2 * q + w \<le> 4 * n" using assms(1,3-7) by (simp add: algebra_simps)
qed

text \<open>
  C13: The array is a bounded priority queue. On a heap, inserting a job while there is room and removing
  one while there is any succeed without leaving the array, keep the heap order, and act on the
  multiset of queued jobs as they should: insertion adds the job, removal takes out one whose priority
  is highest, and the loops of both end.
\<close>
theorem heap_refines_priority_queue:
  assumes "heap_ok sm"
  shows "(curr_size sm < PQ_SIZE - 1 \<longrightarrow>
      (\<exists>sm'. insert_job j sm = Inr sm' \<and> heap_ok sm' \<and> queued sm' = add_mset j (queued sm))) \<and>
    (0 < curr_size sm \<longrightarrow>
      (\<exists>x sm'. remove_job sm = Inr (x, sm') \<and> heap_ok sm' \<and> queued sm = add_mset x (queued sm') \<and>
        (\<forall>y \<in># queued sm. priority y \<le> priority x)))"
  using heap.store_insert [OF assms, of j] heap.store_remove [OF assms] by blast

text \<open>
  C7: No job is lost, invented or handled twice. With any number of producers and consumers, in every
  state that any interleaving of their critical sections can reach: the queue is a heap of at most
  seven jobs, every created job has been consumed, is queued or is held by exactly one producer, at
  most the requested number has been created, and every critical section anybody could enter next
  runs without error. When the parent sees the counters complete and ends everybody, exactly the
  requested jobs have been created and all of them consumed.
\<close>
theorem jobs_conserved:
  assumes "length (priority_q sm) = nat PQ_SIZE" "0 \<le> jobs"
    "(sys_step insert_job remove_job jobs)\<^sup>*\<^sup>* (start sm p c) s"
  shows "heap_ok (shm s) \<and> int (length (created s)) = job_created (shm s) \<and> job_created (shm s) \<le> jobs \<and>
    mset (created s) = mset (consumed s) + queued (shm s) + held (producers s) \<and>
    (\<forall>i < p. \<forall>j. ok (producer_generate_job insert_job jobs j (producers s ! i) (shm s))) \<and>
    (\<forall>i < c. ok (consumer_finish_job remove_job jobs (consumers s ! i) (shm s))) \<and>
    (parent_check jobs (shm s) \<longrightarrow>
      mset (consumed s) = mset (created s) \<and> int (length (consumed s)) = jobs)"
proof -
  have r: "sys_inv heap_ok queued jobs s" "length (producers s) = p" "length (consumers s) = c"
    using heap.reachable_inv [OF assms(3) heap_ok_create [OF assms(1)] assms(2)] by blast+
  have "ok (producer_generate_job insert_job jobs j (producers s ! i) (shm s))" if "i < p" for i j
    using heap.produce_inv [OF r(1), of i j] that r(2) by (auto simp: ok_iff)
  moreover have "ok (consumer_finish_job remove_job jobs (consumers s ! i) (shm s))" if "i < c" for i
    using heap.consume_inv [OF r(1), of i] that r(3) by (auto simp: ok_iff)
  ultimately show ?thesis
    using r(1) heap.finished [OF r(1)] by (simp add: sys_inv_def)
qed

text \<open>
  C14: The work gets done. With at least one producer and one consumer, in every reachable state either
  the parent sees the counters complete or some process can enter a critical section that lowers
  the work left (four units for a job not created, three for one held by a producer, two for one
  queued, one for one that a consumer computes); no critical section raises it, and it is never
  negative. So there is no deadlock, and at most four productive steps for each requested job.
\<close>
theorem jobs_finish:
  assumes "length (priority_q sm) = nat PQ_SIZE" "0 \<le> jobs" "0 < p" "0 < c"
    "(sys_step insert_job remove_job jobs)\<^sup>*\<^sup>* (start sm p c) s"
  shows "0 \<le> potential jobs s \<and> potential jobs s \<le> 4 * jobs \<and>
    (\<forall>s'. sys_step insert_job remove_job jobs s s' \<longrightarrow> potential jobs s' \<le> potential jobs s) \<and>
    (parent_check jobs (shm s) \<or>
      (\<exists>s'. sys_step insert_job remove_job jobs s s' \<and> potential jobs s' < potential jobs s))"
proof -
  have r: "sys_inv heap_ok queued jobs s" "length (producers s) = p" "length (consumers s) = c"
    using heap.reachable_inv [OF assms(5) heap_ok_create [OF assms(1)] assms(2)] by blast+
  have "job_created (shm s) \<le> jobs" "working (consumers s) \<le> job_completed (shm s)"
    using r(1) by (simp_all add: sys_inv_def)
  then have "0 \<le> potential jobs s" "potential jobs s \<le> 4 * jobs"
    using work_left [OF heap.counts(1) [OF r(1)] _ heap.counts(2,3) [OF r(1)] _ working_ge(1)]
    by (simp_all add: potential_def)
  moreover have "producers s \<noteq> []" "consumers s \<noteq> []" using r(2,3) assms(3,4) by auto
  ultimately show ?thesis using heap.step_inv [OF _ r(1)] heap.progress [OF r(1)] by blast
qed

subsection \<open>Examples\<close>

definition sample_job :: "int \<Rightarrow> job" where
  "sample_job p = \<lparr>proc_id = 7, prod_num = 1, priority = p, comp_time = 2, job_id = p\<rparr>"

lemma comp_time_sample [simp]: "comp_time (sample_job p) = 2"
  by (simp add: sample_job_def)

definition sample_memory :: shared_memory where
  "sample_memory = \<lparr>priority_q = replicate 8 (sample_job 0), job_created = 5, job_completed = 5, curr_size = 5\<rparr>"

theorem heap_refines_priority_queue_witness:
  "\<exists>sm'. insert_job (sample_job 3) (create_mem sample_memory) = Inr sm' \<and> queued sm' = {#sample_job 3#}"
proof -
  have h: "heap_ok (create_mem sample_memory)"
    by (rule heap_ok_create) (simp add: sample_memory_def PQ_SIZE_def)
  show ?thesis
    using heap_refines_priority_queue [OF h, of "sample_job 3"]
    by (auto simp: create_mem_def PQ_SIZE_def queued_def jobs_upto_def)
qed

text \<open>One producer creates a job, inserts it, and a consumer takes it.\<close>

definition sample_finished :: system where
  "sample_finished = \<lparr>shm = \<lparr>priority_q = (replicate 8 (sample_job 0))[1 := sample_job 3], job_created = 1,
     job_completed = 1, curr_size = 0\<rparr>, producers = [Creating], consumers = [Computing 2],
     created = [sample_job 3], consumed = [sample_job 3]\<rparr>"

lemma sample_run: "(sys_step insert_job remove_job 1)\<^sup>*\<^sup>* (start sample_memory 1 1) sample_finished"
proof -
  let ?s0 = "start sample_memory 1 1"
  define s1 where "s1 = ?s0\<lparr>shm := (shm ?s0)\<lparr>job_created := 1\<rparr>, producers := [Inserting (sample_job 3)], created := [sample_job 3]\<rparr>"
  define s2 where "s2 = s1\<lparr>shm := \<lparr>priority_q = (replicate 8 (sample_job 0))[1 := sample_job 3], job_created = 1,
     job_completed = 0, curr_size = 1\<rparr>, producers := [Creating]\<rparr>"
  have "sys_step insert_job remove_job 1 ?s0 s1"
    using sys_step.produce [of 0 ?s0 insert_job 1 "sample_job 3" "Inserting (sample_job 3)" "(shm ?s0)\<lparr>job_created := 1\<rparr>" remove_job]
    by (simp add: s1_def start_def create_mem_def producer_generate_job_def started_def PQ_SIZE_def)
  moreover have "sys_step insert_job remove_job 1 s1 s2"
    using sys_step.produce [of 0 s1 insert_job 1 "sample_job 3" Creating "shm s2" remove_job]
    by (simp add: s1_def s2_def start_def create_mem_def producer_generate_job_def started_def PQ_SIZE_def
        insert_job_def put_def sample_memory_def Let_def)
  moreover have "sys_step insert_job remove_job 1 s2 sample_finished"
    using sys_step.consume [of 0 s2 remove_job 1 "Some (sample_job 3)" "Computing 2" "shm sample_finished" insert_job]
    by (simp add: s1_def s2_def start_def create_mem_def consumer_finish_job_def PQ_SIZE_def
        remove_job_def get_def sample_memory_def sample_finished_def Let_def)
  ultimately show ?thesis by (meson rtranclp.rtrancl_refl rtranclp.rtrancl_into_rtrancl)
qed

lemma sample_memory_length: "length (priority_q sample_memory) = nat PQ_SIZE"
  by (simp add: sample_memory_def PQ_SIZE_def)

theorem jobs_conserved_witness:
  "mset (consumed sample_finished) = mset (created sample_finished) \<and> int (length (consumed sample_finished)) = 1"
  using jobs_conserved [OF sample_memory_length _ sample_run]
  by (simp add: parent_check_def sample_finished_def)

theorem jobs_finish_witness:
  "0 \<le> potential 1 (start sample_memory 1 1) \<and>
   (\<exists>s'. sys_step insert_job remove_job 1 (start sample_memory 1 1) s' \<and>
      potential 1 s' < potential 1 (start sample_memory 1 1))"
  using jobs_finish [OF sample_memory_length, of 1 1 1 "start sample_memory 1 1"]
  by (simp add: parent_check_def start_def create_mem_def)

end
