(* ===== verification/Job_Main.thy ===== *)
theory Job_Main
  imports Job_System
begin

section \<open>The parent of the producers and consumers (Assignment 5)\<close>

text \<open>
  The function \<^verbatim>\<open>main\<close> of \<^verbatim>\<open>..._process.cpp\<close>: it sets up the shared memory, forks the producers and the
  consumers, polls the counters and ends its children. Its children are running all that time, so a
  run interleaves the steps of the parent with the critical sections of the children that exist and
  have not been killed. \<open>fork_pid\<close> is what \<^verbatim>\<open>fork\<close> returns to the parent if it forks in this step: negative if
  it fails, else the number of a new process, which is also what \<^verbatim>\<open>getpid\<close> gives the child. \<open>shmid\<close> is
  the result of \<^verbatim>\<open>shmget\<close>. A child that gets the signal makes no further step; \<^verbatim>\<open>waitpid\<close> with
  \<^verbatim>\<open>WNOHANG\<close> has no effect on the rest. The clock is left out.
\<close>

datatype parent = Fork_producer int | Fork_consumer int | Polling
  | Killing_producers nat | Killing_consumers nat | Exited int

record run =
  sys :: system
  parent :: parent
  prod_pid :: "int list"
  cons_pid :: "int list"
  killed :: "int list"

definition main_init :: "int \<Rightarrow> shared_memory \<Rightarrow> run" where
  "main_init shmid sm =
     \<lparr>sys = start sm 0 0, parent = (if shmid < 0 then Exited 1 else Fork_producer 1),
      prod_pid = [], cons_pid = [], killed = []\<rparr>"

text \<open>One round of each loop of \<^verbatim>\<open>main\<close>.\<close>

definition fork_producer :: "int \<Rightarrow> int \<Rightarrow> int \<Rightarrow> run \<Rightarrow> run" where
  "fork_producer prods i fork_pid r =
     (if i \<le> prods then
        if fork_pid < 0 then r\<lparr>parent := Exited 1\<rparr>
        else r\<lparr>sys := (sys r)\<lparr>producers := producers (sys r) @ [Creating]\<rparr>,
               prod_pid := prod_pid r @ [fork_pid], parent := Fork_producer (i + 1)\<rparr>
      else r\<lparr>parent := Fork_consumer 1\<rparr>)"

definition fork_consumer :: "int \<Rightarrow> int \<Rightarrow> int \<Rightarrow> run \<Rightarrow> run" where
  "fork_consumer cons i fork_pid r =
     (if i \<le> cons then
        if fork_pid < 0 then r\<lparr>parent := Exited 1\<rparr>
        else r\<lparr>sys := (sys r)\<lparr>consumers := consumers (sys r) @ [Consuming]\<rparr>,
               cons_pid := cons_pid r @ [fork_pid], parent := Fork_consumer (i + 1)\<rparr>
      else r\<lparr>parent := Polling\<rparr>)"

definition poll :: "int \<Rightarrow> run \<Rightarrow> run" where
  "poll jobs r = (if parent_check jobs (shm (sys r)) then r\<lparr>parent := Killing_producers 0\<rparr> else r)"

definition kill_producer :: "nat \<Rightarrow> run \<Rightarrow> run" where
  "kill_producer i r =
     (if i < length (prod_pid r)
      then r\<lparr>killed := killed r @ [prod_pid r ! i], parent := Killing_producers (i + 1)\<rparr>
      else r\<lparr>parent := Killing_consumers 0\<rparr>)"

definition kill_consumer :: "nat \<Rightarrow> run \<Rightarrow> run" where
  "kill_consumer i r =
     (if i < length (cons_pid r)
      then r\<lparr>killed := killed r @ [cons_pid r ! i], parent := Killing_consumers (i + 1)\<rparr>
      else r\<lparr>parent := Exited 0\<rparr>)"

definition main_next :: "int \<Rightarrow> int \<Rightarrow> int \<Rightarrow> int \<Rightarrow> run \<Rightarrow> run" where
  "main_next prods cons jobs fork_pid r =
     (case parent r of
        Fork_producer i \<Rightarrow> fork_producer prods i fork_pid r
      | Fork_consumer i \<Rightarrow> fork_consumer cons i fork_pid r
      | Polling \<Rightarrow> poll jobs r
      | Killing_producers i \<Rightarrow> kill_producer i r
      | Killing_consumers i \<Rightarrow> kill_consumer i r
      | Exited st \<Rightarrow> r)"

text \<open>The random numbers of \<open>create_job\<close> are in the ranges of its three distributions.\<close>

definition drawn :: "int \<Rightarrow> int \<Rightarrow> int \<Rightarrow> bool" where
  "drawn distrib1 distrib2 distrib3 \<longleftrightarrow>
     distrib1 \<in> {1..100000} \<and> distrib2 \<in> {1..10} \<and> distrib3 \<in> {1..4}"

inductive main_step :: "int \<Rightarrow> int \<Rightarrow> int \<Rightarrow> run \<Rightarrow> run \<Rightarrow> bool"
  for prods cons jobs
where
  parent: "fork_pid < 0 \<or> 0 < fork_pid \<and> fork_pid \<notin> set (prod_pid r) \<union> set (cons_pid r) \<Longrightarrow>
    main_step prods cons jobs r (main_next prods cons jobs fork_pid r)"
| produce: "i < length (producers (sys r)) \<Longrightarrow> prod_pid r ! i \<notin> set (killed r) \<Longrightarrow>
    drawn d1 d2 d3 \<Longrightarrow>
    producer_generate_job insert_job jobs (create_job (prod_pid r ! i) (int i + 1) d1 d2 d3)
      (producers (sys r) ! i) (shm (sys r)) = Inr (pc, sm) \<Longrightarrow>
    main_step prods cons jobs r (r\<lparr>sys := (sys r)\<lparr>shm := sm, producers := (producers (sys r))[i := pc],
      created := created (sys r) @ started (producers (sys r) ! i) pc\<rparr>\<rparr>)"
| consume: "i < length (consumers (sys r)) \<Longrightarrow> cons_pid r ! i \<notin> set (killed r) \<Longrightarrow>
    consumer_finish_job remove_job jobs (consumers (sys r) ! i) (shm (sys r)) = Inr (x, pc, sm) \<Longrightarrow>
    main_step prods cons jobs r (r\<lparr>sys := (sys r)\<lparr>shm := sm, consumers := (consumers (sys r))[i := pc],
      consumed := consumed (sys r) @ (case x of None \<Rightarrow> [] | Some j \<Rightarrow> [j])\<rparr>\<rparr>)"

subsection \<open>The invariant\<close>

text \<open>What \<open>create_job\<close> makes for one of the children \<open>pids\<close>.\<close>

definition job_ok :: "int list \<Rightarrow> job \<Rightarrow> bool" where
  "job_ok pids j \<longleftrightarrow> prod_num j \<in> {1..int (length pids)} \<and> proc_id j = pids ! nat (prod_num j - 1) \<and>
     job_id j \<in> {1..100000} \<and> priority j \<in> {1..10} \<and> comp_time j \<in> {1..4}"

definition phase_ok :: "int \<Rightarrow> int \<Rightarrow> int \<Rightarrow> run \<Rightarrow> bool" where
  "phase_ok prods cons jobs r =
     (let p = length (prod_pid r); c = length (cons_pid r) in
      case parent r of
        Fork_producer i \<Rightarrow> i = int p + 1 \<and> p \<le> nat prods \<and> c = 0 \<and> killed r = []
      | Fork_consumer i \<Rightarrow> p = nat prods \<and> i = int c + 1 \<and> c \<le> nat cons \<and> killed r = []
      | Polling \<Rightarrow> p = nat prods \<and> c = nat cons \<and> killed r = []
      | Killing_producers n \<Rightarrow> p = nat prods \<and> c = nat cons \<and> parent_check jobs (shm (sys r)) \<and>
          n \<le> p \<and> killed r = take n (prod_pid r)
      | Killing_consumers n \<Rightarrow> p = nat prods \<and> c = nat cons \<and> parent_check jobs (shm (sys r)) \<and>
          n \<le> c \<and> killed r = prod_pid r @ take n (cons_pid r)
      | Exited st \<Rightarrow> if st = 0 then p = nat prods \<and> c = nat cons \<and> parent_check jobs (shm (sys r)) \<and>
            killed r = prod_pid r @ cons_pid r
          else st = 1 \<and> killed r = [] \<and> p \<le> nat prods \<and> c \<le> nat cons)"

definition main_inv :: "int \<Rightarrow> int \<Rightarrow> int \<Rightarrow> run \<Rightarrow> bool" where
  "main_inv prods cons jobs r \<longleftrightarrow> sys_inv heap_ok queued jobs (sys r) \<and>
     length (producers (sys r)) = length (prod_pid r) \<and> length (consumers (sys r)) = length (cons_pid r) \<and>
     distinct (prod_pid r @ cons_pid r) \<and> (\<forall>j \<in> set (created (sys r)). job_ok (prod_pid r) j) \<and>
     (cons_pid r = [] \<longrightarrow> consumed (sys r) = []) \<and> phase_ok prods cons jobs r"

lemma held_append [simp]: "held (ps @ qs) = held ps + held qs"
  by (induction ps) (auto simp: held_def ac_simps)

lemma working_append [simp]: "working (cs @ ds) = working cs + working ds"
  by (induction cs) (auto simp: working_def)

lemma sys_inv_fork:
  assumes "sys_inv good jobs_in jobs s"
  shows "sys_inv good jobs_in jobs (s\<lparr>producers := producers s @ [Creating]\<rparr>)"
    "sys_inv good jobs_in jobs (s\<lparr>consumers := consumers s @ [Consuming]\<rparr>)"
proof -
  have "held [Creating] = {#}" "working [Consuming] = 0"
    by (simp_all add: held_def held_by_def working_def busy_def)
  then show "sys_inv good jobs_in jobs (s\<lparr>producers := producers s @ [Creating]\<rparr>)"
    "sys_inv good jobs_in jobs (s\<lparr>consumers := consumers s @ [Consuming]\<rparr>)"
    using assms by (auto simp: sys_inv_def)
qed

lemma job_ok_append: "job_ok pids j \<Longrightarrow> job_ok (pids @ [pid]) j"
  by (auto simp: job_ok_def nth_append nat_less_iff)

lemma job_ok_create:
  "i < length pids \<Longrightarrow> drawn d1 d2 d3 \<Longrightarrow> job_ok pids (create_job (pids ! i) (int i + 1) d1 d2 d3)"
  by (simp add: job_ok_def create_job_def drawn_def)

text \<open>When the counters are complete no critical section changes the memory.\<close>

lemma produce_complete:
  assumes "sys_inv heap_ok queued jobs s" "parent_check jobs (shm s)" "i < length (producers s)"
    "producer_generate_job ins jobs j (producers s ! i) (shm s) = Inr (pc, sm)"
  shows "sm = shm s"
proof -
  have "held (producers s) = {#}" by (rule heap.finished(2) [OF assms(1,2)])
  then have "held_by (producers s ! i) = {#}" using held_update [OF assms(3), of Creating] by (simp add: held_by_def)
  then show ?thesis using assms(2,4)
    by (auto simp: producer_generate_job_def parent_check_def held_by_def split: producer.splits if_splits)
qed

lemma consume_complete:
  assumes "parent_check jobs sm" "consumer_finish_job rem jobs pc sm = Inr (x, pc', sm')"
  shows "sm' = sm"
  using assms by (auto simp: consumer_finish_job_def parent_check_def split: consumer.splits if_splits)

lemma phase_keeps:
  assumes "phase_ok prods cons jobs r" "parent_check jobs (shm (sys r)) \<Longrightarrow> shm s = shm (sys r)"
  shows "phase_ok prods cons jobs (r\<lparr>sys := s\<rparr>)"
  using assms by (auto simp: phase_ok_def Let_def split: parent.splits if_splits)

lemma started_ok:
  "producer_generate_job ins jobs j pc0 sm0 = Inr (pc, sm) \<Longrightarrow> set (started pc0 pc) \<subseteq> {j}"
  by (auto simp: producer_generate_job_def started_def bnd_eq_Inr split: producer.splits if_splits)

lemma main_inv_init:
  assumes "length (priority_q sm) = nat PQ_SIZE" "0 \<le> jobs"
  shows "main_inv prods cons jobs (main_init shmid sm)"
proof -
  have "sys_inv heap_ok queued jobs (start sm 0 0)"
    by (rule heap.start_inv [OF heap_ok_create [OF assms(1)] assms(2)])
  then show ?thesis by (simp add: main_inv_def main_init_def phase_ok_def start_def)
qed

lemma main_inv_next:
  assumes "main_inv prods cons jobs r" "fork_pid \<notin> set (prod_pid r) \<union> set (cons_pid r) \<or> fork_pid < 0"
  shows "main_inv prods cons jobs (main_next prods cons jobs fork_pid r)"
proof -
  note inv = assms(1) [unfolded main_inv_def]
  note ph = inv [THEN conjunct2, THEN conjunct2, THEN conjunct2, THEN conjunct2, THEN conjunct2, THEN conjunct2, unfolded phase_ok_def Let_def]
  have fk: "sys_inv heap_ok queued jobs ((sys r)\<lparr>producers := producers (sys r) @ [Creating]\<rparr>)"
    "sys_inv heap_ok queued jobs ((sys r)\<lparr>consumers := consumers (sys r) @ [Consuming]\<rparr>)"
    using sys_inv_fork inv by blast+
  show ?thesis
  proof (cases "parent r")
    case (Fork_producer i)
    then show ?thesis using inv ph fk(1) assms(2)
      by (auto simp: main_inv_def main_next_def fork_producer_def phase_ok_def Let_def intro: job_ok_append)
  next
    case (Fork_consumer i)
    then show ?thesis using inv ph fk(2) assms(2)
      by (auto simp: main_inv_def main_next_def fork_consumer_def phase_ok_def Let_def)
  next
    case Polling
    then show ?thesis using inv ph
      by (auto simp: main_inv_def main_next_def poll_def phase_ok_def Let_def)
  next
    case (Killing_producers i)
    then show ?thesis using inv ph
      by (auto simp: main_inv_def main_next_def kill_producer_def phase_ok_def Let_def take_Suc_conv_app_nth)
  next
    case (Killing_consumers i)
    then show ?thesis using inv ph
      by (auto simp: main_inv_def main_next_def kill_consumer_def phase_ok_def Let_def take_Suc_conv_app_nth)
  qed (use assms(1) in \<open>simp add: main_next_def\<close>)
qed

lemma main_inv_step:
  assumes "main_step prods cons jobs r r'" "main_inv prods cons jobs r"
  shows "main_inv prods cons jobs r'"
  using assms(1)
proof cases
  case (parent fork_pid)
  then show ?thesis using main_inv_next [OF assms(2)] by blast
next
  case (produce i d1 d2 d3 pc sm)
  note inv = assms(2) [unfolded main_inv_def]
  let ?j = "create_job (prod_pid r ! i) (int i + 1) d1 d2 d3"
  let ?s = "(sys r)\<lparr>shm := sm, producers := (producers (sys r))[i := pc],
      created := created (sys r) @ started (producers (sys r) ! i) pc\<rparr>"
  have "sys_inv heap_ok queued jobs ?s"
    using heap.produce_inv [of jobs "sys r" i ?j] inv produce(2,5) by (simp add: Let_def)
  moreover have "phase_ok prods cons jobs (r\<lparr>sys := ?s\<rparr>)"
    using inv produce_complete [of jobs "sys r" i] produce(2,5) by (intro phase_keeps) simp_all
  moreover have "set (started (producers (sys r) ! i) pc) \<subseteq> {?j}" by (rule started_ok [OF produce(5)])
  moreover have "job_ok (prod_pid r) ?j" using inv produce(2,4) by (intro job_ok_create) simp_all
  ultimately show ?thesis using inv unfolding produce(1) main_inv_def by auto
next
  case (consume i x pc sm)
  note inv = assms(2) [unfolded main_inv_def]
  let ?s = "(sys r)\<lparr>shm := sm, consumers := (consumers (sys r))[i := pc],
      consumed := consumed (sys r) @ (case x of None \<Rightarrow> [] | Some j \<Rightarrow> [j])\<rparr>"
  have "sys_inv heap_ok queued jobs ?s"
    using heap.consume_inv [of jobs "sys r" i] inv consume(2,4) by (simp add: Let_def)
  moreover have "phase_ok prods cons jobs (r\<lparr>sys := ?s\<rparr>)"
    using inv consume_complete consume(4) by (intro phase_keeps) simp_all
  moreover have "cons_pid r \<noteq> []" using inv consume(2) by auto
  ultimately show ?thesis using inv unfolding consume(1) main_inv_def by simp
qed

lemma main_reachable_inv:
  assumes "(main_step prods cons jobs)\<^sup>*\<^sup>* (main_init shmid sm) r"
    "length (priority_q sm) = nat PQ_SIZE" "0 \<le> jobs"
  shows "main_inv prods cons jobs r"
  using assms(1) by induction (use main_inv_init [OF assms(2,3)] main_inv_step in blast)+

lemma held_size_le: "size (held ps) \<le> length ps"
  by (induction ps) (auto simp: held_def held_by_def split: producer.splits)

lemma queued_in_created:
  assumes "sys_inv heap_ok queued jobs s" "j \<in># mset (consumed s) + queued (shm s) + held (producers s)"
  shows "j \<in> set (created s)"
proof -
  have "mset (created s) = mset (consumed s) + queued (shm s) + held (producers s)"
    using assms(1) by (simp add: sys_inv_def)
  then have "j \<in># mset (created s)" using assms(2) by simp
  then show ?thesis by simp
qed

text \<open>
  The ranges of the phases: the loop counters of the two fork loops run from 1 to one past the number asked for and
  count the children there are, those of the two kill loops are indices into the vectors of children or their
  lengths, and the exit status is 0 or 1.
\<close>

definition phase_typed :: "int \<Rightarrow> int \<Rightarrow> run \<Rightarrow> bool" where
  "phase_typed prods cons r =
     (case parent r of
        Fork_producer i \<Rightarrow> i \<in> {1..int (nat prods) + 1} \<and> i = int (length (prod_pid r)) + 1 \<and> cons_pid r = []
      | Fork_consumer i \<Rightarrow> i \<in> {1..int (nat cons) + 1} \<and> i = int (length (cons_pid r)) + 1
      | Polling \<Rightarrow> True
      | Killing_producers n \<Rightarrow> n \<le> length (prod_pid r)
      | Killing_consumers n \<Rightarrow> n \<le> length (cons_pid r)
      | Exited st \<Rightarrow> st \<in> {0, 1})"

lemma phase_ok_typed: "phase_ok prods cons jobs r \<Longrightarrow> phase_typed prods cons r"
  by (auto simp: phase_ok_def phase_typed_def Let_def split: parent.splits if_splits)

text \<open>
  C36: The data of the program has the types and ranges its declarations and distributions give it. Whatever
  the children and the parent do, and whatever \<^verbatim>\<open>fork\<close> returns: every job that is held, queued or
  consumed carries the number and the process of a producer that was forked, and fields that
  its distributions can draw; the counters stay between 0 and the number of jobs, so that no \<^verbatim>\<open>int\<close>
  overflows; the array keeps its length and the heap its bounds; each child has its own number; and in
  every phase of the parent its loop counter is in range and agrees with the children it has forked.
\<close>
theorem main_state_typed:
  assumes "length (priority_q sm) = nat PQ_SIZE" "0 \<le> jobs" "jobs < 2 ^ 31"
    "(main_step prods cons jobs)\<^sup>*\<^sup>* (main_init shmid sm) r"
  shows "(\<forall>j \<in># mset (consumed (sys r)) + queued (shm (sys r)) + held (producers (sys r)). job_ok (prod_pid r) j) \<and>
    job_created (shm (sys r)) \<in> {0..<2 ^ 31} \<and> job_completed (shm (sys r)) \<in> {0..job_created (shm (sys r))} \<and>
    curr_size (shm (sys r)) \<in> {0..PQ_SIZE - 1} \<and> length (priority_q (shm (sys r))) = nat PQ_SIZE \<and>
    length (producers (sys r)) = length (prod_pid r) \<and> length (consumers (sys r)) = length (cons_pid r) \<and>
    distinct (prod_pid r @ cons_pid r) \<and> length (prod_pid r) \<le> nat prods \<and> length (cons_pid r) \<le> nat cons \<and>
    phase_typed prods cons r"
proof -
  note inv = main_reachable_inv [OF assms(4,1,2), unfolded main_inv_def]
  have s: "sys_inv heap_ok queued jobs (sys r)" using inv by blast
  have "length (prod_pid r) \<le> nat prods \<and> length (cons_pid r) \<le> nat cons"
    using inv by (auto simp: phase_ok_def Let_def split: parent.splits if_splits)
  moreover have "phase_typed prods cons r" using inv phase_ok_typed by blast
  moreover have "job_ok (prod_pid r) j"
    if "j \<in># mset (consumed (sys r)) + queued (shm (sys r)) + held (producers (sys r))" for j
    using queued_in_created [OF s that] inv by blast
  moreover have "heap_ok (shm (sys r))" "job_created (shm (sys r)) \<le> jobs" using s by (simp_all add: sys_inv_def)
  ultimately show ?thesis
    using inv heap.counts [OF s] assms(3) by (auto simp: heap_ok_def)
qed

text \<open>
  C15: When the parent ends normally, the work is done. It has forked the requested producers and consumers,
  exactly the requested number of jobs has been created, every one of them has been consumed once,
  the queue is empty, and every child has been sent the signal, each once.
\<close>
theorem main_returns_when_done:
  assumes "length (priority_q sm) = nat PQ_SIZE" "0 \<le> jobs"
    "(main_step prods cons jobs)\<^sup>*\<^sup>* (main_init shmid sm) r" "parent r = Exited 0"
  shows "length (prod_pid r) = nat prods \<and> length (cons_pid r) = nat cons \<and>
    int (length (created (sys r))) = jobs \<and> mset (consumed (sys r)) = mset (created (sys r)) \<and>
    curr_size (shm (sys r)) = 0 \<and> killed r = prod_pid r @ cons_pid r \<and> distinct (killed r)"
proof -
  note inv = main_reachable_inv [OF assms(3,1,2), unfolded main_inv_def]
  have s: "sys_inv heap_ok queued jobs (sys r)" using inv by blast
  have ph: "length (prod_pid r) = nat prods" "length (cons_pid r) = nat cons"
    "parent_check jobs (shm (sys r))" "killed r = prod_pid r @ cons_pid r"
    using inv assms(4) by (simp_all add: phase_ok_def Let_def)
  have "int (length (created (sys r))) = jobs"
    using s ph(3) by (simp add: sys_inv_def parent_check_def)
  then show ?thesis using ph inv heap.finished [OF s ph(3)] by simp
qed

lemma exited_stays:
  assumes "(main_step prods cons jobs)\<^sup>*\<^sup>* r r'" "parent r = Exited st"
  shows "parent r' = Exited st \<and> killed r' = killed r \<and> prod_pid r' = prod_pid r \<and> cons_pid r' = cons_pid r"
  using assms(1)
proof induction
  case (step r1 r2)
  then show ?case by (auto simp: main_next_def assms(2) elim!: main_step.cases)
qed (simp add: assms(2))

text \<open>The next thing the parent does is to fork.\<close>

definition fork_due :: "int \<Rightarrow> int \<Rightarrow> run \<Rightarrow> bool" where
  "fork_due prods cons r \<longleftrightarrow>
     (\<exists>i. parent r = Fork_producer i \<and> i \<le> prods) \<or> (\<exists>i. parent r = Fork_consumer i \<and> i \<le> cons)"

lemma failed_fork:
  assumes "fork_due prods cons r" "fork_pid < 0"
  shows "main_next prods cons jobs fork_pid r = r\<lparr>parent := Exited 1\<rparr>"
  using assms by (auto simp: fork_due_def main_next_def fork_producer_def fork_consumer_def)

text \<open>
  C40: A fork that fails ends the parent with status 1 and leaves every child it has forked behind. Whatever the
  children do from then on, the parent stays ended, nobody is ever sent the signal, and the children are
  those there were. If the failed fork is that of a producer or of the first consumer, so that there is no
  consumer, nothing is ever consumed, and if there are more than seven jobs for the queue and one
  for each producer, no producer ever leaves its loop.
\<close>
theorem fork_failure_orphans:
  assumes "length (priority_q sm) = nat PQ_SIZE" "0 \<le> jobs"
    "(main_step prods cons jobs)\<^sup>*\<^sup>* (main_init shmid sm) r"
    "fork_due prods cons r" "fork_pid < 0"
    "(main_step prods cons jobs)\<^sup>*\<^sup>* (main_next prods cons jobs fork_pid r) r'"
  shows "parent r' = Exited 1 \<and> killed r' = [] \<and> prod_pid r' = prod_pid r \<and> cons_pid r' = cons_pid r \<and>
    length (producers (sys r')) = length (prod_pid r) \<and> length (consumers (sys r')) = length (cons_pid r) \<and>
    (cons_pid r = [] \<longrightarrow> consumed (sys r') = [] \<and>
      (int (length (prod_pid r)) + 7 < jobs \<longrightarrow> Producer_done \<notin> set (producers (sys r'))))"
proof -
  let ?r1 = "r\<lparr>parent := Exited 1\<rparr>"
  note n1 = failed_fork [OF assms(4,5), of jobs]
  have "main_step prods cons jobs r (main_next prods cons jobs fork_pid r)"
    using assms(5) by (intro main_step.parent disjI1)
  then have "(main_step prods cons jobs)\<^sup>*\<^sup>* (main_init shmid sm) r'"
    using assms(3,6) by (meson rtranclp.rtrancl_into_rtrancl rtranclp_trans)
  note inv = main_reachable_inv [OF this assms(1,2), unfolded main_inv_def]
  have "parent ?r1 = Exited 1" by simp
  note st = exited_stays [OF assms(6) [unfolded n1] this]
  have k: "killed r' = []" using inv st by (simp add: phase_ok_def Let_def)
  have s: "sys_inv heap_ok queued jobs (sys r')" using inv by blast
  have n: "length (producers (sys r')) = length (prod_pid r)" "length (consumers (sys r')) = length (cons_pid r)"
    using inv st by simp_all
  have c: "consumed (sys r') = []" if "cons_pid r = []" using inv st that by simp
  have "Producer_done \<notin> set (producers (sys r'))" if "cons_pid r = []" "int (length (prod_pid r)) + 7 < jobs"
  proof -
    have "curr_size (shm (sys r')) \<le> 7" using s by (simp add: sys_inv_def heap_ok_def PQ_SIZE_def)
    moreover have "job_completed (shm (sys r')) = 0" using s c [OF that(1)] by (simp add: sys_inv_def)
    moreover have "int (size (held (producers (sys r')))) \<le> int (length (prod_pid r))"
      using held_size_le [of "producers (sys r')"] n(1) by simp
    ultimately have "job_created (shm (sys r')) < jobs" using heap.counts(1) [OF s] that(2) by linarith
    then show ?thesis using s by (auto simp: sys_inv_def)
  qed
  then show ?thesis using st k n c by simp
qed

subsection \<open>Examples\<close>

text \<open>A run with one producer, one consumer and one job, and one in which the second fork fails.\<close>

definition sample_parent :: "system \<Rightarrow> parent \<Rightarrow> int list \<Rightarrow> int list \<Rightarrow> int list \<Rightarrow> run" where
  "sample_parent s pc ps cs ks = \<lparr>sys = s, parent = pc, prod_pid = ps, cons_pid = cs, killed = ks\<rparr>"

lemma parent_steps:
  assumes "(main_step p c n)\<^sup>*\<^sup>* r0 r" "pid < 0 \<or> 0 < pid \<and> pid \<notin> set (prod_pid r) \<union> set (cons_pid r)"
    "main_next p c n pid r = r'"
  shows "(main_step p c n)\<^sup>*\<^sup>* r0 r'"
  using assms main_step.parent rtranclp.rtrancl_into_rtrancl by metis

lemmas parent_defs = sample_parent_def main_next_def fork_producer_def fork_consumer_def poll_def
  kill_producer_def kill_consumer_def parent_check_def start_def create_mem_def sample_memory_def

definition sample_job7 :: job where
  "sample_job7 = \<lparr>proc_id = 7, prod_num = 1, priority = 3, comp_time = 2, job_id = 3\<rparr>"

lemma forked_run:
  "(main_step 2 1 9)\<^sup>*\<^sup>* (main_init 0 sample_memory)
     (sample_parent (start sample_memory 1 0) (Fork_producer 2) [7] [] [])"
  by (rule parent_steps [OF rtranclp.rtrancl_refl, of 7]) (simp_all add: main_init_def parent_defs)

text \<open>The second of two forks fails; then the only producer starts on its first job.\<close>

theorem fork_failure_orphans_witness:
  "\<exists>r'. (main_step 2 1 9)\<^sup>*\<^sup>*
      (main_next 2 1 9 (- 1) (sample_parent (start sample_memory 1 0) (Fork_producer 2) [7] [] [])) r' \<and>
    parent r' = Exited 1 \<and> killed r' = [] \<and> producers (sys r') = [Inserting sample_job7] \<and>
    Producer_done \<notin> set (producers (sys r'))"
proof -
  let ?r = "sample_parent (start sample_memory 1 0) (Fork_producer 2) [7] [] []"
  let ?e = "sample_parent (start sample_memory 1 0) (Exited 1) [7] [] []"
  let ?s1 = "(start sample_memory 1 0)\<lparr>shm := (shm (start sample_memory 1 0))\<lparr>job_created := 1\<rparr>,
    producers := [Inserting sample_job7], created := [sample_job7]\<rparr>"
  have due: "fork_due 2 1 ?r" by (simp add: fork_due_def sample_parent_def)
  have "main_next 2 1 9 (- 1) ?r = ?e" by (simp add: parent_defs)
  moreover have "main_step 2 1 9 ?e (sample_parent ?s1 (Exited 1) [7] [] [])"
    using main_step.produce [of 0 ?e 3 3 2 9 "Inserting sample_job7" "shm ?s1"]
    by (simp add: sample_parent_def start_def create_mem_def sample_memory_def producer_generate_job_def PQ_SIZE_def
        started_def create_job_def sample_job7_def drawn_def)
  ultimately have r: "(main_step 2 1 9)\<^sup>*\<^sup>* (main_next 2 1 9 (- 1) ?r) (sample_parent ?s1 (Exited 1) [7] [] [])" by simp
  from fork_failure_orphans [OF sample_memory_length _ forked_run due _ r] have
    "parent (sample_parent ?s1 (Exited 1) [7] [] []) = Exited 1 \<and> killed (sample_parent ?s1 (Exited 1) [7] [] []) = [] \<and>
     Producer_done \<notin> set (producers (sys (sample_parent ?s1 (Exited 1) [7] [] [])))"
    by (simp add: sample_parent_def)
  with r show ?thesis by (intro exI [of _ "sample_parent ?s1 (Exited 1) [7] [] []"]) (simp add: sample_parent_def)
qed

definition sample_system :: "job list \<Rightarrow> int \<Rightarrow> int \<Rightarrow> int \<Rightarrow> producer \<Rightarrow> consumer \<Rightarrow> job list \<Rightarrow> job list \<Rightarrow> system" where
  "sample_system q made finished n pr co js ds = \<lparr>shm = \<lparr>priority_q = q, job_created = made, job_completed = finished, curr_size = n\<rparr>,
     producers = [pr], consumers = [co], created = js, consumed = ds\<rparr>"

lemma finished_run:
  "(main_step 1 1 1)\<^sup>*\<^sup>* (main_init 0 sample_memory)
     (sample_parent (sample_system ((replicate 8 (sample_job 0))[1 := sample_job7]) 1 1 0 Creating (Computing 2)
        [sample_job7] [sample_job7]) (Exited 0) [7] [8] [7, 8])"
proof -
  let ?empty = "replicate 8 (sample_job 0)" let ?q = "?empty[1 := sample_job7]" let ?m = "main_init 0 sample_memory"
  let ?s0 = "sample_system ?empty 0 0 0 Creating Consuming [] []"
  let ?s1 = "sample_system ?empty 1 0 0 (Inserting sample_job7) Consuming [sample_job7] []"
  let ?s2 = "sample_system ?q 1 0 1 Creating Consuming [sample_job7] []"
  let ?s3 = "sample_system ?q 1 1 0 Creating (Computing 2) [sample_job7] [sample_job7]"
  let ?n = "main_step 1 1 1"
  have "?n\<^sup>*\<^sup>* ?m (sample_parent (start sample_memory 1 0) (Fork_producer 2) [7] [] [])"
    by (rule parent_steps [OF rtranclp.rtrancl_refl, of 7]) (simp_all add: main_init_def parent_defs)
  then have "?n\<^sup>*\<^sup>* ?m (sample_parent (start sample_memory 1 0) (Fork_consumer 1) [7] [] [])"
    by (rule parent_steps [where pid = "- 1"]) (simp_all add: parent_defs)
  then have "?n\<^sup>*\<^sup>* ?m (sample_parent ?s0 (Fork_consumer 2) [7] [8] [])"
    by (rule parent_steps [where pid = 8]) (simp_all add: parent_defs sample_system_def)
  then have "?n\<^sup>*\<^sup>* ?m (sample_parent ?s0 Polling [7] [8] [])"
    by (rule parent_steps [where pid = "- 1"]) (simp_all add: parent_defs)
  also have "?n (sample_parent ?s0 Polling [7] [8] []) (sample_parent ?s1 Polling [7] [8] [])"
    using main_step.produce [of 0 "sample_parent ?s0 Polling [7] [8] []" 3 3 2 1 "Inserting sample_job7" "shm ?s1"]
    by (simp add: sample_parent_def sample_system_def producer_generate_job_def PQ_SIZE_def started_def
        create_job_def sample_job7_def drawn_def)
  also have "?n (sample_parent ?s1 Polling [7] [8] []) (sample_parent ?s2 Polling [7] [8] [])"
    using main_step.produce [of 0 "sample_parent ?s1 Polling [7] [8] []" 3 3 2 1 Creating "shm ?s2"]
    by (simp add: sample_parent_def sample_system_def producer_generate_job_def PQ_SIZE_def started_def
        create_job_def drawn_def insert_job_def put_def Let_def)
  also have "?n (sample_parent ?s2 Polling [7] [8] []) (sample_parent ?s3 Polling [7] [8] [])"
    using main_step.consume [of 0 "sample_parent ?s2 Polling [7] [8] []" 1 "Some sample_job7" "Computing 2" "shm ?s3"]
    by (simp add: sample_parent_def sample_system_def consumer_finish_job_def PQ_SIZE_def
        sample_job7_def remove_job_def get_def Let_def)
  finally have "?n\<^sup>*\<^sup>* ?m (sample_parent ?s3 Polling [7] [8] [])" .
  then have "?n\<^sup>*\<^sup>* ?m (sample_parent ?s3 (Killing_producers 0) [7] [8] [])"
    by (rule parent_steps [where pid = "- 1"]) (simp_all add: parent_defs sample_system_def)
  then have "?n\<^sup>*\<^sup>* ?m (sample_parent ?s3 (Killing_producers 1) [7] [8] [7])"
    by (rule parent_steps [where pid = "- 1"]) (simp_all add: parent_defs)
  then have "?n\<^sup>*\<^sup>* ?m (sample_parent ?s3 (Killing_consumers 0) [7] [8] [7])"
    by (rule parent_steps [where pid = "- 1"]) (simp_all add: parent_defs)
  then have "?n\<^sup>*\<^sup>* ?m (sample_parent ?s3 (Killing_consumers 1) [7] [8] [7, 8])"
    by (rule parent_steps [where pid = "- 1"]) (simp_all add: parent_defs)
  then show ?thesis by (rule parent_steps [where pid = "- 1"]) (simp_all add: parent_defs)
qed

text \<open>In this run the parent ends and has killed the consumer while it still computes its job.\<close>

lemma killed_while_computing:
  "\<exists>r t. (main_step 1 1 1)\<^sup>*\<^sup>* (main_init 0 sample_memory) r \<and> parent r = Exited 0 \<and>
     consumers (sys r) = [Computing t] \<and> cons_pid r ! 0 \<in> set (killed r)"
proof -
  let ?r = "sample_parent (sample_system ((replicate 8 (sample_job 0))[1 := sample_job7]) 1 1 0 Creating (Computing 2)
        [sample_job7] [sample_job7]) (Exited 0) [7] [8] [7, 8]"
  have "parent ?r = Exited 0 \<and> consumers (sys ?r) = [Computing 2] \<and> cons_pid ?r ! 0 \<in> set (killed ?r)"
    by (simp add: sample_parent_def sample_system_def)
  then show ?thesis using finished_run by blast
qed

theorem main_state_typed_witness:
  "job_ok [7] sample_job7 \<and>
   phase_typed 1 1 (sample_parent (sample_system ((replicate 8 (sample_job 0))[1 := sample_job7]) 1 1 0 Creating (Computing 2)
        [sample_job7] [sample_job7]) (Exited 0) [7] [8] [7, 8])"
  using main_state_typed [OF sample_memory_length _ _ finished_run]
  by (simp add: sample_parent_def sample_system_def)

theorem main_returns_when_done_witness:
  "\<exists>r. (main_step 1 1 1)\<^sup>*\<^sup>* (main_init 0 sample_memory) r \<and> parent r = Exited 0 \<and>
     consumed (sys r) = [sample_job7] \<and> mset (consumed (sys r)) = mset (created (sys r)) \<and> killed r = [7, 8] \<and>
     int (length (created (sys r))) = 1"
proof -
  let ?r = "sample_parent (sample_system ((replicate 8 (sample_job 0))[1 := sample_job7]) 1 1 0 Creating (Computing 2)
        [sample_job7] [sample_job7]) (Exited 0) [7] [8] [7, 8]"
  have "parent ?r = Exited 0" by (simp add: sample_parent_def)
  from main_returns_when_done [OF sample_memory_length _ finished_run this] finished_run this show ?thesis
    by (intro exI [of _ ?r]) (simp add: sample_parent_def sample_system_def)
qed

end
