(* ===== verification/Job_Threads.thy ===== *)
theory Job_Threads
  imports Prelude
begin

section \<open>Jobs with threads (Assignment 5)\<close>

text \<open>
  \<^verbatim>\<open>Assignment_5/.../Ass5_11_18CS10063_18CS10011_thread.cpp\<close>: the program of \<open>Job_Queue\<close> and \<open>Job_Main\<close> once more,
  with threads in one address space instead of processes. The shared memory also holds the number
  of jobs, a job holds the \<^verbatim>\<open>pthread_t\<close> of its producer (an unsigned 64-bit number), the parent cancels
  the threads instead of killing them and does not look at what \<^verbatim>\<open>pthread_create\<close> returns. The conventions are
  those of \<open>Job_Queue\<close>: a critical section is a step, the random numbers are arguments, the clock is left out.
\<close>

definition PQ_SIZE :: int where "PQ_SIZE = 8"

record job =
  thrd_id :: "64 word"
  prod_num :: int
  priority :: int
  comp_time :: int
  job_id :: int

record shared_memory =
  priority_q :: "job list"
  job_created :: int
  job_completed :: int
  curr_size :: int
  jobs :: int

text \<open>The parameter \<^verbatim>\<open>thrd_id\<close> of \<^verbatim>\<open>create_job\<close> is an \<^verbatim>\<open>int\<close>; the field it is stored in is a \<^verbatim>\<open>pthread_t\<close>.\<close>

definition create_job :: "int \<Rightarrow> int \<Rightarrow> int \<Rightarrow> int \<Rightarrow> int \<Rightarrow> job" where
  "create_job tid num distrib1 distrib2 distrib3 =
     \<lparr>thrd_id = word_of_int tid, prod_num = num, priority = distrib2, comp_time = distrib3, job_id = distrib1\<rparr>"

definition get :: "int \<Rightarrow> job list \<Rightarrow> job result" where
  "get i q = (if 0 \<le> i \<and> i < PQ_SIZE then Inr (q ! nat i) else Inl Bad_pointer)"

definition put :: "int \<Rightarrow> job \<Rightarrow> job list \<Rightarrow> job list result" where
  "put i x q = (if 0 \<le> i \<and> i < PQ_SIZE then Inr (q[nat i := x]) else Inl Bad_pointer)"

definition exchange :: "int \<Rightarrow> int \<Rightarrow> job list \<Rightarrow> job list result" where
  "exchange i j q =
     bnd (get i q) (\<lambda>swap. bnd (get j q) (\<lambda>x. bnd (put i x q) (\<lambda>q1. put j swap q1)))"

subsection \<open>The heap\<close>

function sift_up :: "int \<Rightarrow> job list \<Rightarrow> job list result" where
  "sift_up index q =
     (if index > 1 then
        bnd (get (index div 2) q) (\<lambda>p. bnd (get index q) (\<lambda>x.
        if priority p < priority x
        then bnd (exchange index (index div 2) q) (\<lambda>q1. sift_up (index div 2) q1)
        else Inr q))
      else Inr q)"
  by pat_completeness auto
termination by (relation "measure (\<lambda>(index, q). nat index)") auto

definition insert_job :: "job \<Rightarrow> shared_memory \<Rightarrow> shared_memory result" where
  "insert_job new_job sm =
     (let sm1 = sm\<lparr>curr_size := curr_size sm + 1\<rparr>;
          sz = curr_size sm1 in
      bnd (put sz new_job (priority_q sm1)) (\<lambda>q.
      if curr_size sm = 0 then Inr (sm1\<lparr>priority_q := q\<rparr>)
      else bnd (sift_up sz q) (\<lambda>q1. Inr (sm1\<lparr>priority_q := q1\<rparr>))))"

definition larger_child :: "int \<Rightarrow> int \<Rightarrow> job list \<Rightarrow> int result" where
  "larger_child sz index q =
     bnd (if 2 * index \<le> sz then
            bnd (get index q) (\<lambda>a. bnd (get (2 * index) q) (\<lambda>b.
            Inr (if priority a < priority b then 2 * index else index)))
          else Inr index) (\<lambda>target.
     if 2 * index + 1 \<le> sz then
       bnd (get target q) (\<lambda>a. bnd (get (2 * index + 1) q) (\<lambda>b.
       Inr (if priority a < priority b then 2 * index + 1 else target)))
     else Inr target)"

lemma larger_child_forward: "larger_child sz index q = Inr t \<Longrightarrow> index \<le> t"
  by (auto simp: larger_child_def bnd_eq_Inr get_def split: if_splits)

function sift_down :: "int \<Rightarrow> int \<Rightarrow> int \<Rightarrow> job list \<Rightarrow> job list result" where
  "sift_down bound sz index q =
     (if index < bound then
        bnd (larger_child sz index q) (\<lambda>target.
        if target = index then Inr q
        else bnd (exchange target index q) (\<lambda>q1. sift_down bound sz target q1))
      else Inr q)"
  by pat_completeness auto
termination
proof (relation "measure (\<lambda>(bound, sz, index, q). nat (bound - index))")
  fix bound sz index target :: int and q q1 :: "job list"
  assume "index < bound" "larger_child sz index q = Inr target" "target \<noteq> index"
  then show "((bound, sz, target, q1), bound, sz, index, q) \<in> measure (\<lambda>(bound, sz, index, q). nat (bound - index))"
    using larger_child_forward [of sz index q target] by simp
qed simp

declare sift_up.simps [simp del] sift_down.simps [simp del]

definition remove_job :: "shared_memory \<Rightarrow> (job \<times> shared_memory) result" where
  "remove_job sm =
     (if curr_size sm = 1 then
        bnd (get 1 (priority_q sm)) (\<lambda>rem. Inr (rem, sm\<lparr>curr_size := 0\<rparr>))
      else
        let sz = curr_size sm in
        bnd (get 1 (priority_q sm)) (\<lambda>rem.
        bnd (get sz (priority_q sm)) (\<lambda>last.
        let sm1 = sm\<lparr>curr_size := sz - 1\<rparr> in
        bnd (put 1 last (priority_q sm1)) (\<lambda>q.
        bnd (sift_down sz (curr_size sm1) 1 q) (\<lambda>q1.
        Inr (rem, sm1\<lparr>priority_q := q1\<rparr>))))))"

subsection \<open>The threads\<close>

text \<open>\<open>thrd_self\<close> is the result of \<^verbatim>\<open>pthread_self\<close>, an argument of \<^verbatim>\<open>create_job\<close> that is converted to \<^verbatim>\<open>int\<close>.\<close>

datatype producer = Creating | Inserting job | Producer_done
datatype consumer = Consuming | Computing int | Consumer_done

definition producer_generate_job ::
  "64 word \<Rightarrow> int \<Rightarrow> int \<times> int \<times> int \<Rightarrow> producer \<Rightarrow> shared_memory \<Rightarrow> (producer \<times> shared_memory) result" where
  "producer_generate_job thrd_self p_num rnd pc sm =
     (case pc of
        Creating \<Rightarrow>
          if job_created sm \<ge> jobs sm then Inr (Producer_done, sm)
          else if curr_size sm < PQ_SIZE - 1
          then
            let (distrib1, distrib2, distrib3) = rnd;
                new_job = create_job (i32 (uint thrd_self)) p_num distrib1 distrib2 distrib3 in
            Inr (Inserting new_job, sm\<lparr>job_created := job_created sm + 1\<rparr>)
          else Inr (Creating, sm)
      | Inserting j \<Rightarrow>
          if curr_size sm < PQ_SIZE - 1
          then bnd (insert_job j sm) (\<lambda>sm1. Inr (Creating, sm1))
          else Inr (Inserting j, sm)
      | Producer_done \<Rightarrow> Inr (Producer_done, sm))"

definition consumer_finish_job ::
  "consumer \<Rightarrow> shared_memory \<Rightarrow> (job option \<times> consumer \<times> shared_memory) result" where
  "consumer_finish_job pc sm =
     (case pc of
        Consuming \<Rightarrow>
          if job_completed sm \<ge> jobs sm then Inr (None, Consumer_done, sm)
          else if curr_size sm > 0
          then bnd (remove_job sm) (\<lambda>(rem_job, sm1).
            Inr (Some rem_job, Computing (comp_time rem_job), sm1\<lparr>job_completed := job_completed sm1 + 1\<rparr>))
          else Inr (None, Consuming, sm)
      | Computing t \<Rightarrow> Inr (None, Consuming, sm)
      | Consumer_done \<Rightarrow> Inr (None, Consumer_done, sm))"

subsection \<open>The main thread\<close>

text \<open>
  \<open>prod_threads\<close> and \<open>cons_threads\<close> are the two arrays of thread numbers, up to the element written last; an
  element is \<open>None\<close> if the thread could not be created, which leaves it as it was: uninitialised.
  \<open>prods_run\<close> has the thread number and the producer number of each producer that exists. \<open>tid\<close>
  is the result of \<^verbatim>\<open>pthread_create\<close>: the new thread or \<open>None\<close>. A request to cancel takes effect at some later
  call of a function such as \<^verbatim>\<open>sleep\<close>, so the threads may run until \<^verbatim>\<open>main\<close> returns, which ends them all.
\<close>

datatype parent = Create_producer int | Create_consumer int | Polling
  | Cancel_producers nat | Cancel_consumers nat | Returned

record run =
  shm :: shared_memory
  producers :: "producer list"
  consumers :: "consumer list"
  prods_run :: "(64 word \<times> int) list"
  parent :: parent
  prod_threads :: "64 word option list"
  cons_threads :: "64 word option list"
  created :: "job list"
  consumed :: "job list"

text \<open>\<open>created\<close> and \<open>consumed\<close> are histories, as in \<open>Job_System\<close>; \<open>q\<close> is what \<^verbatim>\<open>malloc\<close> leaves in the array.\<close>

definition main_init :: "job list \<Rightarrow> int \<Rightarrow> run" where
  "main_init q n =
     \<lparr>shm = \<lparr>priority_q = q, job_created = 0, job_completed = 0, curr_size = 0, jobs = n\<rparr>,
      producers = [], consumers = [], prods_run = [], parent = Create_producer 0,
      prod_threads = [], cons_threads = [], created = [], consumed = []\<rparr>"

definition create_producer :: "int \<Rightarrow> int \<Rightarrow> 64 word option \<Rightarrow> run \<Rightarrow> run" where
  "create_producer prods i tid r =
     (if i < prods then
        let r1 = r\<lparr>prod_threads := prod_threads r @ [tid], parent := Create_producer (i + 1)\<rparr> in
        (case tid of
           None \<Rightarrow> r1
         | Some t \<Rightarrow> r1\<lparr>producers := producers r @ [Creating], prods_run := prods_run r @ [(t, i + 1)]\<rparr>)
      else r\<lparr>parent := Create_consumer 0\<rparr>)"

definition create_consumer :: "int \<Rightarrow> int \<Rightarrow> 64 word option \<Rightarrow> run \<Rightarrow> run" where
  "create_consumer cons i tid r =
     (if i < cons then
        let r1 = r\<lparr>cons_threads := cons_threads r @ [tid], parent := Create_consumer (i + 1)\<rparr> in
        (case tid of
           None \<Rightarrow> r1
         | Some t \<Rightarrow> r1\<lparr>consumers := consumers r @ [Consuming]\<rparr>)
      else r\<lparr>parent := Polling\<rparr>)"

definition poll :: "int \<Rightarrow> run \<Rightarrow> run" where
  "poll n r = (if job_created (shm r) = n \<and> job_completed (shm r) = n then r\<lparr>parent := Cancel_producers 0\<rparr> else r)"

definition pthread_cancel :: "64 word option \<Rightarrow> unit result" where
  "pthread_cancel tid = (case tid of None \<Rightarrow> Inl Uninitialized | Some t \<Rightarrow> Inr ())"

definition cancel_producer :: "int \<Rightarrow> nat \<Rightarrow> run \<Rightarrow> run result" where
  "cancel_producer prods i r =
     (if int i < prods
      then bnd (pthread_cancel (prod_threads r ! i)) (\<lambda>_. Inr (r\<lparr>parent := Cancel_producers (i + 1)\<rparr>))
      else Inr (r\<lparr>parent := Cancel_consumers 0\<rparr>))"

definition cancel_consumer :: "int \<Rightarrow> nat \<Rightarrow> run \<Rightarrow> run result" where
  "cancel_consumer cons i r =
     (if int i < cons
      then bnd (pthread_cancel (cons_threads r ! i)) (\<lambda>_. Inr (r\<lparr>parent := Cancel_consumers (i + 1)\<rparr>))
      else Inr (r\<lparr>parent := Returned\<rparr>))"

definition main_next :: "int \<Rightarrow> int \<Rightarrow> int \<Rightarrow> 64 word option \<Rightarrow> run \<Rightarrow> run result" where
  "main_next prods cons n tid r =
     (case parent r of
        Create_producer i \<Rightarrow> Inr (create_producer prods i tid r)
      | Create_consumer i \<Rightarrow> Inr (create_consumer cons i tid r)
      | Polling \<Rightarrow> Inr (poll n r)
      | Cancel_producers i \<Rightarrow> cancel_producer prods i r
      | Cancel_consumers i \<Rightarrow> cancel_consumer cons i r
      | Returned \<Rightarrow> Inr r)"

definition started :: "producer \<Rightarrow> producer \<Rightarrow> job list" where
  "started old new = (case (old, new) of (Creating, Inserting j) \<Rightarrow> [j] | _ \<Rightarrow> [])"

inductive thread_step :: "int \<Rightarrow> int \<Rightarrow> int \<Rightarrow> run \<Rightarrow> run \<Rightarrow> bool"
  for prods cons n
where
  parent: "main_next prods cons n tid r = Inr r' \<Longrightarrow> thread_step prods cons n r r'"
| produce: "i < length (producers r) \<Longrightarrow> parent r \<noteq> Returned \<Longrightarrow> prods_run r ! i = (t, p_num) \<Longrightarrow>
    producer_generate_job t p_num rnd (producers r ! i) (shm r) = Inr (pc, sm) \<Longrightarrow>
    thread_step prods cons n r (r\<lparr>shm := sm, producers := (producers r)[i := pc],
      created := created r @ started (producers r ! i) pc\<rparr>)"
| consume: "i < length (consumers r) \<Longrightarrow> parent r \<noteq> Returned \<Longrightarrow>
    consumer_finish_job (consumers r ! i) (shm r) = Inr (x, pc, sm) \<Longrightarrow>
    thread_step prods cons n r (r\<lparr>shm := sm, consumers := (consumers r)[i := pc],
      consumed := consumed r @ (case x of None \<Rightarrow> [] | Some j \<Rightarrow> [j])\<rparr>)"

end
