(* ===== verification/Job_Simulation.thy ===== *)
theory Job_Simulation
  imports Job_Main Job_Threads
begin

section \<open>The two variants of Assignment 5 do the same\<close>

text \<open>
  A state of the program with threads is read as a state of the program with processes: the thread
  number of a job becomes its process number, and the number of jobs is a parameter. Every
  operation of \<open>Job_Threads\<close> commutes with that reading, errors included; so every step of a thread
  is a step of a process, and the invariant of \<open>Job_System\<close> carries over.
\<close>

definition as_job :: "Job_Threads.job \<Rightarrow> Job_Queue.job" where
  "as_job j = Job_Queue.job.make (sint (thrd_id j)) (Job_Threads.prod_num j) (Job_Threads.priority j)
     (Job_Threads.comp_time j) (Job_Threads.job_id j)"

definition as_memory :: "Job_Threads.shared_memory \<Rightarrow> Job_Queue.shared_memory" where
  "as_memory sm = Job_Queue.shared_memory.make (map as_job (Job_Threads.priority_q sm))
     (Job_Threads.job_created sm) (Job_Threads.job_completed sm) (Job_Threads.curr_size sm)"

fun as_producer :: "Job_Threads.producer \<Rightarrow> Job_Queue.producer" where
  "as_producer Job_Threads.Creating = Job_Queue.Creating"
| "as_producer (Job_Threads.Inserting j) = Job_Queue.Inserting (as_job j)"
| "as_producer Job_Threads.Producer_done = Job_Queue.Producer_done"

fun as_consumer :: "Job_Threads.consumer \<Rightarrow> Job_Queue.consumer" where
  "as_consumer Job_Threads.Consuming = Job_Queue.Consuming"
| "as_consumer (Job_Threads.Computing t) = Job_Queue.Computing t"
| "as_consumer Job_Threads.Consumer_done = Job_Queue.Consumer_done"

definition as_system :: "Job_Threads.run \<Rightarrow> system" where
  "as_system r = system.make (as_memory (Job_Threads.shm r)) (map as_producer (Job_Threads.producers r))
     (map as_consumer (Job_Threads.consumers r)) (map as_job (Job_Threads.created r)) (map as_job (Job_Threads.consumed r))"

lemmas record_makes = Job_Queue.job.make_def Job_Queue.shared_memory.make_def system.make_def

lemma as_job_simps [simp]:
  "Job_Queue.priority (as_job j) = Job_Threads.priority j" "Job_Queue.comp_time (as_job j) = Job_Threads.comp_time j"
  by (simp_all add: as_job_def record_makes)

lemma as_memory_simps [simp]:
  "Job_Queue.priority_q (as_memory sm) = map as_job (Job_Threads.priority_q sm)"
  "Job_Queue.job_created (as_memory sm) = Job_Threads.job_created sm"
  "Job_Queue.job_completed (as_memory sm) = Job_Threads.job_completed sm"
  "Job_Queue.curr_size (as_memory sm) = Job_Threads.curr_size sm"
  by (simp_all add: as_memory_def record_makes)

lemma as_memory_update [simp]:
  "(as_memory sm)\<lparr>Job_Queue.job_completed := a\<rparr> = as_memory (sm\<lparr>Job_Threads.job_completed := a\<rparr>)"
  "(as_memory sm)\<lparr>Job_Queue.job_created := a\<rparr> = as_memory (sm\<lparr>Job_Threads.job_created := a\<rparr>)"
  by (simp_all add: as_memory_def record_makes)

lemma as_system_simps [simp]:
  "Job_System.shm (as_system r) = as_memory (Job_Threads.shm r)"
  "Job_System.producers (as_system r) = map as_producer (Job_Threads.producers r)"
  "Job_System.consumers (as_system r) = map as_consumer (Job_Threads.consumers r)"
  "Job_System.created (as_system r) = map as_job (Job_Threads.created r)"
  "Job_System.consumed (as_system r) = map as_job (Job_Threads.consumed r)"
  by (simp_all add: as_system_def record_makes)

lemma same_size [simp]: "Job_Queue.PQ_SIZE = Job_Threads.PQ_SIZE"
  by (simp add: Job_Queue.PQ_SIZE_def Job_Threads.PQ_SIZE_def)

subsection \<open>The heap\<close>

definition full :: "Job_Threads.job list \<Rightarrow> bool" where
  "full q \<longleftrightarrow> length q = nat Job_Threads.PQ_SIZE"

lemma get_same: "full q \<Longrightarrow> Job_Queue.get i (map as_job q) = res_map as_job (Job_Threads.get i q)"
  by (simp add: full_def Job_Queue.get_def Job_Threads.get_def nat_less_iff)

lemma put_same: "Job_Queue.put i (as_job x) (map as_job q) = res_map (map as_job) (Job_Threads.put i x q)"
  by (simp add: Job_Queue.put_def Job_Threads.put_def map_update)

lemma put_full: "Job_Threads.put i x q = Inr q' \<Longrightarrow> full q' = full q"
  by (auto simp: Job_Threads.put_def full_def split: if_splits)

lemma exchange_full: "Job_Threads.exchange i j q = Inr q' \<Longrightarrow> full q' = full q"
  by (auto simp: Job_Threads.exchange_def bnd_eq_Inr dest!: put_full)

lemma exchange_same:
  "full q \<Longrightarrow> Job_Queue.exchange i j (map as_job q) = res_map (map as_job) (Job_Threads.exchange i j q)"
  by (simp add: Job_Queue.exchange_def Job_Threads.exchange_def get_same put_same bnd_res_map)

lemma larger_child_same:
  "full q \<Longrightarrow> Job_Queue.larger_child sz i (map as_job q) = Job_Threads.larger_child sz i q"
  by (simp add: Job_Queue.larger_child_def Job_Threads.larger_child_def get_same bnd_res_map cong: if_cong)

lemma sift_up_same:
  "full q \<Longrightarrow> Job_Queue.sift_up i (map as_job q) = res_map (map as_job) (Job_Threads.sift_up i q)"
proof (induction i q rule: Job_Threads.sift_up.induct)
  case (1 i q)
  have rec: "Job_Queue.sift_up (i div 2) (map as_job q1) = res_map (map as_job) (Job_Threads.sift_up (i div 2) q1)"
    if "1 < i" "Job_Threads.get (i div 2) q = Inr p" "Job_Threads.get i q = Inr x"
      "Job_Threads.priority p < Job_Threads.priority x" "Job_Threads.exchange i (i div 2) q = Inr q1" for p x q1
    using "1.IH" [OF that] exchange_full [OF that(5)] "1.prems" by simp
  show ?case
    unfolding Job_Queue.sift_up.simps [of i "map as_job q"] Job_Threads.sift_up.simps [of i q]
    using "1.prems" rec by (auto simp: get_same exchange_same bnd_res_map intro!: bnd_cong)
qed

lemma sift_down_same:
  "full q \<Longrightarrow> Job_Queue.sift_down b sz i (map as_job q) = res_map (map as_job) (Job_Threads.sift_down b sz i q)"
proof (induction b sz i q rule: Job_Threads.sift_down.induct)
  case (1 b sz i q)
  have rec: "Job_Queue.sift_down b sz t (map as_job q1) = res_map (map as_job) (Job_Threads.sift_down b sz t q1)"
    if "i < b" "Job_Threads.larger_child sz i q = Inr t" "t \<noteq> i" "Job_Threads.exchange t i q = Inr q1" for t q1
    using "1.IH" [OF that] exchange_full [OF that(4)] "1.prems" by simp
  show ?case
    unfolding Job_Queue.sift_down.simps [of b sz i "map as_job q"] Job_Threads.sift_down.simps [of b sz i q]
    using "1.prems" rec by (auto simp: larger_child_same exchange_same bnd_res_map intro!: bnd_cong)
qed

lemma insert_job_same:
  "full (Job_Threads.priority_q sm) \<Longrightarrow>
    Job_Queue.insert_job (as_job j) (as_memory sm) = res_map as_memory (Job_Threads.insert_job j sm)"
  by (auto simp: Job_Queue.insert_job_def Job_Threads.insert_job_def Let_def put_same sift_up_same bnd_res_map put_full
      as_memory_def record_makes intro!: bnd_cong)

lemma remove_job_same:
  "full (Job_Threads.priority_q sm) \<Longrightarrow>
    Job_Queue.remove_job (as_memory sm) = res_map (\<lambda>(j, sm'). (as_job j, as_memory sm')) (Job_Threads.remove_job sm)"
  by (auto simp: Job_Queue.remove_job_def Job_Threads.remove_job_def Let_def get_same put_same sift_down_same bnd_res_map put_full
      as_memory_def record_makes intro!: bnd_cong)

subsection \<open>The critical sections\<close>

lemma sint_i32: "sint (word_of_int (i32 x) :: 64 word) = i32 x"
proof -
  have "- 2147483648 \<le> i32 x" "i32 x < 2147483648"
    using pos_mod_sign [of 4294967296 "x + 2147483648"] pos_mod_bound [of 4294967296 "x + 2147483648"]
    by (simp_all add: i32_def)
  then show ?thesis by (simp add: signed_of_int signed_take_bit_int_eq_self)
qed

lemma create_job_same:
  "as_job (Job_Threads.create_job (i32 (uint t)) num d1 d2 d3) = Job_Queue.create_job (i32 (uint t)) num d1 d2 d3"
  by (simp add: Job_Threads.create_job_def Job_Queue.create_job_def as_job_def record_makes sint_i32)

lemma producer_same:
  assumes "full (Job_Threads.priority_q sm)"
  shows "Job_Queue.producer_generate_job Job_Queue.insert_job (jobs sm)
      (Job_Queue.create_job (i32 (uint t)) num d1 d2 d3) (as_producer pc) (as_memory sm) =
    res_map (\<lambda>(pc', sm'). (as_producer pc', as_memory sm')) (Job_Threads.producer_generate_job t num (d1, d2, d3) pc sm)"
proof (cases pc)
  case Creating
  then show ?thesis
    by (simp add: Job_Queue.producer_generate_job_def Job_Threads.producer_generate_job_def create_job_same)
next
  case (Inserting j)
  then show ?thesis
    by (simp add: Job_Queue.producer_generate_job_def Job_Threads.producer_generate_job_def insert_job_same [OF assms] bnd_res_map)
qed (simp add: Job_Queue.producer_generate_job_def Job_Threads.producer_generate_job_def)

lemma consumer_same:
  assumes "full (Job_Threads.priority_q sm)"
  shows "Job_Queue.consumer_finish_job Job_Queue.remove_job (jobs sm) (as_consumer pc) (as_memory sm) =
    res_map (\<lambda>(x, pc', sm'). (map_option as_job x, as_consumer pc', as_memory sm')) (Job_Threads.consumer_finish_job pc sm)"
proof (cases pc)
  case Consuming
  then show ?thesis
    by (simp add: Job_Queue.consumer_finish_job_def Job_Threads.consumer_finish_job_def remove_job_same [OF assms]
        bnd_res_map split_beta)
qed (simp_all add: Job_Queue.consumer_finish_job_def Job_Threads.consumer_finish_job_def)

end
