(* ===== verification/Job_Variants.thy ===== *)
theory Job_Variants
  imports Job_Simulation
begin

section \<open>The program with threads is correct where the one with processes is\<close>

text \<open>
  The invariant of a run of \<open>Job_Threads\<close>: read as a system of processes it satisfies \<open>sys_inv\<close>, and
  the arrays of thread numbers are where the loops of \<^verbatim>\<open>main\<close> have got to. The differences to the variant
  with processes are the numbers of the threads and threads that cannot be created.
\<close>

text \<open>A job of one of the threads \<open>runs\<close>, as its \<^verbatim>\<open>int\<close> conversion records it.\<close>

definition made_by :: "(64 word \<times> int) list \<Rightarrow> Job_Threads.job \<Rightarrow> bool" where
  "made_by runs j \<longleftrightarrow> (\<exists>t. (t, Job_Threads.prod_num j) \<in> set runs \<and> thrd_id j = word_of_int (i32 (uint t)))"

definition complete :: "int \<Rightarrow> Job_Threads.run \<Rightarrow> bool" where
  "complete n r \<longleftrightarrow> Job_Threads.job_created (Job_Threads.shm r) = n \<and> Job_Threads.job_completed (Job_Threads.shm r) = n"

definition arrays_ok :: "int \<Rightarrow> int \<Rightarrow> int \<Rightarrow> Job_Threads.run \<Rightarrow> bool" where
  "arrays_ok prods cons n r =
     (let ps = prod_threads r; cs = cons_threads r; all = length ps = nat prods \<and> length cs = nat cons in
      case Job_Threads.parent r of
        Create_producer i \<Rightarrow> i = int (length ps) \<and> length ps \<le> nat prods \<and> cs = []
      | Create_consumer i \<Rightarrow> length ps = nat prods \<and> i = int (length cs) \<and> length cs \<le> nat cons
      | Job_Threads.Polling \<Rightarrow> all
      | Cancel_producers k \<Rightarrow> all \<and> complete n r \<and> k \<le> length ps \<and> None \<notin> set (take k ps)
      | Cancel_consumers k \<Rightarrow> all \<and> complete n r \<and> k \<le> length cs \<and> None \<notin> set ps \<and> None \<notin> set (take k cs)
      | Returned \<Rightarrow> all \<and> complete n r \<and> None \<notin> set ps \<and> None \<notin> set cs)"

definition present :: "'a option list \<Rightarrow> nat" where
  "present xs = length (filter (\<lambda>x. x \<noteq> None) xs)"

definition thread_inv :: "int \<Rightarrow> int \<Rightarrow> int \<Rightarrow> Job_Threads.run \<Rightarrow> bool" where
  "thread_inv prods cons n r \<longleftrightarrow> sys_inv heap_ok queued n (as_system r) \<and> jobs (Job_Threads.shm r) = n \<and>
     length (Job_Threads.producers r) = present (prod_threads r) \<and> length (prods_run r) = present (prod_threads r) \<and>
     length (Job_Threads.consumers r) = present (cons_threads r) \<and>
     (\<forall>j \<in> set (Job_Threads.created r). made_by (prods_run r) j) \<and> arrays_ok prods cons n r"

lemma present_append [simp]: "present (xs @ ys) = present xs + present ys"
  by (simp add: present_def)

lemma present_simps [simp]: "present [] = 0" "present [None] = 0" "present [Some x] = 1"
  by (simp_all add: present_def)

lemma present_all: "None \<notin> set xs \<Longrightarrow> present xs = length xs"
proof (induction xs)
  case (Cons x xs)
  then show ?case by (cases x) (simp_all add: present_def)
qed (simp add: present_def)

lemma made_by_append [simp]: "made_by runs j \<Longrightarrow> made_by (runs @ rs) j"
  by (auto simp: made_by_def)

lemma started_same: "Job_System.started (as_producer a) (as_producer b) = map as_job (Job_Threads.started a b)"
  by (cases a; cases b) (simp_all add: Job_System.started_def Job_Threads.started_def)

lemma full_good: "heap_ok (as_memory sm) \<Longrightarrow> full (Job_Threads.priority_q sm)"
  by (simp add: heap_ok_def full_def)

lemma produce_jobs:
  "Job_Threads.producer_generate_job t num rnd pc sm = Inr (pc', sm') \<Longrightarrow> jobs sm' = jobs sm"
  by (auto simp: Job_Threads.producer_generate_job_def Job_Threads.insert_job_def Let_def bnd_eq_Inr
      split: Job_Threads.producer.splits if_splits prod.splits)

lemma consume_jobs:
  "Job_Threads.consumer_finish_job pc sm = Inr (x, pc', sm') \<Longrightarrow> jobs sm' = jobs sm"
  by (auto simp: Job_Threads.consumer_finish_job_def Job_Threads.remove_job_def Let_def bnd_eq_Inr
      split: Job_Threads.consumer.splits if_splits prod.splits)

lemma thread_inv_init:
  assumes "length q = nat Job_Threads.PQ_SIZE" "0 \<le> n"
  shows "thread_inv prods cons n (Job_Threads.main_init q n)"
proof -
  let ?sm = "as_memory \<lparr>priority_q = q, job_created = 0, job_completed = 0, curr_size = 0, jobs = n\<rparr>"
  have "create_mem ?sm = ?sm" by (simp add: create_mem_def as_memory_def record_makes)
  moreover have "heap_ok (create_mem ?sm)" using assms(1) by (intro heap_ok_create) (simp add: as_memory_def record_makes)
  ultimately have "sys_inv heap_ok queued n (start ?sm 0 0)" using heap.start_inv [OF _ assms(2)] by simp
  moreover have "as_system (Job_Threads.main_init q n) = start ?sm 0 0"
    using \<open>create_mem ?sm = ?sm\<close> by (simp add: as_system_def Job_Threads.main_init_def start_def record_makes)
  ultimately show ?thesis by (simp add: thread_inv_def Job_Threads.main_init_def arrays_ok_def)
qed

text \<open>The thread's critical sections are those of a process.\<close>

lemma produce_thread:
  assumes "sys_inv heap_ok queued n (as_system r)" "jobs (Job_Threads.shm r) = n" "i < length (Job_Threads.producers r)"
  shows "\<exists>pc sm. Job_Threads.producer_generate_job t num rnd (Job_Threads.producers r ! i) (Job_Threads.shm r) = Inr (pc, sm) \<and>
    sys_inv heap_ok queued n (as_system (r\<lparr>Job_Threads.shm := sm, Job_Threads.producers := (Job_Threads.producers r)[i := pc],
      Job_Threads.created := Job_Threads.created r @ Job_Threads.started (Job_Threads.producers r ! i) pc\<rparr>))"
proof -
  obtain d1 d2 d3 where rnd: "rnd = (d1, d2, d3)" by (cases rnd)
  let ?j = "Job_Queue.create_job (i32 (uint t)) num d1 d2 d3" and ?s = "as_system r"
  have "heap_ok (as_memory (Job_Threads.shm r))" using assms(1) by (simp add: sys_inv_def)
  note same = producer_same [OF full_good [OF this], of t num d1 d2 d3 "Job_Threads.producers r ! i", unfolded assms(2)]
  have i: "i < length (Job_System.producers ?s)" using assms(3) by simp
  obtain pc0 sm0 where s0: "Job_Queue.producer_generate_job Job_Queue.insert_job n ?j (Job_System.producers ?s ! i) (Job_System.shm ?s) = Inr (pc0, sm0)"
    "sys_inv heap_ok queued n (?s\<lparr>Job_System.shm := sm0, Job_System.producers := (Job_System.producers ?s)[i := pc0],
       Job_System.created := Job_System.created ?s @ Job_System.started (Job_System.producers ?s ! i) pc0\<rparr>)"
    using heap.produce_inv [OF assms(1) i, of ?j] by (auto simp: Let_def)
  then obtain pc sm where pc: "Job_Threads.producer_generate_job t num rnd (Job_Threads.producers r ! i) (Job_Threads.shm r) = Inr (pc, sm)"
    "pc0 = as_producer pc" "sm0 = as_memory sm"
    using same assms(3) rnd
    by (cases "Job_Threads.producer_generate_job t num rnd (Job_Threads.producers r ! i) (Job_Threads.shm r)") auto
  then show ?thesis using s0(2) assms(3)
    by (auto simp: as_system_def record_makes map_update started_same)
qed

lemma consume_thread:
  assumes "sys_inv heap_ok queued n (as_system r)" "jobs (Job_Threads.shm r) = n" "i < length (Job_Threads.consumers r)"
  shows "\<exists>x pc sm. Job_Threads.consumer_finish_job (Job_Threads.consumers r ! i) (Job_Threads.shm r) = Inr (x, pc, sm) \<and>
    sys_inv heap_ok queued n (as_system (r\<lparr>Job_Threads.shm := sm, Job_Threads.consumers := (Job_Threads.consumers r)[i := pc],
      Job_Threads.consumed := Job_Threads.consumed r @ (case x of None \<Rightarrow> [] | Some j \<Rightarrow> [j])\<rparr>))"
proof -
  let ?s = "as_system r"
  have "heap_ok (as_memory (Job_Threads.shm r))" using assms(1) by (simp add: sys_inv_def)
  note same = consumer_same [OF full_good [OF this], of "Job_Threads.consumers r ! i", unfolded assms(2)]
  have i: "i < length (Job_System.consumers ?s)" using assms(3) by simp
  obtain x0 pc0 sm0 where s0: "Job_Queue.consumer_finish_job Job_Queue.remove_job n (Job_System.consumers ?s ! i) (Job_System.shm ?s) = Inr (x0, pc0, sm0)"
    "sys_inv heap_ok queued n (?s\<lparr>Job_System.shm := sm0, Job_System.consumers := (Job_System.consumers ?s)[i := pc0],
       Job_System.consumed := Job_System.consumed ?s @ (case x0 of None \<Rightarrow> [] | Some j \<Rightarrow> [j])\<rparr>)"
    using heap.consume_inv [OF assms(1) i] by (auto simp: Let_def)
  then obtain x pc sm where pc: "Job_Threads.consumer_finish_job (Job_Threads.consumers r ! i) (Job_Threads.shm r) = Inr (x, pc, sm)"
    "x0 = map_option as_job x" "pc0 = as_consumer pc" "sm0 = as_memory sm"
    using same assms(3)
    by (cases "Job_Threads.consumer_finish_job (Job_Threads.consumers r ! i) (Job_Threads.shm r)") auto
  then show ?thesis using s0(2) assms(3)
    by (cases x) (auto simp: as_system_def record_makes map_update)
qed

lemma shm_unchanged:
  assumes "sys_inv heap_ok queued n (as_system r)" "complete n r" "jobs (Job_Threads.shm r) = n"
  shows "i < length (Job_Threads.producers r) \<Longrightarrow>
      Job_Threads.producer_generate_job t num rnd (Job_Threads.producers r ! i) (Job_Threads.shm r) = Inr (pc, sm) \<Longrightarrow>
      sm = Job_Threads.shm r"
    "Job_Threads.consumer_finish_job c (Job_Threads.shm r) = Inr (x, pc', sm') \<Longrightarrow> sm' = Job_Threads.shm r"
proof -
  have chk: "parent_check n (Job_System.shm (as_system r))" using assms(2) by (simp add: parent_check_def complete_def)
  show "sm = Job_Threads.shm r"
    if i: "i < length (Job_Threads.producers r)"
      and p: "Job_Threads.producer_generate_job t num rnd (Job_Threads.producers r ! i) (Job_Threads.shm r) = Inr (pc, sm)"
  proof -
    have "held (map as_producer (Job_Threads.producers r)) = {#}" using heap.finished(2) [OF assms(1) chk] by simp
    then have "held_by (as_producer (Job_Threads.producers r ! i)) = {#}"
      using held_update [of i "map as_producer (Job_Threads.producers r)" Job_Queue.Creating] i by (simp add: held_by_def)
    then show ?thesis using p assms(2,3)
      by (cases "Job_Threads.producers r ! i") (auto simp: Job_Threads.producer_generate_job_def held_by_def complete_def)
  qed
  show "Job_Threads.consumer_finish_job c (Job_Threads.shm r) = Inr (x, pc', sm') \<Longrightarrow> sm' = Job_Threads.shm r"
    using assms(2,3)
    by (auto simp: Job_Threads.consumer_finish_job_def complete_def split: Job_Threads.consumer.splits if_splits)
qed

lemma arrays_keep:
  assumes "arrays_ok prods cons n r" "Job_Threads.parent r' = Job_Threads.parent r" "prod_threads r' = prod_threads r"
    "cons_threads r' = cons_threads r" "complete n r \<Longrightarrow> complete n r'"
  shows "arrays_ok prods cons n r'"
  using assms by (auto simp: arrays_ok_def Let_def split: Job_Threads.parent.splits)

lemma thread_inv_next:
  assumes "thread_inv prods cons n r" "Job_Threads.main_next prods cons n tid r = Inr r'"
  shows "thread_inv prods cons n r'"
proof -
  note inv = assms(1) [unfolded thread_inv_def]
  note arr = inv [THEN conjunct2, THEN conjunct2, THEN conjunct2, THEN conjunct2, THEN conjunct2, THEN conjunct2, unfolded arrays_ok_def Let_def]
  have fk: "sys_inv heap_ok queued n ((as_system r)\<lparr>Job_System.producers := Job_System.producers (as_system r) @ [Job_Queue.Creating]\<rparr>)"
    "sys_inv heap_ok queued n ((as_system r)\<lparr>Job_System.consumers := Job_System.consumers (as_system r) @ [Job_Queue.Consuming]\<rparr>)"
    using sys_inv_fork inv by blast+
  note s = as_system_def record_makes
  show ?thesis
  proof (cases "Job_Threads.parent r")
    case (Create_producer i)
    then show ?thesis using inv arr fk(1) assms(2)
      by (cases tid) (auto simp: thread_inv_def Job_Threads.main_next_def create_producer_def arrays_ok_def Let_def s
          split: if_splits)
  next
    case (Create_consumer i)
    then show ?thesis using inv arr fk(2) assms(2)
      by (cases tid) (auto simp: thread_inv_def Job_Threads.main_next_def create_consumer_def arrays_ok_def Let_def s split: if_splits)
  next
    case Polling
    then show ?thesis using inv arr assms(2)
      by (auto simp: thread_inv_def Job_Threads.main_next_def Job_Threads.poll_def arrays_ok_def Let_def complete_def s)
  next
    case (Cancel_producers i)
    then show ?thesis using inv arr assms(2)
      by (auto simp: thread_inv_def Job_Threads.main_next_def cancel_producer_def pthread_cancel_def arrays_ok_def Let_def
          complete_def s take_Suc_conv_app_nth split: if_splits option.splits)
  next
    case (Cancel_consumers i)
    then show ?thesis using inv arr assms(2)
      by (auto simp: thread_inv_def Job_Threads.main_next_def cancel_consumer_def pthread_cancel_def arrays_ok_def Let_def
          complete_def s take_Suc_conv_app_nth split: if_splits option.splits)
  qed (use assms in \<open>simp add: Job_Threads.main_next_def\<close>)
qed

lemma made_by_started:
  assumes "(t, num) \<in> set runs" "Job_Threads.producer_generate_job t num rnd pc0 sm0 = Inr (pc, sm)"
    "j \<in> set (Job_Threads.started pc0 pc)"
  shows "made_by runs j"
  using assms
  by (auto simp: Job_Threads.producer_generate_job_def Job_Threads.started_def Job_Threads.create_job_def made_by_def bnd_eq_Inr
      split: Job_Threads.producer.splits if_splits prod.splits)

lemma thread_inv_step:
  assumes "thread_step prods cons n r r'" "thread_inv prods cons n r"
  shows "thread_inv prods cons n r'"
  using assms(1)
proof cases
  case (parent tid)
  then show ?thesis using thread_inv_next [OF assms(2)] by blast
next
  case (produce i t num rnd pc sm)
  note inv = assms(2) [unfolded thread_inv_def]
  have "(t, num) \<in> set (prods_run r)" using produce(2,4) inv nth_mem [of i "prods_run r"] by simp
  note made = made_by_started [OF this produce(5)]
  have "sys_inv heap_ok queued n (as_system r')"
  proof -
    obtain pc0 sm0 where p: "Job_Threads.producer_generate_job t num rnd (Job_Threads.producers r ! i) (Job_Threads.shm r) = Inr (pc0, sm0)"
      "sys_inv heap_ok queued n (as_system (r\<lparr>Job_Threads.shm := sm0, Job_Threads.producers := (Job_Threads.producers r)[i := pc0],
        Job_Threads.created := Job_Threads.created r @ Job_Threads.started (Job_Threads.producers r ! i) pc0\<rparr>))"
      using produce_thread [of n r i t num rnd] inv produce(2) by blast
    have "pc0 = pc" "sm0 = sm" using p(1) produce(5) by simp_all
    then show ?thesis using p(2) unfolding produce(1) by (simp only:)
  qed
  moreover have "arrays_ok prods cons n r'"
  proof (rule arrays_keep [of prods cons n r])
    show "complete n r'" if c: "complete n r"
    proof -
      have "sm = Job_Threads.shm r" using shm_unchanged(1) [OF _ c _ produce(2,5)] inv by blast
      then show ?thesis using c unfolding produce(1) by (simp add: complete_def)
    qed
  qed (use inv in \<open>simp_all add: produce(1)\<close>)
  moreover have "jobs sm = n" using produce_jobs [OF produce(5)] inv by simp
  moreover have "\<forall>j \<in> set (Job_Threads.created r'). made_by (prods_run r') j"
    using inv made unfolding produce(1) by auto
  moreover have "jobs (Job_Threads.shm r') = jobs sm" "length (Job_Threads.producers r') = length (Job_Threads.producers r)"
    "prods_run r' = prods_run r" "prod_threads r' = prod_threads r" "cons_threads r' = cons_threads r"
    "Job_Threads.consumers r' = Job_Threads.consumers r"
    unfolding produce(1) by simp_all
  ultimately show ?thesis using inv unfolding thread_inv_def by (simp only: simp_thms)
next
  case (consume i x pc sm)
  note inv = assms(2) [unfolded thread_inv_def]
  have "sys_inv heap_ok queued n (as_system r')"
  proof -
    obtain x0 pc0 sm0 where p: "Job_Threads.consumer_finish_job (Job_Threads.consumers r ! i) (Job_Threads.shm r) = Inr (x0, pc0, sm0)"
      "sys_inv heap_ok queued n (as_system (r\<lparr>Job_Threads.shm := sm0, Job_Threads.consumers := (Job_Threads.consumers r)[i := pc0],
        Job_Threads.consumed := Job_Threads.consumed r @ (case x0 of None \<Rightarrow> [] | Some j \<Rightarrow> [j])\<rparr>))"
      using consume_thread [of n r i] inv consume(2) by blast
    have "x0 = x" "pc0 = pc" "sm0 = sm" using p(1) consume(4) by simp_all
    then show ?thesis using p(2) unfolding consume(1) by (simp only:)
  qed
  moreover have "arrays_ok prods cons n r'"
  proof (rule arrays_keep [of prods cons n r])
    show "complete n r'" if c: "complete n r"
    proof -
      have "sm = Job_Threads.shm r" using shm_unchanged(2) [OF _ c _ consume(4)] inv by blast
      then show ?thesis using c unfolding consume(1) by (simp add: complete_def)
    qed
  qed (use inv in \<open>simp_all add: consume(1)\<close>)
  moreover have "jobs sm = n" using consume_jobs [OF consume(4)] inv by simp
  moreover have "jobs (Job_Threads.shm r') = jobs sm" "Job_Threads.producers r' = Job_Threads.producers r"
    "prods_run r' = prods_run r" "prod_threads r' = prod_threads r" "cons_threads r' = cons_threads r"
    "length (Job_Threads.consumers r') = length (Job_Threads.consumers r)" "Job_Threads.created r' = Job_Threads.created r"
    unfolding consume(1) by simp_all
  ultimately show ?thesis using inv unfolding thread_inv_def by simp
qed

lemma thread_reachable_inv:
  assumes "(thread_step prods cons n)\<^sup>*\<^sup>* (Job_Threads.main_init q n) r"
    "length q = nat Job_Threads.PQ_SIZE" "0 \<le> n"
  shows "thread_inv prods cons n r"
  using assms(1) by induction (use thread_inv_init [OF assms(2,3)] thread_inv_step in blast)+

subsection \<open>What the threads do\<close>

lemma inj_as_job: "inj as_job"
proof (rule injI)
  fix x y assume "as_job x = as_job y"
  then show "x = y" by (cases x; cases y) (simp add: as_job_def record_makes signed_word_eqI)
qed

lemma mset_as_job: "mset (map as_job xs) = mset (map as_job ys) \<Longrightarrow> mset xs = mset ys"
  using multiset.inj_map [OF inj_as_job] by (simp add: inj_eq)

text \<open>
  C16: The two programs of Assignment 5 do the same: on any array of the right length, with any counters, inserting
  a job, removing one, and every critical section of a producer and a consumer give the same result
  in both variants, errors included, up to the type of the number that names the producer.
\<close>
theorem variants_agree:
  assumes "length (Job_Threads.priority_q sm) = nat Job_Threads.PQ_SIZE"
  shows "Job_Queue.insert_job (as_job j) (as_memory sm) = res_map as_memory (Job_Threads.insert_job j sm) \<and>
    Job_Queue.remove_job (as_memory sm) = res_map (\<lambda>(x, sm'). (as_job x, as_memory sm')) (Job_Threads.remove_job sm) \<and>
    Job_Queue.producer_generate_job Job_Queue.insert_job (jobs sm) (Job_Queue.create_job (i32 (uint t)) num d1 d2 d3)
        (as_producer pr) (as_memory sm) =
      res_map (\<lambda>(pc, sm'). (as_producer pc, as_memory sm')) (Job_Threads.producer_generate_job t num (d1, d2, d3) pr sm) \<and>
    Job_Queue.consumer_finish_job Job_Queue.remove_job (jobs sm) (as_consumer co) (as_memory sm) =
      res_map (\<lambda>(x, pc, sm'). (map_option as_job x, as_consumer pc, as_memory sm')) (Job_Threads.consumer_finish_job co sm)"
  using assms insert_job_same [of sm j] remove_job_same [of sm] producer_same [of sm t num d1 d2 d3 pr]
    consumer_same [of sm co] by (simp add: full_def)

text \<open>
  C17: The program with threads refines the same bounded priority queue and loses no job. However its threads are
  interleaved and whichever of them cannot be created: the array is a heap, every job created is
  consumed, queued or held by one producer, no critical section anybody can enter next leaves the
  array, and when \<^verbatim>\<open>main\<close> returns all the threads exist that were asked for, exactly the requested jobs
  have been created and each of them has been consumed.
\<close>
theorem thread_jobs_conserved:
  assumes "length q = nat Job_Threads.PQ_SIZE" "0 \<le> n"
    "(thread_step prods cons n)\<^sup>*\<^sup>* (Job_Threads.main_init q n) r"
  shows "heap_ok (as_memory (Job_Threads.shm r)) \<and> Job_Threads.job_created (Job_Threads.shm r) \<le> n \<and>
    mset (map as_job (Job_Threads.created r)) = mset (map as_job (Job_Threads.consumed r)) +
      queued (as_memory (Job_Threads.shm r)) + held (map as_producer (Job_Threads.producers r)) \<and>
    (\<forall>i < length (Job_Threads.producers r). \<forall>t num rnd.
      ok (Job_Threads.producer_generate_job t num rnd (Job_Threads.producers r ! i) (Job_Threads.shm r))) \<and>
    (\<forall>i < length (Job_Threads.consumers r).
      ok (Job_Threads.consumer_finish_job (Job_Threads.consumers r ! i) (Job_Threads.shm r))) \<and>
    (Job_Threads.parent r = Returned \<longrightarrow>
      length (Job_Threads.producers r) = nat prods \<and> length (Job_Threads.consumers r) = nat cons \<and>
      mset (Job_Threads.consumed r) = mset (Job_Threads.created r) \<and> int (length (Job_Threads.consumed r)) = n)"
proof -
  note inv = thread_reachable_inv [OF assms(3,1,2), unfolded thread_inv_def]
  have s: "sys_inv heap_ok queued n (as_system r)" and j: "jobs (Job_Threads.shm r) = n" using inv by blast+
  have "ok (Job_Threads.producer_generate_job t num rnd (Job_Threads.producers r ! i) (Job_Threads.shm r))"
    if "i < length (Job_Threads.producers r)" for i t num rnd
    using produce_thread [OF s j that, of t num rnd] by (auto simp: ok_iff)
  moreover have "ok (Job_Threads.consumer_finish_job (Job_Threads.consumers r ! i) (Job_Threads.shm r))"
    if "i < length (Job_Threads.consumers r)" for i
    using consume_thread [OF s j that] by (auto simp: ok_iff)
  moreover have "length (Job_Threads.producers r) = nat prods \<and> length (Job_Threads.consumers r) = nat cons \<and>
      mset (Job_Threads.consumed r) = mset (Job_Threads.created r) \<and> int (length (Job_Threads.consumed r)) = n"
    if "Job_Threads.parent r = Returned"
  proof -
    have arr: "length (prod_threads r) = nat prods" "length (cons_threads r) = nat cons" "complete n r"
      "None \<notin> set (prod_threads r)" "None \<notin> set (cons_threads r)"
      using inv that by (simp_all add: arrays_ok_def Let_def)
    have "parent_check n (Job_System.shm (as_system r))" using arr(3) by (simp add: complete_def parent_check_def)
    note fin = heap.finished(3,4) [OF s this]
    have "mset (Job_Threads.consumed r) = mset (Job_Threads.created r)"
      by (rule mset_as_job) (use fin(1) in simp)
    then show ?thesis using fin(2) inv present_all [OF arr(4)] present_all [OF arr(5)] arr(1,2) by simp
  qed
  ultimately show ?thesis using s by (simp add: sys_inv_def)
qed

lemma wrap_signed: "- 2147483648 \<le> x \<Longrightarrow> x < 2147483648 \<Longrightarrow>
    x mod 18446744073709551616 = (if 0 \<le> x then x else x + 18446744073709551616)" for x :: int
  using mod_add_self2 [of x 18446744073709551616] mod_pos_pos_trivial [of "x + 18446744073709551616" 18446744073709551616]
  by auto

lemma i32_kept:
  fixes u :: int
  assumes "0 \<le> u" "u < 18446744073709551616"
  shows "i32 u mod 18446744073709551616 = u \<longleftrightarrow> u < 2147483648 \<or> 18446744071562067968 \<le> u"
proof -
  have r: "- 2147483648 \<le> i32 u" "i32 u < 2147483648"
    using pos_mod_sign [of 4294967296 "u + 2147483648"] pos_mod_bound [of 4294967296 "u + 2147483648"]
    by (simp_all add: i32_def)
  have "i32 u = u" if "u < 2147483648"
    using that assms(1) mod_pos_pos_trivial [of "u + 2147483648" 4294967296] by (simp add: i32_def)
  moreover have "i32 u = u - 18446744073709551616" if "18446744071562067968 \<le> u"
  proof -
    let ?v = "u - 18446744071562067968"
    have "(u + 2147483648) mod 4294967296 = (?v + 4294967296 * 4294967296) mod 4294967296" by (simp add: add.commute)
    also have "\<dots> = ?v mod 4294967296" by (rule mod_mult_self2)
    also have "\<dots> = ?v" using that assms(2) by (intro mod_pos_pos_trivial) simp_all
    finally show ?thesis by (simp add: i32_def)
  qed
  ultimately show ?thesis using wrap_signed [OF r] r assms by auto
qed

lemma id_kept:
  fixes t :: "64 word"
  shows "word_of_int (i32 (uint t)) = t \<longleftrightarrow> uint t < 2 ^ 31 \<or> 2 ^ 64 - 2 ^ 31 \<le> uint t"
proof -
  have "word_of_int x = t \<longleftrightarrow> x mod 18446744073709551616 = uint t" for x
    by (simp add: word_uint_eq_iff uint_word_of_int)
  then show ?thesis using i32_kept [of "uint t"] uint_ge_0 [of t] uint_bounded [of t] by simp
qed

text \<open>
  A job forgets which thread made it. The number of a thread has 64 bits and goes through an \<^verbatim>\<open>int\<close> parameter
  on its way into the job: of every job ever created, the number it holds is that of the producer
  that made it exactly if that number is below \<open>2 ^ 31\<close> or among the last \<open>2 ^ 31\<close>, and what a consumer
  prints is another number than what the producer printed in all other cases.
\<close>
theorem thread_ids_truncated:
  assumes "length q = nat Job_Threads.PQ_SIZE" "0 \<le> n"
    "(thread_step prods cons n)\<^sup>*\<^sup>* (Job_Threads.main_init q n) r" "j \<in> set (Job_Threads.created r)"
  shows "\<exists>t. (t, Job_Threads.prod_num j) \<in> set (prods_run r) \<and>
    (thrd_id j = t \<longleftrightarrow> uint t < 2 ^ 31 \<or> 2 ^ 64 - 2 ^ 31 \<le> uint t)"
proof -
  have "made_by (prods_run r) j"
    using thread_reachable_inv [OF assms(3,1,2)] assms(4) by (simp add: thread_inv_def)
  then obtain t where "(t, Job_Threads.prod_num j) \<in> set (prods_run r)" "thrd_id j = word_of_int (i32 (uint t))"
    by (auto simp: made_by_def)
  then show ?thesis using id_kept [of t] by auto
qed

text \<open>If a thread could not be created, cancelling it uses an element of the array that was never written.\<close>

lemma cancel_of_failed_thread:
  "Job_Threads.parent r = Cancel_producers i \<Longrightarrow> int i < prods \<Longrightarrow> prod_threads r ! i = None \<Longrightarrow>
    Job_Threads.main_next prods cons n tid r = Inl Uninitialized"
  by (simp add: Job_Threads.main_next_def cancel_producer_def pthread_cancel_def)

subsection \<open>Examples\<close>

text \<open>One producer, whose number is that of a thread on a 64-bit machine, one consumer and one job.\<close>

definition thread_job :: "int \<Rightarrow> Job_Threads.job" where
  "thread_job p = Job_Threads.create_job (i32 (uint (0x7F12345678C0 :: 64 word))) 1 p p 2"

definition thread_memory :: "Job_Threads.job list \<Rightarrow> int \<Rightarrow> int \<Rightarrow> int \<Rightarrow> Job_Threads.shared_memory" where
  "thread_memory q made finished k = \<lparr>priority_q = q, job_created = made, job_completed = finished, curr_size = k, jobs = 1\<rparr>"

definition thread_run ::
  "Job_Threads.shared_memory \<Rightarrow> Job_Threads.producer \<Rightarrow> Job_Threads.consumer \<Rightarrow> Job_Threads.parent \<Rightarrow>
   Job_Threads.job list \<Rightarrow> Job_Threads.job list \<Rightarrow> Job_Threads.run" where
  "thread_run sm pr co pa js ds = \<lparr>shm = sm, producers = [pr], consumers = [co], prods_run = [(0x7F12345678C0, 1)],
     parent = pa, prod_threads = [Some 0x7F12345678C0], cons_threads = [Some 0x7F1234567900], created = js, consumed = ds\<rparr>"

lemma main_steps:
  assumes "(thread_step p c n)\<^sup>*\<^sup>* r0 r" "Job_Threads.main_next p c n tid r = Inr r'"
  shows "(thread_step p c n)\<^sup>*\<^sup>* r0 r'"
  using assms thread_step.parent rtranclp.rtrancl_into_rtrancl by metis

lemmas thread_main_defs = Job_Threads.main_next_def create_producer_def create_consumer_def Job_Threads.poll_def
  cancel_producer_def cancel_consumer_def pthread_cancel_def thread_run_def thread_memory_def Job_Threads.main_init_def

definition empty_array :: "Job_Threads.job list" where "empty_array = replicate 8 (thread_job 1)"

definition thread_finished :: Job_Threads.run where
  "thread_finished = thread_run (thread_memory (empty_array[1 := thread_job 3]) 1 1 0) Job_Threads.Creating
     (Job_Threads.Computing 2) Returned [thread_job 3] [thread_job 3]"

lemma comp_time_thread [simp]: "Job_Threads.comp_time (thread_job p) = 2"
  by (simp add: thread_job_def Job_Threads.create_job_def)

lemma empty_array_length: "length empty_array = nat Job_Threads.PQ_SIZE"
  by (simp add: empty_array_def Job_Threads.PQ_SIZE_def)

lemma thread_finished_run: "(thread_step 1 1 1)\<^sup>*\<^sup>* (Job_Threads.main_init empty_array 1) thread_finished"
proof -
  let ?m = "Job_Threads.main_init empty_array 1" and ?n = "thread_step 1 1 1"
  let ?a = "thread_run (thread_memory empty_array 0 0 0) Job_Threads.Creating Job_Threads.Consuming"
  let ?b = "thread_run (thread_memory empty_array 1 0 0) (Job_Threads.Inserting (thread_job 3)) Job_Threads.Consuming"
  let ?c = "thread_run (thread_memory (empty_array[1 := thread_job 3]) 1 0 1) Job_Threads.Creating Job_Threads.Consuming"
  let ?d = "thread_run (thread_memory (empty_array[1 := thread_job 3]) 1 1 0) Job_Threads.Creating (Job_Threads.Computing 2)"
  let ?j = "[thread_job 3]"
  let ?one = "(?a (Create_producer 1) [] [])\<lparr>Job_Threads.consumers := [], cons_threads := []\<rparr>"
  have "?n\<^sup>*\<^sup>* ?m ?one"
    by (rule main_steps [OF rtranclp.rtrancl_refl, of _ _ _ "Some 0x7F12345678C0"]) (simp add: thread_main_defs)
  then have "?n\<^sup>*\<^sup>* ?m (?one\<lparr>Job_Threads.parent := Create_consumer 0\<rparr>)"
    by (rule main_steps [where tid = None]) (simp add: thread_main_defs)
  then have "?n\<^sup>*\<^sup>* ?m (?a (Create_consumer 1) [] [])"
    by (rule main_steps [where tid = "Some 0x7F1234567900"]) (simp add: thread_main_defs)
  then have "?n\<^sup>*\<^sup>* ?m (?a Job_Threads.Polling [] [])"
    by (rule main_steps [where tid = None]) (simp add: thread_main_defs)
  also have "?n (?a Job_Threads.Polling [] []) (?b Job_Threads.Polling ?j [])"
    using thread_step.produce [of 0 "?a Job_Threads.Polling [] []" "0x7F12345678C0" 1 "(3, 3, 2)"
        "Job_Threads.Inserting (thread_job 3)" "thread_memory empty_array 1 0 0" 1 1 1]
    by (simp add: thread_run_def thread_memory_def Job_Threads.producer_generate_job_def Job_Threads.started_def
        Job_Threads.PQ_SIZE_def thread_job_def)
  also have "?n (?b Job_Threads.Polling ?j []) (?c Job_Threads.Polling ?j [])"
    using thread_step.produce [of 0 "?b Job_Threads.Polling ?j []" "0x7F12345678C0" 1 "(3, 3, 2)"
        Job_Threads.Creating "thread_memory (empty_array[1 := thread_job 3]) 1 0 1" 1 1 1]
    by (simp add: thread_run_def thread_memory_def Job_Threads.producer_generate_job_def Job_Threads.started_def
        Job_Threads.PQ_SIZE_def Job_Threads.insert_job_def Job_Threads.put_def Let_def)
  also have "?n (?c Job_Threads.Polling ?j []) (?d Job_Threads.Polling ?j ?j)"
    using thread_step.consume [of 0 "?c Job_Threads.Polling ?j []" "Some (thread_job 3)"
        "Job_Threads.Computing 2" "thread_memory (empty_array[1 := thread_job 3]) 1 1 0" 1 1 1]
    by (simp add: thread_run_def thread_memory_def Job_Threads.consumer_finish_job_def Job_Threads.PQ_SIZE_def
        Job_Threads.remove_job_def Job_Threads.get_def Let_def empty_array_def)
  finally have "?n\<^sup>*\<^sup>* ?m (?d Job_Threads.Polling ?j ?j)" .
  then have "?n\<^sup>*\<^sup>* ?m (?d (Cancel_producers 0) ?j ?j)"
    by (rule main_steps [where tid = None]) (simp add: thread_main_defs)
  then have "?n\<^sup>*\<^sup>* ?m (?d (Cancel_producers 1) ?j ?j)"
    by (rule main_steps [where tid = None]) (simp add: thread_main_defs)
  then have "?n\<^sup>*\<^sup>* ?m (?d (Cancel_consumers 0) ?j ?j)"
    by (rule main_steps [where tid = None]) (simp add: thread_main_defs)
  then have "?n\<^sup>*\<^sup>* ?m (?d (Cancel_consumers 1) ?j ?j)"
    by (rule main_steps [where tid = None]) (simp add: thread_main_defs)
  then show ?thesis unfolding thread_finished_def
    by (rule main_steps [where tid = None]) (simp add: thread_main_defs)
qed

theorem variants_agree_witness:
  "Job_Queue.insert_job (as_job (thread_job 3)) (as_memory (thread_memory empty_array 1 0 0)) =
     res_map as_memory (Job_Threads.insert_job (thread_job 3) (thread_memory empty_array 1 0 0))"
  using variants_agree [of "thread_memory empty_array 1 0 0" "thread_job 3"] empty_array_length
  by (simp add: thread_memory_def)

theorem thread_jobs_conserved_witness:
  "mset (Job_Threads.consumed thread_finished) = mset (Job_Threads.created thread_finished) \<and>
   int (length (Job_Threads.consumed thread_finished)) = 1"
  using thread_jobs_conserved [OF empty_array_length _ thread_finished_run]
  by (simp add: thread_finished_def thread_run_def)

theorem thread_ids_truncated_witness: "thrd_id (thread_job 3) \<noteq> 0x7F12345678C0"
  using thread_ids_truncated [OF empty_array_length _ thread_finished_run, of "thread_job 3"]
  by (simp add: thread_finished_def thread_run_def)

end
