(* ===== verification/Base_Processes.thy ===== *)
theory Base_Processes
  imports Base_Threads Syscalls
begin

section \<open>Processes and system calls (Assignment 6.1)\<close>

text \<open>
  \<^verbatim>\<open>Assignment_6_1/.../process.c\<close> and \<^verbatim>\<open>syscall.c\<close>: executing a program, the \<^verbatim>\<open>process_wait\<close> that polls, \<^verbatim>\<open>exit\<close> and
  \<^verbatim>\<open>exec\<close>, and the three system calls there are. \<open>exec_env\<close>, \<open>dev\<close> and \<open>intr_frame\<close> are those of Assignment 6.2, and so is
  \<open>load\<close>: the \<^verbatim>\<open>load\<close> of 6.1 holds \<^verbatim>\<open>file_lock\<close> from its first to its last line, and \<open>Base_Loading\<close> shows that under
  the lock it is one step, with the outcome of the one of 6.2. \<^verbatim>\<open>stdout_lock\<close>, held during one \<^verbatim>\<open>putbuf\<close>, is left out.
\<close>

subsection \<open>Processes\<close>

definition process_execute ::
  "('f, 'fs) api \<Rightarrow> exec_env \<Rightarrow> string \<Rightarrow> ('f, 'fs) kernel \<Rightarrow> (int \<times> ('f, 'fs) kernel) result" where
  "process_execute api env file_name k =
     (if \<not> env_name_ok env then Inl Null_deref
      else
        let tok = strtok_r '' '' (strlcpy file_name (length file_name + 1)) in
        if env_fn_page env = 0 then Inr (TID_ERROR, k)
        else
          let k1 = k\<lparr>cmd_pages := (cmd_pages k)(env_fn_page env \<mapsto> strlcpy file_name 4096)\<rparr> in
          bnd (thread_create api (env_thread_page env) (env_child_ok env)
                (map_option (\<lambda>(skip, name, rest). name) tok) PRI_DEFAULT (api_start_process api)
                (env_fn_page env) k1) (\<lambda>(t, k2).
          if (case tok of Some (skip, name, rest) \<Rightarrow> skip \<noteq> 0 | None \<Rightarrow> False) then Inl Bad_free
          else if t = TID_ERROR
          then Inr (t, k2\<lparr>cmd_pages := (cmd_pages k2)(env_fn_page env := None)\<rparr>)
          else Inr (t, k2)))"

definition start_process ::
  "('f, 'fs) api \<Rightarrow> 'f sys \<Rightarrow> 'f image \<Rightarrow> ('f, 'fs) kernel \<Rightarrow>
   ((32 word \<times> 32 word) option \<times> ('f, 'fs) kernel) result" where
  "start_process api sys im k =
     bnd (thread_current k) (\<lambda>cur.
     bnd (thread_at k cur) (\<lambda>th.
     (case cmd_pages k (start_aux th) of
        None \<Rightarrow> Inl Bad_pointer
      | Some file_name \<Rightarrow>
          bnd (load sys file_name im) (\<lambda>r.
          let (success, entry, k1) =
                (case r of
                   Load_failed im' \<Rightarrow>
                     (False, None,
                      (if pagedir_create_ok sys
                       then (upd_thread cur (\<lambda>th. th\<lparr>pagedir := Some (space im')\<rparr>) k)
                              \<lparr>active_pagedir := Some (space im')\<rparr> else k)
                        \<lparr>fs := load_effects api im im' (fs k)\<rparr>)
                 | Load_succeeded eip sp im' \<Rightarrow>
                     (True, Some (eip, sp),
                      (upd_thread cur (\<lambda>th. th\<lparr>pagedir := Some (space im'),
                        exec_file := loaded_file im'\<rparr>) k)
                        \<lparr>active_pagedir := Some (space im'), fs := load_effects api im im' (fs k)\<rparr>)) in
          bnd (if parent th \<noteq> 0 then
                 bnd (find_child k1 (parent th) (tid th)) (\<lambda>c.
                 Inr (upd_child (parent th) (tid th) (\<lambda>c. c\<lparr>load_status := success\<rparr>) k1))
               else Inr k1) (\<lambda>k2.
          bnd (sema_up api cur k2) (\<lambda>k3.
          let k4 = k3\<lparr>cmd_pages := (cmd_pages k3)(start_aux th := None)\<rparr> in
          if \<not> success then bnd (thread_exit api k4) (\<lambda>k5. Inr (None, k5))
          else Inr (entry, k4)))))))"

text \<open>
  \<open>process_wait\<close> polls the child's entry without giving up the processor, so what it sees changes only
  when a timer interrupt lets others run: \<open>ks i\<close> is the kernel at its \<open>i\<close>-th test, and the state at the first
  one is that of the call. \<^verbatim>\<open>child\<close> is looked up once; only the polling thread changes the list it is
  in, so the pointer and the entry with that tid stay the same. \<open>None\<close> is a loop that never ends.
\<close>

definition wait_test :: "tptr \<Rightarrow> int \<Rightarrow> ('f, 'fs) kernel \<Rightarrow> int option result" where
  "wait_test cur t k =
     bnd (find_child k cur t) (\<lambda>child. Inr (if cur_status child \<noteq> ALIVE then Some (exit_status child) else None))"

partial_function (option) wait_loop ::
  "(nat \<Rightarrow> ('f, 'fs) kernel) \<Rightarrow> tptr \<Rightarrow> int \<Rightarrow> nat \<Rightarrow> int result option" where
  "wait_loop ks cur t i =
     (case wait_test cur t (ks i) of
        Inl e \<Rightarrow> Some (Inl e)
      | Inr (Some st) \<Rightarrow> Some (Inr st)
      | Inr None \<Rightarrow> wait_loop ks cur t (Suc i))"

definition process_wait :: "(nat \<Rightarrow> ('f, 'fs) kernel) \<Rightarrow> int \<Rightarrow> int result option" where
  "process_wait ks t =
     (case thread_current (ks 0) of Inl e \<Rightarrow> Some (Inl e) | Inr cur \<Rightarrow> wait_loop ks cur t 0)"

definition exit :: "('f, 'fs) api \<Rightarrow> int \<Rightarrow> ('f, 'fs) kernel \<Rightarrow> ('f, 'fs) kernel result" where
  "exit api st k =
     bnd (thread_current k) (\<lambda>cur.
     bnd (thread_at k cur) (\<lambda>th.
     let k1 = k\<lparr>console := console k @ [(tname th, st)]\<rparr> in
     bnd (find_child k1 (parent th) (tid th)) (\<lambda>c.
     let k2 = upd_child (parent th) (tid th) (\<lambda>c. c\<lparr>exit_status := st,
                cur_status := (if st = - 1 then KILLED else EXITED)\<rparr>) k1 in
     thread_exit api k2)))"

definition exec_resume ::
  "('f, 'fs) api \<Rightarrow> int \<Rightarrow> ('f, 'fs) kernel \<Rightarrow> (int option \<times> ('f, 'fs) kernel) result" where
  "exec_resume api pid k =
     bnd (thread_current k) (\<lambda>cur.
     bnd (find_child k cur pid) (\<lambda>c.
     bnd (sema_down api (child_thread c) k) (\<lambda>(taken, k1).
     if taken then
       bnd (find_child k1 cur pid) (\<lambda>c.
       Inr (Some (if \<not> load_status c then - 1 else pid), k1))
     else Inr (None, k1))))"

definition exec ::
  "('f, 'fs) api \<Rightarrow> exec_env \<Rightarrow> string \<Rightarrow> ('f, 'fs) kernel \<Rightarrow> (int option \<times> ('f, 'fs) kernel) result" where
  "exec api env cmd_line k =
     bnd (process_execute api env cmd_line k) (\<lambda>(pid, k1). exec_resume api pid k1)"

subsection \<open>System calls\<close>

datatype ('f, 'fs) outcome =
    Returned intr_frame "('f, 'fs) kernel"
  | Ended "('f, 'fs) kernel"
  | Sleeps_in_exec int "('f, 'fs) kernel"

definition user_memory :: "('f, 'fs) kernel \<Rightarrow> umem" where
  "user_memory k = (case active_pagedir k of None \<Rightarrow> (\<lambda>_. None) | Some m \<Rightarrow> m)"

definition user_string :: "32 word \<Rightarrow> ('f, 'fs) kernel \<Rightarrow> string result" where
  "user_string a k = bnd (string_at (2 ^ 32) (user_memory k) a) (\<lambda>bs. Inr (map (\<lambda>b. char_of (unat b)) bs))"

definition load_int :: "32 word \<Rightarrow> ('f, 'fs) kernel \<Rightarrow> int result" where
  "load_int a k = bnd (load32 (user_memory k) a) (\<lambda>w. Inr (sint w))"

definition check_valid_ptr ::
  "('f, 'fs) api \<Rightarrow> ('f, 'fs) dev \<Rightarrow> 32 word \<Rightarrow> ('f, 'fs) kernel \<Rightarrow> ('f, 'fs) kernel option result" where
  "check_valid_ptr api dev pointer k =
     (if \<not> is_user_vaddr (machine dev) pointer then bnd (exit api (- 1) k) (\<lambda>k'. Inr (Some k'))
      else
        bnd (thread_current k) (\<lambda>cur.
        bnd (thread_at k cur) (\<lambda>th.
        (case pagedir th of
           None \<Rightarrow> Inl Assertion_failed
         | Some m \<Rightarrow>
             if m pointer = None then bnd (exit api (- 1) k) (\<lambda>k'. Inr (Some k'))
             else Inr None))))"

definition checked ::
  "('f, 'fs) api \<Rightarrow> ('f, 'fs) dev \<Rightarrow> 32 word \<Rightarrow> ('f, 'fs) kernel \<Rightarrow> ('f, 'fs) outcome result \<Rightarrow>
   ('f, 'fs) outcome result" where
  "checked api dev pointer k rest =
     bnd (check_valid_ptr api dev pointer k) (\<lambda>r.
     (case r of Some k' \<Rightarrow> Inr (Ended k') | None \<Rightarrow> rest))"

definition ret :: "intr_frame \<Rightarrow> int \<Rightarrow> ('f, 'fs) kernel \<Rightarrow> ('f, 'fs) outcome" where
  "ret f v k = Returned (f\<lparr>eax := word_of_int v\<rparr>) k"

definition write_buffer ::
  "('f, 'fs) dev \<Rightarrow> int \<Rightarrow> 32 word \<Rightarrow> 32 word \<Rightarrow> ('f, 'fs) kernel \<Rightarrow> (int \<times> ('f, 'fs) kernel) result" where
  "write_buffer dev n buffer sz k =
     (if n = 1 then
        bnd (load_bytes (unat sz) (user_memory k) buffer) (\<lambda>bs.
        Inr (sint sz, k\<lparr>fs := putbuf dev bs (fs k)\<rparr>))
      else Inr (- 1, k))"

definition handle_exec_exit ::
  "('f, 'fs) api \<Rightarrow> ('f, 'fs) dev \<Rightarrow> exec_env \<Rightarrow> intr_frame \<Rightarrow> int \<Rightarrow> 32 word \<Rightarrow> ('f, 'fs) kernel \<Rightarrow>
   ('f, 'fs) outcome result" where
  "handle_exec_exit api dev env f syscall_number args k =
     bnd (load_int args k) (\<lambda>argv.
     if syscall_number = SYS_EXIT dev then bnd (exit api argv k) (\<lambda>k'. Inr (Ended k'))
     else if syscall_number = SYS_EXEC dev then
       checked api dev (word_of_int argv) k (
       bnd (user_string (word_of_int argv) k) (\<lambda>cmd_line.
       bnd (process_execute api env cmd_line k) (\<lambda>(pid, k1).
       bnd (exec_resume api pid k1) (\<lambda>(r, k2).
       Inr (case r of Some v \<Rightarrow> ret f v k2 | None \<Rightarrow> Sleeps_in_exec pid k2)))))
     else Inr (Returned f k))"

definition handle_write ::
  "('f, 'fs) api \<Rightarrow> ('f, 'fs) dev \<Rightarrow> intr_frame \<Rightarrow> int \<Rightarrow> 32 word \<Rightarrow> ('f, 'fs) kernel \<Rightarrow> ('f, 'fs) outcome result" where
  "handle_write api dev f number args k =
     bnd (load_int args k) (\<lambda>fd.
     bnd (load_int (args + 4) k) (\<lambda>buffer.
     bnd (load_int (args + 8) k) (\<lambda>sz.
     checked api dev (word_of_int buffer) k (
     checked api dev (word_of_int buffer + word_of_int sz) k (
     if number = SYS_WRITE dev
     then bnd (write_buffer dev fd (word_of_int buffer) (word_of_int sz) k) (\<lambda>(v, k1). Inr (ret f v k1))
     else Inr (Returned f k))))))"

definition syscall_handler ::
  "('f, 'fs) api \<Rightarrow> ('f, 'fs) dev \<Rightarrow> exec_env \<Rightarrow> intr_frame \<Rightarrow> ('f, 'fs) kernel \<Rightarrow> ('f, 'fs) outcome result" where
  "syscall_handler api dev env f k =
     checked api dev (esp f) k (
     bnd (load_int (esp f) k) (\<lambda>syscall_number.
     let args = esp f + 4 in
     checked api dev args k (
     if syscall_number = SYS_EXIT dev \<or> syscall_number = SYS_EXEC dev
     then handle_exec_exit api dev env f syscall_number args k
     else if syscall_number = SYS_WRITE dev then handle_write api dev f (SYS_WRITE dev) args k
     else bnd (exit api (- 1) k) (\<lambda>k'. Inr (Ended k')))))"

end
