(* ===== verification/Base_Simulation.thy ===== *)
theory Base_Simulation
  imports Base_Processes Process_Protocol
begin

section \<open>Assignment 6.2 extends 6.1\<close>

text \<open>
  \<open>base\<close> forgets what Assignment 6.2 added to the state: the open files, the semaphore for the end of a
  process, and whether a child has been waited for. The operations of 6.1 on the state that is left
  give what those of 6.2 give, errors included; \<open>lift\<close> goes back, with none of the additions in use, so
  that what is proved of 6.2 can be used for 6.1.
\<close>

definition base_child :: "User_Threads.child_element \<Rightarrow> child_element" where
  "base_child c = \<lparr>child_thread = User_Threads.child_thread c, child_pid = User_Threads.child_pid c,
     load_status = User_Threads.load_status c, cur_status = User_Threads.cur_status c,
     exit_status = User_Threads.exit_status c\<rparr>"

definition base_thread :: "'f User_Threads.thread \<Rightarrow> 'f thread" where
  "base_thread th = \<lparr>tid = User_Threads.tid th, status = User_Threads.status th, tname = User_Threads.tname th,
     stack = User_Threads.stack th, priority = User_Threads.priority th, exec_file = User_Threads.exec_file th,
     wait_load = User_Threads.wait_load th, child_list = map base_child (User_Threads.child_list th),
     parent = User_Threads.parent th, pagedir = User_Threads.pagedir th, magic = User_Threads.magic th,
     start_function = User_Threads.start_function th, start_aux = User_Threads.start_aux th,
     resume_level = User_Threads.resume_level th\<rparr>"

definition base :: "('f, 'fs) User_Threads.kernel \<Rightarrow> ('f, 'fs) kernel" where
  "base k = \<lparr>pages = (\<lambda>t. map_option base_thread (User_Threads.pages k t)), ready_list = User_Threads.ready_list k,
     all_list = User_Threads.all_list k, idle_thread = User_Threads.idle_thread k,
     initial_thread = User_Threads.initial_thread k, running = User_Threads.running k,
     idle_ticks = User_Threads.idle_ticks k, kernel_ticks = User_Threads.kernel_ticks k,
     user_ticks = User_Threads.user_ticks k, thread_ticks = User_Threads.thread_ticks k,
     next_tid = User_Threads.next_tid k, intr = User_Threads.intr k, in_interrupt = User_Threads.in_interrupt k,
     yield_on_return = User_Threads.yield_on_return k, active_pagedir = User_Threads.active_pagedir k,
     cmd_pages = User_Threads.cmd_pages k, fs = User_Threads.fs k, console = User_Threads.console k\<rparr>"

lemma base_child_fields [simp]:
  "child_thread (base_child c) = User_Threads.child_thread c" "child_pid (base_child c) = User_Threads.child_pid c"
  "load_status (base_child c) = User_Threads.load_status c" "cur_status (base_child c) = User_Threads.cur_status c"
  "exit_status (base_child c) = User_Threads.exit_status c"
  by (simp_all add: base_child_def)

lemma base_thread_fields [simp]:
  "tid (base_thread th) = User_Threads.tid th" "status (base_thread th) = User_Threads.status th"
  "tname (base_thread th) = User_Threads.tname th" "stack (base_thread th) = User_Threads.stack th"
  "priority (base_thread th) = User_Threads.priority th" "exec_file (base_thread th) = User_Threads.exec_file th"
  "wait_load (base_thread th) = User_Threads.wait_load th"
  "child_list (base_thread th) = map base_child (User_Threads.child_list th)"
  "parent (base_thread th) = User_Threads.parent th" "pagedir (base_thread th) = User_Threads.pagedir th"
  "magic (base_thread th) = User_Threads.magic th" "start_function (base_thread th) = User_Threads.start_function th"
  "start_aux (base_thread th) = User_Threads.start_aux th" "resume_level (base_thread th) = User_Threads.resume_level th"
  by (simp_all add: base_thread_def)

lemma base_fields [simp]:
  "pages (base k) t = map_option base_thread (User_Threads.pages k t)" "ready_list (base k) = User_Threads.ready_list k"
  "all_list (base k) = User_Threads.all_list k" "idle_thread (base k) = User_Threads.idle_thread k"
  "initial_thread (base k) = User_Threads.initial_thread k" "running (base k) = User_Threads.running k"
  "idle_ticks (base k) = User_Threads.idle_ticks k" "kernel_ticks (base k) = User_Threads.kernel_ticks k"
  "user_ticks (base k) = User_Threads.user_ticks k" "thread_ticks (base k) = User_Threads.thread_ticks k"
  "next_tid (base k) = User_Threads.next_tid k" "intr (base k) = User_Threads.intr k"
  "in_interrupt (base k) = User_Threads.in_interrupt k" "yield_on_return (base k) = User_Threads.yield_on_return k"
  "active_pagedir (base k) = User_Threads.active_pagedir k" "cmd_pages (base k) = User_Threads.cmd_pages k"
  "fs (base k) = User_Threads.fs k" "console (base k) = User_Threads.console k"
  by (simp_all add: base_def)

lemma base_updates [simp]:
  "(base k)\<lparr>ready_list := a\<rparr> = base (k\<lparr>User_Threads.ready_list := a\<rparr>)"
  "(base k)\<lparr>all_list := a\<rparr> = base (k\<lparr>User_Threads.all_list := a\<rparr>)"
  "(base k)\<lparr>idle_thread := b\<rparr> = base (k\<lparr>User_Threads.idle_thread := b\<rparr>)"
  "(base k)\<lparr>initial_thread := b\<rparr> = base (k\<lparr>User_Threads.initial_thread := b\<rparr>)"
  "(base k)\<lparr>running := b\<rparr> = base (k\<lparr>User_Threads.running := b\<rparr>)"
  "(base k)\<lparr>idle_ticks := n\<rparr> = base (k\<lparr>User_Threads.idle_ticks := n\<rparr>)"
  "(base k)\<lparr>kernel_ticks := n\<rparr> = base (k\<lparr>User_Threads.kernel_ticks := n\<rparr>)"
  "(base k)\<lparr>user_ticks := n\<rparr> = base (k\<lparr>User_Threads.user_ticks := n\<rparr>)"
  "(base k)\<lparr>thread_ticks := w\<rparr> = base (k\<lparr>User_Threads.thread_ticks := w\<rparr>)"
  "(base k)\<lparr>next_tid := n\<rparr> = base (k\<lparr>User_Threads.next_tid := n\<rparr>)"
  "(base k)\<lparr>intr := l\<rparr> = base (k\<lparr>User_Threads.intr := l\<rparr>)"
  "(base k)\<lparr>yield_on_return := y\<rparr> = base (k\<lparr>User_Threads.yield_on_return := y\<rparr>)"
  "(base k)\<lparr>active_pagedir := m\<rparr> = base (k\<lparr>User_Threads.active_pagedir := m\<rparr>)"
  "(base k)\<lparr>cmd_pages := c\<rparr> = base (k\<lparr>User_Threads.cmd_pages := c\<rparr>)"
  "(base k)\<lparr>fs := s\<rparr> = base (k\<lparr>User_Threads.fs := s\<rparr>)"
  "(base k)\<lparr>console := z\<rparr> = base (k\<lparr>User_Threads.console := z\<rparr>)"
  "(base k)\<lparr>pages := (pages (base k))(t := None)\<rparr> = base (k\<lparr>User_Threads.pages := (User_Threads.pages k)(t := None)\<rparr>)"
  "(base k)\<lparr>pages := (pages (base k))(t \<mapsto> base_thread th)\<rparr> =
     base (k\<lparr>User_Threads.pages := (User_Threads.pages k)(t \<mapsto> th)\<rparr>)"
  by (auto simp: base_def)

lemma base_upd:
  "(\<And>th. f (base_thread th) = base_thread (g th)) \<Longrightarrow> upd_thread t f (base k) = base (User_Threads.upd_thread t g k)"
  by (auto simp: upd_thread_def User_Threads.upd_thread_def base_def option.map_comp comp_def)

text \<open>The updates of a thread that both kernels make.\<close>

lemma base_thread_updates [simp]:
  "(base_thread th)\<lparr>status := s\<rparr> = base_thread (th\<lparr>User_Threads.status := s\<rparr>)"
  "(base_thread th)\<lparr>resume_level := l\<rparr> = base_thread (th\<lparr>User_Threads.resume_level := l\<rparr>)"
  "(base_thread th)\<lparr>tid := n\<rparr> = base_thread (th\<lparr>User_Threads.tid := n\<rparr>)"
  "(base_thread th)\<lparr>parent := p\<rparr> = base_thread (th\<lparr>User_Threads.parent := p\<rparr>)"
  "(base_thread th)\<lparr>priority := n\<rparr> = base_thread (th\<lparr>User_Threads.priority := n\<rparr>)"
  "(base_thread th)\<lparr>stack := w\<rparr> = base_thread (th\<lparr>User_Threads.stack := w\<rparr>)"
  "(base_thread th)\<lparr>start_function := w\<rparr> = base_thread (th\<lparr>User_Threads.start_function := w\<rparr>)"
  "(base_thread th)\<lparr>start_aux := w\<rparr> = base_thread (th\<lparr>User_Threads.start_aux := w\<rparr>)"
  "(base_thread th)\<lparr>pagedir := m\<rparr> = base_thread (th\<lparr>User_Threads.pagedir := m\<rparr>)"
  "(base_thread th)\<lparr>exec_file := x\<rparr> = base_thread (th\<lparr>User_Threads.exec_file := x\<rparr>)"
  "(base_thread th)\<lparr>wait_load := v\<rparr> = base_thread (th\<lparr>User_Threads.wait_load := v\<rparr>)"
  "(base_thread th)\<lparr>child_list := map base_child xs\<rparr> = base_thread (th\<lparr>User_Threads.child_list := xs\<rparr>)"
  "(base_thread th)\<lparr>child_list := []\<rparr> = base_thread (th\<lparr>User_Threads.child_list := []\<rparr>)"
  by (simp_all add: base_thread_def)

subsection \<open>The operations agree\<close>

lemma base_reads [simp]:
  "status_of (base k) t = User_Threads.status_of k t"
  "is_thread (base k) t = User_Threads.is_thread k t"
  "thread_current (base k) = User_Threads.thread_current k"
  "thread_at (base k) t = res_map base_thread (User_Threads.thread_at k t)"
  by (auto simp: status_of_def User_Threads.status_of_def is_thread_def User_Threads.is_thread_def thread_current_def
      User_Threads.thread_current_def thread_at_def User_Threads.thread_at_def option.map_comp comp_def Let_def
      split: option.splits)

lemma base_sets [simp]:
  "set_status t s (base k) = base (User_Threads.set_status t s k)"
  "set_resume t l (base k) = base (User_Threads.set_resume t l k)"
  "intr_set_level l (base k) = base (User_Threads.intr_set_level l k)"
  "intr_disable (base k) = base (User_Threads.intr_disable k)"
  by (simp_all add: set_status_def User_Threads.set_status_def set_resume_def User_Threads.set_resume_def
      intr_set_level_def User_Threads.intr_set_level_def intr_disable_def User_Threads.intr_disable_def base_upd)

lemma base_activate: "process_activate (base k) = res_map base (User_Threads.process_activate k)"
  by (simp add: process_activate_def User_Threads.process_activate_def bnd_res_map)

lemma base_next: "next_thread_to_run (base k) = (\<lambda>(t, k'). (t, base k')) (User_Threads.next_thread_to_run k)"
  by (simp add: next_thread_to_run_def User_Threads.next_thread_to_run_def split: list.splits)

lemma base_schedule_tail: "thread_schedule_tail p (base k) = res_map base (User_Threads.thread_schedule_tail p k)"
  by (simp add: thread_schedule_tail_def User_Threads.thread_schedule_tail_def Let_def base_activate bnd_res_map
      cong: if_cong)

lemma base_schedule: "schedule (base k) = res_map base (User_Threads.schedule k)"
  by (cases "User_Threads.next_thread_to_run k")
    (simp add: schedule_def User_Threads.schedule_def base_next base_schedule_tail Let_def bnd_res_map cong: if_cong)

lemma base_block: "thread_block (base k) = res_map base (User_Threads.thread_block k)"
  by (simp add: thread_block_def User_Threads.thread_block_def base_schedule bnd_res_map)

lemma base_unblock: "thread_unblock t (base k) = res_map base (User_Threads.thread_unblock t k)"
  by (simp add: thread_unblock_def User_Threads.thread_unblock_def Let_def bnd_res_map)

lemma base_if: "(if b then base k else base k') = base (if b then k else k')"
  by simp

lemma base_yield: "thread_yield (base k) = res_map base (User_Threads.thread_yield k)"
  by (simp add: thread_yield_def User_Threads.thread_yield_def Let_def base_schedule bnd_res_map base_if cong: if_cong)

lemma base_tick: "thread_tick (base k) = res_map base (User_Threads.thread_tick k)"
  by (simp add: thread_tick_def User_Threads.thread_tick_def Let_def bnd_res_map base_if cong: if_cong)

lemma base_sema_up:
  "sema_up api t (base k) = res_map base (User_Threads.sema_up api User_Threads.wait_load User_Threads.wait_load_update t k)"
  by (auto simp: sema_up_def User_Threads.sema_up_def bnd_res_map Let_def base_upd base_unblock
      split: prod.splits option.splits intro!: bnd_cong)

lemma base_sema_down:
  "sema_down api t (base k) = res_map (\<lambda>(b, k'). (b, base k'))
     (User_Threads.sema_down api User_Threads.wait_load User_Threads.wait_load_update t k)"
proof -
  have w: "upd_thread t (\<lambda>th. th\<lparr>wait_load := (wait_load th)\<lparr>sema_waiters := sema_waiters (wait_load th) @ [c]\<rparr>\<rparr>) (base k) =
      base (User_Threads.upd_thread t (User_Threads.wait_load_update (\<lambda>s. s\<lparr>sema_waiters := sema_waiters s @ [c]\<rparr>)) k)" for c
    by (rule base_upd) (simp add: base_thread_def)
  have v: "upd_thread t (\<lambda>th. th\<lparr>wait_load := s\<rparr>) (base k) =
      base (User_Threads.upd_thread t (User_Threads.wait_load_update (\<lambda>_. s)) k)" for s
    by (rule base_upd) simp
  show ?thesis
    by (auto simp: sema_down_def User_Threads.sema_down_def bnd_res_map Let_def w v base_block
        split: option.splits intro!: bnd_cong)
qed

lemma base_get_child:
  "get_child_element t (map base_child xs) = map_option base_child (User_Threads.get_child_element t xs)"
  by (induction xs) simp_all

lemma base_upd_child_element:
  "(\<And>c. f (base_child c) = base_child (g c)) \<Longrightarrow>
   upd_child_element t f (map base_child xs) = map base_child (User_Threads.upd_child_element t g xs)"
  by (induction xs) simp_all

lemma base_upd_child:
  "(\<And>c. f (base_child c) = base_child (g c)) \<Longrightarrow> upd_child p t f (base k) = base (User_Threads.upd_child p t g k)"
  by (simp add: upd_child_def User_Threads.upd_child_def base_upd base_upd_child_element)

lemma base_find_child: "find_child (base k) p t = res_map base_child (User_Threads.find_child k p t)"
  by (auto simp: find_child_def User_Threads.find_child_def bnd_res_map base_get_child split: option.splits intro!: bnd_cong)

lemma base_exit_mark: "exit_mark_child (base_thread th) (base k) = res_map base (User_Threads.exit_mark_child th k)"
proof -
  have "upd_child p t (\<lambda>c. c\<lparr>cur_status := KILLED, exit_status := - 1\<rparr>) (base k) =
      base (User_Threads.upd_child p t (\<lambda>c. c\<lparr>User_Threads.cur_status := KILLED, User_Threads.exit_status := - 1\<rparr>) k)" for p t
    by (rule base_upd_child) (simp add: base_child_def)
  then show ?thesis
    by (simp add: exit_mark_child_def User_Threads.exit_mark_child_def base_find_child bnd_res_map base_if cong: if_cong)
qed

lemma base_allocate: "allocate_tid (base k) = (\<lambda>(t, k'). (t, base k')) (User_Threads.allocate_tid k)"
  by (simp add: allocate_tid_def User_Threads.allocate_tid_def)

lemma base_init_thread: "init_thread t name p (base k) = res_map base (User_Threads.init_thread t name p k)"
  by (auto simp: init_thread_def User_Threads.init_thread_def Let_def base_def base_thread_def)

lemma base_alloc_frame: "alloc_frame t n (base k) = res_map base (User_Threads.alloc_frame t n k)"
  by (simp add: alloc_frame_def User_Threads.alloc_frame_def base_upd)

lemma base_new_child: "new_child t n = base_child (User_Threads.new_child t n)"
  by (simp add: new_child_def User_Threads.new_child_def base_child_def)

lemma base_add_child:
  "upd_thread t (\<lambda>th. th\<lparr>child_list := child_list th @ [new_child p n]\<rparr>) (base k) =
   base (User_Threads.upd_thread t (\<lambda>th. th\<lparr>User_Threads.child_list := User_Threads.child_list th @ [User_Threads.new_child p n]\<rparr>) k)"
  by (rule base_upd) (simp add: base_new_child flip: base_thread_updates(12))

lemma base_create:
  "thread_create api page c name p f x (base k) =
   res_map (\<lambda>(t, k'). (t, base k')) (User_Threads.thread_create api page c name p f x k)"
  by (simp add: thread_create_def User_Threads.thread_create_def base_init_thread base_allocate base_alloc_frame
      base_unblock base_add_child base_upd Let_def bnd_res_map split_beta cong: if_cong)

lemma base_execute:
  "process_execute api env s (base k) =
   res_map (\<lambda>(t, k'). (t, base k')) (Processes.process_execute api env s k)"
  by (simp add: process_execute_def Processes.process_execute_def base_create Let_def bnd_res_map split_beta cong: if_cong)

lemma base_exec_resume:
  "exec_resume api t (base k) = res_map (\<lambda>(v, k'). (v, base k')) (Processes.exec_resume api t k)"
  by (simp add: exec_resume_def Processes.exec_resume_def base_find_child base_sema_down bnd_res_map split_beta cong: if_cong)

lemma base_exec:
  "exec api env s (base k) = res_map (\<lambda>(v, k'). (v, base k')) (Processes.exec api env s k)"
  by (simp add: exec_def Processes.exec_def base_execute base_exec_resume bnd_res_map split_beta)

subsection \<open>The end of a process\<close>

text \<open>The running thread has no open files and nobody sleeps until it ends.\<close>

definition quiet :: "('f, 'fs) User_Threads.kernel \<Rightarrow> bool" where
  "quiet k \<longleftrightarrow> (\<forall>th. User_Threads.pages k (User_Threads.running k) = Some th \<longrightarrow>
     fd_list th = [] \<and> sema_waiters (wait_exit th) = [])"

lemma quiet_upd:
  "(\<And>th. fd_list (g th) = fd_list th \<and> wait_exit (g th) = wait_exit th) \<Longrightarrow> quiet (User_Threads.upd_thread t g k) = quiet k"
  by (auto simp: quiet_def User_Threads.upd_thread_def)

lemma quiet_sets [simp]:
  "quiet (User_Threads.upd_child p n f k) = quiet k" "quiet (k\<lparr>User_Threads.console := z\<rparr>) = quiet k"
  "quiet (k\<lparr>User_Threads.active_pagedir := m\<rparr>) = quiet k" "quiet (k\<lparr>User_Threads.cmd_pages := c\<rparr>) = quiet k"
  "quiet (k\<lparr>User_Threads.fs := s\<rparr>) = quiet k"
  by (simp add: User_Threads.upd_child_def quiet_upd) (simp_all add: quiet_def)

lemma current_running: "User_Threads.thread_current k = Inr c \<Longrightarrow> c = User_Threads.running k"
  by (auto simp: User_Threads.thread_current_def Let_def bnd_eq_Inr split: if_splits)

lemma exit_mark_child_quiet:
  assumes "User_Threads.exit_mark_child th k = Inr k1"
  shows "quiet k1 = quiet k" "User_Threads.running k1 = User_Threads.running k"
  using assms by (auto simp: User_Threads.exit_mark_child_def bnd_eq_Inr User_Threads.upd_child_def split: if_splits
      intro!: quiet_upd)

lemma exit_mark_child_at:
  assumes "User_Threads.exit_mark_child th k = Inr k1" "User_Threads.thread_at k c = Inr th0"
  shows "\<exists>th1. User_Threads.thread_at k1 c = Inr th1 \<and> fd_list th1 = fd_list th0 \<and> wait_exit th1 = wait_exit th0"
  using assms by (auto simp: User_Threads.exit_mark_child_def bnd_eq_Inr User_Threads.upd_child_def
      User_Scheduler.thread_at_Inr split: if_splits)

lemma base_ignores: "(\<And>th. base_thread (g th) = base_thread th) \<Longrightarrow> base (User_Threads.upd_thread t g k) = base k"
proof -
  assume "\<And>th. base_thread (g th) = base_thread th"
  then have "upd_thread t id (base k) = base (User_Threads.upd_thread t g k)" by (intro base_upd) simp
  moreover have "upd_thread t id (base k) = base k"
    by (simp add: upd_thread_def option.map_id) (auto simp: base_def)
  ultimately show "base (User_Threads.upd_thread t g k) = base k" by simp
qed

lemma res_map_Inl: "res_map g m = Inl e \<longleftrightarrow> m = Inl e"
  by (cases m) simp_all

lemma base_process_exit:
  assumes "sema_ok api" "quiet k"
  shows "process_exit api (base k) = res_map base (User_Threads.process_exit api k)"
proof (cases "User_Threads.thread_current k")
  case (Inr c)
  show ?thesis
  proof (cases "User_Threads.thread_at k c")
    case at: (Inr th)
    show ?thesis
    proof (cases "User_Threads.exit_mark_child th k")
      case mark: (Inr k1)
      have th: "fd_list th = []" "sema_waiters (wait_exit th) = []"
        using assms(2) at current_running [OF Inr] by (auto simp: quiet_def User_Scheduler.thread_at_Inr)
      obtain th1 where th1: "User_Threads.thread_at k1 c = Inr th1" "wait_exit th1 = wait_exit th"
        using exit_mark_child_at [OF mark at] by blast
      obtain w where w: "api_sema_up api (wait_exit th) = (None, w)"
        using assms(1) th(2) by (auto simp: sema_ok_def)
      let ?k2 = "User_Threads.upd_thread c (wait_exit_update (\<lambda>_. w)) k1"
      have up: "User_Threads.sema_up api wait_exit wait_exit_update c k1 = Inr ?k2"
        using th1 w by (simp add: User_Threads.sema_up_def)
      have b2: "base ?k2 = base k1" by (rule base_ignores) (simp add: base_thread_def)
      let ?u = "User_Threads.upd_thread c (\<lambda>th. th\<lparr>User_Threads.child_list := [], User_Threads.parent := 0\<rparr>) ?k2"
      have u: "upd_thread c (\<lambda>th. th\<lparr>child_list := [], parent := 0\<rparr>) (base k1) = base ?u"
        unfolding b2 [symmetric] by (rule base_upd) simp
      have f: "base (User_Threads.upd_thread c (\<lambda>th. th\<lparr>fd_list := []\<rparr>) k') = base k'" for k'
        by (rule base_ignores) (simp add: base_thread_def)
      have pd: "(upd_thread c (\<lambda>th. th\<lparr>pagedir := None\<rparr>) (base k')) =
          base (User_Threads.upd_thread c (\<lambda>th. th\<lparr>User_Threads.pagedir := None\<rparr>)
            (User_Threads.upd_thread c (\<lambda>th. th\<lparr>fd_list := []\<rparr>) k'))" for k'
        unfolding f [of k', symmetric] by (rule base_upd) simp
      have m: "exit_mark_child (base_thread th) (base k) = Inr (base k1)" using mark by (simp add: base_exit_mark)
      show ?thesis
        by (simp add: process_exit_def User_Threads.process_exit_def Inr at mark up m Let_def th(1) u f pd
            cong: option.case_cong if_cong)
    qed (simp add: process_exit_def User_Threads.process_exit_def Inr at base_exit_mark)
  qed (simp add: process_exit_def User_Threads.process_exit_def Inr)
qed (simp add: process_exit_def User_Threads.process_exit_def)

lemma base_thread_exit:
  assumes "sema_ok api" "quiet k"
  shows "thread_exit api (base k) = res_map base (User_Threads.thread_exit api k)"
  by (simp add: thread_exit_def User_Threads.thread_exit_def base_process_exit [OF assms] bnd_res_map Let_def base_schedule
      cong: if_cong)

lemma base_exit:
  assumes "sema_ok api" "quiet k"
  shows "exit api st (base k) = res_map base (Processes.exit api st k)"
proof -
  have u: "upd_child p t (\<lambda>c. c\<lparr>exit_status := st, cur_status := x\<rparr>) (base k') =
      base (User_Threads.upd_child p t (\<lambda>c. c\<lparr>User_Threads.exit_status := st, User_Threads.cur_status := x\<rparr>) k')" for p t x k'
    by (rule base_upd_child) (simp add: base_child_def)
  show ?thesis
    by (simp add: exit_def Processes.exit_def bnd_res_map Let_def base_find_child u base_thread_exit [OF assms(1)] assms(2))
qed

lemma unblock_quiet: "User_Threads.thread_unblock w k = Inr k' \<Longrightarrow> quiet k' = quiet k"
  by (auto simp: User_Threads.thread_unblock_def Let_def User_Threads.set_status_def User_Threads.intr_disable_def
      User_Threads.intr_set_level_def quiet_def User_Threads.upd_thread_def split: if_splits)

lemma sema_up_quiet:
  assumes "User_Threads.sema_up api User_Threads.wait_load User_Threads.wait_load_update t k = Inr k'"
  shows "quiet k' = quiet k"
proof -
  obtain th wo w where "User_Threads.thread_at k t = Inr th" "api_sema_up api (User_Threads.wait_load th) = (wo, w)"
    using assms by (cases "User_Threads.thread_at k t"; cases "api_sema_up api (User_Threads.wait_load (projr (User_Threads.thread_at k t)))")
      (auto simp: User_Threads.sema_up_def)
  then show ?thesis using assms
    by (cases wo) (auto simp: User_Threads.sema_up_def quiet_upd dest!: unblock_quiet)
qed

lemma base_set_space:
  "upd_thread c (\<lambda>th. th\<lparr>pagedir := m, exec_file := x\<rparr>) (base k) =
   base (User_Threads.upd_thread c (\<lambda>th. th\<lparr>User_Threads.pagedir := m, User_Threads.exec_file := x\<rparr>) k)"
  "upd_thread c (\<lambda>th. th\<lparr>pagedir := m\<rparr>) (base k) =
   base (User_Threads.upd_thread c (\<lambda>th. th\<lparr>User_Threads.pagedir := m\<rparr>) k)"
  by (rule base_upd; simp)+

lemma base_set_load:
  "upd_child p t (\<lambda>c. c\<lparr>load_status := b\<rparr>) (base k) =
   base (User_Threads.upd_child p t (\<lambda>c. c\<lparr>User_Threads.load_status := b\<rparr>) k)"
  by (rule base_upd_child) (simp add: base_child_def)

text \<open>What \<^verbatim>\<open>start_process\<close> does once it knows the result of \<^verbatim>\<open>load\<close>.\<close>

lemma base_loaded:
  assumes "sema_ok api" "quiet k"
  shows "bnd (if p \<noteq> 0 then bnd (find_child (base k) p n) (\<lambda>c.
        Inr (upd_child p n (\<lambda>c. c\<lparr>load_status := success\<rparr>) (base k))) else Inr (base k)) (\<lambda>k2.
      bnd (sema_up api cur k2) (\<lambda>k3.
      let k4 = k3\<lparr>cmd_pages := (cmd_pages k3)(a := None)\<rparr> in
      if \<not> success then bnd (thread_exit api k4) (\<lambda>k5. Inr (None, k5)) else Inr (entry, k4))) =
    res_map (\<lambda>(v, k'). (v, base k'))
     (bnd (if p \<noteq> 0 then bnd (User_Threads.find_child k p n) (\<lambda>c.
        Inr (User_Threads.upd_child p n (\<lambda>c. c\<lparr>User_Threads.load_status := success\<rparr>) k)) else Inr k) (\<lambda>k2.
      bnd (User_Threads.sema_up api User_Threads.wait_load User_Threads.wait_load_update cur k2) (\<lambda>k3.
      let k4 = k3\<lparr>User_Threads.cmd_pages := (User_Threads.cmd_pages k3)(a := None)\<rparr> in
      if \<not> success then bnd (User_Threads.thread_exit api k4) (\<lambda>k5. Inr (None, k5)) else Inr (entry, k4))))"
proof -
  have rest: "bnd (sema_up api cur (base k2)) (\<lambda>k3.
      let k4 = k3\<lparr>cmd_pages := (cmd_pages k3)(a := None)\<rparr> in
      if \<not> success then bnd (thread_exit api k4) (\<lambda>k5. Inr (None, k5)) else Inr (entry, k4)) =
    res_map (\<lambda>(v, k'). (v, base k'))
     (bnd (User_Threads.sema_up api User_Threads.wait_load User_Threads.wait_load_update cur k2) (\<lambda>k3.
      let k4 = k3\<lparr>User_Threads.cmd_pages := (User_Threads.cmd_pages k3)(a := None)\<rparr> in
      if \<not> success then bnd (User_Threads.thread_exit api k4) (\<lambda>k5. Inr (None, k5)) else Inr (entry, k4)))"
    if q: "quiet k2" for k2
    using q by (auto simp: base_sema_up bnd_res_map Let_def base_thread_exit [OF assms(1)] sema_up_quiet intro!: bnd_cong)
  show ?thesis
    using rest [of k] rest [of "User_Threads.upd_child p n (\<lambda>c. c\<lparr>User_Threads.load_status := success\<rparr>) k"] assms(2)
    by (cases "User_Threads.find_child k p n") (simp_all add: base_find_child base_set_load)
qed

lemma base_start:
  assumes "sema_ok api" "quiet k"
  shows "start_process api sys im (base k) = res_map (\<lambda>(v, k'). (v, base k')) (Processes.start_process api sys im k)"
proof (cases "User_Threads.thread_current k")
  case cur: (Inr c)
  show ?thesis
  proof (cases "User_Threads.thread_at k c")
    case at: (Inr th)
    show ?thesis
    proof (cases "User_Threads.cmd_pages k (User_Threads.start_aux th)")
      case page: (Some s)
      show ?thesis
      proof (cases "load sys s im")
        case l: (Inr r)
        note unf = start_process_def Processes.start_process_def base_reads base_fields cur at bnd_simps res_map_simps page
          option.case l load_result.case Let_def prod.case base_thread_fields base_set_space base_updates base_if
        show ?thesis
        proof (cases r)
          case (Load_failed im')
          have "quiet ((if pagedir_create_ok sys then (User_Threads.upd_thread c (\<lambda>th. th\<lparr>User_Threads.pagedir := Some (space im')\<rparr>) k)
              \<lparr>User_Threads.active_pagedir := Some (space im')\<rparr> else k)
              \<lparr>User_Threads.fs := load_effects api im im' (User_Threads.fs k)\<rparr>)" using assms(2) by (simp add: quiet_upd)
          note loaded = base_loaded [OF assms(1) this, unfolded Let_def]
          show ?thesis by (simp only: unf Load_failed) (rule loaded)
        next
          case (Load_succeeded eip sp im')
          have "quiet ((User_Threads.upd_thread c (\<lambda>th. th\<lparr>User_Threads.pagedir := Some (space im'),
              User_Threads.exec_file := loaded_file im'\<rparr>) k)\<lparr>User_Threads.active_pagedir := Some (space im'),
              User_Threads.fs := load_effects api im im' (User_Threads.fs k)\<rparr>)"
            using assms(2) by (simp add: quiet_upd)
          note loaded = base_loaded [OF assms(1) this, unfolded Let_def]
          show ?thesis by (simp only: unf Load_succeeded) (rule loaded)
        qed
      qed (simp add: start_process_def Processes.start_process_def cur at page)
    qed (simp add: start_process_def Processes.start_process_def cur at)
  qed (simp add: start_process_def Processes.start_process_def cur)
qed (simp add: start_process_def Processes.start_process_def)

end
