(* ===== verification/Base_Protocol.thy ===== *)
theory Base_Protocol
  imports Base_Simulation Syscall_Safety
begin

section \<open>Waiting by polling (Assignment 6.1)\<close>

text \<open>
  What the kernel of Assignment 6.1 promises a parent, proved from the lemmas of 6.2 through \<open>base\<close>
  and its right inverse \<open>lift\<close>: every state of 6.1 is one of 6.2 in which the additions are unused.
\<close>

subsection \<open>Every state of 6.1 is a state of 6.2\<close>

definition lift_child :: "child_element \<Rightarrow> User_Threads.child_element" where
  "lift_child c = User_Threads.child_element.make (child_thread c) (exit_status c) (cur_status c) (child_pid c)
     (load_status c) False"

definition lift_thread :: "'f thread \<Rightarrow> 'f User_Threads.thread" where
  "lift_thread th = User_Threads.thread.make (tid th) (status th) (tname th) (stack th) (priority th) [] 1
     (exec_file th) (wait_load th) (map lift_child (child_list th)) (parent th) empty_sema (pagedir th) (magic th)
     (start_function th) (start_aux th) (resume_level th)"

definition lift :: "('f, 'fs) kernel \<Rightarrow> ('f, 'fs) User_Threads.kernel" where
  "lift k = User_Threads.kernel.make (\<lambda>t. map_option lift_thread (pages k t)) (ready_list k) (all_list k)
     (idle_thread k) (initial_thread k) (running k) (idle_ticks k) (kernel_ticks k) (user_ticks k) (thread_ticks k)
     (next_tid k) (intr k) (in_interrupt k) (yield_on_return k) (active_pagedir k) (cmd_pages k) (fs k) (console k)"

lemmas lift_defs = lift_child_def lift_thread_def lift_def User_Threads.child_element.make_def
  User_Threads.thread.make_def User_Threads.kernel.make_def

lemma base_lift_child [simp]: "base_child (lift_child c) = c"
  by (simp add: base_child_def lift_defs)

lemma base_lift_thread [simp]: "base_thread (lift_thread th) = th"
proof -
  have "map (base_child \<circ> lift_child) cs = cs" for cs by (induction cs) simp_all
  then show ?thesis by (simp add: base_thread_def lift_thread_def User_Threads.thread.make_def)
qed

lemma base_lift [simp]: "base (lift k) = k"
  by (simp add: base_def lift_def User_Threads.kernel.make_def option.map_comp comp_def option.map_ident)

lemma quiet_lift: "quiet (lift k)"
  by (auto simp: quiet_def lift_defs empty_sema_def)

subsection \<open>The scheduler's invariant\<close>

definition base_sched_inv :: "('f, 'fs) kernel \<Rightarrow> bool" where
  "base_sched_inv k \<longleftrightarrow>
     (\<forall>t th. pages k t = Some th \<longrightarrow> t \<noteq> 0 \<and> magic th = THREAD_MAGIC) \<and>
     distinct (ready_list k) \<and> distinct (all_list k) \<and>
     (\<forall>t. t \<in> set (ready_list k) \<longleftrightarrow> status_of k t = Some THREAD_READY \<and> t \<noteq> idle_thread k) \<and>
     (\<forall>t. t \<in> set (all_list k) \<longleftrightarrow> (\<exists>s. status_of k t = Some s \<and> s \<noteq> THREAD_DYING)) \<and>
     (\<exists>s. status_of k (idle_thread k) = Some s \<and> s \<noteq> THREAD_DYING) \<and>
     (\<forall>t. status_of k t = Some THREAD_RUNNING \<longleftrightarrow> t = running k) \<and>
     (\<forall>t. status_of k t = Some THREAD_DYING \<longrightarrow> t = initial_thread k)"

lemma base_inv_iff: "base_sched_inv (base k) = u_sched_inv k"
proof -
  have "(\<forall>t th. pages (base k) t = Some th \<longrightarrow> t \<noteq> 0 \<and> magic th = THREAD_MAGIC) = u_threads_ok k"
    by (fastforce simp: u_threads_ok_def)
  then show ?thesis
    unfolding base_sched_inv_def u_sched_inv_def u_queue_ok_def u_all_ok_def u_idle_ok_def u_cpu_ok_def
      base_reads base_fields by argo
qed

subsection \<open>The polling loop\<close>

definition child_alive :: "tptr \<Rightarrow> int \<Rightarrow> ('f, 'fs) kernel \<Rightarrow> bool" where
  "child_alive p t k \<longleftrightarrow> (\<exists>c. find_child k p t = Inr c \<and> cur_status c = ALIVE)"

lemma wait_test_alive: "child_alive p t k \<Longrightarrow> wait_test p t k = Inr None"
  by (auto simp: child_alive_def wait_test_def)

lemma wait_test_None: "wait_test p t k = Inr None \<longleftrightarrow> child_alive p t k"
  by (auto simp: child_alive_def wait_test_def bnd_eq_Inr)

lemma wait_loop_steps:
  assumes "\<And>j. j < n \<Longrightarrow> child_alive p t (ks (i + j))"
  shows "wait_loop ks p t i = wait_loop ks p t (i + n)"
  using assms
proof (induction n)
  case (Suc n)
  then have "wait_loop ks p t i = wait_loop ks p t (i + n)" by simp
  also have "\<dots> = wait_loop ks p t (Suc (i + n))"
    using Suc.prems [of n] by (subst wait_loop.simps) (simp add: wait_test_alive)
  finally show ?case by simp
qed simp

lemma wait_loop_Some:
  "wait_loop ks p t i = Some r \<Longrightarrow> \<exists>n. \<not> child_alive p t (ks n)"
proof (rule wait_loop.raw_induct [of "\<lambda>ks p t i r. \<exists>n. \<not> child_alive p t (ks n)"])
  fix wait ks p t i r
  assume h: "\<And>ks p t i r. wait ks p t i = Some r \<Longrightarrow> \<exists>n. \<not> child_alive p t (ks n)"
    and s: "(case wait_test p t (ks i) of Inl e \<Rightarrow> Some (Inl e) | Inr (Some st) \<Rightarrow> Some (Inr st)
      | Inr None \<Rightarrow> wait ks p t (Suc i)) = Some r"
  show "\<exists>n. \<not> child_alive p t (ks n)"
  proof (cases "child_alive p t (ks i)")
    case True
    then show ?thesis using s h by (auto simp: wait_test_alive)
  qed blast
qed simp

lemma wait_loop_ends:
  assumes "\<not> child_alive p t (ks n)" "\<And>j. j < n \<Longrightarrow> child_alive p t (ks j)"
  shows "wait_loop ks p t 0 = Some (case wait_test p t (ks n) of Inl e \<Rightarrow> Inl e | Inr r \<Rightarrow> Inr (the r))"
proof -
  have "wait_loop ks p t 0 = wait_loop ks p t n" using wait_loop_steps [of n p t ks 0] assms(2) by simp
  moreover have "wait_test p t (ks n) \<noteq> Inr None" using assms(1) by (simp add: wait_test_None)
  ultimately show ?thesis
    by (subst (asm) wait_loop.simps [of ks p t n]) (auto split: sum.splits option.splits)
qed

text \<open>
  C23: When the polling \<^verbatim>\<open>process_wait\<close> comes back. It returns exactly if at one of its tests the child is no longer
  alive (or is not in the list of children), then at the first such test, with the exit status the entry
  has at that moment, or with the use of a null pointer if there is no entry; as long as
  every test finds the child alive it never returns, and it changes nothing.
\<close>
theorem process_wait_polls:
  assumes "thread_current (ks 0) = Inr p"
  shows "(process_wait ks t = None \<longleftrightarrow> (\<forall>n. child_alive p t (ks n))) \<and>
    (\<forall>r. process_wait ks t = Some r \<longleftrightarrow>
      (\<exists>n. \<not> child_alive p t (ks n) \<and> (\<forall>j < n. child_alive p t (ks j)) \<and>
        r = bnd (find_child (ks n) p t) (\<lambda>c. Inr (exit_status c))))"
proof -
  have pw: "process_wait ks t = wait_loop ks p t 0" using assms by (simp add: process_wait_def)
  have at: "wait_loop ks p t 0 = Some (bnd (find_child (ks n) p t) (\<lambda>c. Inr (exit_status c)))"
    if "\<not> child_alive p t (ks n)" "\<forall>j < n. child_alive p t (ks j)" for n
  proof -
    have "wait_loop ks p t 0 = Some (case wait_test p t (ks n) of Inl e \<Rightarrow> Inl e | Inr r \<Rightarrow> Inr (the r))"
      using wait_loop_ends that by blast
    moreover have "(case wait_test p t (ks n) of Inl e \<Rightarrow> Inl e | Inr r \<Rightarrow> Inr (the r)) =
        bnd (find_child (ks n) p t) (\<lambda>c. Inr (exit_status c))"
      using that(1) by (cases "find_child (ks n) p t") (auto simp: wait_test_def child_alive_def)
    ultimately show ?thesis by simp
  qed
  have first: "\<exists>n. \<not> child_alive p t (ks n) \<and> (\<forall>j < n. child_alive p t (ks j))" if "\<not> child_alive p t (ks m)" for m
    using exists_least_iff [of "\<lambda>n. \<not> child_alive p t (ks n)"] that by auto
  have never: "wait_loop ks p t 0 = None" if "\<forall>n. child_alive p t (ks n)"
    using wait_loop_Some [of ks p t 0] that by (cases "wait_loop ks p t 0") auto
  have "(process_wait ks t = None) = (\<forall>n. child_alive p t (ks n))"
    using never first at pw by (metis option.distinct(1))
  moreover have "process_wait ks t = Some r \<longleftrightarrow>
      (\<exists>n. \<not> child_alive p t (ks n) \<and> (\<forall>j < n. child_alive p t (ks j)) \<and>
        r = bnd (find_child (ks n) p t) (\<lambda>c. Inr (exit_status c)))" for r
  proof
    assume "process_wait ks t = Some r"
    moreover then obtain n where n: "\<not> child_alive p t (ks n) \<and> (\<forall>j < n. child_alive p t (ks j))"
      using wait_loop_Some first pw by metis
    ultimately show "\<exists>n. \<not> child_alive p t (ks n) \<and> (\<forall>j < n. child_alive p t (ks j)) \<and>
        r = bnd (find_child (ks n) p t) (\<lambda>c. Inr (exit_status c))"
      using at [of n] pw by (intro exI [of _ n]) simp
  next
    assume "\<exists>n. \<not> child_alive p t (ks n) \<and> (\<forall>j < n. child_alive p t (ks j)) \<and>
        r = bnd (find_child (ks n) p t) (\<lambda>c. Inr (exit_status c))"
    then show "process_wait ks t = Some r" using at pw by auto
  qed
  ultimately show ?thesis by blast
qed

subsection \<open>The kernel of 6.2 extends that of 6.1\<close>

text \<open>
  C22: Assignment 6.2 is a conservative extension of 6.1. On every state, forgetting what 6.2 added and then
  blocking, unblocking, yielding, ticking, creating a thread or executing a program as in 6.1 is
  the same as doing it as in 6.2 and then forgetting, failed assertions included; and so are the start
  and the end of a process that has no open files and that nobody sleeps for.
\<close>
theorem extension_agrees:
  assumes "sema_ok api"
  shows "thread_block (base k) = res_map base (User_Threads.thread_block k) \<and>
    thread_unblock t (base k) = res_map base (User_Threads.thread_unblock t k) \<and>
    thread_yield (base k) = res_map base (User_Threads.thread_yield k) \<and>
    thread_tick (base k) = res_map base (User_Threads.thread_tick k) \<and>
    thread_create api page child_ok name prio fn aux (base k) =
      res_map (\<lambda>(n, k'). (n, base k')) (User_Threads.thread_create api page child_ok name prio fn aux k) \<and>
    exec api env cmd (base k) = res_map (\<lambda>(v, k'). (v, base k')) (Processes.exec api env cmd k) \<and>
    (quiet k \<longrightarrow>
      start_process api sys im (base k) = res_map (\<lambda>(v, k'). (v, base k')) (Processes.start_process api sys im k) \<and>
      exit api st (base k) = res_map base (Processes.exit api st k))"
  using base_block [of k] base_unblock [of t k] base_yield [of k] base_tick [of k] base_create base_exec
    base_start [OF assms] base_exit [OF assms] by blast

subsection \<open>The exit status\<close>

definition base_child_of :: "('f, 'fs) kernel \<Rightarrow> tptr \<Rightarrow> 'f thread \<Rightarrow> child_element \<Rightarrow> bool" where
  "base_child_of k p th e \<longleftrightarrow> pages k (running k) = Some th \<and> parent th = p \<and> p \<noteq> 0 \<and> p \<noteq> running k \<and>
     (\<exists>thp. pages k p = Some thp \<and> get_child_element (tid th) (child_list thp) = Some e)"

definition entry_of :: "('f, 'fs) kernel \<Rightarrow> tptr \<Rightarrow> int \<Rightarrow> child_element option" where
  "entry_of k p t = (case pages k p of None \<Rightarrow> None | Some thp \<Rightarrow> get_child_element t (child_list thp))"

lemma find_child_entry: "p \<noteq> 0 \<Longrightarrow> entry_of k p t = Some c \<Longrightarrow> find_child k p t = Inr c"
  by (auto simp: entry_of_def find_child_def thread_at_def split: option.splits)

lemma lift_get_child: "User_Threads.get_child_element t (map lift_child xs) = map_option lift_child (get_child_element t xs)"
  by (induction xs) (auto simp: lift_defs)

lemma child_of_lift:
  assumes "base_child_of k p th e"
  shows "child_of (lift k) p (lift_thread th) (lift_child e)"
  using assms
  by (auto simp: child_of_def base_child_of_def lift_def lift_thread_def User_Threads.kernel.make_def
      User_Threads.thread.make_def lift_get_child)

lemma base_exit_ends_process:
  assumes "sema_ok api" "base_sched_inv k" "\<not> in_interrupt k" "running k \<noteq> idle_thread k"
    "running k \<noteq> initial_thread k" "base_child_of k p th e"
  shows "\<exists>k'. exit api st k = Inr k' \<and> base_sched_inv k' \<and> pages k' (running k) = None \<and>
    console k' = console k @ [(tname th, st)] \<and>
    (\<exists>c. entry_of k' p (tid th) = Some c \<and> exit_status c = st \<and> cur_status c = (if st = - 1 then KILLED else EXITED))"
proof -
  let ?k = "lift k"
  have f: "User_Threads.in_interrupt ?k = in_interrupt k" "User_Threads.running ?k = running k"
    "User_Threads.idle_thread ?k = idle_thread k" "User_Threads.initial_thread ?k = initial_thread k"
    "User_Threads.console ?k = console k"
    by (simp_all add: lift_def User_Threads.kernel.make_def)
  have inv: "u_sched_inv ?k" using base_inv_iff [of ?k] assms(2) by simp
  have g: "sema_waiters (wait_exit (lift_thread th)) = []" "User_Threads.tid (lift_thread th) = tid th"
    "User_Threads.tname (lift_thread th) = tname th"
    by (simp_all add: lift_thread_def User_Threads.thread.make_def empty_sema_def)
  obtain k' where k': "Processes.exit api st ?k = Inr k'" "u_sched_inv k'" "User_Threads.pages k' (running k) = None"
    "User_Threads.console k' = console k @ [(tname th, st)]"
    "map_option (\<lambda>thp. User_Threads.get_child_element (tid th) (User_Threads.child_list thp)) (User_Threads.pages k' p) =
      Some (Some (exited_with st (lift_child e)))"
    using exit_ends_process [OF assms(1) inv, unfolded f, OF assms(3-5) child_of_lift [OF assms(6)] g(1), of st]
    unfolding g by blast
  have "exit api st k = Inr (base k')" using base_exit [OF assms(1) quiet_lift, of st k] k'(1) by simp
  moreover have "entry_of (base k') p (tid th) = Some (base_child (exited_with st (lift_child e)))"
    using k'(5) by (auto simp: entry_of_def base_get_child)
  ultimately show ?thesis
    using k'(2-4) by (intro exI [of _ "base k'"]) (auto simp: base_inv_iff exited_with_def)
qed

text \<open>
  C24: A parent that polls gets its child's exit status, however often it asks. When a child calls
  \<^verbatim>\<open>exit(st)\<close> no assertion fails, the message is printed, its page is given back and the scheduler's
  invariant holds again; and a \<^verbatim>\<open>process_wait\<close> that the parent called before, and that has so far seen
  the child alive, or that it calls at any later time, for the first time or not, returns \<open>st\<close> at the first
  test at which it sees the list of children as the child left it.
\<close>
theorem polling_parent_gets_status:
  fixes k :: "('f, 'fs) kernel"
  assumes "sema_ok api" "base_sched_inv k" "\<not> in_interrupt k" "running k \<noteq> idle_thread k"
    "running k \<noteq> initial_thread k" "base_child_of k p th e" "cur_status e = ALIVE"
  shows "\<exists>k'. exit api st k = Inr k' \<and> base_sched_inv k' \<and> pages k' (running k) = None \<and>
    console k' = console k @ [(tname th, st)] \<and>
    (\<forall>(ks :: nat \<Rightarrow> ('f, 'fs) kernel) n. thread_current (ks 0) = Inr p \<and> (\<forall>i < n. entry_of (ks i) p (tid th) = entry_of k p (tid th)) \<and>
       entry_of (ks n) p (tid th) = entry_of k' p (tid th) \<longrightarrow>
       process_wait ks (tid th) = Some (Inr st))"
proof -
  obtain k' c where k': "exit api st k = Inr k'" "base_sched_inv k'" "pages k' (running k) = None"
    "console k' = console k @ [(tname th, st)]" "entry_of k' p (tid th) = Some c" "exit_status c = st" "cur_status c \<noteq> ALIVE"
    using base_exit_ends_process [OF assms(1-6), of st] by force
  have p: "p \<noteq> 0" "entry_of k p (tid th) = Some e" using assms(6) by (auto simp: base_child_of_def entry_of_def)
  have "process_wait ks (tid th) = Some (Inr st)"
    if ks: "thread_current (ks 0) = Inr p" "\<forall>i < n. entry_of (ks i) p (tid th) = entry_of k p (tid th)"
      "entry_of (ks n) p (tid th) = entry_of k' p (tid th)"
    for ks :: "nat \<Rightarrow> ('f, 'fs) kernel" and n
  proof -
    have "child_alive p (tid th) (ks i)" if "i < n" for i
      using find_child_entry [OF p(1), of "ks i" "tid th" e] ks(2) that p(2) assms(7) by (auto simp: child_alive_def)
    moreover have "find_child (ks n) p (tid th) = Inr c"
      using find_child_entry [OF p(1)] ks(3) k'(5) by simp
    moreover from this have "\<not> child_alive p (tid th) (ks n)" using k'(7) by (simp add: child_alive_def)
    ultimately have "wait_loop ks p (tid th) 0 = Some (Inr st)"
      using wait_loop_ends [of p "tid th" ks n] k'(6,7) by (auto simp: wait_test_def)
    then show ?thesis using ks(1) by (simp add: process_wait_def)
  qed
  then show ?thesis using k'(1-4) by blast
qed

subsection \<open>System calls\<close>

text \<open>How a call of 6.2 ended, seen in 6.1; the last case is that of a call which 6.1 does not have.\<close>

fun base_outcome :: "('f, 'fs) Syscalls.outcome \<Rightarrow> ('f, 'fs) outcome" where
  "base_outcome (Syscalls.Returned f k) = Returned f (base k)"
| "base_outcome (Syscalls.Ended k) = Ended (base k)"
| "base_outcome (Syscalls.Sleeps_in_exec n k) = Sleeps_in_exec n (base k)"
| "base_outcome (Sleeps_in_wait n k) = Sleeps_in_exec n (base k)"

lemma base_memory [simp]:
  "user_memory (base k) = Syscalls.user_memory k" "load_int a (base k) = Syscalls.load_int a k"
  "user_string a (base k) = Syscalls.user_string a k"
  by (simp_all add: user_memory_def Syscalls.user_memory_def load_int_def Syscalls.load_int_def user_string_def
      Syscalls.user_string_def)

lemma base_check:
  assumes "sema_ok api" "quiet k"
  shows "check_valid_ptr api dev a (base k) = res_map (map_option base) (Syscalls.check_valid_ptr api dev a k)"
  by (auto simp: check_valid_ptr_def Syscalls.check_valid_ptr_def base_exit [OF assms] bnd_res_map
      split: option.splits intro!: bnd_cong)

lemma base_checked:
  assumes "sema_ok api" "quiet k" "rest1 = res_map base_outcome rest2"
  shows "checked api dev a (base k) rest1 = res_map base_outcome (Syscalls.checked api dev a k rest2)"
  by (auto simp: checked_def Syscalls.checked_def base_check [OF assms(1,2)] bnd_res_map assms(3)
      split: option.splits intro!: bnd_cong)

lemma base_write:
  assumes "u_sched_inv k" "quiet k"
  shows "write_buffer dev n a sz (base k) = res_map (\<lambda>(v, k'). (v, base k')) (Syscalls.write_buffer dev n a sz k)"
proof -
  obtain th where th: "User_Threads.pages k (User_Threads.running k) = Some th" using u_running_page [OF assms(1)] by blast
  have "User_Threads.thread_at k (User_Threads.running k) = Inr th"
    using th u_sched_invD(1) [OF assms(1)] by (auto simp: User_Scheduler.thread_at_Inr u_threads_ok_def)
  then have "get_fd n k = Inr None"
    using th assms(2) u_thread_current_eq [OF assms(1)] by (simp add: get_fd_def quiet_def)
  then show ?thesis
    by (simp add: write_buffer_def Syscalls.write_buffer_def bnd_res_map cong: if_cong)
qed

lemma base_handlers:
  assumes "sema_ok api" "u_sched_inv k" "quiet k"
  shows "handle_exec_exit api dev env f (SYS_EXIT dev) args (base k) = res_map base_outcome (handle_exit api f args k)"
    "SYS_EXEC dev \<noteq> SYS_EXIT dev \<Longrightarrow>
      handle_exec_exit api dev env f (SYS_EXEC dev) args (base k) = res_map base_outcome (handle_exec api dev env f args k)"
    "handle_write api dev f (SYS_WRITE dev) args (base k) = res_map base_outcome (Syscalls.handle_write api dev f args k)"
proof -
  show "handle_exec_exit api dev env f (SYS_EXIT dev) args (base k) = res_map base_outcome (handle_exit api f args k)"
    by (simp add: handle_exec_exit_def handle_exit_def base_exit [OF assms(1,3)] bnd_res_map)
  have e: "bnd (Syscalls.user_string a k) (\<lambda>s. bnd (process_execute api env s (base k)) (\<lambda>(pid, k1).
        bnd (exec_resume api pid k1) (\<lambda>(r, k2). Inr (case r of Some v \<Rightarrow> ret f v k2 | None \<Rightarrow> Sleeps_in_exec pid k2)))) =
      res_map base_outcome (bnd (Syscalls.user_string a k) (\<lambda>s. bnd (Processes.process_execute api env s k) (\<lambda>(pid, k1).
        bnd (Processes.exec_resume api pid k1) (\<lambda>(r, k2).
        Inr (case r of Some v \<Rightarrow> Syscalls.ret f v k2 | None \<Rightarrow> Syscalls.Sleeps_in_exec pid k2)))))" for a
    by (auto simp: base_execute base_exec_resume bnd_res_map ret_def Syscalls.ret_def split: option.splits intro!: bnd_cong)
  show "handle_exec_exit api dev env f (SYS_EXEC dev) args (base k) = res_map base_outcome (handle_exec api dev env f args k)"
    if "SYS_EXEC dev \<noteq> SYS_EXIT dev"
    using that by (simp add: handle_exec_exit_def handle_exec_def bnd_res_map base_checked [OF assms(1,3) e] cong: if_cong)
  have w: "bnd (write_buffer dev n a sz (base k)) (\<lambda>(v, k1). Inr (ret f v k1)) =
      res_map base_outcome (bnd (Syscalls.write_buffer dev n a sz k) (\<lambda>(v, k1). Inr (Syscalls.ret f v k1)))" for n a sz
    by (simp add: base_write [OF assms(2,3)] bnd_res_map split_beta ret_def Syscalls.ret_def)
  show "handle_write api dev f (SYS_WRITE dev) args (base k) = res_map base_outcome (Syscalls.handle_write api dev f args k)"
    by (simp add: handle_write_def Syscalls.handle_write_def bnd_res_map
        base_checked [OF assms(1,3) base_checked [OF assms(1,3) w]])
qed

text \<open>
  C25: The calls of 6.1 do what they do in 6.2, and every other one ends the process. For a process that uses none of
  the additions of 6.2: \<^verbatim>\<open>SYS_EXIT\<close>, \<^verbatim>\<open>SYS_EXEC\<close> and \<^verbatim>\<open>SYS_WRITE\<close> (to any descriptor) give, in every case including
  the bad pointers, the outcome that they give in 6.2; any other number ends the process with status -1.
\<close>
theorem served_calls_agree:
  assumes "sema_ok api" "u_sched_inv k" "quiet k" "Syscalls.load_int (esp f) k = Inr n"
    "User_Threads.pages k (User_Threads.running k) = Some th" "User_Threads.pagedir th \<noteq> None"
    "numbers_ok dev"
  shows "(n \<in> {SYS_EXIT dev, SYS_EXEC dev, SYS_WRITE dev} \<longrightarrow>
      syscall_handler api dev (call_exec env) f (base k) = res_map base_outcome (Syscalls.syscall_handler api dev env f k)) \<and>
    (n \<notin> {SYS_EXIT dev, SYS_EXEC dev, SYS_WRITE dev} \<longrightarrow>
      syscall_handler api dev (call_exec env) f (base k) = bnd (exit api (- 1) (base k)) (\<lambda>k'. Inr (Ended k')))"
proof (intro conjI impI)
  note h = base_handlers [OF assms(1-3)]
  assume n: "n \<in> {SYS_EXIT dev, SYS_EXEC dev, SYS_WRITE dev}"
  have inner: "(if n = SYS_EXIT dev \<or> n = SYS_EXEC dev
      then handle_exec_exit api dev (call_exec env) f n (esp f + 4) (base k)
      else if n = SYS_WRITE dev then handle_write api dev f (SYS_WRITE dev) (esp f + 4) (base k)
      else bnd (exit api (- 1) (base k)) (\<lambda>k'. Inr (Ended k'))) =
    res_map base_outcome (if n = SYS_EXIT dev then handle_exit api f (esp f + 4) k
      else if n = SYS_EXEC dev then handle_exec api dev (call_exec env) f (esp f + 4) k
      else Syscalls.handle_write api dev f (esp f + 4) k)"
    using n h assms(7) by (auto simp: numbers_ok_def)
  have o: "Syscalls.syscall_handler api dev env f k = Syscalls.checked api dev (esp f) k
      (Syscalls.checked api dev (esp f + 4) k (if n = SYS_EXIT dev then handle_exit api f (esp f + 4) k
      else if n = SYS_EXEC dev then handle_exec api dev (call_exec env) f (esp f + 4) k
      else Syscalls.handle_write api dev f (esp f + 4) k))"
  proof -
    have d: "SYS_WRITE dev \<noteq> SYS_CREATE dev" "SYS_WRITE dev \<noteq> SYS_REMOVE dev" "SYS_WRITE dev \<noteq> SYS_OPEN dev"
      "SYS_WRITE dev \<noteq> SYS_FILESIZE dev" "SYS_WRITE dev \<noteq> SYS_READ dev" "SYS_EXEC dev \<noteq> SYS_EXIT dev"
      "SYS_WRITE dev \<noteq> SYS_EXIT dev" "SYS_WRITE dev \<noteq> SYS_EXEC dev"
      using assms(7) by (auto simp: numbers_ok_def)
    consider "n = SYS_EXIT dev" | "n = SYS_EXEC dev" | "n = SYS_WRITE dev" using n by blast
    then show ?thesis
      by cases (simp_all add: Syscalls.syscall_handler_def Let_def assms(4) d)
  qed
  show "syscall_handler api dev (call_exec env) f (base k) = res_map base_outcome (Syscalls.syscall_handler api dev env f k)"
    unfolding o using base_checked [OF assms(1,3) base_checked [OF assms(1,3) inner]] assms(4)
    by (simp add: syscall_handler_def Let_def)
next
  assume n: "n \<notin> {SYS_EXIT dev, SYS_EXEC dev, SYS_WRITE dev}"
  let ?x = "bnd (exit api (- 1) (base k)) (\<lambda>k'. Inr (Ended k'))"
  have at: "User_Threads.thread_at k (User_Threads.running k) = Inr th"
    using assms(5) u_sched_invD(1) [OF assms(2)] by (auto simp: User_Scheduler.thread_at_Inr u_threads_ok_def)
  have "checked api dev a (base k) ?x = ?x" for a
    using assms(6) u_thread_current_eq [OF assms(2)] at
    by (cases "exit api (- 1) (base k)") (auto simp: checked_def check_valid_ptr_def split: option.splits)
  then show "syscall_handler api dev (call_exec env) f (base k) = ?x"
    using n assms(4) by (simp add: syscall_handler_def Let_def)
qed

subsection \<open>Examples\<close>

text \<open>The family of \<open>User_Scheduler\<close> in 6.1: its child runs, or its parent does and polls.\<close>

definition base_family :: "(string, string list) kernel" where
  "base_family = base (family THREAD_READY (User_Threads.new_child 0x4000 4) [])"

definition polling :: "child_status \<Rightarrow> int \<Rightarrow> (string, string list) kernel" where
  "polling c st = base ((family THREAD_RUNNING ((User_Threads.new_child 0x4000 4)
     \<lparr>User_Threads.exit_status := st, User_Threads.cur_status := c\<rparr>) [])\<lparr>User_Threads.running := 0x3000\<rparr>)"

lemma polling_facts:
  "thread_current (polling c st) = Inr 0x3000" "child_alive 0x3000 4 (polling c st) \<longleftrightarrow> c = ALIVE"
  "bnd (find_child (polling c st) 0x3000 4) (\<lambda>c. Inr (exit_status c)) = Inr st"
  by (simp_all add: polling_def child_alive_def base_find_child)
    (simp_all add: User_Threads.thread_current_def User_Threads.is_thread_def User_Threads.status_of_def
      User_Threads.find_child_def User_Threads.thread_at_def family_def sample_thread_def Let_def)

theorem process_wait_polls_witness:
  "process_wait (\<lambda>i. if i < 3 then polling ALIVE (- 999) else polling EXITED 7) 4 = Some (Inr 7) \<and>
   process_wait (\<lambda>i. polling ALIVE (- 999)) 4 = None"
proof -
  have p: "thread_current (if (0::nat) < 3 then polling ALIVE (- 999) else polling EXITED 7) = Inr 0x3000"
    "thread_current (polling ALIVE (- 999)) = Inr 0x3000" by (simp_all add: polling_facts)
  show ?thesis
    using process_wait_polls [of "\<lambda>i. if i < 3 then polling ALIVE (- 999) else polling EXITED 7" "0x3000" 4, OF p(1)]
      process_wait_polls [of "\<lambda>i. polling ALIVE (- 999)" "0x3000" 4, OF p(2)]
    by (auto simp: polling_facts intro!: exI [of _ 3])
qed

theorem extension_agrees_witness:
  "thread_yield base_family = res_map base (User_Threads.thread_yield (lift base_family)) \<and>
   exit sample_api 7 base_family = res_map base (Processes.exit sample_api 7 (lift base_family))"
  using extension_agrees [OF sema_ok_sample, of "lift base_family" _ _ _ _ _ _ _ _ _ _ _ 7] quiet_lift [of base_family]
  by simp

lemma base_family_facts:
  "base_sched_inv base_family" "\<not> in_interrupt base_family" "running base_family = 0x4000"
  "idle_thread base_family = 0x2000" "initial_thread base_family = 0x1000" "console base_family = []"
  "base_child_of base_family 0x3000 (base_thread (family_child [])) (new_child 0x4000 4)"
proof -
  show "base_sched_inv base_family" unfolding base_family_def base_inv_iff by (rule u_sched_inv_family) simp
  show "base_child_of base_family 0x3000 (base_thread (family_child [])) (new_child 0x4000 4)"
    by (simp add: base_child_of_def base_family_def base_new_child)
      (simp add: family_def family_child_def sample_thread_def base_get_child)
qed (simp_all add: base_family_def)

theorem polling_parent_gets_status_witness:
  "\<exists>k'. exit sample_api 7 base_family = Inr k' \<and> base_sched_inv k' \<and> pages k' 0x4000 = None \<and> console k' = [(''p'', 7)] \<and>
    (\<forall>ks :: nat \<Rightarrow> (string, string list) kernel. thread_current (ks 0) = Inr 0x3000 \<and> entry_of (ks 0) 0x3000 4 = entry_of k' 0x3000 4 \<longrightarrow>
       process_wait ks 4 = Some (Inr 7))"
proof -
  note f = base_family_facts
  have a: "cur_status (new_child 0x4000 4) = ALIVE" by (simp add: new_child_def)
  obtain k' where k': "exit sample_api 7 base_family = Inr k'" "base_sched_inv k'" "pages k' 0x4000 = None"
    "console k' = [(''p'', 7)]" and w: "\<forall>(ks :: nat \<Rightarrow> (string, string list) kernel) n. thread_current (ks 0) = Inr 0x3000 \<and> (\<forall>i < n. entry_of (ks i) 0x3000 4 = entry_of base_family 0x3000 4) \<and>
       entry_of (ks n) 0x3000 4 = entry_of k' 0x3000 4 \<longrightarrow> process_wait ks 4 = Some (Inr 7)"
    using polling_parent_gets_status [OF sema_ok_sample f(1,2) _ _ f(7) a, of 7, unfolded f]
    by auto
  have "process_wait ks 4 = Some (Inr 7)"
    if "thread_current (ks 0) = Inr 0x3000" "entry_of (ks 0) 0x3000 4 = entry_of k' 0x3000 4"
    for ks :: "nat \<Rightarrow> (string, string list) kernel"
    using w [rule_format, of ks 0] that by simp
  then show ?thesis using k' by blast
qed

definition base_calling :: "int \<Rightarrow> (string, string list) kernel" where
  "base_calling n = base (calling (call_memory (word_of_int n) 1 0x8000 4))"

theorem served_calls_agree_witness:
  "syscall_handler sample_api sample_dev (call_exec sample_env) call_frame (base_calling 9) =
     res_map base_outcome (Syscalls.syscall_handler sample_api sample_dev sample_env call_frame (lift (base_calling 9))) \<and>
   syscall_handler sample_api sample_dev (call_exec sample_env) call_frame (base_calling 4) =
     bnd (exit sample_api (- 1) (base_calling 4)) (\<lambda>k'. Inr (Ended k'))"
proof -
  let ?m = "\<lambda>n. call_memory (word_of_int n) 1 0x8000 4"
  have i: "u_sched_inv (lift (base_calling n))" for n
    using in_user_calling [of "?m n"] base_inv_iff [of "lift (base_calling n)"] base_inv_iff [of "calling (?m n)"]
    by (simp add: base_calling_def in_user_def)
  have l: "Syscalls.load_int (esp call_frame) (lift (base_calling n)) = Inr (sint (word_of_int n :: 32 word))" for n
    using base_memory(2) [of "esp call_frame" "lift (base_calling n)"] in_user_calling [of "?m n"]
    by (simp add: base_calling_def Syscalls.load_int_def Syscalls.user_memory_def in_user_def call_frame_def call_memory_loads)
  have p: "User_Threads.pages (lift (base_calling n)) (User_Threads.running (lift (base_calling n))) =
      Some (lift_thread (base_thread (calling_thread (?m n))))" for n
    using in_user_calling [of "?m n"]
    by (simp add: lift_def User_Threads.kernel.make_def base_calling_def in_user_def)
  have d: "User_Threads.pagedir (lift_thread (base_thread (calling_thread (?m n)))) \<noteq> None" for n
    using in_user_calling [of "?m n"] by (simp add: lift_thread_def User_Threads.thread.make_def in_user_def)
  show ?thesis
    using served_calls_agree [OF sema_ok_sample i quiet_lift l p d numbers_ok_sample, of 9 sample_env]
      served_calls_agree [OF sema_ok_sample i quiet_lift l p d numbers_ok_sample, of 4 sample_env] by simp
qed

end
