(* ===== verification/Base_Loader.thy ===== *)
theory Base_Loader
  imports Elf_Loader "HOL-Library.While_Combinator"
begin

section \<open>Loading an executable under \<^verbatim>\<open>file_lock\<close> (Assignment 6.1)\<close>

text \<open>
  \<^verbatim>\<open>load\<close> of \<^verbatim>\<open>Assignment_6_1/.../process.c\<close> and everything it calls. Here \<^verbatim>\<open>load\<close> takes \<^verbatim>\<open>file_lock\<close> at its first
  line and gives it back at its last, so what matters is what other processes that load at the same time
  can see in between. It is therefore modelled as a program counter (\<open>phase\<close>) with one step for every
  stretch of code between two calls into the file system or the page allocator: one program header, one page of a
  segment, the stack. The lock itself is in \<open>Base_Loading\<close>.

  The machine (\<open>sys\<close>), the process image and the headers are those of \<open>Elf_Loader\<close>. The helpers follow the C
  signatures: what is passed by reference is taken and returned.
\<close>

subsection \<open>The initial stack\<close>

definition split_and_insert ::
  "string \<Rightarrow> int \<Rightarrow> 32 word \<Rightarrow> int \<Rightarrow> umem \<Rightarrow> (int \<times> 32 word \<times> int \<times> umem) result" where
  "split_and_insert token len sp args m =
     (let token_length = i32 (int (length token) + 1);
          len1 = i32 (len + token_length);
          sp1 = sp - word_of_int token_length in
      bnd (store_bytes sp1 (string_bytes token) m) (\<lambda>m1.
      Inr (len1, sp1, i32 (args + 1), m1)))"

definition add_word_align :: "int \<Rightarrow> int \<Rightarrow> 32 word \<Rightarrow> umem \<Rightarrow> (int \<times> int \<times> 32 word \<times> umem) result" where
  "add_word_align align len sp m =
     (let (align1, len1) = while (\<lambda>(align, len). len mod 4 \<noteq> 0)
            (\<lambda>(align, len). (i32 (align + 1), i32 (len + 1))) (align, len) in
      if align1 \<noteq> 0 then
        let sp1 = sp - word_of_int align1 in
        bnd (store_bytes sp1 (replicate (nat align1) 0) m) (\<lambda>m1. Inr (align1, len1, sp1, m1))
      else Inr (align1, len1, sp, m))"

definition add_null_char :: "32 word \<Rightarrow> umem \<Rightarrow> (32 word \<times> umem) result" where
  "add_null_char sp m = bnd (store_bytes (sp - 4) [0] m) (\<lambda>m1. Inr (sp - 4, m1))"

text \<open>The counter stays below \<open>n\<close>, so that incrementing it does not overflow.\<close>

function address_loop :: "int \<Rightarrow> int \<Rightarrow> 32 word \<Rightarrow> 32 word \<Rightarrow> umem \<Rightarrow> (32 word \<times> 32 word \<times> umem) result" where
  "address_loop pushed n sp args_pointer m =
     (if pushed < n then
        bnd (store32 (sp - 4) args_pointer m) (\<lambda>m1.
        bnd (strlen m1 args_pointer) (\<lambda>l.
        address_loop (pushed + 1) n (sp - 4) (args_pointer + word_of_int (l + 1)) m1))
      else Inr (sp, args_pointer, m))"
  by pat_completeness auto
termination
  by (relation "measure (\<lambda>(pushed, n, _). nat (n - pushed))") auto

declare address_loop.simps [simp del]

definition add_argument_address :: "int \<Rightarrow> 32 word \<Rightarrow> 32 word \<Rightarrow> umem \<Rightarrow> (32 word \<times> 32 word \<times> umem) result" where
  "add_argument_address n sp args_pointer m = address_loop 0 n sp args_pointer m"

definition add_char_pointers :: "32 word \<Rightarrow> umem \<Rightarrow> (32 word \<times> umem) result" where
  "add_char_pointers sp m =
     (let char_pointer = sp; sp1 = sp - 4 in bnd (store32 sp1 char_pointer m) (\<lambda>m1. Inr (sp1, m1)))"

definition add_number_of_arguments :: "32 word \<Rightarrow> int \<Rightarrow> umem \<Rightarrow> (32 word \<times> umem) result" where
  "add_number_of_arguments sp n m =
     (let sp1 = sp - 4 in bnd (store32 sp1 (word_of_int n) m) (\<lambda>m1. Inr (sp1, m1)))"

text \<open>Also sets \<^verbatim>\<open>*esp\<close>, the second value.\<close>

definition add_return_address :: "32 word \<Rightarrow> umem \<Rightarrow> (32 word \<times> 32 word \<times> umem) result" where
  "add_return_address sp m =
     (let sp1 = sp - 4 in bnd (store32 sp1 0 m) (\<lambda>m1. Inr (sp1, sp1, m1)))"

text \<open>\<open>None\<close> is the null pointer with which \<^verbatim>\<open>strtok_r\<close> ends the loop.\<close>

function token_loop ::
  "string option \<Rightarrow> string \<Rightarrow> int \<Rightarrow> 32 word \<Rightarrow> int \<Rightarrow> umem \<Rightarrow> (int \<times> 32 word \<times> int \<times> umem) result" where
  "token_loop None save_ptr len sp args m = Inr (len, sp, args, m)"
| "token_loop (Some token) save_ptr len sp args m =
     bnd (split_and_insert token len sp args m) (\<lambda>(len1, sp1, args1, m1).
     (case strtok_r '' '' save_ptr of
        None \<Rightarrow> token_loop None save_ptr len1 sp1 args1 m1
      | Some (skip, token1, save_ptr1) \<Rightarrow> token_loop (Some token1) save_ptr1 len1 sp1 args1 m1))"
  by pat_completeness auto
termination
  by (relation "measure (\<lambda>(token, save_ptr, _). case token of None \<Rightarrow> 0 | Some t \<Rightarrow> length save_ptr + 1)")
    (auto dest: strtok_r_shorter)

definition set_arguments_into_stack :: "string \<Rightarrow> 32 word \<Rightarrow> string \<Rightarrow> umem \<Rightarrow> (32 word \<times> umem) result" where
  "set_arguments_into_stack file_name esp save_ptr m =
     bnd (token_loop (Some file_name) save_ptr 0 esp 0 m) (\<lambda>(len, sp, args, m).
     let args_pointer = sp in
     bnd (add_word_align 0 len sp m) (\<lambda>(align, len, sp, m).
     bnd (add_null_char sp m) (\<lambda>(sp, m).
     bnd (add_argument_address args sp args_pointer m) (\<lambda>(sp, args_pointer, m).
     bnd (add_char_pointers sp m) (\<lambda>(sp, m).
     bnd (add_number_of_arguments sp args m) (\<lambda>(sp, m).
     bnd (add_return_address sp m) (\<lambda>(sp, esp, m).
     Inr (esp, m))))))))"

subsection \<open>Pages and segments\<close>

definition install_page ::
  "'f sys \<Rightarrow> 32 word \<Rightarrow> 32 word \<Rightarrow> 8 word list \<Rightarrow> bool \<Rightarrow> 'f image \<Rightarrow> bool \<times> 'f image" where
  "install_page sys upage kpage contents w im =
     (if space im upage \<noteq> None then (False, im)
      else if \<not> set_page_ok sys upage then (False, im)
      else (True, im\<lparr>space := page_bytes upage contents (space im),
                     writable := (\<lambda>a. if unat (a - upage) < 4096 then w else writable im a),
                     installed := (upage, kpage) # installed im\<rparr>))"

definition validate_segment :: "'f sys \<Rightarrow> elf32_phdr \<Rightarrow> 'f \<Rightarrow> bool" where
  "validate_segment sys phdr file \<longleftrightarrow>
     \<not> (p_offset phdr AND 0xFFF \<noteq> p_vaddr phdr AND 0xFFF) \<and>
     \<not> p_offset phdr > word_of_int (file_length sys file) \<and>
     \<not> p_memsz phdr < p_filesz phdr \<and>
     \<not> p_memsz phdr = 0 \<and>
     is_user_vaddr sys (p_vaddr phdr) \<and>
     is_user_vaddr sys (p_vaddr phdr + p_memsz phdr) \<and>
     \<not> p_vaddr phdr + p_memsz phdr < p_vaddr phdr \<and>
     \<not> p_vaddr phdr < 4096"

definition setup_stack :: "'f sys \<Rightarrow> 'f image \<Rightarrow> 32 word option \<times> 'f image" where
  "setup_stack sys im =
     (case palloc_get_page im of (kpage, im1) \<Rightarrow>
        if kpage = 0 then (None, im1)
        else
          (case install_page sys (phys_base sys - 4096) kpage (replicate 4096 0) True im1 of
             (True, im2) \<Rightarrow> (Some (phys_base sys), im2)
           | (False, im2) \<Rightarrow> (None, palloc_free_page kpage im2)))"

subsection \<open>\<^verbatim>\<open>load\<close>, step by step\<close>

text \<open>
  \<open>words\<close>: how far \<^verbatim>\<open>strtok_r\<close> moved \<^verbatim>\<open>fn_copy\<close>, the word it is at, and the rest at \<^verbatim>\<open>save_ptr\<close>. \<open>Headers\<close> is at the head of
  the loop over the program headers, with the entry point, the number of headers left and \<^verbatim>\<open>file_ofs\<close>; \<open>Segment\<close>
  at the head of the loop of \<^verbatim>\<open>load_segment\<close>, with \<^verbatim>\<open>upage\<close>, \<^verbatim>\<open>read_bytes\<close>, \<^verbatim>\<open>zero_bytes\<close> and \<^verbatim>\<open>writable\<close>;
  \<open>Finished\<close> behind \<^verbatim>\<open>done:\<close>, with \<^verbatim>\<open>*eip\<close> and \<^verbatim>\<open>*esp\<close> if \<^verbatim>\<open>success\<close>.
\<close>

type_synonym words = "nat \<times> string \<times> string"

datatype 'f phase =
    Opening string
  | Reading words 'f
  | Headers words "32 word" nat int 'f
  | Segment words "32 word" nat int "32 word" "32 word" "32 word" bool 'f
  | Stacking words "32 word" 'f
  | Finished "(32 word \<times> 32 word) option"

fun finished :: "'f phase \<Rightarrow> bool" where
  "finished (Finished r) = True"
| "finished _ = False"

definition done_label :: "(32 word \<times> 32 word) option \<Rightarrow> 'f option \<Rightarrow> 'f image \<Rightarrow> 'f phase \<times> 'f image" where
  "done_label success file im =
     (Finished success,
      if success \<noteq> None
      then im\<lparr>loaded_file := file,
              file_ops := file_ops im @ (case file of None \<Rightarrow> [] | Some f \<Rightarrow> [Denies_write f])\<rparr>
      else im\<lparr>file_ops := file_ops im @ [Closes file]\<rparr>)"

definition open_step :: "'f sys \<Rightarrow> string \<Rightarrow> 'f image \<Rightarrow> ('f phase \<times> 'f image) result" where
  "open_step sys file_name im =
     (if \<not> pagedir_create_ok sys then Inr (done_label None None im)
      else if \<not> malloc_ok sys (length file_name + 1) then Inl Null_deref
      else
        (case strtok_r '' '' (strlcpy file_name (length file_name + 1)) of
           None \<Rightarrow> Inl Null_deref
         | Some (skip, fn_copy, save_ptr) \<Rightarrow>
             let im1 = im\<lparr>file_ops := file_ops im @ [Opens fn_copy]\<rparr> in
             (case filesys_open sys fn_copy of
                None \<Rightarrow> Inr (done_label None None im1)
              | Some file \<Rightarrow> Inr (Reading (skip, fn_copy, save_ptr) file, im1))))"

definition read_step :: "'f sys \<Rightarrow> words \<Rightarrow> 'f \<Rightarrow> 'f image \<Rightarrow> ('f phase \<times> 'f image) result" where
  "read_step sys ws file im =
     (let (bs, file1) = file_read sys file 52; ehdr = ehdr_of bs in
      if length bs \<noteq> 52 \<or> take 7 (e_ident ehdr) \<noteq> [0x7F, 0x45, 0x4C, 0x46, 1, 1, 1] \<or> e_type ehdr \<noteq> 2 \<or>
         e_machine ehdr \<noteq> 3 \<or> e_version ehdr \<noteq> 1 \<or> e_phentsize ehdr \<noteq> 32 \<or> e_phnum ehdr > 1024
      then Inr (done_label None (Some file1) im)
      else Inr (Headers ws (e_entry ehdr) (unat (e_phnum ehdr)) (sint (e_phoff ehdr)) file1, im))"

text \<open>The call of \<^verbatim>\<open>load_segment\<close> up to its loop.\<close>

definition enter_segment ::
  "words \<Rightarrow> 32 word \<Rightarrow> nat \<Rightarrow> int \<Rightarrow> 'f sys \<Rightarrow> 'f \<Rightarrow> 32 word \<Rightarrow> 32 word \<Rightarrow> 32 word \<Rightarrow> 32 word \<Rightarrow> bool \<Rightarrow> 'f image \<Rightarrow>
   ('f phase \<times> 'f image) result" where
  "enter_segment ws entry left file_ofs sys file ofs upage read_bytes zero_bytes w im =
     (if (read_bytes + zero_bytes) mod 4096 \<noteq> 0 \<or> upage AND 0xFFF \<noteq> 0 \<or> ofs mod 4096 \<noteq> 0
      then Inl Assertion_failed
      else Inr (Segment ws entry left file_ofs upage read_bytes zero_bytes w (file_seek sys file (sint ofs)), im))"

definition load_case ::
  "'f sys \<Rightarrow> words \<Rightarrow> 32 word \<Rightarrow> nat \<Rightarrow> int \<Rightarrow> elf32_phdr \<Rightarrow> 'f \<Rightarrow> 'f image \<Rightarrow> ('f phase \<times> 'f image) result" where
  "load_case sys ws entry left file_ofs phdr file im =
     (if validate_segment sys phdr file then
        let w = (p_flags phdr AND PF_W \<noteq> 0);
            file_page = p_offset phdr AND NOT 0xFFF;
            mem_page = p_vaddr phdr AND NOT 0xFFF;
            page_offset = p_vaddr phdr AND 0xFFF;
            read_bytes = (if p_filesz phdr > 0 then page_offset + p_filesz phdr else 0);
            zero_bytes = (if p_filesz phdr > 0 then ROUND_UP (page_offset + p_memsz phdr) - read_bytes
                          else ROUND_UP (page_offset + p_memsz phdr)) in
        enter_segment ws entry left file_ofs sys file file_page mem_page read_bytes zero_bytes w im
      else Inr (done_label None (Some file) im))"

fun headers_step ::
  "'f sys \<Rightarrow> words \<Rightarrow> 32 word \<Rightarrow> nat \<Rightarrow> int \<Rightarrow> 'f \<Rightarrow> 'f image \<Rightarrow> ('f phase \<times> 'f image) result" where
  "headers_step sys ws entry 0 file_ofs file im = Inr (Stacking ws entry file, im)"
| "headers_step sys ws entry (Suc left) file_ofs file im =
     (if file_ofs < 0 \<or> file_ofs > file_length sys file then Inr (done_label None (Some file) im)
      else
        let (bs, file1) = file_read sys (file_seek sys file file_ofs) 32 in
        if length bs \<noteq> 32 then Inr (done_label None (Some file1) im)
        else
          let phdr = phdr_of bs; file_ofs1 = i32 (file_ofs + 32) in
          if p_type phdr \<in> {PT_DYNAMIC, PT_INTERP, PT_SHLIB} then Inr (done_label None (Some file1) im)
          else if p_type phdr = PT_LOAD then load_case sys ws entry left file_ofs1 phdr file1 im
          else Inr (Headers ws entry left file_ofs1 file1, im))"

text \<open>
  One round of the loop of \<^verbatim>\<open>load_segment\<close>. A return of \<^verbatim>\<open>false\<close> leads to \<^verbatim>\<open>done\<close>, a return of \<^verbatim>\<open>true\<close> to the next
  header.
\<close>

definition load_segment_round ::
  "'f sys \<Rightarrow> words \<Rightarrow> 32 word \<Rightarrow> nat \<Rightarrow> int \<Rightarrow> 32 word \<Rightarrow> 32 word \<Rightarrow> 32 word \<Rightarrow> bool \<Rightarrow> 'f \<Rightarrow> 'f image \<Rightarrow>
   'f phase \<times> 'f image" where
  "load_segment_round sys ws entry left file_ofs upage read_bytes zero_bytes w file im =
     (if read_bytes > 0 \<or> zero_bytes > 0 then
        let page_read_bytes = (if read_bytes < 4096 then read_bytes else 4096);
            page_zero_bytes = 4096 - page_read_bytes;
            (kpage, im1) = palloc_get_page im in
        if kpage = 0 then done_label None (Some file) im1
        else
          let (bs, file1) = file_read sys file (unat page_read_bytes) in
          if length bs \<noteq> unat page_read_bytes then done_label None (Some file1) (palloc_free_page kpage im1)
          else
            (case install_page sys upage kpage (bs @ replicate (unat page_zero_bytes) 0) w im1 of
               (False, im2) \<Rightarrow> done_label None (Some file1) (palloc_free_page kpage im2)
             | (True, im2) \<Rightarrow>
                 (Segment ws entry left file_ofs (upage + 4096) (read_bytes - page_read_bytes)
                    (zero_bytes - page_zero_bytes) w file1, im2))
      else (Headers ws entry left file_ofs file, im))"

definition stack_step :: "'f sys \<Rightarrow> words \<Rightarrow> 32 word \<Rightarrow> 'f \<Rightarrow> 'f image \<Rightarrow> ('f phase \<times> 'f image) result" where
  "stack_step sys ws entry file im =
     (case (ws, setup_stack sys im) of
        (_, None, im1) \<Rightarrow> Inr (done_label None (Some file) im1)
      | ((skip, fn_copy, save_ptr), Some esp, im1) \<Rightarrow>
          bnd (set_arguments_into_stack fn_copy esp save_ptr (space im1)) (\<lambda>(esp1, m).
          if skip \<noteq> 0 then Inl Bad_free
          else Inr (done_label (Some (entry, esp1)) (Some file) (im1\<lparr>space := m\<rparr>))))"

fun load_step :: "'f sys \<Rightarrow> 'f phase \<Rightarrow> 'f image \<Rightarrow> ('f phase \<times> 'f image) result" where
  "load_step sys (Opening file_name) im = open_step sys file_name im"
| "load_step sys (Reading ws file) im = read_step sys ws file im"
| "load_step sys (Headers ws entry left file_ofs file) im = headers_step sys ws entry left file_ofs file im"
| "load_step sys (Segment ws entry left file_ofs upage read_bytes zero_bytes w file) im =
     Inr (load_segment_round sys ws entry left file_ofs upage read_bytes zero_bytes w file im)"
| "load_step sys (Stacking ws entry file) im = stack_step sys ws entry file im"
| "load_step sys (Finished r) im = Inr (Finished r, im)"

subsection \<open>Every load comes to an end\<close>

text \<open>A bound on the steps left: every round of a segment takes a page, and there are at most 1024 headers.\<close>

fun effort :: "'f phase \<Rightarrow> 'f image \<Rightarrow> nat" where
  "effort (Opening file_name) im = 2054 + length (kpages im)"
| "effort (Reading ws file) im = 2053 + length (kpages im)"
| "effort (Headers ws entry left file_ofs file) im = 2 * left + length (kpages im) + 2"
| "effort (Segment ws entry left file_ofs upage read_bytes zero_bytes w file) im = 2 * left + length (kpages im) + 3"
| "effort (Stacking ws entry file) im = 1 + length (kpages im)"
| "effort (Finished r) im = 0"

lemma effort_done [simp]: "done_label r file im = (ph, im') \<Longrightarrow> effort ph im' = 0"
  by (auto simp: done_label_def)

lemma read_step_effort:
  assumes "read_step sys ws file im = Inr (ph, im')"
  shows "effort ph im' < 2053 + length (kpages im)"
proof -
  obtain bs file1 where r: "file_read sys file 52 = (bs, file1)" by (cases "file_read sys file 52")
  have "unat (e_phnum (ehdr_of bs)) \<le> 1024" if "\<not> e_phnum (ehdr_of bs) > 1024"
    using that by (simp add: word_le_nat_alt not_less)
  then show ?thesis using assms by (auto simp: read_step_def r Let_def split: if_splits)
qed

lemma load_case_effort:
  assumes "load_case sys ws entry left file_ofs phdr file im = Inr (ph, im')"
  shows "effort ph im' \<le> 2 * left + length (kpages im) + 3"
  using assms by (auto simp: load_case_def enter_segment_def Let_def split: if_splits)

text \<open>A header with the bytes read given.\<close>

lemma headers_step_outcomes:
  assumes r: "file_read sys (file_seek sys file file_ofs) 32 = (bs, file1)"
  shows "headers_step sys ws entry (Suc left) file_ofs file im =
     (if file_ofs < 0 \<or> file_ofs > file_length sys file then Inr (done_label None (Some file) im)
      else if length bs \<noteq> 32 then Inr (done_label None (Some file1) im)
      else if p_type (phdr_of bs) \<in> {PT_DYNAMIC, PT_INTERP, PT_SHLIB} then Inr (done_label None (Some file1) im)
      else if p_type (phdr_of bs) = PT_LOAD
      then load_case sys ws entry left (i32 (file_ofs + 32)) (phdr_of bs) file1 im
      else Inr (Headers ws entry left (i32 (file_ofs + 32)) file1, im))"
  unfolding headers_step.simps Let_def r prod.case by (rule refl)

lemma headers_step_effort:
  assumes "headers_step sys ws entry left file_ofs file im = Inr (ph, im')"
  shows "effort ph im' < 2 * left + length (kpages im) + 2"
proof (cases left)
  case (Suc n)
  obtain bs file1 where r: "file_read sys (file_seek sys file file_ofs) 32 = (bs, file1)" by fastforce
  note * = assms [unfolded Suc headers_step_outcomes [OF r]]
  consider "file_ofs < 0 \<or> file_ofs > file_length sys file \<or> length bs \<noteq> 32 \<or>
      p_type (phdr_of bs) \<in> {PT_DYNAMIC, PT_INTERP, PT_SHLIB}" |
    "\<not> (file_ofs < 0 \<or> file_ofs > file_length sys file)"
    "\<not> (length bs \<noteq> 32 \<or> p_type (phdr_of bs) \<in> {PT_DYNAMIC, PT_INTERP, PT_SHLIB})" by blast
  then show ?thesis
  proof cases
    case 1
    then show ?thesis using * by (auto split: if_splits)
  next
    case 2
    then show ?thesis
      using * load_case_effort [of sys ws entry n "i32 (file_ofs + 32)" "phdr_of bs" file1 im ph im']
      by (cases "p_type (phdr_of bs) = PT_LOAD") (auto simp: Suc)
  qed
qed (use assms in auto)

lemma install_page_kpages: "install_page sys upage kpage contents w im = (okay, im') \<Longrightarrow> kpages im' = kpages im"
  by (auto simp: install_page_def split: if_splits)

text \<open>A round with the outcomes of its three calls given.\<close>

lemma load_segment_round_outcomes:
  assumes "rb > 0 \<or> zb > 0" and n: "n = (if rb < 4096 then rb else 4096)"
    and p: "palloc_get_page im = (kpage, im1)" and r: "file_read sys file (unat n) = (bs, file1)"
    and i: "install_page sys upage kpage (bs @ replicate (unat (4096 - n)) 0) w im1 = (okay, im2)"
  shows "load_segment_round sys ws entry left file_ofs upage rb zb w file im =
     (if kpage = 0 then done_label None (Some file) im1
      else if length bs \<noteq> unat n then done_label None (Some file1) (palloc_free_page kpage im1)
      else if \<not> okay then done_label None (Some file1) (palloc_free_page kpage im2)
      else (Segment ws entry left file_ofs (upage + 4096) (rb - n) (zb - (4096 - n)) w file1, im2))"
  using assms(1) unfolding load_segment_round_def Let_def n [symmetric]
  by (cases okay) (simp_all only: p r i prod.case bool.case if_True if_False simp_thms)

lemma load_segment_round_effort:
  assumes "load_segment_round sys ws entry left file_ofs upage rb zb w file im = (ph, im')"
  shows "effort ph im' < 2 * left + length (kpages im) + 3"
proof (cases "rb > 0 \<or> zb > 0")
  case True
  obtain n where n: "n = (if rb < 4096 then rb else 4096)" by blast
  obtain kpage im1 where p: "palloc_get_page im = (kpage, im1)" by fastforce
  obtain bs file1 where r: "file_read sys file (unat n) = (bs, file1)" by fastforce
  obtain okay im2 where i: "install_page sys upage kpage (bs @ replicate (unat (4096 - n)) 0) w im1 = (okay, im2)"
    by fastforce
  have "length (kpages im1) < length (kpages im)" if "kpage \<noteq> 0"
    using p that by (auto simp: palloc_get_page_def split: list.splits)
  then show ?thesis
    using assms install_page_kpages [OF i]
    unfolding load_segment_round_outcomes [OF True n p r i] by (auto split: if_splits)
qed (use assms in \<open>auto simp: load_segment_round_def\<close>)

lemma stack_step_effort: "stack_step sys ws entry file im = Inr (ph, im') \<Longrightarrow> effort ph im' = 0"
  by (auto simp: stack_step_def res_simps split: prod.splits option.splits if_splits)

lemma open_step_effort:
  assumes "open_step sys file_name im = Inr (ph, im')"
  shows "effort ph im' < 2054 + length (kpages im)"
  using assms by (auto simp: open_step_def Let_def split: if_splits option.splits prod.splits)

lemma load_step_effort:
  assumes "load_step sys ph im = Inr (ph', im')" and "\<not> finished ph"
  shows "effort ph' im' < effort ph im"
  using assms open_step_effort read_step_effort headers_step_effort load_segment_round_effort
    stack_step_effort [of sys _ _ _ im ph' im']
  by (cases ph) fastforce+

text \<open>\<^verbatim>\<open>load\<close> between taking and giving back the lock, by itself.\<close>

function load_run :: "'f sys \<Rightarrow> 'f phase \<Rightarrow> 'f image \<Rightarrow> ('f phase \<times> 'f image) result" where
  "load_run sys ph im =
     (if finished ph then Inr (ph, im)
      else bnd (load_step sys ph im) (\<lambda>(ph', im'). load_run sys ph' im'))"
  by pat_completeness auto
termination
  by (relation "measure (\<lambda>(sys, ph, im). effort ph im)") (auto intro: load_step_effort)

declare load_run.simps [simp del]

end
