(* ===== verification/Critical_Section.thy ===== *)
theory Critical_Section
  imports Prelude
begin

section \<open>Work under a lock\<close>

text \<open>
  Any number of threads that each take a lock, work in steps on what they share, and give the lock back. The lock
  is the one of the kernel's \<^verbatim>\<open>synch.c\<close>, which is not part of the repository: \<open>acquire\<close> and \<open>release\<close> are
  parameters, and \<open>lock_ok\<close> is what is documented of them. \<open>acquire\<close> gives nothing while the thread has to sleep.

  The locale \<open>critical_section\<close> is the contract of the work: every step of it comes nearer to the end. From that, and
  the lock, follows that the threads work one after the other, whatever the interleaving of their steps.
\<close>

datatype 'l stage = Entering 'l | Inside 'l | Left 'l

record ('t, 'k, 's, 'l) site =
  lock :: 'k
  shared :: 's
  stage :: "'t \<Rightarrow> 'l stage"

definition lock_ok :: "('t \<Rightarrow> 'k \<Rightarrow> 'k option) \<Rightarrow> ('t \<Rightarrow> 'k \<Rightarrow> 'k) \<Rightarrow> ('k \<Rightarrow> 't option) \<Rightarrow> bool" where
  "lock_ok acquire release holder \<longleftrightarrow>
     (\<forall>t k. holder k = None \<longrightarrow> (\<exists>k'. acquire t k = Some k' \<and> holder k' = Some t)) \<and>
     (\<forall>t u k. holder k = Some u \<and> u \<noteq> t \<longrightarrow> acquire t k = None) \<and>
     (\<forall>t k. holder k = Some t \<longrightarrow> holder (release t k) = None)"

lemma lock_okD:
  assumes "lock_ok acquire release holder"
  shows "holder k = None \<Longrightarrow> \<exists>k'. acquire t k = Some k' \<and> holder k' = Some t"
    and "acquire t k = Some k' \<Longrightarrow> holder k = None \<or> holder k = Some t"
    and "holder k = None \<Longrightarrow> acquire t k = Some k' \<Longrightarrow> holder k' = Some t"
    and "holder k = Some t \<Longrightarrow> holder (release t k) = None"
proof -
  note l = assms [unfolded lock_ok_def]
  show "holder k = None \<Longrightarrow> \<exists>k'. acquire t k = Some k' \<and> holder k' = Some t" using l by blast
  show "acquire t k = Some k' \<Longrightarrow> holder k = None \<or> holder k = Some t"
    using l by (cases "holder k") fastforce+
  show "holder k' = Some t" if h: "holder k = None" and a: "acquire t k = Some k'"
  proof -
    obtain k2 where "acquire t k = Some k2" "holder k2 = Some t" using l h by blast
    then show ?thesis using a by simp
  qed
  show "holder k = Some t \<Longrightarrow> holder (release t k) = None" using l by blast
qed

inductive work_step :: "('l \<Rightarrow> 's \<Rightarrow> ('l \<times> 's) result) \<Rightarrow> ('l \<Rightarrow> bool) \<Rightarrow> 'l \<times> 's \<Rightarrow> 'l \<times> 's \<Rightarrow> bool"
  for work over
where
  "\<not> over l \<Longrightarrow> work l s = Inr (l', s') \<Longrightarrow> work_step work over (l, s) (l', s')"

inductive section_step ::
  "('t \<Rightarrow> 'k \<Rightarrow> 'k option) \<Rightarrow> ('t \<Rightarrow> 'k \<Rightarrow> 'k) \<Rightarrow> ('l \<Rightarrow> 's \<Rightarrow> ('l \<times> 's) result) \<Rightarrow> ('l \<Rightarrow> bool) \<Rightarrow>
   ('t, 'k, 's, 'l) site \<Rightarrow> ('t, 'k, 's, 'l) site \<Rightarrow> bool"
  for acquire release work over
where
  enter: "stage c t = Entering l \<Longrightarrow> acquire t (lock c) = Some k \<Longrightarrow>
    section_step acquire release work over c (c\<lparr>lock := k, stage := (stage c)(t := Inside l)\<rparr>)"
| works: "stage c t = Inside l \<Longrightarrow> \<not> over l \<Longrightarrow> work l (shared c) = Inr (l', s) \<Longrightarrow>
    section_step acquire release work over c (c\<lparr>shared := s, stage := (stage c)(t := Inside l')\<rparr>)"
| leave: "stage c t = Inside l \<Longrightarrow> over l \<Longrightarrow>
    section_step acquire release work over c (c\<lparr>lock := release t (lock c), stage := (stage c)(t := Left l)\<rparr>)"

text \<open>The threads of a list, the last one first, have done their work one after the other.\<close>

inductive in_turn ::
  "('l \<Rightarrow> 's \<Rightarrow> ('l \<times> 's) result) \<Rightarrow> ('l \<Rightarrow> bool) \<Rightarrow> ('t \<Rightarrow> 'l) \<Rightarrow> 's \<Rightarrow> ('t \<times> 'l) list \<Rightarrow> 's \<Rightarrow> bool"
  for work over init s0
where
  nobody: "in_turn work over init s0 [] s0"
| next_one: "in_turn work over init s0 past s \<Longrightarrow> (work_step work over)\<^sup>*\<^sup>* (init t, s) (l, s') \<Longrightarrow> over l \<Longrightarrow>
    in_turn work over init s0 ((t, l) # past) s'"

text \<open>The state of the site seen as: some have left, one may be at work on what they left, the others wait.\<close>

definition one_at_a_time ::
  "('k \<Rightarrow> 't option) \<Rightarrow> ('l \<Rightarrow> 's \<Rightarrow> ('l \<times> 's) result) \<Rightarrow> ('l \<Rightarrow> bool) \<Rightarrow> ('t \<Rightarrow> 'l) \<Rightarrow> 's \<Rightarrow>
   ('t \<times> 'l) list \<Rightarrow> 's \<Rightarrow> ('t, 'k, 's, 'l) site \<Rightarrow> bool" where
  "one_at_a_time holder work over init s0 past s1 c \<longleftrightarrow>
     distinct (map fst past) \<and> in_turn work over init s0 past s1 \<and>
     (\<forall>t l. stage c t = Left l \<longleftrightarrow> (t, l) \<in> set past) \<and>
     (\<forall>t l. stage c t = Entering l \<longrightarrow> l = init t \<and> holder (lock c) \<noteq> Some t) \<and>
     (\<forall>t l. stage c t = Inside l \<longrightarrow> holder (lock c) = Some t) \<and>
     (case holder (lock c) of
        None \<Rightarrow> shared c = s1
      | Some t \<Rightarrow> \<exists>l. stage c t = Inside l \<and> (work_step work over)\<^sup>*\<^sup>* (init t, s1) (l, shared c))"

locale critical_section =
  fixes work :: "'l \<Rightarrow> 's \<Rightarrow> ('l \<times> 's) result" and over :: "'l \<Rightarrow> bool" and effort :: "'l \<Rightarrow> 's \<Rightarrow> nat"
  assumes advances: "\<not> over l \<Longrightarrow> work l s = Inr (l', s') \<Longrightarrow> effort l' s' < effort l s"
begin

lemma step_keeps:
  assumes ok: "lock_ok acquire release holder" and "section_step acquire release work over c c'"
    and inv: "one_at_a_time holder work over init s0 past s1 c"
  shows "\<exists>past' s1'. one_at_a_time holder work over init s0 past' s1' c'"
  using assms(2)
proof cases
  case (enter t l k)
  note i = inv [unfolded one_at_a_time_def]
  have l: "l = init t" "holder (lock c) \<noteq> Some t" using i enter(2) by blast+
  then have h: "holder (lock c) = None" using lock_okD(2) [OF ok enter(3)] by blast
  then have "holder k = Some t" using lock_okD(3) [OF ok _ enter(3)] by blast
  moreover have "shared c = s1" using i h by simp
  moreover have "\<forall>la. (t, la) \<notin> set past" using i enter(2) by force
  ultimately have "one_at_a_time holder work over init s0 past s1 c'"
    using i h l(1) enter(2) unfolding one_at_a_time_def enter(1) by auto
  then show ?thesis by blast
next
  case (works t l l' s)
  note i = inv [unfolded one_at_a_time_def]
  have h: "holder (lock c) = Some t" using i works(2) by blast
  then have "(work_step work over)\<^sup>*\<^sup>* (init t, s1) (l, shared c)" using i works(2) by auto
  then have "(work_step work over)\<^sup>*\<^sup>* (init t, s1) (l', s)"
    using work_step.intros [of over l work "shared c" l' s] works(3,4) by (blast intro: rtranclp.rtrancl_into_rtrancl)
  moreover have "\<forall>la. (t, la) \<notin> set past" using i works(2) by force
  ultimately have "one_at_a_time holder work over init s0 past s1 c'"
    using i h works(2) unfolding one_at_a_time_def works(1) by auto
  then show ?thesis by blast
next
  case (leave t l)
  note i = inv [unfolded one_at_a_time_def]
  have h: "holder (lock c) = Some t" using i leave(2) by blast
  then have "(work_step work over)\<^sup>*\<^sup>* (init t, s1) (l, shared c)" using i leave(2) by auto
  then have "in_turn work over init s0 ((t, l) # past) (shared c)" using i leave(3) by (blast intro: in_turn.intros)
  moreover have "t \<notin> fst ` set past" "\<forall>la. (t, la) \<notin> set past" using i leave(2) by force+
  ultimately have "one_at_a_time holder work over init s0 ((t, l) # past) (shared c) c'"
    using i h leave(2) lock_okD(4) [OF ok h] unfolding one_at_a_time_def leave(1) by auto
  then show ?thesis by blast
qed

lemma reachable_one_at_a_time:
  assumes "(section_step acquire release work over)\<^sup>*\<^sup>* c0 c" and "lock_ok acquire release holder"
    and "holder (lock c0) = None" and "\<forall>t. stage c0 t = Entering (init t)"
  shows "\<exists>past s1. one_at_a_time holder work over init (shared c0) past s1 c"
  using assms(1)
proof induction
  case base
  have "one_at_a_time holder work over init (shared c0) [] (shared c0) c0"
    using assms(3,4) by (simp add: one_at_a_time_def in_turn.nobody)
  then show ?case by blast
next
  case (step c c')
  then show ?case using step_keeps [OF assms(2)] by blast
qed

text \<open>Whoever is inside gets to the end, unless a step of its work faults.\<close>

lemma gets_to_the_end:
  "\<exists>l' s'. (work_step work over)\<^sup>*\<^sup>* (l, s) (l', s') \<and> (over l' \<or> (\<exists>e. work l' s' = Inl e))"
proof (induction "effort l s" arbitrary: l s rule: less_induct)
  case less
  show ?case
  proof (cases "work l s")
    case (Inr x)
    obtain l1 s1 where x: "x = (l1, s1)" by (cases x)
    show ?thesis
    proof (cases "over l")
      case False
      have s: "work_step work over (l, s) (l1, s1)" using work_step.intros [of over l work s l1 s1] False Inr x by blast
      obtain l' s' where "(work_step work over)\<^sup>*\<^sup>* (l1, s1) (l', s')" "over l' \<or> (\<exists>e. work l' s' = Inl e)"
        using less [OF advances [OF False]] Inr x by blast
      then show ?thesis using s by (blast intro: converse_rtranclp_into_rtranclp)
    qed blast
  qed blast
qed

lemma inside_runs:
  assumes "(work_step work over)\<^sup>*\<^sup>* (l, s) (l', s')" and "stage c t = Inside l" and "shared c = s"
  shows "(section_step acquire release work over)\<^sup>*\<^sup>* c (c\<lparr>shared := s', stage := (stage c)(t := Inside l')\<rparr>)"
  using assms
proof (induction arbitrary: c rule: converse_rtranclp_induct2)
  case refl
  then have "c\<lparr>shared := s', stage := (stage c)(t := Inside l')\<rparr> = c" by (simp add: fun_upd_idem)
  then show ?case by (simp only: rtranclp.rtrancl_refl)
next
  case (step l s l1 s1)
  let ?c = "c\<lparr>shared := s1, stage := (stage c)(t := Inside l1)\<rparr>"
  have "\<not> over l" "work l s = Inr (l1, s1)" using step.hyps(1) by (auto elim: work_step.cases)
  then have 1: "section_step acquire release work over c ?c"
    using section_step.works [of c t l over work l1 s1] step.prems by blast
  have "(section_step acquire release work over)\<^sup>*\<^sup>* ?c (?c\<lparr>shared := s', stage := (stage ?c)(t := Inside l')\<rparr>)"
    by (rule step.IH) simp_all
  with 1 have "(section_step acquire release work over)\<^sup>*\<^sup>* c (?c\<lparr>shared := s', stage := (stage ?c)(t := Inside l')\<rparr>)"
    by (rule converse_rtranclp_into_rtranclp)
  moreover have "?c\<lparr>shared := s', stage := (stage ?c)(t := Inside l')\<rparr> = c\<lparr>shared := s', stage := (stage c)(t := Inside l')\<rparr>"
    by simp
  ultimately show ?case by (simp only:)
qed

text \<open>So the lock is given back, and a thread that waits for it is not stuck.\<close>

lemma lock_given_back:
  assumes "lock_ok acquire release holder" and "one_at_a_time holder work over init s0 past s1 c" and "stage c t = Inside l"
  shows "\<exists>c'. (section_step acquire release work over)\<^sup>*\<^sup>* c c' \<and> (\<forall>u. u \<noteq> t \<longrightarrow> stage c' u = stage c u) \<and>
    (holder (lock c') = None \<and> (\<exists>l'. stage c' t = Left l') \<or> (\<exists>l' e. stage c' t = Inside l' \<and> work l' (shared c') = Inl e))"
proof -
  obtain l' s' where r: "(work_step work over)\<^sup>*\<^sup>* (l, shared c) (l', s')" and e: "over l' \<or> (\<exists>e. work l' s' = Inl e)"
    using gets_to_the_end by blast
  let ?c = "c\<lparr>shared := s', stage := (stage c)(t := Inside l')\<rparr>"
  have 1: "(section_step acquire release work over)\<^sup>*\<^sup>* c ?c" by (rule inside_runs [OF r assms(3) refl])
  show ?thesis
  proof (cases "over l'")
    case True
    let ?d = "?c\<lparr>lock := release t (lock ?c), stage := (stage ?c)(t := Left l')\<rparr>"
    have 2: "section_step acquire release work over ?c ?d" by (rule section_step.leave) (use True in simp_all)
    have "holder (lock c) = Some t" using assms(2,3) by (auto simp: one_at_a_time_def)
    then have "holder (lock ?d) = None" using lock_okD(4) [OF assms(1)] by simp
    moreover have "(section_step acquire release work over)\<^sup>*\<^sup>* c ?d" using 1 2 by (rule rtranclp.rtrancl_into_rtrancl)
    ultimately show ?thesis by (intro exI [of _ ?d]) simp
  next
    case False
    then show ?thesis using 1 e by (intro exI [of _ ?c]) simp
  qed
qed

end

end
