(* ===== verification/Base_Loading.thy ===== *)
theory Base_Loading
  imports Base_Loader Loader_Safety Critical_Section
begin

section \<open>Loading one at a time (Assignment 6.1)\<close>

text \<open>
  The steps of \<^verbatim>\<open>load\<close> of Assignment 6.1, run to the end, are \<^verbatim>\<open>load\<close> of Assignment 6.2 as \<open>Elf_Loader\<close> has it, faults
  and failures included, so that what \<open>Loader_Safety\<close> and \<open>Arg_Stack\<close> prove of the one holds of the other.
  And \<^verbatim>\<open>file_lock\<close> does what it is there for: the steps are an instance of \<open>Critical_Section\<close>, so processes that
  load at the same time do not disturb each other.
\<close>

subsection \<open>The initial stack\<close>

definition args_of :: "int \<times> 32 word \<times> int \<times> umem \<Rightarrow> arg_state" where
  "args_of = (\<lambda>(len, sp, args, m). \<lparr>total_length = len, stack_pointer = sp, num_args = args, umem = m\<rparr>)"

lemma args_of_simps [simp]:
  "total_length (args_of (len, sp, args, m)) = len" "stack_pointer (args_of (len, sp, args, m)) = sp"
  "num_args (args_of (len, sp, args, m)) = args" "umem (args_of (len, sp, args, m)) = m"
  by (simp_all add: args_of_def)

lemma args_of_update: "(args_of (len, sp, args, m))\<lparr>stack_pointer := sp1, umem := m1\<rparr> = args_of (len, sp1, args, m1)"
  by (simp add: args_of_def)

lemma split_and_insert_same:
  "Arg_Stack.split_and_insert t (args_of (len, sp, args, m)) = res_map args_of (split_and_insert t len sp args m)"
  by (simp add: Arg_Stack.split_and_insert_def split_and_insert_def map_of_bnd args_of_def Let_def)

lemma token_loop_same:
  "insert_tokens (case token of None \<Rightarrow> [] | Some t \<Rightarrow> t # tokens '' '' save_ptr) (args_of (len, sp, args, m)) =
     res_map args_of (token_loop token save_ptr len sp args m)"
proof (induction token save_ptr len sp args m rule: token_loop.induct)
  case (2 token save_ptr len sp args m)
  show ?case
  proof (cases "split_and_insert token len sp args m")
    case (Inr x)
    then show ?thesis
      using 2 [OF Inr] by (cases x; cases "strtok_r '' '' save_ptr")
        (auto simp: split_and_insert_same tokens_None tokens_Some)
  qed (simp add: split_and_insert_same)
qed simp

lemma align_while:
  "while (\<lambda>(align, len). len mod 4 \<noteq> 0) (\<lambda>(align, len). (i32 (align + 1), i32 (len + 1))) (a, l) = align_loop a l"
  by (induction a l rule: align_loop.induct) (subst while_unfold, subst align_loop.simps, simp)

lemma add_word_align_same:
  "Arg_Stack.add_word_align (args_of (len, sp, args, m)) =
     res_map (\<lambda>(align, len, sp, m). args_of (len, sp, args, m)) (add_word_align 0 len sp m)"
  unfolding Arg_Stack.add_word_align_def add_word_align_def align_while
  by (auto simp: map_of_bnd args_of_def Let_def split: prod.splits)

lemma add_null_char_same:
  "Arg_Stack.add_null_char (args_of (len, sp, args, m)) =
     res_map (\<lambda>(sp, m). args_of (len, sp, args, m)) (add_null_char sp m)"
  by (simp add: Arg_Stack.add_null_char_def add_null_char_def map_of_bnd args_of_def Let_def)

lemma address_loop_same:
  "Arg_Stack.add_argument_address (nat (n - pushed)) ap (args_of (len, sp, args, m)) =
     res_map (\<lambda>(sp, ap, m). args_of (len, sp, args, m)) (address_loop pushed n sp ap m)"
proof (induction pushed n sp ap m rule: address_loop.induct)
  case (1 pushed n sp ap m)
  show ?case
  proof (cases "pushed < n")
    case True
    then have "nat (n - pushed) = Suc (nat (n - (pushed + 1)))" by simp
    then show ?thesis
      using 1 [OF True] True
      by (subst address_loop.simps) (auto simp: map_of_bnd Let_def args_of_update intro!: bnd_cong)
  qed (subst address_loop.simps, simp)
qed

lemma push_same:
  "push32 v (args_of (len, sp, args, m)) =
     res_map (\<lambda>m1. args_of (len, sp - 4, args, m1)) (store32 (sp - 4) v m)"
  by (cases "store32 (sp - 4) v m") (simp_all add: push32_def args_of_def Let_def)

lemma set_arguments_into_stack_same:
  "set_arguments_into_stack file_name esp save_ptr m = Arg_Stack.set_arguments_into_stack (Some file_name) save_ptr esp m"
proof -
  have s: "\<lparr>total_length = 0, stack_pointer = esp, num_args = 0, umem = m\<rparr> = args_of (0, esp, 0, m)"
    by (simp add: args_of_def)
  show ?thesis
    unfolding Arg_Stack.set_arguments_into_stack_def set_arguments_into_stack_def Let_def s token_loop_same bnd_of_map
    by (intro bnd_cong refl)
      (auto simp: add_word_align_same add_null_char_same address_loop_same [of _ 0, simplified] add_argument_address_def
        push_same Arg_Stack.add_char_pointers_def Arg_Stack.add_number_of_arguments_def Arg_Stack.add_return_address_def
        add_char_pointers_def add_number_of_arguments_def add_return_address_def bnd_of_map bnd_assoc Let_def
        intro!: bnd_cong)
qed

subsection \<open>Pages and segments\<close>

lemma install_page_same: "install_page = Elf_Loader.install_page"
  by (intro ext) (auto simp: install_page_def Elf_Loader.install_page_def)

lemma validate_segment_same: "validate_segment = Elf_Loader.validate_segment"
  by (intro ext) (simp add: validate_segment_def Elf_Loader.validate_segment_def)

lemma setup_stack_same: "setup_stack = Elf_Loader.setup_stack"
  by (intro ext) (auto simp: setup_stack_def Elf_Loader.setup_stack_def install_page_same Let_def split: prod.splits bool.splits)

subsection \<open>\<^verbatim>\<open>load\<close>\<close>

fun outcome :: "'f phase \<times> 'f image \<Rightarrow> 'f load_result" where
  "outcome (Finished (Some (eip, esp)), im) = Load_succeeded eip esp im"
| "outcome (ph, im) = Load_failed im"

lemma bnd_if: "bnd (if c then m else m') f = (if c then bnd m f else bnd m' f)"
  by simp

lemma load_run_Finished [simp]: "load_run sys (Finished r) im = Inr (Finished r, im)"
  by (subst load_run.simps) simp

lemma load_run_done [simp]: "(\<lambda>(ph', im'). load_run sys ph' im') (done_label r file im) = Inr (done_label r file im)"
  by (simp add: done_label_def)

lemma outcome_done [simp]: "outcome (done_label None file im) = load_done file im"
  by (simp add: done_label_def load_done_def)

lemma load_run_step:
  "\<not> finished ph \<Longrightarrow> load_run sys ph im = bnd (load_step sys ph im) (\<lambda>(ph', im'). load_run sys ph' im')"
  by (subst load_run.simps) simp

lemma load_run_stack:
  "res_map outcome (load_run sys (Stacking (skip, fn_copy, save_ptr) entry f) im) =
     load_stack sys skip fn_copy save_ptr entry f im"
  by (auto simp: load_run_step stack_step_def load_stack_def setup_stack_same set_arguments_into_stack_same
      map_of_bnd bnd_assoc done_label_def load_done_def intro!: bnd_cong split: prod.splits option.splits)

lemma load_run_segment:
  "load_run sys (Segment ws entry left file_ofs up rb zb w f) (im\<lparr>kpages := ks\<rparr>) =
     (case load_pages sys ks f up rb zb w im of (okay, f', im') \<Rightarrow>
        if okay then load_run sys (Headers ws entry left file_ofs f') im'
        else Inr (done_label None (Some f') im'))"
proof (induction ks arbitrary: up rb zb f im)
  case Nil
  then show ?case
    by (subst load_pages.simps) (simp add: load_run_step load_segment_round_def palloc_get_page_def Let_def)
next
  case (Cons kp ks)
  show ?case
  proof (cases "rb > 0 \<or> zb > 0")
    case True
    obtain n where n: "n = (if rb < 4096 then rb else 4096)" by blast
    have p: "palloc_get_page (im\<lparr>kpages := kp # ks\<rparr>) = (kp, im\<lparr>kpages := ks\<rparr>)" by (simp add: palloc_get_page_def)
    obtain bs f1 where r: "file_read sys f (unat n) = (bs, f1)" by fastforce
    obtain okay im2 where i: "install_page sys up kp (bs @ replicate (unat (4096 - n)) 0) w (im\<lparr>kpages := ks\<rparr>) = (okay, im2)"
      by fastforce
    have k: "im2\<lparr>kpages := ks\<rparr> = im2" using install_page_kpages [OF i] by simp
    have "load_pages sys (kp # ks) f up rb zb w im =
        (if kp = 0 then (False, f, im\<lparr>kpages := ks\<rparr>)
         else if length bs \<noteq> unat n then (False, f1, palloc_free_page kp (im\<lparr>kpages := ks\<rparr>))
         else if \<not> okay then (False, f1, palloc_free_page kp im2)
         else load_pages sys ks f1 (up + 4096) (rb - n) (zb - (4096 - n)) w im2)"
      using True i unfolding install_page_same
      by (subst load_pages.simps) (simp only: Let_def n [symmetric] list.case r prod.case simp_thms if_False)
    then show ?thesis
      using Cons [of "up + 4096" "rb - n" "zb - (4096 - n)" f1 im2] True
      by (simp add: load_run_step load_segment_round_outcomes [OF True n p r i] k)
  qed (subst load_pages.simps, simp add: load_run_step load_segment_round_def)
qed

lemma load_run_load_case:
  "bnd (load_case sys ws entry left ofs phdr f im) (\<lambda>(ph', im'). load_run sys ph' im') =
     bnd (load_PT_LOAD sys phdr f im) (\<lambda>(okay, f', im').
       if okay then load_run sys (Headers ws entry left ofs f') im' else Inr (done_label None (Some f') im'))"
  using load_run_segment [of sys ws entry left ofs _ _ _ _ _ "kpages im" im]
  by (simp add: load_case_def load_PT_LOAD_def validate_segment_same enter_segment_def load_segment_def Let_def)

lemma load_run_headers:
  "load_run sys (Headers ws entry left ofs f) im =
     bnd (load_headers sys left ofs f im) (\<lambda>(okay, f', im').
       if okay then load_run sys (Stacking ws entry f') im' else Inr (done_label None (Some f') im'))"
proof (induction left arbitrary: ofs f im)
  case (Suc n)
  obtain bs f1 where r: "file_read sys (file_seek sys f ofs) 32 = (bs, f1)" by fastforce
  show ?case
    by (simp add: load_run_step [of "Headers ws entry (Suc n) ofs f"] headers_step_outcomes [OF r] r Let_def bnd_if
        load_run_load_case Suc bnd_assoc del: headers_step.simps)
      (auto simp: bnd_if Suc intro!: bnd_cong)
qed (simp add: load_run_step)

lemma load_run_read:
  "res_map outcome (load_run sys (Reading (skip, fn_copy, save_ptr) f) im) = load_file sys skip fn_copy save_ptr f im"
proof -
  obtain bs f1 where r: "file_read sys f 52 = (bs, f1)" by fastforce
  show ?thesis
  proof (cases "ehdr_ok bs")
    case True
    then have "read_step sys (skip, fn_copy, save_ptr) f im = Inr (Headers (skip, fn_copy, save_ptr)
        (e_entry (ehdr_of bs)) (unat (e_phnum (ehdr_of bs))) (sint (e_phoff (ehdr_of bs))) f1, im)"
      unfolding read_step_def r by (simp add: ehdr_ok_def Let_def)
    then show ?thesis
      using True by (auto simp: load_run_step [of "Reading _ _"] load_run_headers load_file_def r Let_def map_of_bnd
          load_run_stack intro!: bnd_cong)
  next
    case False
    then have "read_step sys (skip, fn_copy, save_ptr) f im = Inr (done_label None (Some f1) im)"
      unfolding read_step_def r by (auto simp: ehdr_ok_def Let_def)
    then show ?thesis
      using False load_run_done [of sys None "Some f1" im] by (simp add: load_run_step load_file_def r)
  qed
qed

lemma load_run_open: "res_map outcome (load_run sys (Opening file_name) im) = Elf_Loader.load sys file_name im"
proof -
  have d: "(\<lambda>(ph', im'). load_run sys ph' im') (done_label None None i) = Inr (done_label None None i)" for i
    by (rule load_run_done)
  show ?thesis
    by (auto simp: load_run_step [of "Opening _"] open_step_def Elf_Loader.load_def load_run_read Let_def
        d [simplified] split: option.splits)
qed

text \<open>
  C21: The two loaders are one. Run from its first line under the lock to \<^verbatim>\<open>done:\<close>, \<^verbatim>\<open>load\<close> of Assignment 6.1 gives what
  \<^verbatim>\<open>load\<close> of Assignment 6.2 gives, for every file name, file and state of the allocators: the same entry point,
  stack pointer and memory, the same pages used and given back, the same file closed, the same fault. Its
  functions for the arguments, for a segment and for the stack page agree as well.
\<close>
theorem loaders_agree:
  "res_map outcome (load_run sys (Opening file_name) im) = Elf_Loader.load sys file_name im \<and>
   set_arguments_into_stack word esp save_ptr m = Arg_Stack.set_arguments_into_stack (Some word) save_ptr esp m \<and>
   validate_segment sys phdr f = Elf_Loader.validate_segment sys phdr f \<and>
   setup_stack sys im = Elf_Loader.setup_stack sys im"
  by (simp add: load_run_open set_arguments_into_stack_same validate_segment_same setup_stack_same)

subsection \<open>Several processes that load at the same time\<close>

text \<open>
  What they share is the pages \<^verbatim>\<open>palloc\<close> has left and those given back; the rest of an image belongs to one
  process.
\<close>

type_synonym pool = "32 word list \<times> 32 word list"

definition pool_of :: "'f image \<Rightarrow> pool" where
  "pool_of im = (kpages im, freed im)"

definition with_pool :: "pool \<Rightarrow> 'f image \<Rightarrow> 'f image" where
  "with_pool p im = im\<lparr>kpages := fst p, freed := snd p\<rparr>"

lemma with_own_pool [simp]: "with_pool (pool_of im) im = im"
  by (simp add: with_pool_def pool_of_def)

text \<open>
  One step of one process on the pool. The answers of the file system, of \<^verbatim>\<open>malloc\<close> and of
  \<^verbatim>\<open>pagedir_create\<close> are constants of \<open>sys\<close>: nobody writes to an executable between two steps, and the only
  thing a load leaves for the next one to see is the pool. A page given back is not handed out again.
\<close>

definition load_work ::
  "'f sys \<Rightarrow> 'f phase \<times> 'f image \<Rightarrow> pool \<Rightarrow> (('f phase \<times> 'f image) \<times> pool) result" where
  "load_work sys = (\<lambda>(ph, im) p.
     bnd (load_step sys ph (with_pool p im)) (\<lambda>(ph', im'). Inr ((ph', im'), pool_of im')))"

definition load_over :: "'f phase \<times> 'f image \<Rightarrow> bool" where
  "load_over = (\<lambda>(ph, im). finished ph)"

definition load_effort :: "'f phase \<times> 'f image \<Rightarrow> pool \<Rightarrow> nat" where
  "load_effort = (\<lambda>(ph, im) p. effort ph (with_pool p im))"

interpretation loading: critical_section "load_work sys" load_over load_effort for sys
proof unfold_locales
  fix l p l' p'
  assume n: "\<not> load_over l" and w: "load_work sys l p = Inr (l', p')"
  obtain ph im ph' im' where l: "l = (ph, im)" "l' = (ph', im')" by (cases l; cases l')
  have "load_step sys ph (with_pool p im) = Inr (ph', im')" "p' = pool_of im'"
    using w by (auto simp: load_work_def l res_simps)
  then show "load_effort l' p' < load_effort l p"
    using n load_step_effort by (simp add: l load_effort_def load_over_def)
qed

abbreviation load_steps ::
  "'f sys \<Rightarrow> ('f phase \<times> 'f image) \<times> pool \<Rightarrow> ('f phase \<times> 'f image) \<times> pool \<Rightarrow> bool" where
  "load_steps sys \<equiv> (work_step (load_work sys) load_over)\<^sup>*\<^sup>*"

lemma work_stepD:
  assumes "work_step (load_work sys) load_over ((ph, im), p) ((ph', im'), p')"
  shows "\<not> finished ph" and "load_step sys ph (with_pool p im) = Inr (ph', im')" and "p' = pool_of im'"
  using assms by (auto simp: load_work_def load_over_def res_simps elim!: work_step.cases)

lemma load_steps_pool:
  assumes "load_steps sys (l, p) (l', p')"
  shows "(l', p') = (l, p) \<or> p' = pool_of (snd l')"
  using assms
proof (induction rule: rtranclp_induct2)
  case (step l1 p1 l' p')
  then show ?case using work_stepD(3) by (metis prod.collapse)
qed simp

lemma load_steps_run:
  assumes "load_steps sys ((ph, im), p) ((ph', im'), p')" and "finished ph'"
  shows "load_run sys ph (with_pool p im) = Inr (ph', with_pool p' im')"
  using assms(1)
proof (induction "(ph, im)" p arbitrary: ph im rule: converse_rtranclp_induct2)
  case refl
  then show ?case using assms(2) by (cases ph') simp_all
next
  case (step p l1 p1)
  obtain ph1 im1 where l1: "l1 = (ph1, im1)" by (cases l1)
  note s = work_stepD [OF step.hyps(1) [unfolded l1]]
  show ?case using step.hyps(3) [OF l1] s by (simp add: load_run_step)
qed

lemma load_steps_load:
  assumes "load_steps sys ((Opening file_name, im), p) (l, p')" and "load_over l"
  shows "Elf_Loader.load sys file_name (with_pool p im) = Inr (outcome l)" and "pool_of (result_image (outcome l)) = p'"
proof -
  obtain ph' im' where l: "l = (ph', im')" by (cases l)
  then have f: "finished ph'" using assms(2) by (simp add: load_over_def)
  then have p: "p' = pool_of im'" using load_steps_pool [OF assms(1)] l by auto
  have "load_run sys (Opening file_name) (with_pool p im) = Inr (ph', im')"
    using load_steps_run [OF assms(1) [unfolded l] f] p by simp
  then show "Elf_Loader.load sys file_name (with_pool p im) = Inr (outcome l)"
    using load_run_open [of sys file_name "with_pool p im"] l by simp
  show "pool_of (result_image (outcome l)) = p'"
    using f l p by (cases "(ph', im')" rule: outcome.cases) auto
qed

text \<open>The loads of a list of processes, one after the other, each with the pages the one before has left.\<close>

fun loads_in_turn ::
  "'f sys \<Rightarrow> ('t \<Rightarrow> string) \<Rightarrow> ('t \<Rightarrow> 'f image) \<Rightarrow> 't list \<Rightarrow> pool \<Rightarrow> (('t \<times> 'f load_result) list \<times> pool) result" where
  "loads_in_turn sys name im [] p = Inr ([], p)"
| "loads_in_turn sys name im (t # ts) p =
     bnd (Elf_Loader.load sys (name t) (with_pool p (im t))) (\<lambda>r.
     bnd (loads_in_turn sys name im ts (pool_of (result_image r))) (\<lambda>(rs, p').
     Inr ((t, r) # rs, p')))"

lemma loads_in_turn_snoc:
  assumes "loads_in_turn sys name im ts p = Inr (rs, p1)" and "Elf_Loader.load sys (name t) (with_pool p1 (im t)) = Inr r"
  shows "loads_in_turn sys name im (ts @ [t]) p = Inr (rs @ [(t, r)], pool_of (result_image r))"
  using assms
proof (induction ts arbitrary: p rs)
  case (Cons u us)
  obtain r0 rs0 where "Elf_Loader.load sys (name u) (with_pool p (im u)) = Inr r0" "rs = (u, r0) # rs0"
    and us: "loads_in_turn sys name im us (pool_of (result_image r0)) = Inr (rs0, p1)"
    using Cons.prems(1) by (auto simp: res_simps)
  then show ?case using Cons.IH [OF us Cons.prems(2)] by simp
qed simp

lemma in_map_snd: "(t, r) \<in> set (map (\<lambda>(t, l). (t, f l)) ls) \<longleftrightarrow> (\<exists>l. (t, l) \<in> set ls \<and> f l = r)"
  by (induction ls) auto

lemma in_turn_loads:
  assumes "in_turn (load_work sys) load_over (\<lambda>t. (Opening (name t), im t)) p0 past p1"
  shows "loads_in_turn sys name im (rev (map fst past)) p0 = Inr (rev (map (\<lambda>(t, l). (t, outcome l)) past), p1)"
  using assms
proof induction
  case (next_one past s t l s')
  show ?case
    using loads_in_turn_snoc [OF next_one.IH load_steps_load(1) [OF next_one.hyps(2,3)]]
      load_steps_load(2) [OF next_one.hyps(2,3)] by simp
qed simp

text \<open>
  C20: Loading is atomic. However the steps of processes that load at the same time are interleaved, at most one is
  between \<^verbatim>\<open>lock_acquire\<close> and \<^verbatim>\<open>lock_release\<close>, no process asks for a lock it holds or gives back one it does not
  hold, and each finished load has the outcome it has when the processes load one after the other, in the
  order in which they were ready; when nobody holds the lock the allocator is as that leaves it.
\<close>
theorem loads_are_atomic:
  assumes "lock_ok acquire release holder" and "holder (lock c0) = None"
    and "\<forall>t. stage c0 t = Entering (Opening (name t), im t)"
    and "(section_step acquire release (load_work sys) load_over)\<^sup>*\<^sup>* c0 c"
  shows "\<exists>rs p1. loads_in_turn sys name im (map fst rs) (shared c0) = Inr (rs, p1) \<and> distinct (map fst rs) \<and>
    (\<forall>t r. (\<exists>l. stage c t = Left l \<and> outcome l = r) \<longleftrightarrow> (t, r) \<in> set rs) \<and>
    (holder (lock c) = None \<longrightarrow> shared c = p1) \<and>
    (\<forall>t l. stage c t = Entering l \<longrightarrow> holder (lock c) \<noteq> Some t) \<and>
    (\<forall>t l. stage c t = Inside l \<longrightarrow> holder (lock c) = Some t)"
proof -
  obtain past p1 where o: "one_at_a_time holder (load_work sys) load_over (\<lambda>t. (Opening (name t), im t)) (shared c0) past p1 c"
    using loading.reachable_one_at_a_time [OF assms(4,1,2,3)] by blast
  let ?rs = "rev (map (\<lambda>(t, l). (t, outcome l)) past)"
  note o = o [unfolded one_at_a_time_def]
  have f: "map fst ?rs = rev (map fst past)" by (simp add: rev_map o_def case_prod_unfold)
  have "loads_in_turn sys name im (map fst ?rs) (shared c0) = Inr (?rs, p1)"
    unfolding f by (rule in_turn_loads) (use o in blast)
  moreover have "distinct (map fst ?rs)" unfolding f using o by simp
  moreover have "(\<exists>l. stage c t = Left l \<and> outcome l = r) \<longleftrightarrow> (t, r) \<in> set ?rs" for t r
    unfolding set_rev in_map_snd using o by blast
  moreover have "holder (lock c) = None \<longrightarrow> shared c = p1" using o by auto
  ultimately show ?thesis using o by (intro exI [of _ ?rs] exI [of _ p1] conjI) blast+
qed

text \<open>On every path, then, the lock is given back, or the kernel has stopped at a fault.\<close>

lemma file_lock_given_back:
  assumes "lock_ok acquire release holder" and "holder (lock c0) = None"
    and "\<forall>t. stage c0 t = Entering (Opening (name t), im t)"
    and "(section_step acquire release (load_work sys) load_over)\<^sup>*\<^sup>* c0 c" and "stage c t = Inside l"
  shows "\<exists>c'. (section_step acquire release (load_work sys) load_over)\<^sup>*\<^sup>* c c' \<and>
    (\<forall>u. u \<noteq> t \<longrightarrow> stage c' u = stage c u) \<and>
    (holder (lock c') = None \<and> (\<exists>l'. stage c' t = Left l') \<or>
     (\<exists>l' e. stage c' t = Inside l' \<and> load_work sys l' (shared c') = Inl e))"
proof -
  obtain past p1 where "one_at_a_time holder (load_work sys) load_over (\<lambda>t. (Opening (name t), im t)) (shared c0) past p1 c"
    using loading.reachable_one_at_a_time [OF assms(4,1,2,3)] by blast
  then show ?thesis by (rule loading.lock_given_back [OF assms(1) _ assms(5)])
qed

subsection \<open>A concrete run\<close>

definition free_acquire :: "tptr \<Rightarrow> tptr option \<Rightarrow> tptr option option" where
  "free_acquire t k = (if k = None then Some (Some t) else None)"

definition no_file_sys :: "(8 word list \<times> nat) sys" where
  "no_file_sys = sample_sys\<lparr>filesys_open := \<lambda>_. None\<rparr>"

type_synonym sample_site = "(tptr, tptr option, pool, (8 word list \<times> nat) phase \<times> (8 word list \<times> nat) image) site"

definition queued :: sample_site where
  "queued = \<lparr>lock = None, shared = ([0x100], []), stage = (\<lambda>_. Entering (Opening ''prog x'', empty_image))\<rparr>"

lemma free_lock_ok: "lock_ok free_acquire (\<lambda>_ _. None) (\<lambda>k. k)"
  by (simp add: lock_ok_def free_acquire_def)

lemma load_without_file:
  "load_work no_file_sys (Opening ''prog x'', empty_image) ([0x100], []) =
     Inr ((Finished None, with_pool ([0x100], []) (empty_image\<lparr>file_ops := [Opens ''prog'', Closes None]\<rparr>)), ([0x100], []))"
proof -
  have "strtok_r '' '' (strlcpy ''prog x'' (length ''prog x'' + 1)) = Some (0, ''prog'', ''x'')"
    by (simp add: strtok_r_def strlcpy_def)
  then show ?thesis
    by (simp add: load_work_def open_step_def no_file_sys_def sample_sys_def done_label_def with_pool_def pool_of_def
        empty_image_def)
qed

abbreviation no_program :: "(8 word list \<times> nat) phase \<times> (8 word list \<times> nat) image" where
  "no_program \<equiv> (Finished None, with_pool ([0x100], []) (empty_image\<lparr>file_ops := [Opens ''prog'', Closes None]\<rparr>))"

lemma load_without_file_leaves:
  fixes c :: sample_site
  assumes "stage c t = Entering (Opening ''prog x'', empty_image)" and "lock c = None" and "shared c = ([0x100], [])"
  shows "(section_step free_acquire (\<lambda>_ _. None) (load_work no_file_sys) load_over)\<^sup>*\<^sup>* c
    (c\<lparr>stage := (stage c)(t := Left no_program)\<rparr>)"
proof -
  let ?step = "section_step free_acquire (\<lambda>_ _. None) (load_work no_file_sys) load_over"
  let ?c1 = "c\<lparr>lock := Some t, stage := (stage c)(t := Inside (Opening ''prog x'', empty_image))\<rparr>"
  let ?c2 = "?c1\<lparr>shared := ([0x100], []), stage := (stage ?c1)(t := Inside no_program)\<rparr>"
  let ?c3 = "?c2\<lparr>lock := None, stage := (stage ?c2)(t := Left no_program)\<rparr>"
  have "?step c ?c1" using assms by (intro section_step.enter) (simp_all add: free_acquire_def)
  moreover have "?step ?c1 ?c2"
    by (rule section_step.works [where l = "(Opening ''prog x'', empty_image)"])
      (simp_all add: assms load_over_def load_without_file)
  moreover have "?step ?c2 ?c3" by (rule section_step.leave) (simp_all add: load_over_def)
  ultimately have "?step\<^sup>*\<^sup>* c ?c3" by (meson rtranclp.rtrancl_into_rtrancl rtranclp.rtrancl_refl)
  moreover have "?c3 = c\<lparr>stage := (stage c)(t := Left no_program)\<rparr>" using assms by (cases c) simp
  ultimately show ?thesis by simp
qed

text \<open>Two processes load, one after the other, while all others wait at the lock.\<close>

theorem loads_are_atomic_witness:
  "\<exists>(c :: sample_site) rs p1.
     stage c 0x1000 = Left no_program \<and> stage c 0x2000 = Left no_program \<and> lock c = None \<and>
     loads_in_turn no_file_sys (\<lambda>_. ''prog x'') (\<lambda>_. empty_image) (map fst rs) ([0x100], []) = Inr (rs, p1) \<and>
     distinct (map fst rs) \<and> set rs = {(0x1000 :: tptr, outcome no_program), (0x2000, outcome no_program)}"
proof -
  let ?step = "section_step free_acquire (\<lambda>_ _. None) (load_work no_file_sys) load_over"
  let ?c1 = "queued\<lparr>stage := (stage queued)(0x1000 := Left no_program)\<rparr>"
  let ?c = "?c1\<lparr>stage := (stage ?c1)(0x2000 := Left no_program)\<rparr>"
  have "?step\<^sup>*\<^sup>* queued ?c1" "?step\<^sup>*\<^sup>* ?c1 ?c"
    by (rule load_without_file_leaves; simp add: queued_def)+
  then have r: "?step\<^sup>*\<^sup>* queued ?c" by (rule rtranclp_trans)
  have q: "(\<lambda>k. k) (lock queued) = None"
    "\<forall>t. stage queued t = Entering (Opening ((\<lambda>_. ''prog x'') t), (\<lambda>_. empty_image) t)" by (simp_all add: queued_def)
  have c: "stage ?c 0x1000 = Left no_program" "stage ?c 0x2000 = Left no_program" "lock ?c = None"
    and left: "(\<exists>l. stage ?c t = Left l \<and> outcome l = r) \<longleftrightarrow> t \<in> {0x1000, 0x2000} \<and> r = outcome no_program" for t r
    by (auto simp: queued_def split: if_splits)
  obtain rs p1 where l: "loads_in_turn no_file_sys (\<lambda>_. ''prog x'') (\<lambda>_. empty_image) (map fst rs) (shared queued) = Inr (rs, p1)"
    and d: "distinct (map fst rs)"
    and rs: "\<forall>t r. (\<exists>l. stage ?c t = Left l \<and> outcome l = r) \<longleftrightarrow> (t, r) \<in> set rs"
    using loads_are_atomic [OF free_lock_ok q r] by blast
  have "set rs = {(0x1000, outcome no_program), (0x2000, outcome no_program)}"
    using rs unfolding left by (auto simp del: split_paired_All)
  then show ?thesis using c l d by (intro exI [of _ ?c] exI [of _ rs] exI [of _ p1]) (simp add: queued_def del: split_paired_Ex)
qed

end
