(* ===== verification/Shutdown.thy ===== *)
theory Shutdown
  imports Prelude
begin

section \<open>Shutting the machine down (Assignments 3 and 6.1)\<close>

text \<open>
  \<^verbatim>\<open>Assignment_3/.../shutdown.c\<close>; the file of Assignment 6.1 differs in one comment. All the code does is to
  talk to the machine, so the state is the history of what it has done: ports read and written,
  delays, texts printed and functions of other modules called. A \<open>machine\<close> is how the hardware
  reacts to a history: \<open>input\<close> is the byte it answers to a read that is the last event of the history, and
  \<open>stops\<close> says that it is off, or reset, after it. \<open>filesys\<close> and \<open>userprog\<close> are the two build options. The constructors
  of \<open>shutdown_type\<close> are those the code names.
\<close>

datatype shutdown_type = SHUTDOWN_NONE | SHUTDOWN_POWER_OFF | SHUTDOWN_REBOOT

datatype event =
    Printed string
  | Called string
  | Inb "16 word"
  | Outb "16 word" "8 word"
  | Outw "16 word" "16 word"
  | Udelay int
  | Cli_hlt

record machine =
  input :: "event list \<Rightarrow> 8 word"
  stops :: "event list \<Rightarrow> bool"
  filesys :: bool
  userprog :: bool

datatype state = Running "event list" | Stopped "event list"

text \<open>One event, and several; nothing is done any more once the machine has stopped.\<close>

definition perform :: "machine \<Rightarrow> event \<Rightarrow> state \<Rightarrow> state" where
  "perform m e s =
     (case s of
        Stopped tr \<Rightarrow> Stopped tr
      | Running tr \<Rightarrow> if stops m (tr @ [e]) then Stopped (tr @ [e]) else Running (tr @ [e]))"

definition perform_all :: "machine \<Rightarrow> event list \<Rightarrow> state \<Rightarrow> state" where
  "perform_all m es s = fold (perform m) es s"

definition CONTROL_REG :: "16 word" where "CONTROL_REG = 0x64"

definition print_stats :: "machine \<Rightarrow> state \<Rightarrow> state" where
  "print_stats m s =
     (let s1 = perform_all m [Called ''timer_print_stats'', Called ''thread_print_stats''] s;
          s2 = (if filesys m then perform m (Called ''block_print_stats'') s1 else s1);
          s3 = perform_all m [Called ''console_print_stats'', Called ''kbd_print_stats''] s2 in
      if userprog m then perform m (Called ''exception_print_stats'') s3 else s3)"

text \<open>
  The functions that do not return. The result is \<open>Some (Running tr)\<close> if the function returns, \<open>Some (Stopped tr)\<close>
  if the machine stops during it, and \<open>None\<close> if it runs for ever.
\<close>

definition shutdown_power_off :: "machine \<Rightarrow> state \<Rightarrow> state option" where
  "shutdown_power_off m s =
     (let s1 = (if filesys m then perform m (Called ''filesys_done'') s else s);
          s2 = perform_all m [Printed ''Powering off...'', Called ''serial_flush'', Outw 0xB004 0x2000]
                 (print_stats m s1);
          s3 = perform_all m (map (\<lambda>c. Outb 0x8900 (of_char c)) ''Shutdown'') s2;
          s4 = perform_all m [Cli_hlt, Printed ''still running...''] s3 in
      (case s4 of Stopped tr \<Rightarrow> Some (Stopped tr) | Running tr \<Rightarrow> None))"

text \<open>\<open>n\<close> is the number of rounds the loop on the status byte has left.\<close>

fun poll_ready :: "machine \<Rightarrow> nat \<Rightarrow> state \<Rightarrow> state" where
  "poll_ready m 0 s = s"
| "poll_ready m (Suc n) s =
     (case perform m (Inb CONTROL_REG) s of
        Stopped tr \<Rightarrow> Stopped tr
      | Running tr \<Rightarrow>
          if and (input m tr) 0x02 = 0 then Running tr
          else poll_ready m n (perform m (Udelay 2) (Running tr)))"

definition reboot_round :: "machine \<Rightarrow> state \<Rightarrow> state" where
  "reboot_round m s =
     perform_all m [Udelay 50, Outb CONTROL_REG 0xfe, Udelay 50] (poll_ready m 0x10000 s)"

partial_function (option) reboot_loop :: "machine \<Rightarrow> state \<Rightarrow> state option" where
  "reboot_loop m s =
     (case s of
        Stopped tr \<Rightarrow> Some (Stopped tr)
      | Running tr \<Rightarrow> reboot_loop m (reboot_round m (Running tr)))"

definition shutdown_reboot :: "machine \<Rightarrow> state \<Rightarrow> state option" where
  "shutdown_reboot m s = reboot_loop m (perform m (Printed ''Rebooting...'') s)"

text \<open>The variable \<open>how\<close> is an argument, and \<open>shutdown_configure\<close> gives its new value.\<close>

definition shutdown_configure :: "shutdown_type \<Rightarrow> shutdown_type \<Rightarrow> shutdown_type" where
  "shutdown_configure type how = type"

definition shutdown :: "machine \<Rightarrow> shutdown_type \<Rightarrow> state \<Rightarrow> state option" where
  "shutdown m how s =
     (case how of
        SHUTDOWN_POWER_OFF \<Rightarrow> shutdown_power_off m s
      | SHUTDOWN_REBOOT \<Rightarrow> shutdown_reboot m s
      | SHUTDOWN_NONE \<Rightarrow> Some s)"

subsection \<open>What stops the machine\<close>

text \<open>
  A machine as the comments of the code describe it: it is switched off by the word \<open>0x2000\<close> at the port
  \<open>0xB004\<close>, reset by the pulse \<open>0xfe\<close> when its keyboard controller last said that its input buffer is empty,
  and goes on otherwise. \<open>busy_for\<close> says that the controller stays busy for \<open>n\<close> reads and is ready at the next.
\<close>

definition ready :: "machine \<Rightarrow> event list \<Rightarrow> bool" where
  "ready m tr \<longleftrightarrow> and (input m tr) 0x02 = 0"

definition bochs :: "machine \<Rightarrow> bool" where
  "bochs m \<longleftrightarrow> (\<forall>tr e. stops m (tr @ [e]) \<longleftrightarrow>
     e = Outw 0xB004 0x2000 \<or>
     e = Outb CONTROL_REG 0xfe \<and> (\<exists>tr0. tr = tr0 @ [Inb CONTROL_REG, Udelay 50] \<and> ready m (tr0 @ [Inb CONTROL_REG])))"

definition polls :: "nat \<Rightarrow> event list" where
  "polls n = concat (replicate n [Inb CONTROL_REG, Udelay 2])"

definition busy_for :: "machine \<Rightarrow> nat \<Rightarrow> event list \<Rightarrow> bool" where
  "busy_for m n tr \<longleftrightarrow> (\<forall>i<n. \<not> ready m (tr @ polls i @ [Inb CONTROL_REG])) \<and> ready m (tr @ polls n @ [Inb CONTROL_REG])"

definition stats :: "machine \<Rightarrow> event list" where
  "stats m = [Called ''timer_print_stats'', Called ''thread_print_stats''] @
     (if filesys m then [Called ''block_print_stats''] else []) @
     [Called ''console_print_stats'', Called ''kbd_print_stats''] @
     (if userprog m then [Called ''exception_print_stats''] else [])"

lemma perform_all_simps [simp]:
  "perform_all m [] s = s"
  "perform_all m (e # es) s = perform_all m es (perform m e s)"
  by (simp_all add: perform_all_def)

lemma perform_Stopped [simp]: "perform m e (Stopped tr) = Stopped tr"
  by (simp add: perform_def)

lemma perform_all_Stopped [simp]: "perform_all m es (Stopped tr) = Stopped tr"
  by (induction es) simp_all

lemma polls_Suc [simp]: "polls (Suc n) = Inb CONTROL_REG # Udelay 2 # polls n"
  by (simp add: polls_def)

lemma polls_0 [simp]: "polls 0 = []"
  by (simp add: polls_def)

lemma reboot_loop_stops: "reboot_loop m s = Some s' \<Longrightarrow> \<exists>tr. s' = Stopped tr"
proof (rule reboot_loop.raw_induct [of "\<lambda>m s s'. \<exists>tr. s' = Stopped tr"])
  fix loop m s s'
  assume "\<And>m s s'. loop m s = Some s' \<Longrightarrow> \<exists>tr. s' = Stopped tr"
    and "(case s of Stopped tr \<Rightarrow> Some (Stopped tr) | Running tr \<Rightarrow> loop m (reboot_round m (Running tr))) = Some s'"
  then show "\<exists>tr. s' = Stopped tr" by (cases s) auto
qed simp

lemma bochs_perform:
  assumes "bochs m"
  shows "perform m (Called f) (Running tr) = Running (tr @ [Called f])"
    "perform m (Printed x) (Running tr) = Running (tr @ [Printed x])"
    "perform m (Inb p) (Running tr) = Running (tr @ [Inb p])"
    "perform m (Udelay u) (Running tr) = Running (tr @ [Udelay u])"
    "perform m (Outw 0xB004 0x2000) (Running tr) = Stopped (tr @ [Outw 0xB004 0x2000])"
    "ready m (tr @ [Inb CONTROL_REG]) \<Longrightarrow>
      perform m (Outb CONTROL_REG 0xfe) (Running (tr @ [Inb CONTROL_REG, Udelay 50])) =
      Stopped (tr @ [Inb CONTROL_REG, Udelay 50, Outb CONTROL_REG 0xfe])"
proof -
  have stop: "stops m (tr @ [e]) \<longleftrightarrow> e = Outw 0xB004 0x2000 \<or>
     e = Outb CONTROL_REG 0xfe \<and> (\<exists>tr0. tr = tr0 @ [Inb CONTROL_REG, Udelay 50] \<and> ready m (tr0 @ [Inb CONTROL_REG]))" for tr e
    using assms by (simp add: bochs_def)
  show "perform m (Called f) (Running tr) = Running (tr @ [Called f])"
    "perform m (Printed x) (Running tr) = Running (tr @ [Printed x])"
    "perform m (Inb p) (Running tr) = Running (tr @ [Inb p])"
    "perform m (Udelay u) (Running tr) = Running (tr @ [Udelay u])"
    "perform m (Outw 0xB004 0x2000) (Running tr) = Stopped (tr @ [Outw 0xB004 0x2000])"
    by (simp_all add: perform_def stop)
  show "perform m (Outb CONTROL_REG 0xfe) (Running (tr @ [Inb CONTROL_REG, Udelay 50])) =
      Stopped (tr @ [Inb CONTROL_REG, Udelay 50, Outb CONTROL_REG 0xfe])" if "ready m (tr @ [Inb CONTROL_REG])"
    using that stop [of "tr @ [Inb CONTROL_REG, Udelay 50]" "Outb CONTROL_REG 0xfe"] by (simp add: perform_def)
qed

lemma poll_ready_busy:
  assumes "bochs m" "busy_for m k tr" "k < n"
  shows "poll_ready m n (Running tr) = Running (tr @ polls k @ [Inb CONTROL_REG])"
  using assms(2,3)
proof (induction k arbitrary: n tr)
  case 0
  then obtain n' where n: "n = Suc n'" by (cases n) simp_all
  show ?case using 0 by (simp add: n bochs_perform [OF assms(1)] busy_for_def ready_def)
next
  case (Suc k)
  then obtain n' where n: "n = Suc n'" by (cases n) simp_all
  have "\<not> ready m (tr @ [Inb CONTROL_REG])" using Suc.prems(1) unfolding busy_for_def
    by (metis polls_0 append_Nil zero_less_Suc)
  moreover have "busy_for m k (tr @ [Inb CONTROL_REG, Udelay 2])"
    using Suc.prems(1) unfolding busy_for_def by force
  ultimately show ?case using Suc.IH [of "tr @ [Inb CONTROL_REG, Udelay 2]" n'] Suc.prems(2)
    by (simp add: n bochs_perform [OF assms(1)] ready_def)
qed

lemma reboot_round_busy:
  assumes "bochs m" "busy_for m k tr" "k < 0x10000"
  shows "reboot_round m (Running tr) =
    Stopped (tr @ polls k @ [Inb CONTROL_REG, Udelay 50, Outb CONTROL_REG 0xfe])"
proof -
  have "ready m ((tr @ polls k) @ [Inb CONTROL_REG])" using assms(2) by (simp add: busy_for_def)
  from bochs_perform(6) [OF assms(1) this] show ?thesis
    by (simp add: reboot_round_def poll_ready_busy [OF assms] bochs_perform(4) [OF assms(1)])
qed

lemma print_stats_bochs:
  assumes "bochs m"
  shows "print_stats m (Running tr) = Running (tr @ stats m)"
  by (simp add: print_stats_def stats_def bochs_perform [OF assms])

text \<open>
  C38: The machine is shut down in the way that was configured. Whatever the machine is like, \<open>shutdown\<close> returns
  to its caller only if no way is configured, and then nothing has been done. On a machine that reacts
  as the comments say, powering off closes the file system before anything else and ends at the first
  word that switches the machine off, and rebooting polls the controller for as long as it is busy and
  resets the machine with the first pulse, if the controller is ready within the 65536 rounds of the loop.
\<close>
theorem shutdown_as_configured:
  "(shutdown m (shutdown_configure way how) (Running tr) = Some (Running tr') \<longleftrightarrow> way = SHUTDOWN_NONE \<and> tr' = tr) \<and>
   (bochs m \<longrightarrow> shutdown m (shutdown_configure SHUTDOWN_POWER_OFF how) (Running tr) =
     Some (Stopped (tr @ (if filesys m then [Called ''filesys_done''] else []) @ stats m @
       [Printed ''Powering off...'', Called ''serial_flush'', Outw 0xB004 0x2000]))) \<and>
   (bochs m \<and> busy_for m k (tr @ [Printed ''Rebooting...'']) \<and> k < 0x10000 \<longrightarrow>
     shutdown m (shutdown_configure SHUTDOWN_REBOOT how) (Running tr) =
     Some (Stopped (tr @ [Printed ''Rebooting...''] @ polls k @
       [Inb CONTROL_REG, Udelay 50, Outb CONTROL_REG 0xfe])))"
proof (intro conjI impI; (elim conjE)?)
  show "shutdown m (shutdown_configure way how) (Running tr) = Some (Running tr') \<longleftrightarrow> way = SHUTDOWN_NONE \<and> tr' = tr"
    using reboot_loop_stops [of m _ "Running tr'"]
    by (cases way) (auto simp: shutdown_def shutdown_configure_def shutdown_power_off_def shutdown_reboot_def
        Let_def split: state.splits)
next
  assume b: "bochs m"
  show "shutdown m (shutdown_configure SHUTDOWN_POWER_OFF how) (Running tr) =
     Some (Stopped (tr @ (if filesys m then [Called ''filesys_done''] else []) @ stats m @
       [Printed ''Powering off...'', Called ''serial_flush'', Outw 0xB004 0x2000]))"
    by (simp add: shutdown_def shutdown_configure_def shutdown_power_off_def bochs_perform [OF b] print_stats_bochs [OF b])
next
  assume b: "bochs m" "busy_for m k (tr @ [Printed ''Rebooting...''])" "k < 0x10000"
  show "shutdown m (shutdown_configure SHUTDOWN_REBOOT how) (Running tr) =
     Some (Stopped (tr @ [Printed ''Rebooting...''] @ polls k @ [Inb CONTROL_REG, Udelay 50, Outb CONTROL_REG 0xfe]))"
    using reboot_round_busy [OF b]
    by (simp add: shutdown_def shutdown_configure_def shutdown_reboot_def bochs_perform [OF b(1)]
        reboot_loop.simps [of m "Running _"] reboot_loop.simps [of m "Stopped _"])
qed

text \<open>A machine whose controller is busy for the first three events.\<close>

definition sample_input :: "event list \<Rightarrow> 8 word" where
  "sample_input tr = (if length tr \<le> 3 then 0x03 else 0x01)"

definition sample_machine :: machine where
  "sample_machine = \<lparr>input = sample_input,
     stops = (\<lambda>tr. tr \<noteq> [] \<and> (last tr = Outw 0xB004 0x2000 \<or>
       last tr = Outb CONTROL_REG 0xfe \<and> butlast tr = butlast (butlast (butlast tr)) @ [Inb CONTROL_REG, Udelay 50] \<and>
       and (sample_input (butlast (butlast tr))) 0x02 = 0)),
     filesys = True, userprog = True\<rparr>"

lemma bochs_sample: "bochs sample_machine"
proof -
  have *: "tr = butlast (butlast tr) @ [Inb CONTROL_REG, Udelay 50] \<and> and (sample_input (butlast tr)) 0x02 = 0 \<longleftrightarrow>
    (\<exists>tr0. tr = tr0 @ [Inb CONTROL_REG, Udelay 50] \<and> and (sample_input (tr0 @ [Inb CONTROL_REG])) 0x02 = 0)" for tr
    by (auto simp: butlast_append) (metis append_butlast_last_id butlast_append butlast.simps list.distinct(1) append_Cons append_Nil)
  show ?thesis unfolding bochs_def ready_def sample_machine_def using * by simp
qed

theorem shutdown_as_configured_witness:
  "shutdown sample_machine (shutdown_configure SHUTDOWN_REBOOT SHUTDOWN_NONE) (Running []) =
     Some (Stopped [Printed ''Rebooting...'', Inb CONTROL_REG, Udelay 2, Inb CONTROL_REG, Udelay 50,
       Outb CONTROL_REG 0xfe])"
proof -
  have "busy_for sample_machine 1 ([] @ [Printed ''Rebooting...''])"
    by (simp add: busy_for_def ready_def sample_machine_def sample_input_def)
  then show ?thesis
    using bochs_sample shutdown_as_configured [of sample_machine SHUTDOWN_NONE SHUTDOWN_NONE "[]" "[]" 1] by simp
qed

end
