(* ===== verification/Spec2Isabelle.thy ===== *)
theory Spec2Isabelle
  imports Loader_Safety Arg_Overflow Kernel_Runs Shell_Loop Alarm_Round_Robin Real_Time Job_Variants Base_Protocol Base_Loading Shutdown
begin

text \<open>
  A model of the programs of an operating systems laboratory and what can be proved of them. The
  repository has a shell (Assignment 2), changes to the Pintos teaching kernel (a timer in 3, a priority
  and feedback queue scheduler in 4, user programs in 6.1 and 6.2), and a simulation of producers and
  consumers (5). Each directory holds the files that were changed, not the rest of Pintos: the list,
  semaphore, page allocator, page table and file system modules the code calls are parameters, and what
  is used of their documentation are named hypotheses (\<open>pintos_ok\<close>, \<open>sema_ok\<close>, \<open>sys_ok\<close>, \<open>insert_ok\<close> and the like).

  \<^bold>\<open>Conventions\<close> (theory \<open>Prelude\<close>). A run either ends with a value or with a \<open>fault\<close>: a failed assertion, or
  undefined behaviour such as a null pointer, an access outside a block, a double free. C's \<^verbatim>\<open>int\<close> is a HOL
  \<open>int\<close> wrapped by \<open>i32\<close>, unsigned values and addresses are words. A function that can block is modelled up to
  that point, and by a second definition from there on (\<open>_resume\<close>, \<open>_return\<close>). A pointer to a \<^verbatim>\<open>struct
  thread\<close> is the address of its page, and the pages are a map, so that the use of a freed page shows.

  \<^bold>\<open>Assignment 2, the shell\<close> (\<^verbatim>\<open>Assignment_2_submission.c\<close>). \<open>Shell\<close> has one definition for each function, over
  the file descriptor table, the pipes and the heap blocks the functions touch. \<open>Shell_Correctness\<close>: reading and
  splitting a line, for every length, with the growth of the arrays. \<open>Shell_Launch\<close>: the argument vector
  of a command, with and without redirection, and what its child does to descriptors 0 and 1 (\<open>child_fds\<close>).
  \<open>Shell_Loop\<close>: pipelines, which run the words of each stage in a child that is connected to its neighbours
  (\<open>wired\<close>), empty lines, built-in commands.

  \<^bold>\<open>Assignment 3, the timer\<close> (\<^verbatim>\<open>timer.c\<close>). \<open>Timer\<close> is the file over an abstract thread module, a record of
  operations. \<open>Alarm\<close> states what the timer needs of it as the locale \<open>thread_module\<close> and proves the alarm
  clock correct from that, for every interleaving (\<open>alarm_step\<close>); \<open>Alarm_Round_Robin\<close> interprets the locale by the
  scheduler of Assignment 6.2. The wake-up loop steps on from an element it has removed, which the list module
  leaves undefined: whether such an element keeps its links is the parameter \<open>links\<close> of \<open>round_robin\<close>, and the alarm
  is correct if it does and faults if not. \<open>Calibration\<close>: what \<^verbatim>\<open>too_many_loops\<close> measures on a regular clock,
  and the calibration loops of Assignments 3 and 4 compared. \<open>Real_Time\<close>: how close a real-time sleep comes to what was asked.
  \<open>Shutdown\<close>: \<^verbatim>\<open>shutdown.c\<close>, as what it does to a machine.

  \<^bold>\<open>Assignment 4, scheduling\<close> (\<^verbatim>\<open>thread.c\<close>, \<^verbatim>\<open>thread.h\<close>, \<^verbatim>\<open>timer.c\<close>). \<open>Fixed_Point\<close>: the \<^verbatim>\<open>FP_*\<close> macros and the formulas, with the
  bounds under which nothing overflows. \<open>Priority_Threads\<close>: the operations on threads; \<open>Scheduler\<close>: the invariant
  \<open>sched_inv\<close>, that every operation keeps it, and that the highest priority runs. \<open>Mlfqs\<close>: the feedback queue
  over time. \<open>Priority_Timer\<close>: the timer with its wake-up thread and the real-time sleeps and delays, which compute
  the same numbers as Assignment 3 (\<open>priority_real_time_sleep\<close>); \<open>Priority_Alarm\<close>: why it stops the kernel.

  \<^bold>\<open>Assignment 5, jobs\<close> (\<^verbatim>\<open>..._process.cpp\<close>, \<^verbatim>\<open>..._thread.cpp\<close>). \<open>Job_Queue\<close>: the heap in shared memory and the critical
  sections of producers and consumers. \<open>Job_Heap\<close>: the heap refines a multiset. \<open>Job_System\<close>: the locale
  \<open>job_store\<close> is the contract of the queue; conservation of jobs and progress follow from it for any number of
  processes and any interleaving (\<open>sys_step\<close>), and the heap interprets it. \<open>Job_Main\<close>: the parent, which forks,
  polls and kills while its children run (\<open>main_step\<close>): the ranges of the data, what its return means, what a
  failed fork leaves behind. \<open>Job_Threads\<close>: the program with threads; \<open>Job_Simulation\<close> and \<open>Job_Variants\<close>: its
  operations are those of the other program, so its jobs are conserved too (\<open>thread_step\<close>).

  \<^bold>\<open>Assignment 6.1, user programs without files\<close> (\<^verbatim>\<open>thread.c\<close>, \<^verbatim>\<open>process.c\<close>, \<^verbatim>\<open>syscall.c\<close>). \<open>Base_Threads\<close>: threads and
  the end of a process; \<open>Base_Processes\<close>: executing, exiting, the \<^verbatim>\<open>process_wait\<close> that polls, and three system
  calls. \<open>Base_Simulation\<close>: \<open>base\<close> forgets what Assignment 6.2 added to the state, and every operation commutes
  with it. \<open>Base_Protocol\<close>: so 6.2 is a conservative extension of 6.1, and the invariant carries over; when
  polling ends, and with which status. \<open>Base_Loader\<close>: \<^verbatim>\<open>load\<close> and what it calls, cut into the steps that processes
  which load at the same time take in turn (\<open>load_step\<close>). \<open>Critical_Section\<close>: the locale \<open>critical_section\<close>, work done in
  steps under a lock (\<open>section_step\<close>), and why it is done by one thread at a time. \<open>Base_Loading\<close> interprets it:
  under \<^verbatim>\<open>file_lock\<close> loading is atomic, each load does what \<^verbatim>\<open>load\<close> of 6.2 does, and the lock is always given back.

  \<^bold>\<open>Assignment 6.2, user programs\<close> (\<^verbatim>\<open>thread.c\<close>, \<^verbatim>\<open>process.c\<close>, \<^verbatim>\<open>syscall.c\<close>, \<^verbatim>\<open>exception.c\<close>). \<open>User_Threads\<close>: threads with their
  children and open files, and the end of a process; \<open>User_Scheduler\<close>: the invariant \<open>u_sched_inv\<close> and the
  fairness of round robin. \<open>Process_Creation\<close>: what \<^verbatim>\<open>thread_create\<close> leaves behind. \<open>Processes\<close>: executing, waiting
  and exiting; \<open>Process_Protocol\<close>: what the end of a process changes and what it leaves alone (\<open>only_ends\<close>), how
  the exit status reaches the parent, and why a parent asleep in \<^verbatim>\<open>process_wait\<close> goes on with freed memory. \<open>C_String\<close> and \<open>Arg_Stack\<close>: tokens and the
  initial stack of a process, byte for byte; \<open>Arg_Overflow\<close>: arguments that do not fit. \<open>Elf_Loader\<close>: the loader;
  \<open>Loader_Safety\<close>: no file makes it map kernel memory, segments are loaded as they should, and which command
  lines make it fault. What both loaders do to the file (open, deny writes, close) is a list of \<open>file_ops\<close>, and
  \<open>start_process\<close> applies it to the file system of the kernel.
  \<open>Syscalls\<close>: the dispatcher and all handlers; \<open>Syscall_Safety\<close>: bad pointers, bad calls and the limits of the
  checks; \<open>File_Descriptors\<close>: the table of open files; \<open>Kernel_Invariant\<close>: every system call that comes to an
  end keeps the invariant of the kernel. \<open>Exceptions\<close>: faults of processes and of the kernel. \<open>Kernel_Memory\<close>: every
  operation keeps each process to user addresses and the active page directory to that of the running thread.
  \<open>Kernel_Runs\<close>: the boot sequence (\<open>boot\<close>) establishes the invariants, and every run from there keeps them, of
  system calls, sleeping calls that go on, new processes, exceptions, the idle thread and timer interrupts in any
  order (\<open>kernel_step\<close>).

  \<^bold>\<open>Bounds and fuel\<close>. Only the two calibration loops have fuel, one unit a round: they shift a 32-bit value, so
  22 rounds are enough, as \<open>timer_calibrate_accurate\<close> shows. The polling of Assignment 6.1, the reboot loop and the
  wait for a tick may go on for ever and are a \<open>partial_function\<close>, \<open>None\<close> if they do; \<open>process_wait_polls\<close>,
  \<open>shutdown_as_configured\<close> and \<open>timer_calibrate_accurate\<close> say when they end. The feedback queue is proved free of overflow for
  at most 130 ready threads and 100 ticks a second: the bound 31220 on \<^verbatim>\<open>recent_cpu\<close> is the fixed point of a
  second's growth and decay at that load and fits 15 bits before the binary point. \<open>load_run\<close> ends by the measure
  \<open>effort\<close>: every round takes one of the pages there are, and a file has at most 1024 headers. Tick counts are below
  \<open>2 ^ 63\<close>. All other loops are structural or have a measure.

  \<^bold>\<open>Not modelled\<close>. Functions that only print; what takes time but changes nothing (the length of a sleep in
  Assignment 5, the empty loops the calibration times); the assembly of a context switch, which is seen from
  outside; interrupts that arrive inside a system call or during the boot: each call is one step of
  \<open>Kernel_Runs\<close>, and timer interrupts come between them. Finer interleavings are in \<open>Alarm\<close>, \<open>Job_System\<close>,
  \<open>Job_Main\<close> and \<open>Base_Loading\<close>, and polling in \<open>Base_Processes\<close> sees any other steps between two tests.
\<close>

end
